(* ===== verification/AM_Prelude.thy ===== *)
theory AM_Prelude
  imports Main "HOL-Library.List_Lexorder" "HOL-Library.Char_ord" "HOL-Library.Product_Lexorder"
    "HOL-Library.Multiset"
begin

text \<open>
  What every component shares: the types of times and identifiers, JSON values, and the
  lemmas about tables (lists of rows), first matches and sorted queries that the stores'
  proofs rest on.

  Times are JavaScript epoch milliseconds (\<open>int\<close>). An optional property or a nullable
  column is an \<open>option\<close>. Strings are HOL strings; a ULID is the string the code keeps,
  compared by the lexicographic order of \<open>List_Lexorder\<close> as JavaScript and SQLite compare
  ASCII text.
\<close>

type_synonym ms = int
type_synonym ident = string

named_theorems row_simps \<open>how the selectors of a table read an updated table\<close>

named_theorems frame \<open>tables an operation leaves alone\<close>

section \<open>JSON values\<close>

text \<open>
  The values \<open>JSON.parse\<close> yields. A number is represented by the text JavaScript prints for
  it, which determines it (the printing of numbers is injective up to the sign of zero, and
  JSON prints both zeros alike).
\<close>

datatype json =
    JNull
  | JBool bool
  | JNum string
  | JStr string
  | JArr "json list"
  | JObj "(string \<times> json) list"

definition jfield :: "json \<Rightarrow> string \<Rightarrow> json option" where
  "jfield v k = (case v of JObj kvs \<Rightarrow> map_of kvs k | _ \<Rightarrow> None)"

definition nullish :: "json option \<Rightarrow> bool" where
  "nullish v = (v = None \<or> v = Some JNull)"

section \<open>Optional values\<close>

definition or_else :: "'a option \<Rightarrow> 'a option \<Rightarrow> 'a option" where
  "or_else x y = (case x of None \<Rightarrow> y | Some v \<Rightarrow> Some v)"

definition default :: "'a option \<Rightarrow> 'a \<Rightarrow> 'a" where
  "default x d = (case x of None \<Rightarrow> d | Some v \<Rightarrow> v)"

lemma or_else_simps [simp]: "or_else None y = y" "or_else (Some v) y = Some v" "or_else x None = x"
  by (simp_all add: or_else_def split: option.splits)

lemma default_simps [simp]: "default None d = d" "default (Some v) d = v"
  by (simp_all add: default_def)

section \<open>Tables\<close>

text \<open>A table is the list of its rows; an update rewrites the rows that match.\<close>

definition update_where :: "('r \<Rightarrow> bool) \<Rightarrow> ('r \<Rightarrow> 'r) \<Rightarrow> 'r list \<Rightarrow> 'r list" where
  "update_where P f rows = map (\<lambda>r. if P r then f r else r) rows"

definition delete_where :: "('r \<Rightarrow> bool) \<Rightarrow> 'r list \<Rightarrow> 'r list" where
  "delete_where P rows = filter (\<lambda>r. \<not> P r) rows"

lemma length_update_where [simp]: "length (update_where P f rows) = length rows"
  by (simp add: update_where_def)

lemma set_update_where:
  "set (update_where P f rows) = (\<lambda>r. if P r then f r else r) ` set rows"
  by (simp add: update_where_def)

lemma map_key_update_where:
  assumes "\<And>r. P r \<Longrightarrow> k (f r) = k r"
  shows "map k (update_where P f rows) = map k rows"
  using assms by (simp add: update_where_def)

lemma update_where_none [simp]: "(\<And>r. r \<in> set rows \<Longrightarrow> \<not> P r) \<Longrightarrow> update_where P f rows = rows"
  by (simp add: update_where_def map_idI)

lemma filter_update_where:
  assumes "\<And>r. P r \<Longrightarrow> Q (f r) = Q r"
  shows "filter Q (update_where P f rows) = update_where P f (filter Q rows)"
  using assms by (induction rows) (auto simp: update_where_def)

lemma set_delete_where [simp]: "set (delete_where P rows) = {r \<in> set rows. \<not> P r}"
  by (auto simp: delete_where_def)

lemma delete_where_none [simp]: "(\<And>r. r \<in> set rows \<Longrightarrow> \<not> P r) \<Longrightarrow> delete_where P rows = rows"
  by (simp add: delete_where_def)

lemma distinct_map_delete_where: "distinct (map k rows) \<Longrightarrow> distinct (map k (delete_where P rows))"
  by (simp add: delete_where_def distinct_map_filter)

lemma find_Some_iff_unique:
  assumes "distinct (map k rows)" and "r \<in> set rows"
  shows "find (\<lambda>x. k x = k r) rows = Some r"
  using assms by (induction rows) auto

lemma find_Some_set: "find P rows = Some r \<Longrightarrow> r \<in> set rows \<and> P r"
  by (auto simp: find_Some_iff)

lemma find_append: "find P (xs @ ys) = or_else (find P xs) (find P ys)"
  by (induction xs) (auto simp: or_else_def)

lemma find_update_where:
  assumes "\<And>r. P r \<Longrightarrow> Q (f r) = Q r"
  shows "find Q (update_where P f rows) = map_option (\<lambda>r. if P r then f r else r) (find Q rows)"
  using assms by (induction rows) (auto simp: update_where_def)

section \<open>Maps in insertion order\<close>

text \<open>\<open>Map.set\<close>: an existing key keeps its place.\<close>

fun map_set :: "('k \<times> 'v) list \<Rightarrow> 'k \<Rightarrow> 'v \<Rightarrow> ('k \<times> 'v) list" where
  "map_set [] k v = [(k, v)]"
| "map_set ((j, w) # m) k v = (if j = k then (k, v) # m else (j, w) # map_set m k v)"

lemma map_of_map_set: "map_of (map_set m k v) j = (if j = k then Some v else map_of m j)"
  by (induction m k v rule: map_set.induct) auto

lemma map_set_keys: "fst ` set (map_set m k v) = insert k (fst ` set m)"
  by (induction m k v rule: map_set.induct) auto

lemma map_set_distinct: "distinct (map fst m) \<Longrightarrow> distinct (map fst (map_set m k v))"
  by (induction m k v rule: map_set.induct) (auto simp: map_set_keys [THEN equalityD1, THEN subsetD] image_iff
      dest: map_set_keys [THEN equalityD1, THEN subsetD, OF imageI])

section \<open>Sorted queries\<close>

definition ordered_by :: "('r \<Rightarrow> 'k::linorder) \<Rightarrow> 'r list \<Rightarrow> 'r list" where
  "ordered_by k rows = sort_key k rows"

lemma set_ordered_by [simp]: "set (ordered_by k rows) = set rows"
  by (simp add: ordered_by_def)

lemma length_ordered_by [simp]: "length (ordered_by k rows) = length rows"
  by (simp add: ordered_by_def)

lemma sorted_ordered_by: "sorted (map k (ordered_by k rows))"
  by (simp add: ordered_by_def)

lemma distinct_ordered_by [simp]: "distinct (map j (ordered_by k rows)) = distinct (map j rows)"
proof -
  have "mset (map j (ordered_by k rows)) = mset (map j rows)"
    by (simp add: ordered_by_def)
  then show ?thesis by (rule mset_eq_imp_distinct_iff)
qed

lemma filter_ordered_by: "filter P (ordered_by k rows) = ordered_by k (filter P rows)"
  by (simp add: ordered_by_def filter_sort)

lemma ordered_by_Nil [simp]: "ordered_by k [] = []"
  by (simp add: ordered_by_def)

lemma ordered_by_eq_Nil [simp]: "ordered_by k rows = [] \<longleftrightarrow> rows = []"
  by (metis length_0_conv length_ordered_by)

text \<open>The newest row: last in the ascending order.\<close>

definition newest_by :: "('r \<Rightarrow> 'k::linorder) \<Rightarrow> 'r list \<Rightarrow> 'r option" where
  "newest_by k rows = (case rev (ordered_by k rows) of [] \<Rightarrow> None | r # _ \<Rightarrow> Some r)"

lemma newest_by_None [simp]: "newest_by k rows = None \<longleftrightarrow> rows = []"
  by (auto simp: newest_by_def split: list.splits)

lemma newest_by_Some:
  assumes "newest_by k rows = Some r"
  shows "r \<in> set rows" and "\<And>x. x \<in> set rows \<Longrightarrow> k x \<le> k r"
proof -
  obtain rs where rs: "rev (ordered_by k rows) = r # rs"
    using assms by (auto simp: newest_by_def split: list.splits)
  then have o: "ordered_by k rows = rev rs @ [r]" by (metis rev.simps(2) rev_swap)
  then have "set rows = insert r (set rs)" by (metis Un_insert_right append.right_neutral
        list.set(1) list.simps(15) set_append set_ordered_by set_rev sup_bot.right_neutral)
  then show "r \<in> set rows" by simp
  fix x assume "x \<in> set rows"
  with o have "x = r \<or> x \<in> set (rev rs)" by (metis Un_iff empty_iff list.set(1) list.set_cases
        set_ConsD set_append set_ordered_by)
  with sorted_ordered_by [of k rows] show "k x \<le> k r"
    unfolding o by (auto simp: sorted_append)
qed

end
