(* ===== verification/AM_Types.thy ===== *)
theory AM_Types
  imports AM_Prelude
begin

text \<open>
  The data of the runtime: the unions and interfaces of \<open>runtime/types.ts\<close>,
  \<open>schema/types.ts\<close>, \<open>schema/monitor-schema.ts\<close>, \<open>observation/types.ts\<close> and the rows of
  \<open>inbox/schema.ts\<close>, with the urgency ranks of \<open>runtime/service.ts\<close>.
\<close>

section \<open>Urgencies\<close>

datatype urgency = Low | Normal | High

fun urgency_rank :: "urgency \<Rightarrow> nat" where
  "urgency_rank Low = 0"
| "urgency_rank Normal = 1"
| "urgency_rank High = 2"

definition urgency_by_rank :: "nat \<Rightarrow> urgency option" where
  "urgency_by_rank n = (if n = 0 then Some Low else if n = 1 then Some Normal
     else if n = 2 then Some High else None)"

instantiation urgency :: linorder
begin

definition less_eq_urgency :: "urgency \<Rightarrow> urgency \<Rightarrow> bool" where
  "less_eq_urgency a b = (urgency_rank a \<le> urgency_rank b)"

definition less_urgency :: "urgency \<Rightarrow> urgency \<Rightarrow> bool" where
  "less_urgency a b = (urgency_rank a < urgency_rank b)"

instance
proof
  fix x y :: urgency
  assume "x \<le> y" and "y \<le> x"
  then show "x = y" by (cases x; cases y) (auto simp: less_eq_urgency_def)
qed (auto simp: less_eq_urgency_def less_urgency_def)

end

lemma urgency_rank_inj [simp]: "urgency_rank a = urgency_rank b \<longleftrightarrow> a = b"
  by (cases a; cases b) auto

lemma urgency_by_rank_rank [simp]: "urgency_by_rank (urgency_rank u) = Some u"
  by (cases u) (simp_all add: urgency_by_rank_def)

lemma urgency_rank_bound: "urgency_rank u \<le> 2"
  by (cases u) auto

section \<open>Sessions\<close>

datatype role = Lead | Subagent

datatype session_status = Active | Dormant

datatype lifecycle = TurnInterruptible | TurnIdle | PostCompact

record session =
  s_id :: ident
  s_adapter :: string
  s_host :: string
  s_agent :: string
  s_role :: role
  s_ws :: "string option"
  s_hook_path :: string
  s_status :: session_status
  s_baseline :: ms
  s_last_active :: ms
  s_last_recap :: "ms option"
  s_dormant :: "ms option"
  s_created :: ms
  s_updated :: ms

record open_session_input =
  oi_adapter :: string
  oi_host :: string
  oi_ws :: "string option"
  oi_role :: "role option"
  oi_agent :: string
  oi_hook_path :: string

section \<open>Events and their projections\<close>

datatype baseline_strategy = Incremental | Net

datatype scope_value = SOne string | SMany "string list"

record event =
  e_id :: ident
  e_ws :: "string option"
  e_monitor :: string
  e_source :: string
  e_urgency :: urgency
  e_title :: string
  e_body :: string
  e_summary :: string
  e_payload :: json
  e_meta :: json
  e_snapshot :: "string option"
  e_diff :: "string option"
  e_object :: "string option"
  e_baseline :: "baseline_strategy option"
  e_scope :: "(string \<times> scope_value) list"
  e_tags :: "string list"
  e_created :: ms

datatype interpret_decision = IDeliver | ISuppress | IFailed

text \<open>A row of \<open>session_event_state\<close>: one event projected to one session.\<close>

record projection =
  p_session :: ident
  p_event :: ident
  p_first_notified :: "ms option"
  p_acked :: "ms option"
  p_last_claim :: "ms option"
  p_claim_lifecycle :: "lifecycle option"
  p_diff :: "string option"
  p_decision :: "interpret_decision option"
  p_reason :: "string option"
  p_digest :: "string option"
  p_net_suppressed :: "ms option"
  p_created :: ms
  p_updated :: ms

datatype delivery_state = DUnread | DClaimed | DAcknowledged

text \<open>A row of \<open>session_object_cursor\<close>: what one session last saw of one object.\<close>

record cursor =
  c_session :: ident
  c_monitor :: string
  c_object :: string
  c_ws :: "string option"
  c_snapshot_id :: "ident option"
  c_content :: string
  c_updated :: ms

record snapshot =
  n_id :: ident
  n_ws :: "string option"
  n_monitor :: string
  n_object :: string
  n_event :: ident
  n_content :: string
  n_created :: ms

record suppression =
  x_monitor :: string
  x_object :: string
  x_ws :: "string option"
  x_reason :: string
  x_created :: ms
  x_expires :: ms

section \<open>Monitors\<close>

datatype notify =
    Debounce string
  | Throttle string
  | Rollup string "string option"

datatype payload_form = Prose | Structured | Artifact | Rendered

datatype transform = Jq string | Cel string

record derive_rule =
  dr_name :: string
  dr_when :: string

record shape_config =
  sh_derive :: "derive_rule list option"
  sh_rendered :: bool

record payload_config =
  pl_form :: payload_form
  pl_transform :: "transform option"

record monitor =
  m_id :: ident
  m_display :: string
  m_name :: "string option"
  m_type :: string
  m_config :: "(string \<times> json) list"
  m_urgency :: urgency
  m_urgency_max :: "urgency option"
  m_notify :: "notify option"
  m_baseline :: baseline_strategy
  m_tags :: "string list option"
  m_shape :: "shape_config option"
  m_payload :: "payload_config option"
  m_instructions :: string
  m_file :: string

section \<open>Observations\<close>

datatype change_kind = Created | Modified | Deleted | Descoped

record observation =
  o_title :: string
  o_body :: "string option"
  o_summary :: "string option"
  o_payload :: "json option"
  o_snapshot_text :: "string option"
  o_object_key :: "string option"
  o_scope :: "(string \<times> scope_value) list option"
  o_change :: "change_kind option"
  o_salience :: "urgency option"
  o_snapshot :: "json option"

record envelope =
  v_monitor :: monitor
  v_observation :: observation
  v_observed_at :: ms
  v_urgency :: "urgency option"

section \<open>Notify state and per-monitor state\<close>

record pending_debounce =
  pd_observations :: "envelope list"
  pd_due :: ms

record notify_state =
  ns_suppressed_until :: "ms option"
  ns_debounce :: "pending_debounce option"
  ns_rollup :: "envelope list option"
  ns_last_fired :: "int option"

definition empty_notify :: notify_state where
  "empty_notify = \<lparr>ns_suppressed_until = None, ns_debounce = None, ns_rollup = None,
     ns_last_fired = None\<rparr>"

record monitor_row =
  r_monitor :: string
  r_ws :: "string option"
  r_last_observation :: "ms option"
  r_source_state :: json
  r_notify :: notify_state
  r_updated :: ms

record runtime_state =
  rs_last_observation :: "ms option"
  rs_source_state :: "json option"
  rs_notify :: notify_state

datatype outcome = Triggered | Suppressed | NoChange | NoFilesMatched | Errored | Rebaselined

record history_row =
  h_monitor :: string
  h_ws :: "string option"
  h_source :: string
  h_result :: outcome
  h_data :: json
  h_created :: ms

datatype ephemeral_status = EActive | EReaped

record ephemeral =
  t_id :: ident
  t_session :: ident
  t_ws :: "string option"
  t_source :: string
  t_scope :: "(string \<times> json) list"
  t_urgency :: urgency
  t_urgency_max :: urgency
  t_instruction :: string
  t_display :: "string option"
  t_status :: ephemeral_status
  t_created :: ms
  t_updated :: ms
  t_reaped :: "ms option"

section \<open>Deliveries\<close>

record unread_counts =
  uc_low :: nat
  uc_normal :: nat
  uc_high :: nat
  uc_total :: nat

datatype delivery_mode = MDelivery | MRecap

record event_summary =
  es_event :: ident
  es_monitor :: string
  es_title :: string
  es_summary :: string
  es_detail :: string
  es_urgency :: urgency
  es_created :: ms
  es_body :: string
  es_diff :: "string option"

record claim =
  cl_session :: ident
  cl_mode :: delivery_mode
  cl_urgency :: "urgency option"
  cl_lifecycle :: lifecycle
  cl_message :: string
  cl_counts :: unread_counts
  cl_events :: "event_summary list"
  cl_reminder :: "string option"
  cl_normal_count :: "nat option"

record hook_state =
  hk_updated :: ms
  hk_session :: ident
  hk_unread :: unread_counts
  hk_high :: bool
  hk_normal :: bool
  hk_low :: bool
  hk_titles :: "string list"

end
