(* ===== verification/AM_Text.thy ===== *)
theory AM_Text
  imports AM_Prelude
begin

text \<open>
  The string functions of JavaScript's standard library that the components use: decimal
  printing, \<open>split\<close> on a character, \<open>join\<close>, \<open>trim\<close> and \<open>split(/\s+/)\<close> on ASCII white space,
  and \<open>Number\<close> on the texts a cron field can hold.
\<close>

section \<open>Decimal digits\<close>

definition digit_char :: "nat \<Rightarrow> char" where
  "digit_char d = char_of (48 + d :: nat)"

definition is_digit :: "char \<Rightarrow> bool" where
  "is_digit c = (48 \<le> (of_char c :: nat) \<and> (of_char c :: nat) \<le> 57)"

definition digit_val :: "char \<Rightarrow> nat" where
  "digit_val c = of_char c - 48"

lemma of_char_digit_char [simp]: "d < 10 \<Longrightarrow> of_char (digit_char d) = 48 + d"
  by (simp add: digit_char_def)

lemma is_digit_digit_char [simp]: "d < 10 \<Longrightarrow> is_digit (digit_char d)"
  by (simp add: is_digit_def)

lemma digit_val_digit_char [simp]: "d < 10 \<Longrightarrow> digit_val (digit_char d) = d"
  by (simp add: digit_val_def)

lemma digit_val_bound: "is_digit c \<Longrightarrow> digit_val c < 10"
  unfolding is_digit_def digit_val_def by linarith

lemma digit_char_digit_val [simp]: "is_digit c \<Longrightarrow> digit_char (digit_val c) = c"
  by (simp add: is_digit_def digit_val_def digit_char_def)

fun show_nat :: "nat \<Rightarrow> string" where
  "show_nat n = (if n < 10 then [digit_char n]
     else show_nat (n div 10) @ [digit_char (n mod 10)])"

declare show_nat.simps [simp del]

text \<open>The value of a digit string, most significant digit first.\<close>

definition digits_val :: "string \<Rightarrow> nat" where
  "digits_val ds = foldl (\<lambda>n c. 10 * n + digit_val c) 0 ds"

lemma digits_val_snoc [simp]: "digits_val (ds @ [c]) = 10 * digits_val ds + digit_val c"
  by (simp add: digits_val_def)

lemma digits_val_Nil [simp]: "digits_val [] = 0"
  by (simp add: digits_val_def)

lemma show_nat_ne [simp]: "show_nat n \<noteq> []"
  by (subst show_nat.simps) simp

lemma show_nat_digits: "\<forall>c \<in> set (show_nat n). is_digit c"
proof (induction n rule: show_nat.induct)
  case (1 n)
  then show ?case by (subst show_nat.simps) auto
qed

lemma digits_val_show_nat [simp]: "digits_val (show_nat n) = n"
proof (induction n rule: show_nat.induct)
  case (1 n)
  show ?case
  proof (cases "n < 10")
    case True
    then show ?thesis by (subst show_nat.simps) (simp add: digits_val_def)
  next
    case False
    with 1 show ?thesis by (subst show_nat.simps) simp
  qed
qed

lemma show_nat_inj [simp]: "show_nat a = show_nat b \<longleftrightarrow> a = b"
  by (metis digits_val_show_nat)

text \<open>A printed positive number has no leading zero.\<close>

lemma hd_show_nat: "0 < n \<Longrightarrow> hd (show_nat n) \<noteq> digit_char 0"
proof (induction n rule: show_nat.induct)
  case (1 n)
  show ?case
  proof (cases "n < 10")
    case True
    with "1.prems" show ?thesis
      by (subst show_nat.simps) (metis digit_val_digit_char list.sel(1) not_gr_zero zero_less_numeral)
  next
    case False
    with 1 show ?thesis by (subst show_nat.simps) simp
  qed
qed

section \<open>Split and join\<close>

fun split_on :: "char \<Rightarrow> string \<Rightarrow> string list" where
  "split_on sep [] = [[]]"
| "split_on sep (c # cs) = (if c = sep then [] # split_on sep cs
     else (case split_on sep cs of [] \<Rightarrow> [[c]] | w # ws \<Rightarrow> (c # w) # ws))"

fun join :: "'a list \<Rightarrow> 'a list list \<Rightarrow> 'a list" where
  "join sep [] = []"
| "join sep [w] = w"
| "join sep (w # ws) = w @ sep @ join sep ws"

lemma split_on_ne [simp]: "split_on sep s \<noteq> []"
  by (induction s) (auto split: list.splits)

lemma join_split_on [simp]: "join [sep] (split_on sep s) = s"
proof (induction s)
  case (Cons c s)
  obtain w ws where w: "split_on sep s = w # ws" by (meson neq_Nil_conv split_on_ne)
  show ?case
  proof (cases ws)
    case Nil
    with Cons w show ?thesis by (auto simp: w)
  next
    case (Cons v vs)
    with Cons.IH w show ?thesis by (auto simp: w)
  qed
qed simp

lemma split_on_inj: "split_on sep a = split_on sep b \<Longrightarrow> a = b"
  by (metis join_split_on)

lemma split_on_no_sep: "w \<in> set (split_on sep s) \<Longrightarrow> sep \<notin> set w"
  by (induction s arbitrary: w) (auto split: list.splits if_splits)

lemma split_on_single: "sep \<notin> set s \<Longrightarrow> split_on sep s = [s]"
  by (induction s) auto

lemma split_on_append: "sep \<notin> set a \<Longrightarrow> split_on sep (a @ sep # b) = a # split_on sep b"
  by (induction a) auto

lemma split_on_join:
  "fs \<noteq> [] \<Longrightarrow> \<forall>f \<in> set fs. sep \<notin> set f \<Longrightarrow> split_on sep (join [sep] fs) = fs"
proof (induction fs)
  case (Cons f fs)
  then show ?case by (cases fs) (simp_all add: split_on_single split_on_append)
qed simp

lemma split_on_length: "w \<in> set (split_on sep s) \<Longrightarrow> length w \<le> length s"
proof (induction s arbitrary: w)
  case (Cons c s)
  show ?case
  proof (cases "c = sep")
    case True
    with Cons show ?thesis by (auto intro: le_SucI)
  next
    case False
    obtain v vs where "split_on sep s = v # vs" by (meson neq_Nil_conv split_on_ne)
    with False Cons show ?thesis by (auto intro: le_SucI)
  qed
qed simp

lemma split_on_shorter: "sep \<in> set s \<Longrightarrow> w \<in> set (split_on sep s) \<Longrightarrow> length w < length s"
proof (induction s arbitrary: w)
  case (Cons c s)
  obtain v vs where v: "split_on sep s = v # vs" by (meson neq_Nil_conv split_on_ne)
  show ?case
  proof (cases "c = sep")
    case True
    with Cons.prems show ?thesis by (auto dest: split_on_length)
  next
    case False
    with Cons.prems have sep: "sep \<in> set s" by simp
    have IH: "length u < length s" if "u \<in> set (split_on sep s)" for u
      using Cons.IH sep that by blast
    from False Cons.prems v have "w = c # v \<or> w \<in> set vs" by simp
    with IH [of v] IH [of w] v show ?thesis by auto
  qed
qed simp

lemma join_eq_Nil: "join sep ws = [] \<Longrightarrow> ws \<noteq> [] \<Longrightarrow> hd ws = []"
  by (induction sep ws rule: join.induct) auto

section \<open>White space\<close>

definition is_space :: "char \<Rightarrow> bool" where
  "is_space c = (of_char c \<in> {9, 10, 11, 12, 13, 32 :: nat})"

definition trim :: "string \<Rightarrow> string" where
  "trim s = rev (dropWhile is_space (rev (dropWhile is_space s)))"

text \<open>\<open>s.split(/\s+/)\<close>: runs of white space separate; the text is trimmed where it is used.\<close>

fun split_ws :: "bool \<Rightarrow> string \<Rightarrow> string list" where
  "split_ws in_run [] = [[]]"
| "split_ws in_run (c # cs) =
     (if is_space c then (if in_run then split_ws True cs else [] # split_ws True cs)
      else (case split_ws False cs of [] \<Rightarrow> [[c]] | w # ws \<Rightarrow> (c # w) # ws))"

definition words_ws :: "string \<Rightarrow> string list" where
  "words_ws s = split_ws False s"

section \<open>The ellipsis\<close>

text \<open>The ellipsis \<open>U+2026\<close> is one code unit; it is written as a character of its own.\<close>

definition ellipsis :: char where
  "ellipsis = CHR 0x85"

text \<open>ASCII lower case.\<close>

definition lower_char :: "char \<Rightarrow> char" where
  "lower_char c = (if 65 \<le> (of_char c :: nat) \<and> (of_char c :: nat) \<le> 90 then char_of (of_char c + 32 :: nat) else c)"

end
