(* ===== verification/AM_TextDiff.thy ===== *)
theory AM_TextDiff
  imports AM_Text AM_Types
begin

text \<open>
  The line renderer of \<open>runtime/diff.ts\<close>: \<open>buildTextDiff\<close>, the reading of a snapshot's
  declared change-detection strategy, and the dispatch \<open>buildDiff\<close> over the structural JSON
  renderer, which is the argument \<open>jd\<close> here. The locale \<open>diff_renderer\<close> states the one law
  the store's clients rely on; \<open>build_diff\<close> provides it.
\<close>

section \<open>The line diff\<close>

definition line_chunks :: "nat \<Rightarrow> string option \<Rightarrow> string option \<Rightarrow> string list" where
  "line_chunks i before after =
     (case before of None \<Rightarrow> [] | Some b \<Rightarrow> [''- '' @ show_nat (i + 1) @ '': '' @ b]) @
     (case after of None \<Rightarrow> [] | Some a \<Rightarrow> [''+ '' @ show_nat (i + 1) @ '': '' @ a])"

text \<open>The loop, over what is left of both line lists from index \<open>i\<close>.\<close>

fun text_diff_loop :: "nat \<Rightarrow> string list \<Rightarrow> string list \<Rightarrow> string list \<Rightarrow> string list" where
  "text_diff_loop i [] [] chunks = chunks"
| "text_diff_loop i (p # ps) (c # cs) chunks =
     (if p = c then text_diff_loop (Suc i) ps cs chunks
      else let chunks' = chunks @ line_chunks i (Some p) (Some c) in
        if length chunks' \<ge> 20 then chunks' else text_diff_loop (Suc i) ps cs chunks')"
| "text_diff_loop i (p # ps) [] chunks =
     (let chunks' = chunks @ line_chunks i (Some p) None in
        if length chunks' \<ge> 20 then chunks' else text_diff_loop (Suc i) ps [] chunks')"
| "text_diff_loop i [] (c # cs) chunks =
     (let chunks' = chunks @ line_chunks i None (Some c) in
        if length chunks' \<ge> 20 then chunks' else text_diff_loop (Suc i) [] cs chunks')"

definition newline :: char where
  "newline = CHR 0x0A"

definition build_text_diff :: "string \<Rightarrow> string \<Rightarrow> string" where
  "build_text_diff previous current =
     (if previous = current then []
      else join [newline]
        (text_diff_loop 0 (split_on newline previous) (split_on newline current) []))"

lemma line_chunks_length: "length (line_chunks i b a) \<le> 2"
  by (auto simp: line_chunks_def split: option.splits)

lemma line_chunks_ne: "c \<in> set (line_chunks i b a) \<Longrightarrow> c \<noteq> []"
  by (auto simp: line_chunks_def split: option.splits)

lemma text_diff_loop_bound: "length chunks < 20 \<Longrightarrow> length (text_diff_loop i ps cs chunks) \<le> 21"
proof (induction i ps cs chunks rule: text_diff_loop.induct)
  case (2 i p ps c cs chunks)
  with line_chunks_length [of i "Some p" "Some c"] show ?case by (auto simp: Let_def)
next
  case (3 i p ps chunks)
  with line_chunks_length [of i "Some p" None] show ?case by (auto simp: Let_def)
next
  case (4 i c cs chunks)
  with line_chunks_length [of i None "Some c"] show ?case by (auto simp: Let_def)
qed simp

text \<open>The loop only appends, and what it appends is never an empty chunk.\<close>

lemma text_diff_loop_prefix:
  "\<exists>more. text_diff_loop i ps cs chunks = chunks @ more \<and> (\<forall>c \<in> set more. c \<noteq> [])"
proof (induction i ps cs chunks rule: text_diff_loop.induct)
  case (2 i p ps c cs chunks)
  then show ?case by (fastforce simp: Let_def dest: line_chunks_ne)
next
  case (3 i p ps chunks)
  then show ?case by (fastforce simp: Let_def dest: line_chunks_ne)
next
  case (4 i c cs chunks)
  then show ?case by (fastforce simp: Let_def dest: line_chunks_ne)
qed simp

lemma text_diff_loop_grows:
  "ps \<noteq> cs \<Longrightarrow> length chunks < length (text_diff_loop i ps cs chunks)"
proof (induction i ps cs chunks rule: text_diff_loop.induct)
  case (2 i p ps c cs chunks)
  show ?case
  proof (cases "p = c")
    case True
    with 2 show ?thesis by simp
  next
    case False
    obtain more where "text_diff_loop (Suc i) ps cs (chunks @ line_chunks i (Some p) (Some c)) =
        (chunks @ line_chunks i (Some p) (Some c)) @ more"
      using text_diff_loop_prefix by blast
    with False show ?thesis by (simp add: Let_def line_chunks_def)
  qed
next
  case (3 i p ps chunks)
  obtain more where "text_diff_loop (Suc i) ps [] (chunks @ line_chunks i (Some p) None) =
      (chunks @ line_chunks i (Some p) None) @ more"
    using text_diff_loop_prefix by blast
  then show ?case by (simp add: Let_def line_chunks_def)
next
  case (4 i c cs chunks)
  obtain more where "text_diff_loop (Suc i) [] cs (chunks @ line_chunks i None (Some c)) =
      (chunks @ line_chunks i None (Some c)) @ more"
    using text_diff_loop_prefix by blast
  then show ?case by (simp add: Let_def line_chunks_def)
qed simp

lemma build_text_diff_same [simp]: "build_text_diff c c = []"
  by (simp add: build_text_diff_def)

lemma build_text_diff_changed: "p \<noteq> c \<Longrightarrow> build_text_diff p c \<noteq> []"
proof
  assume ne: "p \<noteq> c" and empty: "build_text_diff p c = []"
  let ?d = "text_diff_loop 0 (split_on newline p) (split_on newline c) []"
  from ne have "split_on newline p \<noteq> split_on newline c" by (auto dest: split_on_inj)
  then have d: "?d \<noteq> []" using text_diff_loop_grows [of _ _ "[]"] by fastforce
  moreover have "\<forall>x \<in> set ?d. x \<noteq> []" using text_diff_loop_prefix [of 0 _ _ "[]"] by fastforce
  moreover have "join [newline] ?d = []" using ne empty by (simp add: build_text_diff_def)
  ultimately show False by (metis join_eq_Nil hd_in_set)
qed

section \<open>Choosing the renderer\<close>

definition change_detection_strategy_of :: "json \<Rightarrow> string option" where
  "change_detection_strategy_of meta =
     (case jfield meta ''strategy'' of Some (JStr s) \<Rightarrow> Some s | _ \<Rightarrow> None)"

definition build_diff :: "(string \<Rightarrow> string \<Rightarrow> string option) \<Rightarrow> string \<Rightarrow> string \<Rightarrow> string option \<Rightarrow> string" where
  "build_diff jd previous current strategy =
     (if strategy = Some ''json-diff'' then
        (case jd previous current of
           Some structural \<Rightarrow> structural
         | None \<Rightarrow> build_text_diff previous current)
      else build_text_diff previous current)"

text \<open>The contract the store's clients use: a delta is empty exactly when nothing changed.\<close>

locale diff_renderer =
  fixes bd :: "string \<Rightarrow> string \<Rightarrow> string option \<Rightarrow> string"
  assumes bd_empty_iff: "bd p c strategy = [] \<longleftrightarrow> p = c"
begin

lemma bd_same [simp]: "bd c c strategy = []"
  by (simp add: bd_empty_iff)

end

text \<open>Without a structural renderer (\<open>JSON.parse\<close> failing on either side) the line diff serves.\<close>

interpretation line_diffs: diff_renderer "build_diff (\<lambda>p c. if p = c then Some [] else None)"
  by unfold_locales (auto simp: build_diff_def dest: build_text_diff_changed)

end
