(* ===== verification/AM_Time.thy ===== *)
theory AM_Time
  imports AM_Text
begin

text \<open>
  Durations, \<open>notify/notifier.ts\<close>: \<open>parseDuration\<close>, the regular expression
  \<open>OPERATION_TIMEOUT_PATTERN\<close> with the two functions that build it, and
  \<open>parseOperationTimeoutMs\<close>. The property is that the pattern and the parser accept the same
  texts. A regular expression is a syntax tree with its language; \<open>Number\<close> of a digit text is
  its exact value (JavaScript rounds above \<open>2^53\<close>, far over every bound used here).
\<close>

section \<open>Durations\<close>

datatype duration_error =
    InvalidDuration string
  | TimeoutNotString
  | ZeroTimeout string
  | LeadingZeroTimeout string
  | TimeoutTooLong string int

definition unit_ms :: "char \<Rightarrow> ms option" where
  "unit_ms u = (if u = CHR ''s'' then Some 1000 else if u = CHR ''m'' then Some 60000
     else if u = CHR ''h'' then Some 3600000 else if u = CHR ''d'' then Some 86400000 else None)"

definition parse_duration :: "string \<Rightarrow> duration_error + ms" where
  "parse_duration s =
     (if s = [] \<or> butlast s = [] \<or> \<not> list_all is_digit (butlast s) then Inl (InvalidDuration s)
      else (case unit_ms (last s) of
          None \<Rightarrow> Inl (InvalidDuration s)
        | Some f \<Rightarrow> Inr (int (digits_val (butlast s)) * f)))"

definition default_operation_timeout_ms :: ms where
  "default_operation_timeout_ms = 30000"

definition max_operation_timeout_ms :: nat where
  "max_operation_timeout_ms = 2147483647"

text \<open>The two guards \<open>/^0+[smhd]$/\<close> and \<open>/^0\d+[smhd]$/\<close>.\<close>

definition zero_length :: "string \<Rightarrow> bool" where
  "zero_length s = (s \<noteq> [] \<and> butlast s \<noteq> [] \<and> list_all (\<lambda>c. c = CHR ''0'') (butlast s) \<and>
     unit_ms (last s) \<noteq> None)"

definition leading_zero :: "string \<Rightarrow> bool" where
  "leading_zero s = (s \<noteq> [] \<and> unit_ms (last s) \<noteq> None \<and>
     (case butlast s of c # d # ds \<Rightarrow> c = CHR ''0'' \<and> list_all is_digit (d # ds) | _ \<Rightarrow> False))"

definition parse_operation_timeout_ms :: "json option \<Rightarrow> duration_error + ms" where
  "parse_operation_timeout_ms raw =
     (case raw of
        None \<Rightarrow> Inr default_operation_timeout_ms
      | Some (JStr s) \<Rightarrow>
          if zero_length s then Inl (ZeroTimeout s)
          else if leading_zero s then Inl (LeadingZeroTimeout s)
          else (case parse_duration s of
              Inl e \<Rightarrow> Inl e
            | Inr ms \<Rightarrow> if int max_operation_timeout_ms < ms then Inl (TimeoutTooLong s ms) else Inr ms)
      | Some _ \<Rightarrow> Inl TimeoutNotString)"

section \<open>The pattern\<close>

text \<open>\<open>Class a b n\<close> is \<open>[a-b]{n}\<close>.\<close>

datatype rx = Chr char | Class char char nat | Cat rx rx | Alt "rx list"

fun rx_lang :: "rx \<Rightarrow> string set" where
  "rx_lang (Chr c) = {[c]}"
| "rx_lang (Class a b n) = {s. length s = n \<and>
     (\<forall>c \<in> set s. (of_char a :: nat) \<le> of_char c \<and> (of_char c :: nat) \<le> of_char b)}"
| "rx_lang (Cat p q) = {s @ t | s t. s \<in> rx_lang p \<and> t \<in> rx_lang q}"
| "rx_lang (Alt ps) = (\<Union>p \<in> set ps. rx_lang p)"

definition previous_char :: "char \<Rightarrow> char" where
  "previous_char c = char_of (of_char c - 1 :: nat)"

fun zero_range_fragment :: "string \<Rightarrow> rx" where
  "zero_range_fragment [] = Alt []"
| "zero_range_fragment [d] = (if d = CHR ''0'' then Chr (CHR ''0'') else Class (CHR ''0'') d 1)"
| "zero_range_fragment (first # rest) =
     Alt ((if first \<noteq> CHR ''0'' then
             [let lower = previous_char first in
              if lower = CHR ''0'' then Cat (Chr (CHR ''0'')) (Class (CHR ''0'') (CHR ''9'') (length rest))
              else Cat (Class (CHR ''0'') lower 1) (Class (CHR ''0'') (CHR ''9'') (length rest))]
           else []) @ [Cat (Chr first) (zero_range_fragment rest)])"

text \<open>The branch of a shorter length.\<close>

definition shorter_fragment :: "nat \<Rightarrow> rx" where
  "shorter_fragment n = (if n = 1 then Class (CHR ''1'') (CHR ''9'') 1
     else Cat (Class (CHR ''1'') (CHR ''9'') 1) (Class (CHR ''0'') (CHR ''9'') (n - 1)))"

definition digit_range_fragment :: "nat \<Rightarrow> rx" where
  "digit_range_fragment mx =
     (let digits = show_nat mx; first = hd digits; rest = tl digits;
          short = map shorter_fragment [1..<length digits] in
      Alt (short @
        (if rest = [] then [Class (CHR ''1'') first 1]
         else if first = CHR ''1'' then [Cat (Chr (CHR ''1'')) (zero_range_fragment rest)]
         else [Cat (Class (CHR ''1'') (previous_char first) 1) (Class (CHR ''0'') (CHR ''9'') (length rest)),
               Cat (Chr first) (zero_range_fragment rest)])))"

definition operation_timeout_pattern :: rx where
  "operation_timeout_pattern =
     Alt (map (\<lambda>(u, f). Cat (digit_range_fragment (max_operation_timeout_ms div f)) (Chr u))
       [(CHR ''s'', 1000), (CHR ''m'', 60000), (CHR ''h'', 3600000), (CHR ''d'', 86400000)])"

section \<open>Digit strings and their order\<close>

lemma digits_val_append: "digits_val (a @ b) = digits_val a * 10 ^ length b + digits_val b"
proof (induction b rule: rev_induct)
  case (snoc c b)
  have "digits_val (a @ b @ [c]) = 10 * digits_val (a @ b) + digit_val c"
    by (metis append_assoc digits_val_snoc)
  with snoc show ?case by (simp add: algebra_simps)
qed simp

lemma digits_val_Cons: "digits_val (c # s) = digit_val c * 10 ^ length s + digits_val s"
  using digits_val_append [of "[c]" s] by (simp add: digits_val_def)

lemma digits_val_bound: "list_all is_digit s \<Longrightarrow> digits_val s < 10 ^ length s"
proof (induction s)
  case (Cons c s)
  then have "digit_val c < 10" "digits_val s < 10 ^ length s" by (simp_all add: digit_val_bound)
  then have "digit_val c * 10 ^ length s + digits_val s < (digit_val c + 1) * 10 ^ length s" by simp
  also have "\<dots> \<le> 10 * 10 ^ length s" using \<open>digit_val c < 10\<close> by (intro mult_right_mono) auto
  finally show ?case by (simp add: digits_val_Cons)
qed simp

lemma digit_range: "is_digit c \<longleftrightarrow> 48 \<le> (of_char c :: nat) \<and> (of_char c :: nat) \<le> 57"
  by (simp add: is_digit_def)

lemma digit_val_of: "is_digit c \<Longrightarrow> of_char c = 48 + digit_val c"
  by (simp add: is_digit_def digit_val_def)

lemma char_eq_iff: "c = d \<longleftrightarrow> (of_char c :: nat) = of_char d"
  by (metis char_of_char)

lemma digit_eq: "is_digit c \<Longrightarrow> is_digit d \<Longrightarrow> c = d \<longleftrightarrow> digit_val c = digit_val d"
  by (simp add: char_eq_iff digit_val_of)

lemma digit_consts [simp]: "is_digit (CHR ''0'')" "is_digit (CHR ''1'')" "is_digit (CHR ''9'')"
  "digit_val (CHR ''0'') = 0" "digit_val (CHR ''1'') = 1" "digit_val (CHR ''9'') = 9"
  by (simp_all add: is_digit_def digit_val_def)

lemma class_digits:
  assumes "is_digit a" and "is_digit b"
  shows "rx_lang (Class a b n) = {s. length s = n \<and> list_all is_digit s \<and>
     (\<forall>c \<in> set s. digit_val a \<le> digit_val c \<and> digit_val c \<le> digit_val b)}"
proof -
  have "(of_char a :: nat) \<le> of_char c \<and> (of_char c :: nat) \<le> of_char b \<longleftrightarrow>
      is_digit c \<and> digit_val a \<le> digit_val c \<and> digit_val c \<le> digit_val b" for c
    using assms by (auto simp: is_digit_def digit_val_def)
  then show ?thesis by (auto simp: list_all_iff)
qed

lemma digit_09: "is_digit c \<Longrightarrow> digit_val c \<le> 9"
  using digit_val_bound [of c] by simp

lemma class_09: "rx_lang (Class (CHR ''0'') (CHR ''9'') n) = {s. length s = n \<and> list_all is_digit s}"
  unfolding class_digits [OF digit_consts(1,3)] by (auto simp: list_all_iff digit_09)

lemma previous_digit:
  assumes "is_digit c" and "c \<noteq> CHR ''0''"
  shows "is_digit (previous_char c)" and "digit_val (previous_char c) = digit_val c - 1" and "0 < digit_val c"
proof -
  have "(of_char c :: nat) \<noteq> 48" using assms(2) by (metis char_eq_iff digit_consts(1,4) digit_val_of add.right_neutral)
  then have b: "48 < (of_char c :: nat)" "(of_char c :: nat) \<le> 57" using assms(1) by (auto simp: is_digit_def)
  have o: "of_char (previous_char c) = (of_char c - 1 :: nat)"
    unfolding previous_char_def using b by simp
  from b o show "is_digit (previous_char c)" "digit_val (previous_char c) = digit_val c - 1" "0 < digit_val c"
    unfolding is_digit_def digit_val_def o by linarith+
qed

text \<open>A fixed-width text is bounded digit by digit.\<close>

lemma bounded_Cons:
  assumes "is_digit c" "is_digit d" and "list_all is_digit s" "list_all is_digit t" and "length s = length t"
  shows "digits_val (c # s) \<le> digits_val (d # t) \<longleftrightarrow>
     digit_val c < digit_val d \<or> (c = d \<and> digits_val s \<le> digits_val t)"
proof -
  have s: "digits_val s < 10 ^ length t" "digits_val t < 10 ^ length t"
    using digits_val_bound [OF assms(3)] digits_val_bound [OF assms(4)] assms(5) by simp_all
  consider "digit_val c < digit_val d" | "digit_val c = digit_val d" | "digit_val d < digit_val c" by linarith
  then show ?thesis
  proof cases
    case 1
    then have "(digit_val c + 1) * 10 ^ length t \<le> digit_val d * 10 ^ length t" by (intro mult_right_mono) auto
    with 1 s show ?thesis by (simp add: digits_val_Cons assms(5))
  next
    case 2
    then show ?thesis using assms(1,2) by (simp add: digits_val_Cons assms(5) digit_eq)
  next
    case 3
    then have "(digit_val d + 1) * 10 ^ length t \<le> digit_val c * 10 ^ length t" by (intro mult_right_mono) auto
    with 3 s assms(1,2) show ?thesis by (auto simp: digits_val_Cons assms(5) digit_eq)
  qed
qed

lemma class_one:
  assumes "is_digit a" and "is_digit b"
  shows "rx_lang (Class a b 1) = {[c] | c. is_digit c \<and> digit_val a \<le> digit_val c \<and> digit_val c \<le> digit_val b}"
  unfolding class_digits [OF assms] by (auto simp: length_Suc_conv)

lemma class_zero: "rx_lang (Class (CHR ''0'') (CHR ''0'') 1) = {[CHR ''0'']}"
proof -
  have "is_digit c \<and> digit_val c = 0 \<longleftrightarrow> c = CHR ''0''" for c
    using digit_eq [OF _ digit_consts(1), of c] by auto
  then show ?thesis unfolding class_one [OF digit_consts(1,1)] by simp
qed

lemma cat_one: "{s @ t | s t. s \<in> {[c] | c. P c} \<and> t \<in> T} = {c # t | c t. P c \<and> t \<in> T}"
proof -
  have "\<exists>s u. c # t = s @ u \<and> s \<in> {[c] | c. P c} \<and> u \<in> T" if "P c" "t \<in> T" for c t
    using that by (intro exI [of _ "[c]"] exI [of _ t]) simp
  then show ?thesis by (auto simp: set_eq_iff)
qed

text \<open>A leading digit in a range, then any digits.\<close>

lemma lead_then_any:
  assumes "is_digit a" and "is_digit b"
  shows "rx_lang (Cat (Class a b 1) (Class (CHR ''0'') (CHR ''9'') n)) =
     {c # s | c s. is_digit c \<and> digit_val a \<le> digit_val c \<and> digit_val c \<le> digit_val b \<and>
        length s = n \<and> list_all is_digit s}"
  unfolding rx_lang.simps(3) class_one [OF assms] class_09 cat_one by auto

lemma zero_range_lang:
  assumes "list_all is_digit ds" and "ds \<noteq> []"
  shows "rx_lang (zero_range_fragment ds) =
     {s. length s = length ds \<and> list_all is_digit s \<and> digits_val s \<le> digits_val ds}"
  using assms
proof (induction ds rule: zero_range_fragment.induct)
  case (2 d)
  have "rx_lang (zero_range_fragment [d]) = rx_lang (Class (CHR ''0'') d 1)"
  proof (cases "d = CHR ''0''")
    case True
    then have "rx_lang (Class (CHR ''0'') d 1) = {s. length s = 1 \<and> list_all is_digit s \<and> (\<forall>c \<in> set s. digit_val c = 0)}"
      by (simp add: class_digits del: rx_lang.simps(2))
    also have "\<dots> = {[CHR ''0'']}" by (auto simp: length_Suc_conv digit_eq)
    finally show ?thesis using True by simp
  qed simp
  also have "\<dots> = {s. length s = 1 \<and> list_all is_digit s \<and> digits_val s \<le> digits_val [d]}"
    using 2 by (auto simp: class_digits length_Suc_conv digits_val_def simp del: rx_lang.simps(2))
  finally show ?case by simp
next
  case (3 first r rest)
  let ?t = "r # rest"
  have f: "is_digit first" and t: "list_all is_digit ?t" using 3 by auto
  have low: "rx_lang (let lower = previous_char first in
        if lower = CHR ''0'' then Cat (Chr (CHR ''0'')) (Class (CHR ''0'') (CHR ''9'') (length ?t))
        else Cat (Class (CHR ''0'') lower 1) (Class (CHR ''0'') (CHR ''9'') (length ?t))) =
      {c # s | c s. is_digit c \<and> digit_val c < digit_val first \<and> length s = length ?t \<and> list_all is_digit s}"
    if "first \<noteq> CHR ''0''"
  proof -
    note p = previous_digit [OF f that]
    have "rx_lang (let lower = previous_char first in
        if lower = CHR ''0'' then Cat (Chr (CHR ''0'')) (Class (CHR ''0'') (CHR ''9'') (length ?t))
        else Cat (Class (CHR ''0'') lower 1) (Class (CHR ''0'') (CHR ''9'') (length ?t))) =
      rx_lang (Cat (Class (CHR ''0'') (previous_char first) 1) (Class (CHR ''0'') (CHR ''9'') (length ?t)))"
      unfolding Let_def by (cases "previous_char first = CHR ''0''") (simp_all add: class_zero [unfolded One_nat_def] del: rx_lang.simps(2))
    also have "\<dots> = {c # s | c s. is_digit c \<and> digit_val c < digit_val first \<and> length s = length ?t \<and> list_all is_digit s}"
      unfolding lead_then_any [OF digit_consts(1) p(1)] using p(2,3) by auto
    finally show ?thesis .
  qed
  have "rx_lang (zero_range_fragment (first # ?t)) =
      {c # s | c s. is_digit c \<and> digit_val c < digit_val first \<and> length s = length ?t \<and> list_all is_digit s} \<union>
      {first # s | s. s \<in> rx_lang (zero_range_fragment ?t)}"
  proof (cases "first = CHR ''0''")
    case True
    then show ?thesis by (auto simp: digit_consts)
  next
    case False
    then show ?thesis using low by auto
  qed
  also have "\<dots> = {s. length s = length (first # ?t) \<and> list_all is_digit s \<and> digits_val s \<le> digits_val (first # ?t)}"
    using 3 f t by (auto simp: length_Suc_conv bounded_Cons)
  finally show ?case .
qed simp


lemma nonzero_digit: "is_digit c \<Longrightarrow> c \<noteq> CHR ''0'' \<longleftrightarrow> 1 \<le> digit_val c"
  using digit_eq [OF _ digit_consts(1), of c] by auto

definition numeral_text :: "string \<Rightarrow> bool" where
  "numeral_text s = (s \<noteq> [] \<and> list_all is_digit s \<and> hd s \<noteq> CHR ''0'')"

lemma numeral_Cons: "numeral_text (c # s) \<longleftrightarrow> is_digit c \<and> c \<noteq> CHR ''0'' \<and> list_all is_digit s"
  by (auto simp: numeral_text_def)

lemma numeral_lower: "numeral_text s \<Longrightarrow> 10 ^ (length s - 1) \<le> digits_val s"
proof (cases s)
  case (Cons c r)
  assume "numeral_text s"
  then have "is_digit c" "c \<noteq> CHR ''0''" by (simp_all add: Cons numeral_Cons)
  then have "1 \<le> digit_val c" using nonzero_digit by blast
  then have "1 * 10 ^ length r \<le> digit_val c * 10 ^ length r" by (intro mult_right_mono) auto
  then have "10 ^ length r \<le> digits_val (c # r)" unfolding digits_val_Cons by linarith
  then show ?thesis by (simp add: Cons)
qed (simp add: numeral_text_def)

lemma numeral_shorter:
  assumes "numeral_text s" and "numeral_text d" and "length s < length d"
  shows "digits_val s < digits_val d"
proof -
  have "digits_val s < 10 ^ length s" using assms(1) by (simp add: numeral_text_def digits_val_bound)
  also have "\<dots> \<le> 10 ^ (length d - 1)" using assms(3) by (intro power_increasing) auto
  also have "\<dots> \<le> digits_val d" using numeral_lower [OF assms(2)] .
  finally show ?thesis .
qed

lemma digit_char_0: "digit_char 0 = CHR ''0''"
  by code_simp

lemma numeral_show_nat: "0 < mx \<Longrightarrow> numeral_text (show_nat mx)"
  using hd_show_nat [of mx] show_nat_digits [of mx]
  by (simp add: numeral_text_def list_all_iff digit_char_0)

lemma digit_range_short:
  assumes "1 \<le> n"
  shows "rx_lang (shorter_fragment n) = {s. numeral_text s \<and> length s = n}"
proof -
  have iff: "is_digit c \<and> 1 \<le> digit_val c \<and> digit_val c \<le> 9 \<longleftrightarrow> is_digit c \<and> c \<noteq> CHR ''0''" for c
    using nonzero_digit digit_09 by blast
  have c: "{s. numeral_text s \<and> length s = n} =
      {c # s | c s. (is_digit c \<and> c \<noteq> CHR ''0'') \<and> length s = n - 1 \<and> list_all is_digit s}"
    using assms by (force simp: numeral_Cons length_Suc_conv numeral_text_def neq_Nil_conv)
  show ?thesis
  proof (cases "n = 1")
    case True
    then show ?thesis unfolding shorter_fragment_def c if_P [OF True] class_one [OF digit_consts(2,3)] digit_consts iff by auto
  next
    case False
    then show ?thesis
      unfolding shorter_fragment_def c if_not_P [OF False] lead_then_any [OF digit_consts(2,3)] digit_consts conj_assoc [symmetric]
      unfolding conj_assoc iff by auto
  qed
qed

lemma digit_range_lang:
  assumes "0 < mx"
  shows "rx_lang (digit_range_fragment mx) = {s. numeral_text s \<and> digits_val s \<le> mx}"
proof -
  obtain f r where D: "show_nat mx = f # r" by (meson neq_Nil_conv show_nat_ne)
  have n: "numeral_text (f # r)" using numeral_show_nat [OF assms] by (simp add: D)
  then have f: "is_digit f" "f \<noteq> CHR ''0''" and r: "list_all is_digit r" by (simp_all add: numeral_Cons)
  have v: "digits_val (f # r) = mx" using digits_val_show_nat [of mx] by (simp add: D)
  define full where "full = (if r = [] then [Class (CHR ''1'') f 1]
         else if f = CHR ''1'' then [Cat (Chr (CHR ''1'')) (zero_range_fragment r)]
         else [Cat (Class (CHR ''1'') (previous_char f) 1) (Class (CHR ''0'') (CHR ''9'') (length r)),
               Cat (Chr f) (zero_range_fragment r)])"
  let ?short = "map shorter_fragment [1..<length (f # r)]"
  have "rx_lang (Alt ?short) = (\<Union>n \<in> {1..<length (f # r)}. rx_lang (shorter_fragment n))"
    by (simp del: upt_Suc)
  also have "\<dots> = (\<Union>n \<in> {1..<length (f # r)}. {s. numeral_text s \<and> length s = n})"
    by (intro SUP_cong refl digit_range_short) simp
  also have "\<dots> = {s. numeral_text s \<and> length s < length (f # r)}"
    by (auto simp: numeral_text_def Suc_le_eq)
  finally have "rx_lang (Alt ?short) = {s. numeral_text s \<and> length s < length (f # r)}" .
  moreover have "rx_lang (Alt full) = {s. numeral_text s \<and> length s = length (f # r) \<and> digits_val s \<le> mx}"
  proof -
    have same: "{s. numeral_text s \<and> length s = length (f # r) \<and> digits_val s \<le> mx} =
        {c # s | c s. is_digit c \<and> 1 \<le> digit_val c \<and> digit_val c < digit_val f \<and> length s = length r \<and> list_all is_digit s} \<union>
        {f # s | s. length s = length r \<and> list_all is_digit s \<and> digits_val s \<le> digits_val r}"
      unfolding v [symmetric] using f r by (auto simp: numeral_Cons length_Suc_conv bounded_Cons nonzero_digit)
    show ?thesis
    proof (cases "r = []")
      case True
      then show ?thesis
        unfolding same full_def using f
        by (auto simp: class_one [OF digit_consts(2), unfolded One_nat_def] digit_eq le_less nonzero_digit simp del: rx_lang.simps(2))
    next
      case False
      note z = zero_range_lang [OF r False]
      show ?thesis
      proof (cases "f = CHR ''1''")
        case True
        then show ?thesis unfolding same full_def using False by (auto simp: z)
      next
        case ne: False
        note p = previous_digit [OF f]
        have "rx_lang (Cat (Class (CHR ''1'') (previous_char f) 1) (Class (CHR ''0'') (CHR ''9'') (length r))) =
            {c # s | c s. is_digit c \<and> 1 \<le> digit_val c \<and> digit_val c < digit_val f \<and> length s = length r \<and> list_all is_digit s}"
          unfolding lead_then_any [OF digit_consts(2) p(1)] using p(2,3) by auto
        then show ?thesis unfolding same full_def using False ne by (simp add: z Collect_disj_eq)
      qed
    qed
  qed
  moreover have "digit_range_fragment mx = Alt (?short @ full)"
    by (simp add: digit_range_fragment_def D full_def Let_def del: upt_Suc)
  ultimately have "rx_lang (digit_range_fragment mx) =
      {s. numeral_text s \<and> length s < length (f # r)} \<union>
      {s. numeral_text s \<and> length s = length (f # r) \<and> digits_val s \<le> mx}" by auto
  also have "\<dots> = {s. numeral_text s \<and> digits_val s \<le> mx}"
    using numeral_shorter [OF _ n] numeral_shorter [OF n] v
    by (auto simp: not_less_iff_gr_or_eq) (metis less_le_not_le linorder_neqE_nat)+
  finally show ?thesis .
qed


section \<open>The parser accepts what the pattern accepts\<close>

lemma unit_ms_cases: "unit_ms u = Some f \<longleftrightarrow> (u, nat f) \<in> set [(CHR ''s'', 1000), (CHR ''m'', 60000),
    (CHR ''h'', 3600000), (CHR ''d'', 86400000)] \<and> 0 < f"
  by (auto simp: unit_ms_def split: if_splits)

lemma parse_duration_snoc:
  "parse_duration (d @ [u]) = (if d = [] \<or> \<not> list_all is_digit d \<or> unit_ms u = None
     then Inl (InvalidDuration (d @ [u])) else Inr (int (digits_val d) * the (unit_ms u)))"
  by (auto simp: parse_duration_def split: option.splits)

lemma parse_timeout_snoc:
  "parse_operation_timeout_ms (Some (JStr (d @ [u]))) = Inr ms \<longleftrightarrow>
     (\<exists>f. unit_ms u = Some f \<and> numeral_text d \<and> ms = int (digits_val d) * f \<and> ms \<le> int max_operation_timeout_ms)"
proof (cases "numeral_text d")
  case True
  then have d: "d \<noteq> []" "list_all is_digit d" "hd d \<noteq> CHR ''0''" by (simp_all add: numeral_text_def)
  then have "\<not> zero_length (d @ [u])" "\<not> leading_zero (d @ [u])"
    by (cases d; auto simp: zero_length_def leading_zero_def split: list.splits)+
  with d True show ?thesis
    by (auto simp: parse_operation_timeout_ms_def parse_duration_snoc split: if_splits)
next
  case False
  have "\<nexists>ms. parse_operation_timeout_ms (Some (JStr (d @ [u]))) = Inr ms"
  proof (cases "d \<noteq> [] \<and> list_all is_digit d \<and> unit_ms u \<noteq> None")
    case True
    with False obtain ds where d: "d = CHR ''0'' # ds" "list_all is_digit ds"
      by (cases d) (auto simp: numeral_text_def)
    have "zero_length (d @ [u]) \<or> leading_zero (d @ [u])"
      using True d by (cases ds) (auto simp: zero_length_def leading_zero_def)
    then show ?thesis by (auto simp: parse_operation_timeout_ms_def)
  next
    case False
    then show ?thesis by (auto simp: parse_operation_timeout_ms_def parse_duration_snoc)
  qed
  with False show ?thesis by auto
qed

lemma alt_units_lang:
  "s \<in> rx_lang (Alt (map (\<lambda>(u, f). Cat (g f) (Chr u)) us)) \<longleftrightarrow>
     (\<exists>(u, f) \<in> set us. \<exists>d. s = d @ [u] \<and> d \<in> rx_lang (g f))"
  by (induction us) auto

lemma pattern_snoc:
  "s \<in> rx_lang operation_timeout_pattern \<longleftrightarrow>
     (\<exists>d u f. s = d @ [u] \<and> unit_ms u = Some f \<and> numeral_text d \<and> int (digits_val d) * f \<le> int max_operation_timeout_ms)"
proof -
  define units where "units = [(CHR ''s'', 1000), (CHR ''m'', 60000), (CHR ''h'', 3600000), (CHR ''d'', 86400000 :: nat)]"
  have pos: "0 < max_operation_timeout_ms div f" "0 < f" if "(u, f) \<in> set units" for u f
    using that by (auto simp: max_operation_timeout_ms_def units_def)
  have "s \<in> rx_lang operation_timeout_pattern \<longleftrightarrow>
      (\<exists>(u, f) \<in> set units. \<exists>d. s = d @ [u] \<and> d \<in> rx_lang (digit_range_fragment (max_operation_timeout_ms div f)))"
    unfolding operation_timeout_pattern_def alt_units_lang units_def ..
  also have "\<dots> \<longleftrightarrow> (\<exists>(u, f) \<in> set units. \<exists>d. s = d @ [u] \<and> numeral_text d \<and> digits_val d * f \<le> max_operation_timeout_ms)"
  proof (intro bex_cong refl)
    fix x assume "x \<in> set units"
    then obtain u f where x: "x = (u, f)" "(u, f) \<in> set units" by (metis surj_pair)
    show "(case x of (u, f) \<Rightarrow> \<exists>d. s = d @ [u] \<and> d \<in> rx_lang (digit_range_fragment (max_operation_timeout_ms div f))) \<longleftrightarrow>
        (case x of (u, f) \<Rightarrow> \<exists>d. s = d @ [u] \<and> numeral_text d \<and> digits_val d * f \<le> max_operation_timeout_ms)"
      using digit_range_lang [OF pos(1) [OF x(2)]] less_eq_div_iff_mult_less_eq [OF pos(2) [OF x(2)]]
      by (simp add: x(1))
  qed
  also have "\<dots> \<longleftrightarrow> (\<exists>d u f. s = d @ [u] \<and> unit_ms u = Some f \<and> numeral_text d \<and>
      int (digits_val d) * f \<le> int max_operation_timeout_ms)"
  proof
    assume "\<exists>(u, f) \<in> set units. \<exists>d. s = d @ [u] \<and> numeral_text d \<and> digits_val d * f \<le> max_operation_timeout_ms"
    then obtain u f d where uf: "(u, f) \<in> set units" and d: "s = d @ [u]" "numeral_text d"
      and b: "digits_val d * f \<le> max_operation_timeout_ms" by blast
    have "unit_ms u = Some (int f)" using uf by (auto simp: unit_ms_def units_def)
    moreover have "int (digits_val d) * int f \<le> int max_operation_timeout_ms" using b by (metis of_nat_le_iff of_nat_mult)
    ultimately show "\<exists>d u f. s = d @ [u] \<and> unit_ms u = Some f \<and> numeral_text d \<and>
      int (digits_val d) * f \<le> int max_operation_timeout_ms" using d by blast
  next
    assume "\<exists>d u f. s = d @ [u] \<and> unit_ms u = Some f \<and> numeral_text d \<and>
      int (digits_val d) * f \<le> int max_operation_timeout_ms"
    then obtain d u f where d: "s = d @ [u]" "numeral_text d" and u: "unit_ms u = Some f"
      and b: "int (digits_val d) * f \<le> int max_operation_timeout_ms" by blast
    have mem: "(u, nat f) \<in> set units" and f: "f = int (nat f)" using u by (auto simp: unit_ms_def units_def split: if_splits)
    have "int (digits_val d * nat f) \<le> int max_operation_timeout_ms" using b f by (metis of_nat_mult)
    then have "digits_val d * nat f \<le> max_operation_timeout_ms" by (simp only: of_nat_le_iff)
    with mem d show "\<exists>(u, f) \<in> set units. \<exists>d. s = d @ [u] \<and> numeral_text d \<and> digits_val d * f \<le> max_operation_timeout_ms"
      by blast
  qed
  finally show ?thesis .
qed

text \<open>
  C9: the schema's pattern and the run-time parser agree on every text, and what they accept
  is a positive deadline that Node's 32-bit timer can hold.
\<close>

theorem timeout_pattern_is_parser:
  "s \<in> rx_lang operation_timeout_pattern \<longleftrightarrow>
     (\<exists>ms. parse_operation_timeout_ms (Some (JStr s)) = Inr ms \<and> 0 < ms \<and> ms < 2 ^ 31)"
proof (cases s rule: rev_cases)
  case Nil
  have "parse_operation_timeout_ms (Some (JStr [])) = Inl (InvalidDuration [])"
    by (simp add: parse_operation_timeout_ms_def zero_length_def leading_zero_def parse_duration_def)
  then show ?thesis by (simp add: Nil pattern_snoc)
next
  case (snoc d u)
  have "0 < int (digits_val d) * f \<and> int (digits_val d) * f < 2 ^ 31"
    if "unit_ms u = Some f" "numeral_text d" "int (digits_val d) * f \<le> int max_operation_timeout_ms" for f
  proof -
    have "0 < f" using that(1) by (auto simp: unit_ms_def split: if_splits)
    moreover have "0 < digits_val d" using numeral_lower [OF that(2)] by (meson less_le_trans zero_less_numeral zero_less_power)
    ultimately show ?thesis using that(3) by (simp add: max_operation_timeout_ms_def)
  qed
  then show ?thesis unfolding snoc pattern_snoc parse_timeout_snoc by auto
qed

end
