(* ===== verification/AM_Cron.thy ===== *)
theory AM_Cron
  imports Complex_Main AM_Time
begin

text \<open>
  The cron expressions of \<open>runtime/service.ts\<close>: \<open>matchCronField\<close> and \<open>cronMatchesDate\<close>, with
  JavaScript's \<open>Number\<close> on a field's text (a rational; the rounding of long fractions and of
  huge exponents is left out). The five calendar fields of an instant in a time zone come
  from \<open>Intl.DateTimeFormat\<close>: the argument \<open>cal\<close>, None where it throws on the zone.
\<close>

section \<open>Number\<close>

definition js_signed :: "(string \<Rightarrow> 'a option) \<Rightarrow> ('a \<Rightarrow> 'a) \<Rightarrow> string \<Rightarrow> 'a option" where
  "js_signed f negate s =
     (case s of [] \<Rightarrow> f s
      | c # cs \<Rightarrow> if c = CHR ''-'' then map_option negate (f cs) else if c = CHR ''+'' then f cs else f s)"

definition js_digits :: "string \<Rightarrow> int option" where
  "js_digits s = (if s \<noteq> [] \<and> list_all is_digit s then Some (int (digits_val s)) else None)"

definition js_decimal :: "string \<Rightarrow> rat option" where
  "js_decimal s =
     (let m = takeWhile (\<lambda>c. c \<noteq> CHR ''e'' \<and> c \<noteq> CHR ''E'') s;
          e = dropWhile (\<lambda>c. c \<noteq> CHR ''e'' \<and> c \<noteq> CHR ''E'') s;
          ip = takeWhile (\<lambda>c. c \<noteq> CHR ''.'') m;
          fp = tl (dropWhile (\<lambda>c. c \<noteq> CHR ''.'') m);
          ex = (if e = [] then Some 0 else js_signed js_digits uminus (tl e)) in
      if ip @ fp = [] \<or> \<not> list_all is_digit (ip @ fp) then None
      else map_option (\<lambda>x. of_nat (digits_val (ip @ fp)) / 10 ^ length fp *
          (if 0 \<le> x then 10 ^ nat x else 1 / 10 ^ nat (- x))) ex)"

definition radix_digit :: "nat \<Rightarrow> char \<Rightarrow> nat option" where
  "radix_digit r c =
     (let n = of_char c :: nat;
          d = (if 48 \<le> n \<and> n \<le> 57 then n - 48 else if 97 \<le> n \<and> n \<le> 102 then n - 87
               else if 65 \<le> n \<and> n \<le> 70 then n - 55 else 99) in
      if d < r then Some d else None)"

definition js_radix :: "nat \<Rightarrow> string \<Rightarrow> rat option" where
  "js_radix r s =
     (if s = [] \<or> list_ex (\<lambda>c. radix_digit r c = None) s then None
      else Some (of_nat (foldl (\<lambda>n c. r * n + the (radix_digit r c)) 0 s)))"

text \<open>\<open>Number(s)\<close> where it is finite.\<close>

definition js_number :: "string \<Rightarrow> rat option" where
  "js_number s =
     (let t = trim s; prefix = take 2 t in
      if t = [] then Some 0
      else if prefix = ''0x'' \<or> prefix = ''0X'' then js_radix 16 (drop 2 t)
      else if prefix = ''0o'' \<or> prefix = ''0O'' then js_radix 8 (drop 2 t)
      else if prefix = ''0b'' \<or> prefix = ''0B'' then js_radix 2 (drop 2 t)
      else js_signed js_decimal uminus t)"

section \<open>Fields and expressions\<close>

text \<open>\<open>value % step === 0\<close> for a positive step.\<close>

definition js_divides :: "rat \<Rightarrow> nat \<Rightarrow> bool" where
  "js_divides step v = (of_nat v / step = of_int \<lfloor>of_nat v / step\<rfloor>)"

function (sequential) match_cron_field :: "string \<Rightarrow> nat \<Rightarrow> bool" where
  "match_cron_field field v =
     (if field = ''*'' then True
      else if CHR '','' \<in> set field then list_ex (\<lambda>seg. match_cron_field seg v) (split_on (CHR '','') field)
      else if CHR ''/'' \<in> set field then
        (case split_on (CHR ''/'') field of
           base # step_text # _ \<Rightarrow>
             (case js_number step_text of
                None \<Rightarrow> False
              | Some step \<Rightarrow>
                  if step \<le> 0 then False
                  else if base = ''*'' then js_divides step v
                  else if base = [] then False
                  else match_cron_field base v \<and> js_divides step v)
         | _ \<Rightarrow> False)
      else if CHR ''-'' \<in> set field then
        (case map js_number (split_on (CHR ''-'') field) of
           Some a # Some b # _ \<Rightarrow> a \<le> of_nat v \<and> of_nat v \<le> b
         | _ \<Rightarrow> False)
      else js_number field = Some (of_nat v))"
  by pat_completeness auto

termination
proof (relation "measure (\<lambda>(field, v). length field)")
  fix field :: string and v x
  assume "CHR '','' \<in> set field" and "x \<in> set (split_on (CHR '','') field)"
  then show "((x, v), field, v) \<in> measure (\<lambda>(field, v). length field)"
    by (simp add: split_on_shorter)
next
  fix field :: string and v base rest step_text more step
  assume "CHR ''/'' \<in> set field" and "split_on (CHR ''/'') field = base # rest"
  then show "((base, v), field, v) \<in> measure (\<lambda>(field, v). length field)"
    by (simp add: split_on_shorter)
qed simp

declare match_cron_field.simps [simp del]

datatype cron_error = BadTimezone string

definition cron_matches_date :: "(string \<Rightarrow> ms \<Rightarrow> nat list option) \<Rightarrow> string \<Rightarrow> ms \<Rightarrow> string \<Rightarrow>
    cron_error + bool" where
  "cron_matches_date cal cron now tz =
     (let parts = words_ws (trim cron) in
      if length parts \<noteq> 5 then Inr False
      else (case cal tz now of
          None \<Rightarrow> Inl (BadTimezone tz)
        | Some values \<Rightarrow> Inr (list_all (\<lambda>(part, i). i < length values \<and> match_cron_field part (values ! i))
            (zip parts [0..<5]))))"

section \<open>Numbers written in decimal\<close>

lemma digit_not [simp]:
  "is_digit c \<Longrightarrow> c \<noteq> CHR '',''" "is_digit c \<Longrightarrow> c \<noteq> CHR ''/''" "is_digit c \<Longrightarrow> c \<noteq> CHR ''-''"
  "is_digit c \<Longrightarrow> c \<noteq> CHR ''*''" "is_digit c \<Longrightarrow> c \<noteq> CHR ''+''" "is_digit c \<Longrightarrow> c \<noteq> CHR ''.''"
  "is_digit c \<Longrightarrow> c \<noteq> CHR ''e''" "is_digit c \<Longrightarrow> c \<noteq> CHR ''E''" "is_digit c \<Longrightarrow> \<not> is_space c"
  "is_digit c \<Longrightarrow> c \<noteq> CHR ''x''" "is_digit c \<Longrightarrow> c \<noteq> CHR ''X''" "is_digit c \<Longrightarrow> c \<noteq> CHR ''o''"
  "is_digit c \<Longrightarrow> c \<noteq> CHR ''O''" "is_digit c \<Longrightarrow> c \<noteq> CHR ''b''" "is_digit c \<Longrightarrow> c \<noteq> CHR ''B''"
  by (auto simp: is_digit_def is_space_def)

lemma trim_digits: "list_all is_digit s \<Longrightarrow> trim s = s"
proof -
  assume d: "list_all is_digit s"
  have "dropWhile is_space t = t" if "list_all is_digit t" for t
    using that by (cases t) auto
  then show ?thesis using d by (simp add: trim_def)
qed

lemma js_decimal_digits:
  assumes "s \<noteq> []" and "list_all is_digit s"
  shows "js_decimal s = Some (of_nat (digits_val s))"
proof -
  have t: "takeWhile (\<lambda>c. c \<noteq> CHR ''e'' \<and> c \<noteq> CHR ''E'') s = s" "dropWhile (\<lambda>c. c \<noteq> CHR ''e'' \<and> c \<noteq> CHR ''E'') s = []"
    "takeWhile (\<lambda>c. c \<noteq> CHR ''.'') s = s" "dropWhile (\<lambda>c. c \<noteq> CHR ''.'') s = []"
    using assms(2) by (auto simp: takeWhile_eq_all_conv dropWhile_eq_Nil_conv list_all_iff)
  show ?thesis using assms by (simp add: js_decimal_def t)
qed

lemma js_number_digits:
  assumes "s \<noteq> []" and "list_all is_digit s"
  shows "js_number s = Some (of_nat (digits_val s))"
proof -
  have "list_all is_digit (take 2 s)"
    using assms(2) by (metis append_take_drop_id list_all_append)
  then have "take 2 s \<noteq> ''0'' @ [c]" if "\<not> is_digit c" for c using that by auto
  then have "js_number s = js_signed js_decimal uminus s"
    using assms by (auto simp: js_number_def trim_digits Let_def is_digit_def)
  also have "\<dots> = js_decimal s" using assms by (cases s) (auto simp: js_signed_def)
  finally show ?thesis using js_decimal_digits [OF assms] by simp
qed

lemma show_nat_list_all: "list_all is_digit (show_nat n)"
  using show_nat_digits by (simp add: list_all_iff)

lemma js_number_show_nat [simp]: "js_number (show_nat n) = Some (of_nat n)"
  by (simp add: js_number_digits show_nat_list_all)

lemma show_nat_chars [simp]:
  "CHR '','' \<notin> set (show_nat n)" "CHR ''/'' \<notin> set (show_nat n)" "CHR ''-'' \<notin> set (show_nat n)"
  "CHR ''*'' \<notin> set (show_nat n)"
  using show_nat_digits [of n] digit_not(1-4) by metis+

lemma show_nat_not_star [simp]: "show_nat n \<noteq> ''*''"
  using show_nat_chars(4) [of n] by (metis list.set_intros(1))

lemma js_divides_nat: "0 < s \<Longrightarrow> js_divides (of_nat s) v \<longleftrightarrow> s dvd v"
proof
  assume s: "0 < s" and "js_divides (of_nat s) v"
  then have "(of_nat v :: rat) = of_int \<lfloor>of_nat v / of_nat s :: rat\<rfloor> * of_nat s"
    by (simp add: js_divides_def field_simps)
  then have "(of_int (int v) :: rat) = of_int (\<lfloor>of_nat v / of_nat s :: rat\<rfloor> * int s)" by simp
  then have "int v = \<lfloor>of_nat v / of_nat s :: rat\<rfloor> * int s" by (simp only: of_int_eq_iff)
  then show "s dvd v" by (metis dvd_triv_right int_dvd_int_iff)
next
  assume s: "0 < s" and "s dvd v"
  then obtain k where "v = s * k" by blast
  with s show "js_divides (of_nat s) v" by (simp add: js_divides_def)
qed

section \<open>What a field means\<close>

lemma match_number: "match_cron_field (show_nat n) v \<longleftrightarrow> v = n"
  by (subst match_cron_field.simps) auto

lemma range_not_star: "show_nat a @ CHR ''-'' # show_nat b \<noteq> ''*''"
  by (cases "show_nat a") auto

lemma match_range: "match_cron_field (show_nat a @ CHR ''-'' # show_nat b) v \<longleftrightarrow> a \<le> v \<and> v \<le> b"
proof -
  show ?thesis
    using range_not_star by (subst match_cron_field.simps) (simp add: split_on_append split_on_single)
qed

lemma match_list:
  assumes "\<And>f. f \<in> set fs \<Longrightarrow> CHR '','' \<notin> set f" and "2 \<le> length fs"
  shows "match_cron_field (join '','' fs) v \<longleftrightarrow> (\<exists>f \<in> set fs. match_cron_field f v)"
proof -
  have split: "split_on (CHR '','') (join '','' fs) = fs"
    using assms by (intro split_on_join) auto
  obtain f g gs where "fs = f # g # gs" using assms(2) by (cases fs; cases "tl fs") auto
  then have comma: "CHR '','' \<in> set (join '','' fs)" by simp
  then have "join '','' fs \<noteq> ''*''" by auto
  with comma show ?thesis
    using split by (subst match_cron_field.simps) (auto simp: list_ex_iff)
qed

lemma match_step:
  assumes "CHR '','' \<notin> set base" and "CHR ''/'' \<notin> set base" and "base \<noteq> []"
  shows "match_cron_field (base @ CHR ''/'' # show_nat s) v \<longleftrightarrow>
     0 < s \<and> s dvd v \<and> (base = ''*'' \<or> match_cron_field base v)"
proof -
  have "base @ CHR ''/'' # show_nat s \<noteq> ''*''" using assms(3) by (cases base) auto
  then show ?thesis
    using assms
    by (subst match_cron_field.simps)
       (auto simp: split_on_append split_on_single js_divides_nat)
qed

text \<open>
  C10: what a cron field means. A star matches everything, a number itself, a range its
  members, a list what one of its items does, and a step the multiples of it inside its base.
  In particular a stepped range is counted from zero and not from the start of the range.
\<close>

theorem cron_field_meaning:
  "match_cron_field ''*'' v \<and>
   (match_cron_field (show_nat n) v \<longleftrightarrow> v = n) \<and>
   (match_cron_field (show_nat a @ ''-'' @ show_nat b) v \<longleftrightarrow> a \<le> v \<and> v \<le> b) \<and>
   (match_cron_field (''*/'' @ show_nat s) v \<longleftrightarrow> 0 < s \<and> s dvd v) \<and>
   (match_cron_field (show_nat a @ ''-'' @ show_nat b @ ''/'' @ show_nat s) v \<longleftrightarrow>
      a \<le> v \<and> v \<le> b \<and> 0 < s \<and> s dvd v) \<and>
   (match_cron_field (join '','' (map show_nat (n # m # ns))) v \<longleftrightarrow> v \<in> set (n # m # ns))"
proof -
  have star: "match_cron_field ''*'' v" by (simp add: match_cron_field.simps)
  have step: "match_cron_field (''*/'' @ show_nat s) v \<longleftrightarrow> 0 < s \<and> s dvd v"
    using match_step [of "''*''" s v] by simp
  have rs: "match_cron_field (show_nat a @ ''-'' @ show_nat b @ ''/'' @ show_nat s) v \<longleftrightarrow>
      a \<le> v \<and> v \<le> b \<and> 0 < s \<and> s dvd v"
    using match_step [of "show_nat a @ CHR ''-'' # show_nat b" s v]
    by (auto simp: match_range range_not_star)
  have l: "match_cron_field (join '','' (map show_nat (n # m # ns))) v \<longleftrightarrow> v \<in> set (n # m # ns)"
    by (subst match_list) (auto simp: match_number)
  show ?thesis using star step rs l match_number match_range by simp
qed

end
