(* ===== verification/AM_Store.thy ===== *)
theory AM_Store
  imports AM_Types AM_TextDiff
begin

text \<open>
  The tables of \<open>runtime/store.ts\<close> (the SQLite database opened by \<open>inbox/db.ts\<close>) and the
  class \<open>RuntimeStore\<close>'s operations on sessions, ephemeral monitors, per-monitor state and
  observation history. A table is the list of its rows in insertion order; the row keys
  nothing reads are left out. An operation that calls \<open>new Date()\<close> takes the clock reading
  \<open>now\<close>, and one that draws a ULID takes the drawn identifier.
\<close>

record store =
  sessions :: "session list"
  events :: "event list"
  projections :: "projection list"
  snapshots :: "snapshot list"
  cursors :: "cursor list"
  suppressions :: "suppression list"
  monitor_rows :: "monitor_row list"
  ephemerals :: "ephemeral list"
  history :: "history_row list"
  last_projected :: "ident list"

definition empty_store :: store where
  "empty_store = \<lparr>sessions = [], events = [], projections = [], snapshots = [], cursors = [],
     suppressions = [], monitor_rows = [], ephemerals = [], history = [], last_projected = []\<rparr>"

datatype store_error =
    SessionNotFound ident
  | EphemeralNotFound ident
  | EventNotFound ident
  | SnapshotNeedsObjectKey

text \<open>The columns declared \<open>mode: 'timestamp'\<close> hold whole seconds: what is read back is rounded down.\<close>

definition db_time :: "ms \<Rightarrow> ms" where
  "db_time t = (t div 1000) * 1000"

lemma db_time_le: "db_time t \<le> t"
  unfolding db_time_def by (metis add.commute le_add_same_cancel1 mod_div_mult_eq pos_mod_sign zero_less_numeral)

lemma db_time_gt: "t - 1000 < db_time t"
proof -
  have "t = (t div 1000) * 1000 + t mod 1000" by simp
  moreover have "t mod 1000 < 1000" by simp
  ultimately show ?thesis unfolding db_time_def by linarith
qed

lemma db_time_mono: "a \<le> b \<Longrightarrow> db_time a \<le> db_time b"
  by (simp add: db_time_def zdiv_mono1)

lemma db_time_idem [simp]: "db_time (db_time t) = db_time t"
  by (simp add: db_time_def)

text \<open>The condition of a nullable workspace column, and the query for a workspace or global rows.\<close>

definition ws_is :: "string option \<Rightarrow> string option \<Rightarrow> bool" where
  "ws_is wanted col = (col = wanted)"

definition ws_or_global :: "string option \<Rightarrow> string option \<Rightarrow> bool" where
  "ws_or_global wanted col = (col = None \<or> (wanted \<noteq> None \<and> col = wanted))"

definition json_or_empty :: "json option \<Rightarrow> json" where
  "json_or_empty v = (if nullish v then JObj [] else the v)"

section \<open>Sessions\<close>

definition get_session :: "store \<Rightarrow> ident \<Rightarrow> store_error + session" where
  "get_session st i =
     (case find (\<lambda>s. s_id s = i) (sessions st) of
        None \<Rightarrow> Inl (SessionNotFound i) | Some s \<Rightarrow> Inr s)"

definition find_session :: "store \<Rightarrow> ident \<Rightarrow> session option" where
  "find_session st i = find (\<lambda>s. s_id s = i) (sessions st)"

definition open_session :: "store \<Rightarrow> ms \<Rightarrow> ident \<Rightarrow> open_session_input \<Rightarrow> store \<times> ident" where
  "open_session st now new_id inp =
     (case find (\<lambda>s. s_adapter s = oi_adapter inp \<and> s_host s = oi_host inp) (sessions st) of
        Some existing \<Rightarrow>
          (st\<lparr>sessions := update_where (\<lambda>s. s_id s = s_id existing)
             (\<lambda>s. s\<lparr>s_agent := oi_agent inp,
                     s_role := default (oi_role inp) (s_role existing),
                     s_ws := or_else (oi_ws inp) (s_ws existing),
                     s_hook_path := oi_hook_path inp,
                     s_status := Active,
                     s_last_active := db_time now,
                     s_dormant := None,
                     s_updated := db_time now\<rparr>) (sessions st)\<rparr>, s_id existing)
      | None \<Rightarrow>
          (st\<lparr>sessions := sessions st @
             [\<lparr>s_id = new_id, s_adapter = oi_adapter inp, s_host = oi_host inp,
               s_agent = oi_agent inp, s_role = default (oi_role inp) Lead, s_ws = oi_ws inp,
               s_hook_path = oi_hook_path inp, s_status = Active, s_baseline = db_time now,
               s_last_active = db_time now, s_last_recap = None, s_dormant = None,
               s_created = db_time now, s_updated = db_time now\<rparr>]\<rparr>, new_id))"

definition close_session :: "store \<Rightarrow> ms \<Rightarrow> ident \<Rightarrow> store" where
  "close_session st now i =
     st\<lparr>sessions := update_where (\<lambda>s. s_id s = i)
       (\<lambda>s. s\<lparr>s_status := Dormant, s_dormant := Some (db_time now),
               s_last_active := db_time now, s_updated := db_time now\<rparr>) (sessions st)\<rparr>"

definition touch_session :: "store \<Rightarrow> ms \<Rightarrow> ident \<Rightarrow> store" where
  "touch_session st now i =
     st\<lparr>sessions := update_where (\<lambda>s. s_id s = i)
       (\<lambda>s. s\<lparr>s_last_active := db_time now, s_updated := db_time now\<rparr>) (sessions st)\<rparr>"

definition update_session_recap :: "store \<Rightarrow> ms \<Rightarrow> ident \<Rightarrow> store" where
  "update_session_recap st now i =
     st\<lparr>sessions := update_where (\<lambda>s. s_id s = i)
       (\<lambda>s. s\<lparr>s_last_recap := Some (db_time now), s_last_active := db_time now,
               s_updated := db_time now\<rparr>) (sessions st)\<rparr>"

definition sessions_for_workspace :: "store \<Rightarrow> string option \<Rightarrow> session list" where
  "sessions_for_workspace st ws =
     ordered_by s_created (filter (\<lambda>s. ws_or_global ws (s_ws s)) (sessions st))"

definition stale_active_sessions :: "store \<Rightarrow> string option \<Rightarrow> ms \<Rightarrow> session list" where
  "stale_active_sessions st ws stale_before =
     filter (\<lambda>s. s_status s = Active \<and> ws_or_global ws (s_ws s) \<and>
         s_last_active s \<le> db_time stale_before \<and>
         \<not> (\<exists>t \<in> set (ephemerals st). t_session t = s_id s \<and> t_status t = EActive \<and>
              t_created t > db_time stale_before)) (sessions st)"

section \<open>Ephemeral monitors\<close>

definition insert_ephemeral :: "store \<Rightarrow> ms \<Rightarrow> ephemeral \<Rightarrow> store" where
  "insert_ephemeral st now t =
     st\<lparr>ephemerals := ephemerals st @
       [t\<lparr>t_status := EActive, t_created := db_time now, t_updated := db_time now,
           t_reaped := None\<rparr>]\<rparr>"

definition find_ephemeral :: "store \<Rightarrow> ident \<Rightarrow> ephemeral option" where
  "find_ephemeral st i = find (\<lambda>t. t_id t = i) (ephemerals st)"

definition get_ephemeral :: "store \<Rightarrow> ident \<Rightarrow> store_error + ephemeral" where
  "get_ephemeral st i =
     (case find_ephemeral st i of None \<Rightarrow> Inl (EphemeralNotFound i) | Some t \<Rightarrow> Inr t)"

definition list_active_ephemerals :: "store \<Rightarrow> string option \<Rightarrow> ephemeral list" where
  "list_active_ephemerals st ws =
     ordered_by t_created
       (filter (\<lambda>t. t_status t = EActive \<and> ws_or_global ws (t_ws t) \<and>
          (\<exists>s \<in> set (sessions st). s_id s = t_session t \<and> s_status s = Active)) (ephemerals st))"

definition list_ephemerals_for_session :: "store \<Rightarrow> ident \<Rightarrow> ephemeral list" where
  "list_ephemerals_for_session st i =
     ordered_by t_created
       (filter (\<lambda>t. t_session t = i \<and> t_status t = EActive) (ephemerals st))"

definition reap_ephemeral :: "store \<Rightarrow> ms \<Rightarrow> ident \<Rightarrow> store" where
  "reap_ephemeral st now i =
     st\<lparr>ephemerals := update_where (\<lambda>t. t_id t = i \<and> t_status t = EActive)
       (\<lambda>t. t\<lparr>t_status := EReaped, t_reaped := Some (db_time now), t_updated := db_time now\<rparr>)
       (ephemerals st)\<rparr>"

definition reap_ephemerals_for_session :: "store \<Rightarrow> ms \<Rightarrow> ident \<Rightarrow> store \<times> ident list" where
  "reap_ephemerals_for_session st now i =
     (let active = list_ephemerals_for_session st i in
      if active = [] then (st, [])
      else (st\<lparr>ephemerals := update_where (\<lambda>t. t_session t = i \<and> t_status t = EActive)
              (\<lambda>t. t\<lparr>t_status := EReaped, t_reaped := Some (db_time now),
                      t_updated := db_time now\<rparr>) (ephemerals st)\<rparr>, map t_id active))"

section \<open>Per-monitor state and history\<close>

definition monitor_state_key :: "string \<Rightarrow> string option \<Rightarrow> monitor_row \<Rightarrow> bool" where
  "monitor_state_key mon ws r = (r_monitor r = mon \<and> ws_is ws (r_ws r))"

definition get_monitor_state :: "store \<Rightarrow> string \<Rightarrow> string option \<Rightarrow> runtime_state" where
  "get_monitor_state st mon ws =
     (case find (monitor_state_key mon ws) (monitor_rows st) of
        None \<Rightarrow> \<lparr>rs_last_observation = None, rs_source_state = None, rs_notify = empty_notify\<rparr>
      | Some r \<Rightarrow> \<lparr>rs_last_observation = r_last_observation r,
                   rs_source_state = Some (r_source_state r), rs_notify = r_notify r\<rparr>)"

definition set_monitor_state ::
  "store \<Rightarrow> ms \<Rightarrow> string \<Rightarrow> string option \<Rightarrow> json option \<Rightarrow> notify_state \<Rightarrow> ms option \<Rightarrow> store" where
  "set_monitor_state st now mon ws source notify seen =
     (let write = (\<lambda>r. r\<lparr>r_last_observation := map_option db_time seen,
                        r_source_state := json_or_empty source, r_notify := notify,
                        r_updated := db_time now\<rparr>) in
      case find (monitor_state_key mon ws) (monitor_rows st) of
        Some r \<Rightarrow> st\<lparr>monitor_rows := update_where (monitor_state_key mon ws) write (monitor_rows st)\<rparr>
      | None \<Rightarrow> st\<lparr>monitor_rows := monitor_rows st @
          [write \<lparr>r_monitor = mon, r_ws = ws, r_last_observation = None, r_source_state = JNull,
                  r_notify = empty_notify, r_updated = 0\<rparr>]\<rparr>)"

definition record_history ::
  "store \<Rightarrow> ms \<Rightarrow> string \<Rightarrow> string option \<Rightarrow> string \<Rightarrow> outcome \<Rightarrow> json \<Rightarrow> store" where
  "record_history st now mon ws src result data =
     st\<lparr>history := history st @
       [\<lparr>h_monitor = mon, h_ws = ws, h_source = src, h_result = result, h_data = data,
         h_created = db_time now\<rparr>]\<rparr>"

end
