(* ===== verification/AM_NetCollapse.thy ===== *)
theory AM_NetCollapse
  imports AM_Types AM_Text
begin

text \<open>
  The per-recipient \<open>net\<close> collapse of \<open>runtime/store.ts\<close>: \<open>netCollapseGroupKey\<close> and the pure
  decision \<open>computeNetCollapseView\<close>. Of the candidate events that share a group key only the
  newest is delivered; the others are suppressed. The maps the code builds are association
  lists here, updated as \<open>Map.set\<close> updates.
\<close>

definition nul :: char where
  "nul = CHR 0x00"

definition collapsible :: "event \<Rightarrow> bool" where
  "collapsible e = (e_baseline e = Some Net \<and> e_snapshot e \<noteq> None \<and> e_object e \<noteq> None)"

definition net_collapse_group_key :: "event \<Rightarrow> string" where
  "net_collapse_group_key e =
     (if \<not> collapsible e then ''singleton:'' @ e_id e
      else join [nul] [e_monitor e, default (e_object e) [], default (e_ws e) []])"

definition event_key :: "event \<Rightarrow> ms \<times> ident" where
  "event_key e = (e_created e, e_id e)"

record net_view =
  nv_delivered :: "event list"
  nv_suppressed :: "ident list"
  nv_group_of :: "ident \<rightharpoonup> string"
  nv_sizes :: "string \<rightharpoonup> nat"

text \<open>The first loop: the newest event and the number of events of each group.\<close>

definition newest_net :: "event list \<Rightarrow> string \<rightharpoonup> event" where
  "newest_net ordered =
     foldl (\<lambda>m e. if collapsible e then m(net_collapse_group_key e \<mapsto> e) else m) Map.empty ordered"

definition net_sizes :: "event list \<Rightarrow> string \<rightharpoonup> nat" where
  "net_sizes ordered =
     foldl (\<lambda>m e. if collapsible e
         then m(net_collapse_group_key e \<mapsto> default (m (net_collapse_group_key e)) 0 + 1) else m)
       Map.empty ordered"

definition compute_net_collapse_view :: "event list \<Rightarrow> net_view" where
  "compute_net_collapse_view candidates =
     (let ordered = ordered_by event_key candidates;
          newest = newest_net ordered;
          sizes = net_sizes ordered;
          groups = (\<lambda>i. map_option net_collapse_group_key
                     (find (\<lambda>e. e_id e = i) (rev candidates)));
          shown = (\<lambda>e. case newest (default (groups (e_id e)) (net_collapse_group_key e)) of
                     None \<Rightarrow> True | Some n \<Rightarrow> e_id n = e_id e) in
      if \<not> (\<exists>e \<in> set candidates. collapsible e) then
        \<lparr>nv_delivered = candidates, nv_suppressed = [], nv_group_of = groups, nv_sizes = sizes\<rparr>
      else
        \<lparr>nv_delivered = filter shown candidates,
          nv_suppressed = map e_id (filter (\<lambda>e. \<not> shown e) candidates),
          nv_group_of = groups, nv_sizes = sizes\<rparr>)"

section \<open>What the collapse decides\<close>

lemma newest_net_snoc:
  "newest_net (es @ [e]) =
     (if collapsible e then (newest_net es)(net_collapse_group_key e \<mapsto> e) else newest_net es)"
  by (simp add: newest_net_def)

lemma net_sizes_snoc:
  "net_sizes (es @ [e]) =
     (if collapsible e then (net_sizes es)(net_collapse_group_key e \<mapsto>
         default (net_sizes es (net_collapse_group_key e)) 0 + 1) else net_sizes es)"
  by (simp add: net_sizes_def)

lemma newest_net_sound:
  assumes "newest_net es k = Some n"
  shows "n \<in> set es" and "collapsible n" and "net_collapse_group_key n = k"
  using assms
  by (induction es rule: rev_induct)
     (auto simp: newest_net_snoc newest_net_def split: if_splits)

lemma newest_net_newest:
  assumes "sorted (map event_key es)" and "newest_net es k = Some n"
    and "x \<in> set es" and "collapsible x" and "net_collapse_group_key x = k"
  shows "event_key x \<le> event_key n"
  using assms
proof (induction es rule: rev_induct)
  case (snoc e es)
  then show ?case
    by (cases "x = e"; cases "n = e")
       (auto simp: newest_net_snoc sorted_append split: if_splits dest: newest_net_sound)
qed simp

lemma newest_net_complete:
  "x \<in> set es \<Longrightarrow> collapsible x \<Longrightarrow> \<exists>n. newest_net es (net_collapse_group_key x) = Some n"
  by (induction es rule: rev_induct) (auto simp: newest_net_snoc)

lemma net_sizes_count:
  "net_sizes es k =
     (let n = length (filter (\<lambda>e. collapsible e \<and> net_collapse_group_key e = k) es)
      in if n = 0 then None else Some n)"
proof (induction es rule: rev_induct)
  case Nil
  then show ?case by (simp add: net_sizes_def)
next
  case (snoc e es)
  then show ?case by (auto simp: net_sizes_snoc Let_def split: if_splits)
qed

text \<open>The group's newest candidate, and whether a candidate is it.\<close>

definition group_newest :: "event list \<Rightarrow> event \<Rightarrow> event option" where
  "group_newest cands e = newest_net (ordered_by event_key cands) (net_collapse_group_key e)"

definition net_shown :: "event list \<Rightarrow> event \<Rightarrow> bool" where
  "net_shown cands e = (case group_newest cands e of None \<Rightarrow> True | Some n \<Rightarrow> e_id n = e_id e)"

lemma group_of_event:
  assumes "distinct (map e_id cands)" and "e \<in> set cands"
  shows "find (\<lambda>x. e_id x = e_id e) (rev cands) = Some e"
  using assms by (intro find_Some_iff_unique) (auto simp: rev_map [symmetric])

lemma no_newest_without_collapsible:
  "\<not> (\<exists>e \<in> set cands. collapsible e) \<Longrightarrow> group_newest cands e = None"
  using newest_net_sound(1,2) [of "ordered_by event_key cands"]
  by (cases "group_newest cands e") (fastforce simp: group_newest_def)+

lemma net_view_delivered:
  assumes "distinct (map e_id cands)"
  shows "nv_delivered (compute_net_collapse_view cands) = filter (net_shown cands) cands"
proof (cases "\<exists>e \<in> set cands. collapsible e")
  case True
  then show ?thesis
    using group_of_event [OF assms]
    by (auto simp: compute_net_collapse_view_def Let_def net_shown_def group_newest_def
        intro!: filter_cong)
next
  case False
  then show ?thesis
    by (simp add: compute_net_collapse_view_def Let_def net_shown_def
        no_newest_without_collapsible)
qed

lemma net_view_suppressed:
  assumes "distinct (map e_id cands)"
  shows "nv_suppressed (compute_net_collapse_view cands) =
           map e_id (filter (\<lambda>e. \<not> net_shown cands e) cands)"
proof (cases "\<exists>e \<in> set cands. collapsible e")
  case True
  then show ?thesis
    using group_of_event [OF assms]
    by (auto simp: compute_net_collapse_view_def Let_def net_shown_def group_newest_def
        intro!: map_cong filter_cong)
next
  case False
  then show ?thesis
    by (simp add: compute_net_collapse_view_def Let_def net_shown_def
        no_newest_without_collapsible)
qed

lemmas net_view = net_view_delivered net_view_suppressed

lemma group_newest_facts:
  assumes "group_newest cands e = Some n"
  shows "n \<in> set cands" and "collapsible n"
    and "net_collapse_group_key n = net_collapse_group_key e"
    and "\<And>x. x \<in> set cands \<Longrightarrow> collapsible x \<Longrightarrow>
           net_collapse_group_key x = net_collapse_group_key e \<Longrightarrow> event_key x \<le> event_key n"
  using assms newest_net_sound [of "ordered_by event_key cands"]
    newest_net_newest [OF sorted_ordered_by, where rows1 = cands]
  by (auto simp: group_newest_def)

lemma group_newest_same_group:
  "net_collapse_group_key a = net_collapse_group_key b \<Longrightarrow> group_newest cands a = group_newest cands b"
  by (simp add: group_newest_def)

text \<open>A suppressed candidate has a delivered one of its group that is at least as new.\<close>

lemma suppressed_has_newer:
  assumes "distinct (map e_id cands)" and "e \<in> set cands" and "\<not> net_shown cands e"
    and "collapsible e"
  obtains n where "n \<in> set cands" and "net_shown cands n" and "event_key e \<le> event_key n"
    and "net_collapse_group_key n = net_collapse_group_key e" and "e_id n \<noteq> e_id e"
proof -
  obtain n where n: "group_newest cands e = Some n" and ne: "e_id n \<noteq> e_id e"
    using assms(3) by (auto simp: net_shown_def split: option.splits)
  note f = group_newest_facts [OF n]
  have "net_shown cands n"
    using n group_newest_same_group [OF f(3)] by (simp add: net_shown_def)
  with f ne assms that show ?thesis by blast
qed

text \<open>Restricting the candidates to some of their groups changes no decision inside them.\<close>

lemma newest_net_filter:
  assumes "G k"
  shows "newest_net (filter (\<lambda>e. G (net_collapse_group_key e)) es) k = newest_net es k"
  using assms by (induction es rule: rev_induct) (auto simp: newest_net_snoc newest_net_def)

lemma group_newest_filter:
  assumes "G (net_collapse_group_key e)"
  shows "group_newest (filter (\<lambda>e. G (net_collapse_group_key e)) cands) e = group_newest cands e"
  using newest_net_filter [of G, OF assms]
  by (simp add: group_newest_def filter_ordered_by [symmetric])

lemma net_shown_filter:
  assumes "G (net_collapse_group_key e)"
  shows "net_shown (filter (\<lambda>e. G (net_collapse_group_key e)) cands) e = net_shown cands e"
  by (simp add: net_shown_def group_newest_filter [of G, OF assms])

end
