(* ===== verification/AM_Reservations.thy ===== *)
theory AM_Reservations
  imports AM_Types
begin

text \<open>
  The in-memory registry of uncommitted delivery reservations,
  \<open>runtime/delivery-reservations.ts\<close>: its \<open>Map\<close> in insertion order, the operations \<open>add\<close>,
  \<open>take\<close>, \<open>remove\<close> and \<open>reservedEventIds\<close> (with its pruning of expired entries), and the
  interface \<open>lease_registry\<close> the delivery protocol relies on.
\<close>

definition default_reservation_ttl_ms :: ms where
  "default_reservation_ttl_ms = 30000"

record plan =
  rv_session :: ident
  rv_candidates :: "event list"
  rv_recap :: bool
  rv_claim :: claim
  rv_expires :: ms

record registry =
  rg_ttl :: ms
  rg_plans :: "(ident \<times> plan) list"

definition empty_registry :: "ms option \<Rightarrow> registry" where
  "empty_registry ttl = \<lparr>rg_ttl = default ttl default_reservation_ttl_ms, rg_plans = []\<rparr>"

text \<open>\<open>Map.set\<close> of the plan under the drawn identifier, \<open>expiresAt\<close> filled in.\<close>

definition reservation_add :: "registry \<Rightarrow> ms \<Rightarrow> ident \<Rightarrow> plan \<Rightarrow> registry" where
  "reservation_add reg now i p =
     (let p' = p\<lparr>rv_expires := now + rg_ttl reg\<rparr> in
      reg\<lparr>rg_plans := (if map_of (rg_plans reg) i = None then rg_plans reg @ [(i, p')]
         else map (\<lambda>(j, q). if j = i then (j, p') else (j, q)) (rg_plans reg))\<rparr>)"

definition reservation_delete :: "registry \<Rightarrow> ident \<Rightarrow> registry" where
  "reservation_delete reg i = reg\<lparr>rg_plans := filter (\<lambda>(j, q). j \<noteq> i) (rg_plans reg)\<rparr>"

definition reservation_take :: "registry \<Rightarrow> ms \<Rightarrow> ident \<Rightarrow> registry \<times> plan option" where
  "reservation_take reg now i =
     (reservation_delete reg i,
      case map_of (rg_plans reg) i of
        None \<Rightarrow> None
      | Some p \<Rightarrow> if rv_expires p \<le> now then None else Some p)"

definition reservation_remove :: "registry \<Rightarrow> ident \<Rightarrow> registry \<times> plan option" where
  "reservation_remove reg i = (reservation_delete reg i, map_of (rg_plans reg) i)"

definition reservation_prune :: "registry \<Rightarrow> ms \<Rightarrow> registry" where
  "reservation_prune reg now =
     reg\<lparr>rg_plans := filter (\<lambda>(j, p). \<not> rv_expires p \<le> now) (rg_plans reg)\<rparr>"

fun leased_loop :: "(ident \<times> plan) list \<Rightarrow> ms \<Rightarrow> ident \<Rightarrow> ident set" where
  "leased_loop [] now s = {}"
| "leased_loop ((i, p) # rest) now s =
     (if rv_expires p \<le> now then leased_loop rest now s
      else if rv_session p \<noteq> s then leased_loop rest now s
      else e_id ` set (rv_candidates p) \<union> leased_loop rest now s)"

definition leased :: "registry \<Rightarrow> ms \<Rightarrow> ident \<Rightarrow> ident set" where
  "leased reg now s = leased_loop (rg_plans reg) now s"

definition reserved_event_ids :: "registry \<Rightarrow> ms \<Rightarrow> ident \<Rightarrow> registry \<times> ident set" where
  "reserved_event_ids reg now s = (reservation_prune reg now, leased reg now s)"

section \<open>The registry's laws\<close>

lemma leased_loop_iff:
  "x \<in> leased_loop ps now s \<longleftrightarrow>
     (\<exists>(i, p) \<in> set ps. now < rv_expires p \<and> rv_session p = s \<and> x \<in> e_id ` set (rv_candidates p))"
  by (induction ps now s rule: leased_loop.induct) auto

lemma leased_iff:
  "x \<in> leased reg now s \<longleftrightarrow>
     (\<exists>(i, p) \<in> set (rg_plans reg). now < rv_expires p \<and> rv_session p = s \<and>
        x \<in> e_id ` set (rv_candidates p))"
  by (simp add: leased_def leased_loop_iff)

lemma leased_add:
  assumes "map_of (rg_plans reg) i = None"
  shows "leased (reservation_add reg now i p) later s =
     leased reg later s \<union>
       (if later < now + rg_ttl reg \<and> rv_session p = s then e_id ` set (rv_candidates p) else {})"
  using assms by (auto simp: leased_iff reservation_add_def Let_def)

lemma leased_delete_subset: "leased (reservation_delete reg i) now s \<subseteq> leased reg now s"
  unfolding leased_iff subset_iff reservation_delete_def by fastforce

lemma leased_prune [simp]: "now \<le> later \<Longrightarrow> leased (reservation_prune reg now) later s = leased reg later s"
  by (fastforce simp: leased_iff reservation_prune_def)

lemma leased_expired:
  assumes "\<And>i p. (i, p) \<in> set (rg_plans reg) \<Longrightarrow> rv_expires p \<le> now"
  shows "leased reg now s = {}"
  using assms by (force simp: leased_iff)

lemma delete_add:
  assumes "map_of (rg_plans reg) i = None"
  shows "reservation_delete (reservation_add reg now i p) i = reg"
proof -
  have "filter (\<lambda>(j, q). j \<noteq> i) (rg_plans reg) = rg_plans reg"
    using assms by (force simp: map_of_eq_None_iff intro: filter_True)
  with assms show ?thesis by (simp add: reservation_delete_def reservation_add_def Let_def)
qed

lemma lookup_add:
  assumes "map_of (rg_plans reg) i = None"
  shows "map_of (rg_plans (reservation_add reg now i p)) i = Some (p\<lparr>rv_expires := now + rg_ttl reg\<rparr>)"
  using assms by (simp add: reservation_add_def Let_def map_add_Some_iff map_of_append [symmetric] del: map_of_append)
     (simp add: map_add_def)

lemma take_add:
  assumes "map_of (rg_plans reg) i = None"
  shows "reservation_take (reservation_add reg now i p) later i =
     (reg, if later < now + rg_ttl reg then Some (p\<lparr>rv_expires := now + rg_ttl reg\<rparr>) else None)"
  using assms by (simp add: reservation_take_def delete_add lookup_add)

lemma remove_add:
  assumes "map_of (rg_plans reg) i = None"
  shows "reservation_remove (reservation_add reg now i p) i =
     (reg, Some (p\<lparr>rv_expires := now + rg_ttl reg\<rparr>))"
  using assms by (simp add: reservation_remove_def delete_add lookup_add)

text \<open>
  What a transport relies on: a new reservation leases exactly its own candidates and only
  until its deadline, and undoing it, either way, gives the registry back.
\<close>

locale lease_registry =
  fixes add :: "'r \<Rightarrow> ms \<Rightarrow> ident \<Rightarrow> plan \<Rightarrow> 'r"
    and take_plan :: "'r \<Rightarrow> ms \<Rightarrow> ident \<Rightarrow> 'r \<times> plan option"
    and remove_plan :: "'r \<Rightarrow> ident \<Rightarrow> 'r \<times> plan option"
    and leases :: "'r \<Rightarrow> ms \<Rightarrow> ident \<Rightarrow> ident set"
    and ttl :: "'r \<Rightarrow> ms"
    and fresh :: "'r \<Rightarrow> ident \<Rightarrow> bool"
  assumes leases_add: "fresh r i \<Longrightarrow> leases (add r now i p) later s = leases r later s \<union>
      (if later < now + ttl r \<and> rv_session p = s then e_id ` set (rv_candidates p) else {})"
    and take_after_add: "fresh r i \<Longrightarrow> take_plan (add r now i p) later i =
      (r, if later < now + ttl r then Some (p\<lparr>rv_expires := now + ttl r\<rparr>) else None)"
    and remove_after_add: "fresh r i \<Longrightarrow> remove_plan (add r now i p) i =
      (r, Some (p\<lparr>rv_expires := now + ttl r\<rparr>))"
begin

lemma lease_covers:
  "fresh r i \<Longrightarrow> rv_session p = s \<Longrightarrow> later < now + ttl r \<Longrightarrow> e \<in> set (rv_candidates p) \<Longrightarrow>
     e_id e \<in> leases (add r now i p) later s"
  by (simp add: leases_add)

lemma lease_lapses: "fresh r i \<Longrightarrow> now + ttl r \<le> later \<Longrightarrow> leases (add r now i p) later s = leases r later s"
  by (simp add: leases_add)

lemma other_session_unaffected:
  "fresh r i \<Longrightarrow> rv_session p \<noteq> s \<Longrightarrow> leases (add r now i p) later s = leases r later s"
  by (simp add: leases_add)

lemma release_restores: "fresh r i \<Longrightarrow> fst (remove_plan (add r now i p) i) = r"
  by (simp add: remove_after_add)

lemma commit_consumes: "fresh r i \<Longrightarrow> fst (take_plan (add r now i p) later i) = r"
  by (simp add: take_after_add)

end

interpretation leases: lease_registry reservation_add reservation_take reservation_remove leased rg_ttl
  "\<lambda>reg i. map_of (rg_plans reg) i = None"
  by unfold_locales (auto simp: leased_add take_add remove_add)

end
