(* ===== verification/AM_Events.thy ===== *)
theory AM_Events
  imports AM_Store AM_NetCollapse
begin

text \<open>
  The event side of \<open>RuntimeStore\<close>: the unread and pending queries, acknowledgement, the
  per-recipient cursors, the claim (\<open>collapseNetForClaim\<close> and \<open>markClaimed\<close>), the
  transactional \<open>insertEvent\<close>, and the retraction and suppression of object events.
\<close>

section \<open>Queries\<close>

definition not_interpret_suppressed :: "projection \<Rightarrow> bool" where
  "not_interpret_suppressed p = (p_decision p = None \<or> p_decision p \<noteq> Some ISuppress)"

definition not_net_suppressed :: "projection \<Rightarrow> bool" where
  "not_net_suppressed p = (p_net_suppressed p = None)"

definition delivery_state_for_row :: "projection \<Rightarrow> delivery_state" where
  "delivery_state_for_row p =
     (if p_acked p \<noteq> None then DAcknowledged
      else if p_first_notified p \<noteq> None then DClaimed else DUnread)"

text \<open>The inner join of the matching projections with their events.\<close>

definition joined :: "store \<Rightarrow> (projection \<Rightarrow> bool) \<Rightarrow> event list" where
  "joined st P =
     concat (map (\<lambda>p. filter (\<lambda>e. e_id e = p_event p) (events st)) (filter P (projections st)))"

definition urgency_matches :: "urgency option \<Rightarrow> event \<Rightarrow> bool" where
  "urgency_matches u e = (case u of None \<Rightarrow> True | Some w \<Rightarrow> e_urgency e = w)"

definition unread_row :: "ident \<Rightarrow> projection \<Rightarrow> bool" where
  "unread_row s p = (p_session p = s \<and> p_acked p = None \<and> not_interpret_suppressed p \<and>
     not_net_suppressed p)"

definition pending_row :: "ident \<Rightarrow> projection \<Rightarrow> bool" where
  "pending_row s p = (p_session p = s \<and> p_acked p = None \<and> p_first_notified p = None \<and>
     not_interpret_suppressed p \<and> not_net_suppressed p)"

definition unread_events :: "store \<Rightarrow> ident \<Rightarrow> urgency option \<Rightarrow> event list" where
  "unread_events st s u = ordered_by event_key (filter (urgency_matches u) (joined st (unread_row s)))"

definition pending_events :: "store \<Rightarrow> ident \<Rightarrow> urgency option \<Rightarrow> event list" where
  "pending_events st s u = ordered_by event_key (filter (urgency_matches u) (joined st (pending_row s)))"

definition get_event :: "store \<Rightarrow> ident \<Rightarrow> store_error + event" where
  "get_event st i =
     (case find (\<lambda>e. e_id e = i) (events st) of None \<Rightarrow> Inl (EventNotFound i) | Some e \<Rightarrow> Inr e)"

text \<open>The digest and per-recipient diff maps a delivery reads; an empty digest is dropped.\<close>

definition interpret_digests :: "store \<Rightarrow> ident \<Rightarrow> ident list \<Rightarrow> ident \<rightharpoonup> string" where
  "interpret_digests st s ids =
     map_of (rev (concat (map (\<lambda>p. case p_digest p of None \<Rightarrow> [] | Some d \<Rightarrow>
         if d = [] then [] else [(p_event p, d)])
       (filter (\<lambda>p. p_session p = s \<and> p_event p \<in> set ids) (projections st)))))"

definition per_recipient_diffs :: "store \<Rightarrow> ident \<Rightarrow> ident list \<Rightarrow> ident \<rightharpoonup> string" where
  "per_recipient_diffs st s ids =
     map_of (rev (concat (map (\<lambda>p. case p_diff p of None \<Rightarrow> [] | Some d \<Rightarrow> [(p_event p, d)])
       (filter (\<lambda>p. p_session p = s \<and> p_event p \<in> set ids) (projections st)))))"

section \<open>Acknowledgement, claim marks, verdicts\<close>

definition row_in :: "ident \<Rightarrow> ident list \<Rightarrow> projection \<Rightarrow> bool" where
  "row_in s ids p = (p_session p = s \<and> p_event p \<in> set ids)"

definition acknowledge_events :: "store \<Rightarrow> ms \<Rightarrow> ident \<Rightarrow> ident list \<Rightarrow> store" where
  "acknowledge_events st now s ids =
     (if ids = [] then st
      else st\<lparr>projections := update_where (row_in s ids)
        (\<lambda>p. p\<lparr>p_acked := Some (db_time now), p_updated := db_time now\<rparr>) (projections st)\<rparr>)"

definition record_interpret ::
  "store \<Rightarrow> ms \<Rightarrow> ident \<Rightarrow> ident \<Rightarrow> interpret_decision \<Rightarrow> string option \<Rightarrow> string option \<Rightarrow> store" where
  "record_interpret st now s i decision reason digest =
     st\<lparr>projections := update_where (\<lambda>p. p_session p = s \<and> p_event p = i)
       (\<lambda>p. p\<lparr>p_decision := Some decision, p_reason := reason, p_digest := digest,
               p_updated := db_time now\<rparr>) (projections st)\<rparr>"

definition mark_net_suppressed :: "store \<Rightarrow> ms \<Rightarrow> ident \<Rightarrow> ident list \<Rightarrow> store" where
  "mark_net_suppressed st now s ids =
     (if ids = [] then st
      else st\<lparr>projections := update_where (row_in s ids)
        (\<lambda>p. p\<lparr>p_net_suppressed := Some (db_time now), p_updated := db_time now\<rparr>)
        (projections st)\<rparr>)"

definition set_per_recipient_diff :: "store \<Rightarrow> ms \<Rightarrow> ident \<Rightarrow> ident \<Rightarrow> string \<Rightarrow> store" where
  "set_per_recipient_diff st now s i d =
     st\<lparr>projections := update_where (\<lambda>p. p_session p = s \<and> p_event p = i)
       (\<lambda>p. p\<lparr>p_diff := Some d, p_updated := db_time now\<rparr>) (projections st)\<rparr>"

section \<open>Cursors\<close>

definition cursor_is :: "ident \<Rightarrow> string \<Rightarrow> string \<Rightarrow> string option \<Rightarrow> cursor \<Rightarrow> bool" where
  "cursor_is s mon obj ws c =
     (c_session c = s \<and> c_monitor c = mon \<and> c_object c = obj \<and> c_ws c = ws)"

definition get_cursor :: "store \<Rightarrow> ident \<Rightarrow> string \<Rightarrow> string \<Rightarrow> string option \<Rightarrow> cursor option" where
  "get_cursor st s mon obj ws = find (cursor_is s mon obj ws) (cursors st)"

definition seed_cursor :: "store \<Rightarrow> ms \<Rightarrow> ident \<Rightarrow> string \<Rightarrow> string \<Rightarrow> string option \<Rightarrow>
    ident option \<Rightarrow> string \<Rightarrow> store" where
  "seed_cursor st now s mon obj ws snap content =
     (case get_cursor st s mon obj ws of
        Some _ \<Rightarrow> st
      | None \<Rightarrow> st\<lparr>cursors := cursors st @
          [\<lparr>c_session = s, c_monitor = mon, c_object = obj, c_ws = ws, c_snapshot_id = snap,
            c_content = content, c_updated = db_time now\<rparr>]\<rparr>)"

definition advance_cursor :: "store \<Rightarrow> ms \<Rightarrow> ident \<Rightarrow> string \<Rightarrow> string \<Rightarrow> string option \<Rightarrow>
    ident option \<Rightarrow> string \<Rightarrow> store" where
  "advance_cursor st now s mon obj ws snap content =
     (case get_cursor st s mon obj ws of
        Some _ \<Rightarrow> st\<lparr>cursors := update_where (cursor_is s mon obj ws)
          (\<lambda>c. c\<lparr>c_snapshot_id := snap, c_content := content, c_updated := db_time now\<rparr>)
          (cursors st)\<rparr>
      | None \<Rightarrow> st\<lparr>cursors := cursors st @
          [\<lparr>c_session = s, c_monitor = mon, c_object = obj, c_ws = ws, c_snapshot_id = snap,
            c_content = content, c_updated = db_time now\<rparr>]\<rparr>)"

record cursor_target =
  ct_monitor :: string
  ct_object :: string
  ct_ws :: "string option"
  ct_event :: ident
  ct_artifact :: string

definition object_key_of :: "string \<Rightarrow> string \<Rightarrow> string option \<Rightarrow> string" where
  "object_key_of mon obj ws = join [nul] [mon, obj, default ws []]"

definition newest_by_object :: "event list \<Rightarrow> (string \<times> cursor_target) list" where
  "newest_by_object rows =
     foldl (\<lambda>m e. case (e_snapshot e, e_object e) of
         (Some artifact, Some obj) \<Rightarrow>
           map_set m (object_key_of (e_monitor e) obj (e_ws e))
             \<lparr>ct_monitor = e_monitor e, ct_object = obj, ct_ws = e_ws e, ct_event = e_id e,
               ct_artifact = artifact\<rparr>
       | _ \<Rightarrow> m) [] rows"

definition advance_cursors_for_claimed :: "store \<Rightarrow> ms \<Rightarrow> ident \<Rightarrow> ident list \<Rightarrow> store" where
  "advance_cursors_for_claimed st now s ids =
     (let rows = ordered_by event_key (filter (\<lambda>e. e_id e \<in> set ids) (events st)) in
      foldl (\<lambda>st' (k, t). advance_cursor st' now s (ct_monitor t) (ct_object t) (ct_ws t)
          (Some (ct_event t)) (ct_artifact t)) st (newest_by_object rows))"

definition mark_claimed :: "store \<Rightarrow> ms \<Rightarrow> ident \<Rightarrow> ident list \<Rightarrow> lifecycle \<Rightarrow> store" where
  "mark_claimed st now s ids l =
     (if ids = [] then st
      else advance_cursors_for_claimed
        (st\<lparr>projections := update_where (row_in s ids)
          (\<lambda>p. p\<lparr>p_first_notified := Some (db_time now), p_last_claim := Some (db_time now),
                  p_claim_lifecycle := Some l, p_updated := db_time now\<rparr>) (projections st)\<rparr>)
        now s ids)"

section \<open>The net collapse at claim time\<close>

text \<open>The loop over the delivered events re-anchors the diff of each multi-event group's newest.\<close>

definition reanchor :: "(string \<Rightarrow> string \<Rightarrow> string option \<Rightarrow> string) \<Rightarrow> ms \<Rightarrow> ident \<Rightarrow> net_view \<Rightarrow>
    store \<Rightarrow> event \<Rightarrow> store" where
  "reanchor bd now s view st e =
     (case (collapsible e, e_snapshot e, e_object e) of
        (True, Some artifact, Some obj) \<Rightarrow>
          (let size = (case nv_group_of view (e_id e) of
               None \<Rightarrow> 1 | Some k \<Rightarrow> default (nv_sizes view k) 1) in
           if size \<le> 1 then st
           else (case get_cursor st s (e_monitor e) obj (e_ws e) of
               None \<Rightarrow> st
             | Some c \<Rightarrow> set_per_recipient_diff st now s (e_id e)
                 (bd (c_content c) artifact (change_detection_strategy_of (e_meta e)))))
      | _ \<Rightarrow> st)"

definition collapse_net_for_claim :: "(string \<Rightarrow> string \<Rightarrow> string option \<Rightarrow> string) \<Rightarrow> store \<Rightarrow> ms \<Rightarrow>
    ident \<Rightarrow> event list \<Rightarrow> store \<times> event list" where
  "collapse_net_for_claim bd st now s candidates =
     (let view = compute_net_collapse_view candidates in
      if \<not> (\<exists>e \<in> set candidates. collapsible e) then (st, candidates)
      else (mark_net_suppressed (foldl (reanchor bd now s view) st (nv_delivered view))
              now s (nv_suppressed view), nv_delivered view))"

section \<open>Materializing an event\<close>

definition save_snapshot :: "store \<Rightarrow> ms \<Rightarrow> ident \<Rightarrow> string option \<Rightarrow> string \<Rightarrow> string \<Rightarrow> ident \<Rightarrow>
    string \<Rightarrow> store" where
  "save_snapshot st now new_id ws mon obj ev content =
     st\<lparr>snapshots := snapshots st @
       [\<lparr>n_id = new_id, n_ws = ws, n_monitor = mon, n_object = obj, n_event = ev,
         n_content = content, n_created = db_time now\<rparr>]\<rparr>"

definition latest_snapshot :: "store \<Rightarrow> string \<Rightarrow> string \<Rightarrow> string option \<Rightarrow> string option" where
  "latest_snapshot st mon obj ws =
     map_option n_content (newest_by (\<lambda>n. (n_created n, n_id n))
       (filter (\<lambda>n. n_monitor n = mon \<and> n_object n = obj \<and> n_ws n = ws) (snapshots st)))"

text \<open>One lead session's projection: its own diff, its seeded cursor and its row.\<close>

definition project_to :: "(string \<Rightarrow> string \<Rightarrow> string option \<Rightarrow> string) \<Rightarrow> ms \<Rightarrow> event \<Rightarrow>
    string option \<Rightarrow> store \<Rightarrow> session \<Rightarrow> store" where
  "project_to bd now e previous st s =
     (let strategy = change_detection_strategy_of (e_meta e);
          (st', diff) =
            (case (e_snapshot e, e_object e) of
               (Some artifact, Some obj) \<Rightarrow>
                 (case get_cursor st (s_id s) (e_monitor e) obj (e_ws e) of
                    Some c \<Rightarrow> (st, Some (bd (c_content c) artifact strategy))
                  | None \<Rightarrow>
                     (seed_cursor st now (s_id s) (e_monitor e) obj (e_ws e)
                        (if previous \<noteq> None then None else Some (e_id e))
                        (default previous artifact),
                      map_option (\<lambda>p. bd p artifact strategy) previous))
             | _ \<Rightarrow> (st, None)) in
      st'\<lparr>projections := projections st' @
        [\<lparr>p_session = s_id s, p_event = e_id e, p_first_notified = None, p_acked = None,
          p_last_claim = None, p_claim_lifecycle = None, p_diff = diff, p_decision = None,
          p_reason = None, p_digest = None, p_net_suppressed = None,
          p_created = e_created e, p_updated = e_created e\<rparr>]\<rparr>)"

definition projection_targets :: "store \<Rightarrow> event \<Rightarrow> ident option \<Rightarrow> session list" where
  "projection_targets st e restrict =
     (if restrict = None \<or>
         (case find_ephemeral st (e_monitor e) of None \<Rightarrow> False | Some t \<Rightarrow> t_status t = EActive)
      then filter (\<lambda>s. s_role s = Lead \<and>
             (case restrict of None \<Rightarrow> True | Some i \<Rightarrow> s_id s = i \<and> s_status s = Active))
             (sessions_for_workspace st (e_ws e))
      else [])"

text \<open>
  The transaction: the event row as it is read back, the projections in the order of the
  sessions, then the snapshot. The error rolls everything back. \<open>eid\<close> and \<open>nid\<close> are the
  ULIDs drawn for the event and the snapshot.
\<close>

definition insert_event :: "(string \<Rightarrow> string \<Rightarrow> string option \<Rightarrow> string) \<Rightarrow> store \<Rightarrow> ms \<Rightarrow> ident \<Rightarrow>
    ident \<Rightarrow> event \<Rightarrow> string option \<Rightarrow> ident option \<Rightarrow> store_error + (store \<times> event)" where
  "insert_event bd st now eid nid inp previous restrict =
     (let e = inp\<lparr>e_id := eid, e_payload := json_or_empty (Some (e_payload inp)),
                  e_meta := json_or_empty (Some (e_meta inp)), e_created := db_time (e_created inp)\<rparr>;
          st1 = st\<lparr>events := events st @ [e]\<rparr>;
          targets = projection_targets st1 e restrict;
          st2 = foldl (project_to bd now e previous) st1 targets in
      case (e_snapshot e, e_object e) of
        (Some artifact, None) \<Rightarrow> Inl SnapshotNeedsObjectKey
      | (Some artifact, Some obj) \<Rightarrow>
          Inr ((save_snapshot st2 now nid (e_ws e) (e_monitor e) obj eid artifact)
                 \<lparr>last_projected := map s_id targets\<rparr>, e)
      | (None, _) \<Rightarrow> Inr (st2\<lparr>last_projected := map s_id targets\<rparr>, e))"

section \<open>Retraction and suppression of an object's events\<close>

text \<open>\<open>workspacePath\<close> of a retraction: absent, or present (perhaps null).\<close>

definition affected_sessions :: "store \<Rightarrow> ident list \<Rightarrow> ident list" where
  "affected_sessions st ids =
     rev (remdups (rev (map p_session (filter (\<lambda>p. p_event p \<in> set ids) (projections st)))))"

definition delete_resolved :: "store \<Rightarrow> ident list \<Rightarrow> string option option \<Rightarrow> string \<Rightarrow> string \<Rightarrow>
    store \<times> ident list \<times> ident list" where
  "delete_resolved st removed ws mon obj =
     (if removed = [] then (st, removed, [])
      else let affected = affected_sessions st removed;
               st1 = st\<lparr>projections := delete_where (\<lambda>p. p_event p \<in> set removed) (projections st),
                        snapshots := delete_where (\<lambda>n. n_event n \<in> set removed) (snapshots st),
                        events := delete_where (\<lambda>e. e_id e \<in> set removed) (events st)\<rparr>;
               st2 = (if affected = [] then st1
                      else st1\<lparr>cursors := delete_where (\<lambda>c. c_monitor c = mon \<and> c_object c = obj \<and>
                          c_session c \<in> set affected \<and>
                          (case ws of None \<Rightarrow> True
                           | Some None \<Rightarrow> c_ws c = None
                           | Some (Some w) \<Rightarrow> c_ws c = Some w \<or> c_ws c = None)) (cursors st1)\<rparr>) in
           (st2, removed, affected))"

definition retract_object_events :: "store \<Rightarrow> string option option \<Rightarrow> string \<Rightarrow> string \<Rightarrow> ident list \<Rightarrow>
    store \<times> ident list \<times> ident list" where
  "retract_object_events st ws mon obj ids =
     (if ids = [] then (st, [], [])
      else delete_resolved st
        (map e_id (filter (\<lambda>e. e_monitor e = mon \<and> e_id e \<in> set ids) (events st))) ws mon obj)"

definition retract_object_events_by_key :: "store \<Rightarrow> string option option \<Rightarrow> string \<Rightarrow> string \<Rightarrow>
    store \<times> ident list \<times> ident list" where
  "retract_object_events_by_key st ws mon obj =
     delete_resolved st
       (map e_id (filter (\<lambda>e. e_monitor e = mon \<and> e_object e = Some obj \<and>
          (case ws of None \<Rightarrow> True | Some w \<Rightarrow> e_ws e = w)) (events st))) ws mon obj"

definition upsert_suppression :: "store \<Rightarrow> string \<Rightarrow> string \<Rightarrow> string option \<Rightarrow> string option \<Rightarrow> ms \<Rightarrow> ms \<Rightarrow>
    store" where
  "upsert_suppression st mon obj ws reason created expires =
     st\<lparr>suppressions := delete_where
         (\<lambda>x. x_monitor x = mon \<and> x_object x = obj \<and> x_ws x = ws) (suppressions st) @
       [\<lparr>x_monitor = mon, x_object = obj, x_ws = ws, x_reason = default reason ''verify-scratch'',
         x_created = db_time created, x_expires = db_time expires\<rparr>]\<rparr>"

definition active_suppressions :: "store \<Rightarrow> string option \<Rightarrow> ms \<Rightarrow> suppression list" where
  "active_suppressions st ws now =
     filter (\<lambda>x. x_expires x > db_time now \<and>
        (case ws of None \<Rightarrow> True | Some w \<Rightarrow> x_ws x = Some w \<or> x_ws x = None)) (suppressions st)"

definition purge_suppressions :: "store \<Rightarrow> ms \<Rightarrow> store" where
  "purge_suppressions st now =
     st\<lparr>suppressions := delete_where (\<lambda>x. x_expires x \<le> db_time now) (suppressions st)\<rparr>"

end
