(* ===== verification/AM_StoreInv.thy ===== *)
theory AM_StoreInv
  imports AM_Events
begin

text \<open>
  The store's well-formedness and that every operation keeps it, the frame facts (which
  tables an operation leaves alone, collection \<open>frame\<close>), and how the queries read the tables.
\<close>

definition row_key :: "projection \<Rightarrow> ident \<times> ident" where
  "row_key p = (p_session p, p_event p)"

definition cursor_key :: "cursor \<Rightarrow> ident \<times> string \<times> string \<times> string option" where
  "cursor_key c = (c_session c, c_monitor c, c_object c, c_ws c)"

definition wf_store :: "store \<Rightarrow> bool" where
  "wf_store st =
     (distinct (map s_id (sessions st)) \<and> distinct (map e_id (events st)) \<and>
      distinct (map row_key (projections st)) \<and>
      (\<forall>p \<in> set (projections st). p_session p \<in> s_id ` set (sessions st) \<and>
          p_event p \<in> e_id ` set (events st)) \<and>
      distinct (map cursor_key (cursors st)) \<and>
      (\<forall>i \<in> e_id ` set (events st). nul \<notin> set i))"

text \<open>A drawn event ULID is new and is Crockford base-32 text, so it holds no NUL.\<close>

definition fresh_ulid :: "store \<Rightarrow> ident \<Rightarrow> bool" where
  "fresh_ulid st i = (i \<notin> e_id ` set (events st) \<and> nul \<notin> set i)"

lemma wf_store_empty: "wf_store empty_store"
  by (simp add: wf_store_def empty_store_def)

lemma wf_store_ids: "wf_store st \<Longrightarrow> e \<in> set (events st) \<Longrightarrow> nul \<notin> set (e_id e)"
  by (auto simp: wf_store_def)

lemma wf_storeD:
  assumes "wf_store st"
  shows "distinct (map s_id (sessions st))" and "distinct (map e_id (events st))"
    and "distinct (map row_key (projections st))" and "distinct (map cursor_key (cursors st))"
    and "p \<in> set (projections st) \<Longrightarrow> p_session p \<in> s_id ` set (sessions st)"
    and "p \<in> set (projections st) \<Longrightarrow> p_event p \<in> e_id ` set (events st)"
  using assms by (auto simp: wf_store_def)

text \<open>
  An operation that rewrites rows under their keys and keeps the events keeps the store
  well-formed: the one argument behind every update below.
\<close>

lemma wf_store_same_keys:
  assumes "wf_store st"
    and "map s_id (sessions st') = map s_id (sessions st)" and "map e_id (events st') = map e_id (events st)"
    and "map row_key (projections st') = map row_key (projections st)"
    and "distinct (map cursor_key (cursors st'))"
  shows "wf_store st'"
proof -
  have ids: "s_id ` set (sessions st') = s_id ` set (sessions st)"
    "e_id ` set (events st') = e_id ` set (events st)"
    using assms(2,3) by (metis list.set_map)+
  have rows: "row_key ` set (projections st') = row_key ` set (projections st)"
    using assms(4) by (metis list.set_map)
  have "p_session p \<in> s_id ` set (sessions st') \<and> p_event p \<in> e_id ` set (events st')"
    if "p \<in> set (projections st')" for p
  proof -
    from that rows have "row_key p \<in> row_key ` set (projections st)" by blast
    then obtain q where "q \<in> set (projections st)" "row_key q = row_key p" by auto
    with wf_storeD(5,6) [OF assms(1), of q] show ?thesis by (simp add: ids row_key_def)
  qed
  moreover have "\<forall>i \<in> e_id ` set (events st'). nul \<notin> set i"
    using assms(1) unfolding wf_store_def ids by blast
  moreover from assms(1) have "distinct (map s_id (sessions st))" "distinct (map e_id (events st))"
      "distinct (map row_key (projections st))"
    by (simp_all only: wf_store_def)
  ultimately show ?thesis using assms(2-5) unfolding wf_store_def by metis
qed

section \<open>Frames\<close>

lemma session_ops_frame [frame, simp]:
  "events (touch_session st now s) = events st" "projections (touch_session st now s) = projections st"
  "cursors (touch_session st now s) = cursors st"
  "events (update_session_recap st now s) = events st"
  "projections (update_session_recap st now s) = projections st"
  "cursors (update_session_recap st now s) = cursors st"
  "events (close_session st now s) = events st" "projections (close_session st now s) = projections st"
  "cursors (close_session st now s) = cursors st"
  by (simp_all add: touch_session_def update_session_recap_def close_session_def)

lemma session_keys [simp]:
  "map s_id (sessions (touch_session st now s)) = map s_id (sessions st)"
  "map s_id (sessions (update_session_recap st now s)) = map s_id (sessions st)"
  "map s_id (sessions (close_session st now s)) = map s_id (sessions st)"
  by (simp_all add: touch_session_def update_session_recap_def close_session_def
      map_key_update_where)

lemma open_session_frame [frame]:
  "events (fst (open_session st now i inp)) = events st"
  "projections (fst (open_session st now i inp)) = projections st"
  "cursors (fst (open_session st now i inp)) = cursors st"
  by (simp_all add: open_session_def split: option.splits)

lemma claim_marks_frame [frame, simp]:
  "events (acknowledge_events st now s ids) = events st"
  "sessions (acknowledge_events st now s ids) = sessions st"
  "cursors (acknowledge_events st now s ids) = cursors st"
  "events (mark_net_suppressed st now s ids) = events st"
  "sessions (mark_net_suppressed st now s ids) = sessions st"
  "cursors (mark_net_suppressed st now s ids) = cursors st"
  "events (set_per_recipient_diff st now s i d) = events st"
  "sessions (set_per_recipient_diff st now s i d) = sessions st"
  "cursors (set_per_recipient_diff st now s i d) = cursors st"
  "events (record_interpret st now s i v r g) = events st"
  "sessions (record_interpret st now s i v r g) = sessions st"
  "cursors (record_interpret st now s i v r g) = cursors st"
  by (simp_all add: acknowledge_events_def mark_net_suppressed_def set_per_recipient_diff_def
      record_interpret_def)

lemma cursor_ops_frame [frame, simp]:
  "events (advance_cursor st now s m ob ws sn ct) = events st"
  "sessions (advance_cursor st now s m ob ws sn ct) = sessions st"
  "projections (advance_cursor st now s m ob ws sn ct) = projections st"
  "events (seed_cursor st now s m ob ws sn ct) = events st"
  "sessions (seed_cursor st now s m ob ws sn ct) = sessions st"
  "projections (seed_cursor st now s m ob ws sn ct) = projections st"
  by (simp_all add: advance_cursor_def seed_cursor_def split: option.splits)

lemma row_keys [simp]:
  "map row_key (projections (acknowledge_events st now s ids)) = map row_key (projections st)"
  "map row_key (projections (mark_net_suppressed st now s ids)) = map row_key (projections st)"
  "map row_key (projections (set_per_recipient_diff st now s i d)) = map row_key (projections st)"
  "map row_key (projections (record_interpret st now s i v r g)) = map row_key (projections st)"
  by (simp_all add: acknowledge_events_def mark_net_suppressed_def set_per_recipient_diff_def
      record_interpret_def map_key_update_where row_key_def)

text \<open>A fold of operations keeps what each of them keeps.\<close>

lemma foldl_keeps:
  assumes "\<And>st x. x \<in> set xs \<Longrightarrow> g (f st x) = g st"
  shows "g (foldl f st xs) = g st"
  using assms by (induction xs arbitrary: st) auto

lemma foldl_invariant:
  assumes "\<And>st x. x \<in> set xs \<Longrightarrow> I st \<Longrightarrow> I (f st x)" and "I st"
  shows "I (foldl f st xs)"
  using assms by (induction xs arbitrary: st) auto

lemma reanchor_frame [frame, simp]:
  "events (reanchor bd now s view st e) = events st"
  "sessions (reanchor bd now s view st e) = sessions st"
  "cursors (reanchor bd now s view st e) = cursors st"
  "map row_key (projections (reanchor bd now s view st e)) = map row_key (projections st)"
  by (simp_all add: reanchor_def Let_def split: option.splits bool.splits)

lemma advance_cursors_frame [frame, simp]:
  "events (advance_cursors_for_claimed st now s ids) = events st"
  "sessions (advance_cursors_for_claimed st now s ids) = sessions st"
  "projections (advance_cursors_for_claimed st now s ids) = projections st"
  unfolding advance_cursors_for_claimed_def Let_def by (rule foldl_keeps; auto)+

lemma collapse_frame [frame, simp]:
  "events (fst (collapse_net_for_claim bd st now s cs)) = events st"
  "sessions (fst (collapse_net_for_claim bd st now s cs)) = sessions st"
  "cursors (fst (collapse_net_for_claim bd st now s cs)) = cursors st"
  "map row_key (projections (fst (collapse_net_for_claim bd st now s cs))) = map row_key (projections st)"
  unfolding collapse_net_for_claim_def Let_def by (auto intro!: foldl_keeps)

lemma mark_claimed_frame [frame, simp]:
  "events (mark_claimed st now s ids l) = events st"
  "sessions (mark_claimed st now s ids l) = sessions st"
  "map row_key (projections (mark_claimed st now s ids l)) = map row_key (projections st)"
  by (simp_all add: mark_claimed_def map_key_update_where row_key_def)

section \<open>Well-formedness of the cursors\<close>

lemma get_cursor_None: "get_cursor st s m ob ws = None \<longleftrightarrow> (s, m, ob, ws) \<notin> cursor_key ` set (cursors st)"
  by (auto simp: get_cursor_def find_None_iff cursor_is_def cursor_key_def)

lemma get_cursor_Some: "get_cursor st s m ob ws = Some c \<Longrightarrow> c \<in> set (cursors st) \<and> cursor_key c = (s, m, ob, ws)"
  by (auto simp: get_cursor_def cursor_is_def cursor_key_def dest: find_Some_set)

lemma advance_cursor_keys:
  "distinct (map cursor_key (cursors st)) \<Longrightarrow>
     distinct (map cursor_key (cursors (advance_cursor st now s m ob ws sn ct)))"
  by (auto simp: advance_cursor_def map_key_update_where cursor_key_def get_cursor_None
      split: option.splits)

lemma seed_cursor_keys:
  "distinct (map cursor_key (cursors st)) \<Longrightarrow>
     distinct (map cursor_key (cursors (seed_cursor st now s m ob ws sn ct)))"
  by (auto simp: seed_cursor_def cursor_key_def get_cursor_None split: option.splits)

lemma advance_cursors_keys:
  assumes "distinct (map cursor_key (cursors st))"
  shows "distinct (map cursor_key (cursors (advance_cursors_for_claimed st now s ids)))"
  unfolding advance_cursors_for_claimed_def Let_def
  by (rule foldl_invariant) (auto intro: advance_cursor_keys assms)

section \<open>Every operation keeps the store well-formed\<close>

lemma wf_session_ops:
  assumes "wf_store st"
  shows "wf_store (touch_session st now s)" and "wf_store (update_session_recap st now s)"
    and "wf_store (close_session st now s)"
  using assms by (auto intro!: wf_store_same_keys [OF assms] dest: wf_storeD)

lemma wf_marks:
  assumes "wf_store st"
  shows "wf_store (acknowledge_events st now s ids)" and "wf_store (mark_net_suppressed st now s ids)"
    and "wf_store (set_per_recipient_diff st now s i d)" and "wf_store (record_interpret st now s i v r g)"
  using assms by (auto intro!: wf_store_same_keys [OF assms] dest: wf_storeD)

lemma wf_collapse: "wf_store st \<Longrightarrow> wf_store (fst (collapse_net_for_claim bd st now s cs))"
  by (rule wf_store_same_keys) (auto dest: wf_storeD)

lemma mark_claimed_cursor_keys:
  assumes "distinct (map cursor_key (cursors st))"
  shows "distinct (map cursor_key (cursors (mark_claimed st now s ids l)))"
proof (cases "ids = []")
  case False
  then show ?thesis
    using assms by (auto simp: mark_claimed_def intro!: advance_cursors_keys)
qed (simp add: mark_claimed_def assms)

lemma wf_mark_claimed: "wf_store st \<Longrightarrow> wf_store (mark_claimed st now s ids l)"
  by (rule wf_store_same_keys) (auto intro!: mark_claimed_cursor_keys dest: wf_storeD)

text \<open>Opening a session draws a fresh identifier when the host session is new.\<close>

lemma wf_open_session:
  assumes "wf_store st" and "i \<notin> s_id ` set (sessions st)"
  shows "wf_store (fst (open_session st now i inp))"
proof (cases "find (\<lambda>s. s_adapter s = oi_adapter inp \<and> s_host s = oi_host inp) (sessions st)")
  case None
  with assms show ?thesis by (auto simp: open_session_def wf_store_def)
next
  case (Some s)
  then show ?thesis
    by (intro wf_store_same_keys [OF assms(1)])
       (auto simp: open_session_def map_key_update_where intro: wf_storeD [OF assms(1)])
qed

text \<open>Projecting a new event adds one row for the session and keeps the cursors' keys distinct.\<close>

lemma project_to_frame [frame, simp]:
  "events (project_to bd now e prev st s) = events st"
  "sessions (project_to bd now e prev st s) = sessions st"
  by (auto simp: project_to_def Let_def split: option.splits prod.splits)

lemma project_to_rows:
  "map row_key (projections (project_to bd now e prev st s)) =
     map row_key (projections st) @ [(s_id s, e_id e)]"
  by (auto simp: project_to_def Let_def row_key_def split: option.splits prod.splits)

lemma project_to_cursors:
  "distinct (map cursor_key (cursors st)) \<Longrightarrow>
     distinct (map cursor_key (cursors (project_to bd now e prev st s)))"
  by (auto simp: project_to_def Let_def intro: seed_cursor_keys split: option.splits prod.splits)

lemma project_all_frame [frame, simp]:
  "events (foldl (project_to bd now e prev) st ss) = events st"
  "sessions (foldl (project_to bd now e prev) st ss) = sessions st"
  by (rule foldl_keeps; simp)+

lemma project_all_rows:
  "map row_key (projections (foldl (project_to bd now e prev) st ss)) =
     map row_key (projections st) @ map (\<lambda>s. (s_id s, e_id e)) ss"
  by (induction ss arbitrary: st) (simp_all add: project_to_rows)

lemma project_all_cursors:
  "distinct (map cursor_key (cursors st)) \<Longrightarrow>
     distinct (map cursor_key (cursors (foldl (project_to bd now e prev) st ss)))"
  by (rule foldl_invariant) (auto intro: project_to_cursors)

lemma projection_targets_sub: "s \<in> set (projection_targets st e r) \<Longrightarrow> s \<in> set (sessions st)"
  by (auto simp: projection_targets_def sessions_for_workspace_def split: if_splits)

lemma projection_targets_distinct:
  "distinct (map s_id (sessions st)) \<Longrightarrow> distinct (map s_id (projection_targets st e r))"
  by (auto simp: projection_targets_def sessions_for_workspace_def distinct_map_filter)

lemma wf_storeI_rows:
  assumes "distinct (map s_id (sessions st))" and "distinct (map e_id (events st))"
    and "distinct (map row_key (projections st))"
    and "set (map row_key (projections st)) \<subseteq> s_id ` set (sessions st) \<times> e_id ` set (events st)"
    and "distinct (map cursor_key (cursors st))" and "\<forall>i \<in> e_id ` set (events st). nul \<notin> set i"
  shows "wf_store st"
  using assms by (force simp: wf_store_def row_key_def)

lemma wf_store_row_range:
  "wf_store st \<Longrightarrow> set (map row_key (projections st)) \<subseteq> s_id ` set (sessions st) \<times> e_id ` set (events st)"
  by (auto simp: wf_store_def row_key_def)

lemma wf_insert_event:
  assumes wf: "wf_store st" and fresh: "fresh_ulid st eid"
    and ins: "insert_event bd st now eid nid inp prev r = Inr (st', e)"
  shows "wf_store st'"
proof -
  let ?st1 = "st\<lparr>events := events st @ [e]\<rparr>"
  let ?ss = "projection_targets ?st1 e r"
  let ?st2 = "foldl (project_to bd now e prev) ?st1 ?ss"
  have e: "e_id e = eid" and tabs: "sessions st' = sessions st" "events st' = events st @ [e]"
    "projections st' = projections ?st2" "cursors st' = cursors ?st2"
    using ins by (auto simp: insert_event_def Let_def save_snapshot_def split: option.splits)
  have rows: "map row_key (projections st') = map row_key (projections st) @ map (\<lambda>s. (s_id s, eid)) ?ss"
    by (simp add: tabs project_all_rows e)
  have new: "distinct (map (\<lambda>s. (s_id s, eid)) ?ss)"
    using projection_targets_distinct [of ?st1 e r] wf_storeD(1) [OF wf]
    by (simp add: distinct_map inj_on_def)
  have old: "(x, eid) \<notin> set (map row_key (projections st))" for x
    using wf_store_row_range [OF wf] fresh by (auto simp: fresh_ulid_def)
  have "(\<lambda>s. (s_id s, eid)) ` set ?ss \<subseteq> s_id ` set (sessions st) \<times> {eid}"
    using projection_targets_sub [of _ ?st1 e r] by auto
  then have "set (map row_key (projections st')) \<subseteq> s_id ` set (sessions st') \<times> e_id ` set (events st')"
    unfolding rows using wf_store_row_range [OF wf] by (auto simp: tabs(1,2) e)
  moreover have "distinct (map row_key (projections st'))"
    unfolding rows using wf_storeD(3) [OF wf] new old by auto
  ultimately show ?thesis
    using wf_storeD [OF wf] fresh project_all_cursors [of ?st1 bd now e prev ?ss]
      wf_store_ids [OF wf]
    by (intro wf_storeI_rows) (auto simp: tabs(1,2,4) e fresh_ulid_def)
qed

lemma wf_delete_resolved:
  assumes "wf_store st"
  shows "wf_store (fst (delete_resolved st removed ws mon obj))"
proof (cases "removed = []")
  case False
  let ?st' = "fst (delete_resolved st removed ws mon obj)"
  have tabs: "sessions ?st' = sessions st"
    "events ?st' = delete_where (\<lambda>e. e_id e \<in> set removed) (events st)"
    "projections ?st' = delete_where (\<lambda>p. p_event p \<in> set removed) (projections st)"
    using False by (auto simp: delete_resolved_def Let_def)
  have "distinct (map cursor_key (cursors ?st'))"
    using wf_storeD(4) [OF assms] False
    by (auto simp: delete_resolved_def Let_def distinct_map_delete_where)
  then show ?thesis
    using assms by (force simp: wf_store_def tabs distinct_map_delete_where)
qed (simp add: delete_resolved_def assms)

lemma wf_retract:
  "wf_store st \<Longrightarrow> wf_store (fst (retract_object_events st ws mon obj ids))"
  "wf_store st \<Longrightarrow> wf_store (fst (retract_object_events_by_key st ws mon obj))"
  by (auto simp: retract_object_events_def retract_object_events_by_key_def wf_delete_resolved)

section \<open>What the queries read\<close>

lemma in_joined:
  "e \<in> set (joined st P) \<longleftrightarrow>
     e \<in> set (events st) \<and> (\<exists>p \<in> set (projections st). P p \<and> p_event p = e_id e)"
  by (auto simp: joined_def)

lemma in_unread:
  "e \<in> set (unread_events st s u) \<longleftrightarrow> e \<in> set (events st) \<and> urgency_matches u e \<and>
     (\<exists>p \<in> set (projections st). unread_row s p \<and> p_event p = e_id e)"
  by (auto simp: unread_events_def in_joined)

lemma in_pending:
  "e \<in> set (pending_events st s u) \<longleftrightarrow> e \<in> set (events st) \<and> urgency_matches u e \<and>
     (\<exists>p \<in> set (projections st). pending_row s p \<and> p_event p = e_id e)"
  by (auto simp: pending_events_def in_joined)

lemma pending_sub_unread: "e \<in> set (pending_events st s u) \<Longrightarrow> e \<in> set (unread_events st s u)"
  by (auto simp: in_pending in_unread pending_row_def unread_row_def)

lemma joined_ids:
  assumes "wf_store st"
  shows "map e_id (joined st P) = map p_event (filter P (projections st))"
proof -
  have one: "map e_id (filter (\<lambda>e. e_id e = i) es) = [i]"
    if "distinct (map e_id es)" "i \<in> e_id ` set es" for i es
    using that by (induction es) (auto simp: filter_empty_conv image_iff)
  have all: "map e_id (concat (map (\<lambda>p. filter (\<lambda>e. e_id e = p_event p) (events st)) ps)) = map p_event ps"
    if "\<forall>p \<in> set ps. p_event p \<in> e_id ` set (events st)" for ps
    using that by (induction ps) (simp_all add: one [OF wf_storeD(2) [OF assms]])
  show ?thesis
    unfolding joined_def by (rule all) (auto dest: wf_storeD(6) [OF assms])
qed

lemma distinct_joined:
  assumes "wf_store st" and "\<And>p. P p \<Longrightarrow> p_session p = s"
  shows "distinct (map e_id (joined st P))"
proof -
  have "distinct (map row_key (filter P (projections st)))"
    using wf_storeD(3) [OF assms(1)] by (simp add: distinct_map_filter)
  then have "distinct (map p_event (filter P (projections st)))"
    using assms(2) by (auto simp: distinct_map inj_on_def row_key_def)
  then show ?thesis by (simp add: joined_ids [OF assms(1)])
qed

lemma distinct_unread [simp]: "wf_store st \<Longrightarrow> distinct (map e_id (unread_events st s u))"
  unfolding unread_events_def distinct_ordered_by
  by (intro distinct_map_filter distinct_joined [where s = s]) (auto simp: unread_row_def)

lemma distinct_pending [simp]: "wf_store st \<Longrightarrow> distinct (map e_id (pending_events st s u))"
  unfolding pending_events_def distinct_ordered_by
  by (intro distinct_map_filter distinct_joined [where s = s]) (auto simp: pending_row_def)

lemma event_by_id:
  "wf_store st \<Longrightarrow> a \<in> set (events st) \<Longrightarrow> b \<in> set (events st) \<Longrightarrow> e_id a = e_id b \<Longrightarrow> a = b"
  using wf_storeD(2) [of st] by (simp add: distinct_map inj_on_def)

lemma row_by_key:
  "wf_store st \<Longrightarrow> p \<in> set (projections st) \<Longrightarrow> q \<in> set (projections st) \<Longrightarrow>
     p_session p = p_session q \<Longrightarrow> p_event p = p_event q \<Longrightarrow> p = q"
  using wf_storeD(3) [of st] by (auto simp: distinct_map inj_on_def row_key_def)

lemma queries_cong:
  assumes "events st' = events st" and "projections st' = projections st"
  shows "unread_events st' s u = unread_events st s u" and "pending_events st' s u = pending_events st s u"
  using assms by (simp_all add: unread_events_def pending_events_def joined_def)

end
