(* ===== verification/AM_Delivery.thy ===== *)
theory AM_Delivery
  imports AM_StoreInv AM_Reservations
begin

text \<open>
  Delivery, \<open>runtime/service.ts\<close>: the pure decision \<open>decideDelivery\<close>, the rendering of a
  claim, and the operations \<open>claimDelivery\<close>, \<open>reserveDelivery\<close>, \<open>commitDelivery\<close>,
  \<open>releaseDelivery\<close>, \<open>acknowledgeSession\<close> and \<open>refreshHookState\<close> on the runtime's state: the
  store, the reservation registry, the adapters' names and the hook-state files.

  Every operation is synchronous in the code; it takes one clock reading. It returns the new
  state and either what it returns or the error it throws, so that what was written before a
  throw stays written.
\<close>

record runtime =
  rt_store :: store
  rt_reg :: registry
  rt_adapters :: "string list"
  rt_files :: "string \<rightharpoonup> hook_state"

datatype rt_error = StoreError store_error | UnknownAdapter string | NotScratchKey string

definition high_settle_ms :: ms where
  "high_settle_ms = 15000"

definition max_recap_events :: nat where
  "max_recap_events = 10"

definition reminder_message :: string where
  "reminder_message = ''Monitored changes are pending.''"

definition coalesced_normal_suffix :: string where
  "coalesced_normal_suffix = [newline, newline] @ reminder_message"

definition unread_details_command :: "ident \<Rightarrow> string" where
  "unread_details_command s = ''agentmonitors events list --session '' @ s @ '' --unread --format json''"

definition full_history_command :: "ident \<Rightarrow> string" where
  "full_history_command s = ''agentmonitors events list --session '' @ s @ '' --format json''"

section \<open>Rendering\<close>

definition truthy_or :: "string \<Rightarrow> string \<Rightarrow> string" where
  "truthy_or a b = (if a = [] then b else a)"

definition recipient_summary :: "event \<Rightarrow> (ident \<rightharpoonup> string) \<Rightarrow> string" where
  "recipient_summary e digests =
     default (digests (e_id e)) (truthy_or (e_summary e) (truthy_or (e_body e) (e_title e)))"

definition to_event_summary :: "event \<Rightarrow> (ident \<rightharpoonup> string) \<Rightarrow> (ident \<rightharpoonup> string) \<Rightarrow> event_summary" where
  "to_event_summary e digests diffs =
     \<lparr>es_event = e_id e, es_monitor = e_monitor e, es_title = e_title e,
       es_summary = recipient_summary e digests, es_detail = e_summary e,
       es_urgency = e_urgency e, es_created = e_created e, es_body = e_body e,
       es_diff = (case or_else (diffs (e_id e)) (e_diff e) of
                    None \<Rightarrow> None | Some d \<Rightarrow> if d = [] then None else Some d)\<rparr>"

text \<open>\<open>summarizeEvents\<close> over the (title, summary) pairs, numbered from one.\<close>

definition summarize_events :: "(string \<times> string) list \<Rightarrow> string" where
  "summarize_events es =
     join [newline] (map (\<lambda>(i, t, s). show_nat (i + 1) @ ''. '' @ truthy_or s t)
       (zip [0..<length es] es))"

section \<open>The decision\<close>

definition pending_for_claim :: "store \<Rightarrow> registry \<Rightarrow> ms \<Rightarrow> ident \<Rightarrow> urgency option \<Rightarrow> event list" where
  "pending_for_claim st reg now s u =
     filter (\<lambda>e. e_id e \<notin> leased reg now s) (pending_events st s u)"

definition leased_pending_count :: "store \<Rightarrow> registry \<Rightarrow> ms \<Rightarrow> ident \<Rightarrow> urgency option \<Rightarrow> nat" where
  "leased_pending_count st reg now s u =
     length (filter (\<lambda>e. e_id e \<in> leased reg now s) (pending_events st s u))"

definition settled :: "ms \<Rightarrow> event \<Rightarrow> bool" where
  "settled now e = (high_settle_ms \<le> now - e_created e)"

definition session_unread_counts :: "store \<Rightarrow> ident \<Rightarrow> unread_counts" where
  "session_unread_counts st s =
     (let l = length (unread_events st s (Some Low));
          n = length (unread_events st s (Some Normal));
          h = length (unread_events st s (Some High)) in
      \<lparr>uc_low = l, uc_normal = n, uc_high = h, uc_total = l + n + h\<rparr>)"

record decision =
  dc_session :: ident
  dc_candidates :: "event list"
  dc_recap :: bool
  dc_claim :: claim

definition reminder_due :: "store \<Rightarrow> registry \<Rightarrow> ms \<Rightarrow> ident \<Rightarrow> urgency \<Rightarrow> bool" where
  "reminder_due st reg now s u =
     (pending_for_claim st reg now s (Some u) \<noteq> [] \<and> leased_pending_count st reg now s (Some u) = 0)"

definition surface_limit :: "nat \<Rightarrow> int option \<Rightarrow> nat" where
  "surface_limit n max_events =
     (case max_events of None \<Rightarrow> n | Some m \<Rightarrow> nat (min (int n) (max 1 m)))"

text \<open>
  The surfaced part of the settled high-urgency set: the first \<open>limit\<close> representatives of the
  net collapse, and the whole groups they stand for.
\<close>

definition surfaced_candidates :: "event list \<Rightarrow> int option \<Rightarrow> event list" where
  "surfaced_candidates settled_high max_events =
     (let reps = nv_delivered (compute_net_collapse_view settled_high);
          surfaced = take (surface_limit (length reps) max_events) reps;
          keys = net_collapse_group_key ` set surfaced in
      filter (\<lambda>e. net_collapse_group_key e \<in> keys) settled_high)"

definition decide_high :: "store \<Rightarrow> ident \<Rightarrow> event list \<Rightarrow> event list \<Rightarrow> bool \<Rightarrow> int option \<Rightarrow> decision" where
  "decide_high st s settled_high normal_pending normal_due max_events =
     (let cands = surfaced_candidates settled_high max_events;
          surfaced = nv_delivered (compute_net_collapse_view cands);
          ids = map e_id surfaced;
          digests = interpret_digests st s ids;
          diffs = per_recipient_diffs st s ids;
          msg = summarize_events (map (\<lambda>e. (e_title e, recipient_summary e digests)) surfaced) in
      \<lparr>dc_session = s,
        dc_candidates = (if normal_due then cands @ normal_pending else cands),
        dc_recap = False,
        dc_claim = \<lparr>cl_session = s, cl_mode = MDelivery, cl_urgency = Some High,
          cl_lifecycle = TurnInterruptible,
          cl_message = (if normal_due then msg @ coalesced_normal_suffix else msg),
          cl_counts = session_unread_counts st s,
          cl_events = map (\<lambda>e. to_event_summary e digests diffs) surfaced,
          cl_reminder = (if normal_due then Some reminder_message else None),
          cl_normal_count = (if normal_due then Some (length normal_pending) else None)\<rparr>\<rparr>)"

definition decide_reminder :: "store \<Rightarrow> ident \<Rightarrow> lifecycle \<Rightarrow> urgency \<Rightarrow> event list \<Rightarrow> decision" where
  "decide_reminder st s l u pending =
     \<lparr>dc_session = s, dc_candidates = pending, dc_recap = False,
       dc_claim = \<lparr>cl_session = s, cl_mode = MDelivery, cl_urgency = Some u, cl_lifecycle = l,
         cl_message = reminder_message, cl_counts = session_unread_counts st s,
         cl_events = [], cl_reminder = None, cl_normal_count = None\<rparr>\<rparr>"

definition last_n :: "nat \<Rightarrow> 'a list \<Rightarrow> 'a list" where
  "last_n n xs = drop (length xs - n) xs"

definition decide_recap :: "store \<Rightarrow> ident \<Rightarrow> event list \<Rightarrow> decision" where
  "decide_recap st s unread =
     (let recap = last_n max_recap_events (nv_delivered (compute_net_collapse_view unread));
          ids = map e_id recap;
          digests = interpret_digests st s ids;
          diffs = per_recipient_diffs st s ids;
          msg = join [newline]
            [''Recap of recent AgentMon activity since your last recap:'',
             summarize_events (map (\<lambda>e. (e_title e, recipient_summary e digests)) recap),
             ''Run `'' @ full_history_command s @ ''` for recent history.'',
             ''Run `'' @ unread_details_command s @ ''` for unread details.''] in
      \<lparr>dc_session = s, dc_candidates = unread, dc_recap = True,
        dc_claim = \<lparr>cl_session = s, cl_mode = MRecap, cl_urgency = None, cl_lifecycle = PostCompact,
          cl_message = msg, cl_counts = session_unread_counts st s,
          cl_events = map (\<lambda>e. to_event_summary e digests diffs) recap,
          cl_reminder = None, cl_normal_count = None\<rparr>\<rparr>)"

definition decide_delivery :: "store \<Rightarrow> registry \<Rightarrow> ms \<Rightarrow> ident \<Rightarrow> lifecycle \<Rightarrow> int option \<Rightarrow>
    decision option" where
  "decide_delivery st reg now s l max_events =
     (if l = TurnInterruptible then
        (let high_unread = pending_for_claim st reg now s (Some High);
             settled_high = filter (settled now) high_unread;
             normal_pending = pending_for_claim st reg now s (Some Normal);
             normal_due = reminder_due st reg now s Normal in
         if settled_high \<noteq> [] then
           Some (decide_high st s settled_high normal_pending normal_due max_events)
         else if normal_due \<and> high_unread = [] then
           Some (decide_reminder st s l Normal normal_pending)
         else None)
      else if l = TurnIdle \<and> reminder_due st reg now s Low then
        Some (decide_reminder st s l Low (pending_for_claim st reg now s (Some Low)))
      else if l = PostCompact \<and> unread_events st s None \<noteq> [] then
        Some (decide_recap st s (unread_events st s None))
      else None)"

section \<open>The operations\<close>

definition session_hook_state :: "store \<Rightarrow> ms \<Rightarrow> ident \<Rightarrow> bool \<Rightarrow> bool \<Rightarrow> bool \<Rightarrow> string list \<Rightarrow> hook_state" where
  "session_hook_state st now s high normal low titles =
     \<lparr>hk_updated = now, hk_session = s, hk_unread = session_unread_counts st s,
       hk_high = high, hk_normal = normal, hk_low = low, hk_titles = titles\<rparr>"

definition hook_state_of :: "store \<Rightarrow> registry \<Rightarrow> ms \<Rightarrow> ident \<Rightarrow> hook_state" where
  "hook_state_of st reg now s =
     (let high_unread = pending_for_claim st reg now s (Some High) in
      session_hook_state st now s (list_ex (settled now) high_unread)
        (pending_for_claim st reg now s (Some Normal) \<noteq> [])
        (pending_for_claim st reg now s (Some Low) \<noteq> [])
        (map e_title (last_n 5 high_unread)))"

definition refresh_hook_state :: "runtime \<Rightarrow> ms \<Rightarrow> ident \<Rightarrow> runtime \<times> (rt_error + hook_state)" where
  "refresh_hook_state rt now s =
     (let state = hook_state_of (rt_store rt) (rt_reg rt) now s;
          rt' = rt\<lparr>rt_reg := reservation_prune (rt_reg rt) now\<rparr> in
      case get_session (rt_store rt) s of
        Inl e \<Rightarrow> (rt', Inl (StoreError e))
      | Inr ses \<Rightarrow>
          if s_adapter ses \<notin> set (rt_adapters rt) then (rt', Inl (UnknownAdapter (s_adapter ses)))
          else (rt'\<lparr>rt_files := (rt_files rt)(s_hook_path ses \<mapsto> state)\<rparr>, Inr state))"

definition apply_delivery :: "(string \<Rightarrow> string \<Rightarrow> string option \<Rightarrow> string) \<Rightarrow> runtime \<Rightarrow> ms \<Rightarrow> ident \<Rightarrow>
    event list \<Rightarrow> bool \<Rightarrow> claim \<Rightarrow> runtime \<times> (rt_error + hook_state)" where
  "apply_delivery bd rt now s cands recap cl =
     (let st1 = fst (collapse_net_for_claim bd (rt_store rt) now s cands);
          st2 = mark_claimed st1 now s (map e_id cands) (cl_lifecycle cl);
          st3 = (if recap then update_session_recap st2 now s else st2) in
      refresh_hook_state (rt\<lparr>rt_store := st3\<rparr>) now s)"

definition claim_delivery :: "(string \<Rightarrow> string \<Rightarrow> string option \<Rightarrow> string) \<Rightarrow> runtime \<Rightarrow> ms \<Rightarrow> ident \<Rightarrow>
    lifecycle \<Rightarrow> int option \<Rightarrow> runtime \<times> (rt_error + claim option)" where
  "claim_delivery bd rt now s l max_events =
     (let st = touch_session (rt_store rt) now s;
          rt1 = rt\<lparr>rt_store := st, rt_reg := reservation_prune (rt_reg rt) now\<rparr> in
      case decide_delivery st (rt_reg rt) now s l max_events of
        None \<Rightarrow> (rt1, Inr None)
      | Some d \<Rightarrow>
          (case apply_delivery bd rt1 now (dc_session d) (dc_candidates d) (dc_recap d) (dc_claim d) of
             (rt2, Inl e) \<Rightarrow> (rt2, Inl e)
           | (rt2, Inr _) \<Rightarrow> (rt2, Inr (Some (dc_claim d)))))"

definition reserve_delivery :: "runtime \<Rightarrow> ms \<Rightarrow> ident \<Rightarrow> ident \<Rightarrow> lifecycle \<Rightarrow> int option \<Rightarrow>
    runtime \<times> (rt_error + (ident \<times> claim) option)" where
  "reserve_delivery rt now rid s l max_events =
     (let st = touch_session (rt_store rt) now s;
          reg = reservation_prune (rt_reg rt) now;
          rt1 = rt\<lparr>rt_store := st, rt_reg := reg\<rparr> in
      case decide_delivery st (rt_reg rt) now s l max_events of
        None \<Rightarrow> (rt1, Inr None)
      | Some d \<Rightarrow>
          (let reg' = reservation_add reg now rid
                 \<lparr>rv_session = dc_session d, rv_candidates = dc_candidates d, rv_recap = dc_recap d,
                   rv_claim = dc_claim d, rv_expires = 0\<rparr> in
           case refresh_hook_state (rt1\<lparr>rt_reg := reg'\<rparr>) now (dc_session d) of
             (rt2, Inl e) \<Rightarrow> (rt2, Inl e)
           | (rt2, Inr _) \<Rightarrow> (rt2, Inr (Some (rid, dc_claim d)))))"

definition commit_delivery :: "(string \<Rightarrow> string \<Rightarrow> string option \<Rightarrow> string) \<Rightarrow> runtime \<Rightarrow> ms \<Rightarrow> ident \<Rightarrow>
    runtime \<times> (rt_error + claim option)" where
  "commit_delivery bd rt now rid =
     (case reservation_take (rt_reg rt) now rid of
        (reg, None) \<Rightarrow> (rt\<lparr>rt_reg := reg\<rparr>, Inr None)
      | (reg, Some p) \<Rightarrow>
          (case apply_delivery bd (rt\<lparr>rt_reg := reg\<rparr>) now (rv_session p) (rv_candidates p)
                  (rv_recap p) (rv_claim p) of
             (rt2, Inl e) \<Rightarrow> (rt2, Inl e)
           | (rt2, Inr _) \<Rightarrow> (rt2, Inr (Some (rv_claim p)))))"

definition release_delivery :: "runtime \<Rightarrow> ms \<Rightarrow> ident \<Rightarrow> runtime \<times> (rt_error + unit)" where
  "release_delivery rt now rid =
     (case reservation_remove (rt_reg rt) rid of
        (reg, None) \<Rightarrow> (rt\<lparr>rt_reg := reg\<rparr>, Inr ())
      | (reg, Some p) \<Rightarrow>
          (case refresh_hook_state (rt\<lparr>rt_reg := reg\<rparr>) now (rv_session p) of
             (rt2, Inl e) \<Rightarrow> (rt2, Inl e)
           | (rt2, Inr _) \<Rightarrow> (rt2, Inr ())))"

definition acknowledge_session :: "runtime \<Rightarrow> ms \<Rightarrow> ident \<Rightarrow> ident list option \<Rightarrow>
    runtime \<times> (rt_error + hook_state)" where
  "acknowledge_session rt now s event_ids =
     (let st = rt_store rt;
          ids = (case event_ids of
             Some ids \<Rightarrow> ids
           | None \<Rightarrow> map e_id (filter (\<lambda>e. e_id e \<notin> leased (rt_reg rt) now s) (unread_events st s None)))
      in refresh_hook_state (rt\<lparr>rt_store := acknowledge_events st now s ids\<rparr>) now s)"

definition preview_settled_high :: "store \<Rightarrow> registry \<Rightarrow> ms \<Rightarrow> ident \<Rightarrow> event_summary list" where
  "preview_settled_high st reg now s =
     (let settled_high = filter (settled now) (pending_for_claim st reg now s (Some High)) in
      if settled_high = [] then []
      else let delivered = nv_delivered (compute_net_collapse_view settled_high);
               ids = map e_id delivered in
        map (\<lambda>e. to_event_summary e (interpret_digests st s ids) (per_recipient_diffs st s ids))
          delivered)"

definition preview_coalesced_reminder :: "store \<Rightarrow> registry \<Rightarrow> ms \<Rightarrow> ident \<Rightarrow> string option" where
  "preview_coalesced_reminder st reg now s =
     (if filter (settled now) (pending_for_claim st reg now s (Some High)) = [] then None
      else if reminder_due st reg now s Normal then Some reminder_message else None)"

end
