(* ===== verification/AM_ClaimRows.thy ===== *)
theory AM_ClaimRows
  imports AM_Delivery
begin

text \<open>
  What a claim does to the projections, row by row, and so to the queries of every session:
  the facts every delivery property rests on. The relation \<open>rows_rewritten\<close> says that one store
  comes from another by rewriting rows of one session and one list of events, and nothing
  that a query reads apart from the claim's own marks.
\<close>

section \<open>Rewriting the rows of a claim\<close>

definition keeps_row :: "(projection \<Rightarrow> projection) \<Rightarrow> bool" where
  "keeps_row h = (\<forall>p. row_key (h p) = row_key p \<and> p_acked (h p) = p_acked p \<and>
     p_decision (h p) = p_decision p \<and> p_digest (h p) = p_digest p)"

definition rows_rewritten :: "ident \<Rightarrow> ident list \<Rightarrow> store \<Rightarrow> store \<Rightarrow> bool" where
  "rows_rewritten s ids st st' = (events st' = events st \<and>
     (\<exists>h. keeps_row h \<and> (\<forall>p. \<not> row_in s ids p \<longrightarrow> h p = p) \<and>
        projections st' = map h (projections st)))"

lemma rows_rewrittenI:
  assumes "events st' = events st" and "projections st' = map h (projections st)"
    and "keeps_row h" and "\<And>p. \<not> row_in s ids p \<Longrightarrow> h p = p"
  shows "rows_rewritten s ids st st'"
  using assms by (auto simp: rows_rewritten_def)

lemma rows_refl: "rows_rewritten s ids st st"
  by (rule rows_rewrittenI [where h = id]) (auto simp: keeps_row_def)

lemma row_in_keeps: "keeps_row h \<Longrightarrow> row_in s ids (h p) = row_in s ids p"
  by (auto simp: keeps_row_def row_in_def row_key_def)

lemma rows_trans:
  assumes "rows_rewritten s ids a b" and "rows_rewritten s ids b c"
  shows "rows_rewritten s ids a c"
proof -
  from assms(1) obtain g where g: "keeps_row g" "\<And>p. \<not> row_in s ids p \<Longrightarrow> g p = p"
    "projections b = map g (projections a)" "events b = events a" by (auto simp: rows_rewritten_def)
  from assms(2) obtain h where h: "keeps_row h" "\<And>p. \<not> row_in s ids p \<Longrightarrow> h p = p"
    "projections c = map h (projections b)" "events c = events b" by (auto simp: rows_rewritten_def)
  show ?thesis
  proof (rule rows_rewrittenI [where h = "h \<circ> g"])
    show "keeps_row (h \<circ> g)" using g(1) h(1) by (simp add: keeps_row_def)
  qed (use g h in auto)
qed

lemma rows_mono:
  assumes "rows_rewritten s ids st st'" and "set ids \<subseteq> set ids'"
  shows "rows_rewritten s ids' st st'"
  using assms by (fastforce simp: rows_rewritten_def row_in_def)

lemma rows_foldl:
  assumes "\<And>st x. x \<in> set xs \<Longrightarrow> rows_rewritten s ids st (f st x)"
  shows "rows_rewritten s ids st (foldl f st xs)"
  using assms by (induction xs arbitrary: st) (auto intro: rows_refl rows_trans)

lemma rows_cong:
  assumes "rows_rewritten s ids a b" and "events c = events b" and "projections c = projections b"
  shows "rows_rewritten s ids a c"
  using assms by (auto simp: rows_rewritten_def)

lemma rows_update_where:
  assumes "events st' = events st" and "projections st' = update_where P f (projections st)"
    and "\<And>p. P p \<Longrightarrow> row_in s ids p"
    and "\<And>p. row_key (f p) = row_key p \<and> p_acked (f p) = p_acked p \<and>
           p_decision (f p) = p_decision p \<and> p_digest (f p) = p_digest p"
  shows "rows_rewritten s ids st st'"
  using assms
  by (intro rows_rewrittenI [where h = "\<lambda>p. if P p then f p else p"])
     (auto simp: update_where_def keeps_row_def)

lemma rows_net_suppressed: "rows_rewritten s ids st (mark_net_suppressed st now s ids)"
  by (cases "ids = []")
     (auto simp: mark_net_suppressed_def row_key_def
       intro: rows_refl rows_update_where [where P = "row_in s ids"])

lemma rows_reanchor:
  assumes "e_id e \<in> set ids"
  shows "rows_rewritten s ids st (reanchor bd now s view st e)"
proof -
  have "rows_rewritten s ids st (set_per_recipient_diff st now s (e_id e) d)" for d
    using assms
    by (intro rows_update_where [where P = "\<lambda>p. p_session p = s \<and> p_event p = e_id e"
          and f = "\<lambda>p. p\<lparr>p_diff := Some d, p_updated := db_time now\<rparr>"])
       (auto simp: row_in_def row_key_def set_per_recipient_diff_def)
  then show ?thesis
    by (auto simp: reanchor_def Let_def rows_refl split: option.splits bool.splits)
qed

lemma net_view_subset:
  "set (nv_delivered (compute_net_collapse_view cands)) \<subseteq> set cands"
  "set (nv_suppressed (compute_net_collapse_view cands)) \<subseteq> e_id ` set cands"
  by (auto simp: compute_net_collapse_view_def Let_def)

lemma rows_collapse:
  "rows_rewritten s (map e_id cands) st (fst (collapse_net_for_claim bd st now s cands))"
proof (cases "\<exists>e \<in> set cands. collapsible e")
  case True
  let ?v = "compute_net_collapse_view cands"
  let ?mid = "foldl (reanchor bd now s ?v) st (nv_delivered ?v)"
  have "rows_rewritten s (map e_id cands) st ?mid"
    using net_view_subset(1) [of cands] by (intro rows_foldl rows_reanchor) auto
  moreover have "rows_rewritten s (map e_id cands) ?mid (mark_net_suppressed ?mid now s (nv_suppressed ?v))"
    using net_view_subset(2) [of cands]
    by (intro rows_mono [OF rows_net_suppressed]) auto
  ultimately show ?thesis
    using True by (auto simp: collapse_net_for_claim_def Let_def intro: rows_trans)
qed (simp add: collapse_net_for_claim_def Let_def rows_refl)

text \<open>After \<open>markClaimed\<close> the claimed rows carry the claim's second, whatever they held.\<close>

definition claims :: "ident \<Rightarrow> ident list \<Rightarrow> ms \<Rightarrow> store \<Rightarrow> store \<Rightarrow> bool" where
  "claims s ids t st st' = (rows_rewritten s ids st st' \<and>
     (\<forall>p \<in> set (projections st'). row_in s ids p \<longrightarrow> p_first_notified p = Some (db_time t)))"

lemma claims_mark_claimed: "claims s ids now st (mark_claimed st now s ids l)"
proof (cases "ids = []")
  case True
  then show ?thesis by (simp add: claims_def rows_refl mark_claimed_def row_in_def)
next
  case False
  let ?f = "\<lambda>p. p\<lparr>p_first_notified := Some (db_time now), p_last_claim := Some (db_time now),
                  p_claim_lifecycle := Some l, p_updated := db_time now\<rparr>"
  have "rows_rewritten s ids st (mark_claimed st now s ids l)"
    using False
    by (intro rows_update_where [where P = "row_in s ids" and f = ?f])
       (auto simp: mark_claimed_def row_key_def)
  moreover have "p_first_notified p = Some (db_time now)"
    if "p \<in> set (projections (mark_claimed st now s ids l))" "row_in s ids p" for p
  proof -
    from that(1) False have "p \<in> (\<lambda>r. if row_in s ids r then ?f r else r) ` set (projections st)"
      by (simp add: mark_claimed_def set_update_where)
    then obtain r where r: "p = (if row_in s ids r then ?f r else r)" by blast
    with that(2) show ?thesis by (cases "row_in s ids r") simp_all
  qed
  ultimately show ?thesis by (auto simp: claims_def)
qed

lemma claims_collapse_mark:
  "claims s (map e_id cands) now st
     (mark_claimed (fst (collapse_net_for_claim bd st now s cands)) now s (map e_id cands) l)"
  using claims_mark_claimed rows_collapse unfolding claims_def by (meson rows_trans)

section \<open>The queries after a claim\<close>

lemma joined_marked:
  assumes h: "projections st' = map h (projections st)" "events st' = events st"
    and other: "\<And>p. \<not> row_in s ids p \<Longrightarrow> h p = p"
    and marked: "\<And>p. p \<in> set (projections st) \<Longrightarrow> row_in s ids p \<Longrightarrow> \<not> P (h p)"
    and P: "\<And>p. P p \<Longrightarrow> p_session p = s'"
  shows "joined st' P = filter (\<lambda>e. \<not> (s' = s \<and> e_id e \<in> set ids)) (joined st P)"
proof -
  have P_h: "P (h p) \<longleftrightarrow> P p \<and> \<not> row_in s ids p" if "p \<in> set (projections st)" for p
    using marked [OF that] other [of p] by (cases "row_in s ids p") simp_all
  have f: "filter P (map h ps) = filter (\<lambda>p. P p \<and> \<not> row_in s ids p) ps"
    if "set ps \<subseteq> set (projections st)" for ps
    using that by (induction ps) (auto simp: P_h other)
  have "concat (map (\<lambda>p. filter (\<lambda>e. e_id e = p_event p) es) (filter (\<lambda>p. P p \<and> \<not> row_in s ids p) ps)) =
      filter (\<lambda>e. \<not> (s' = s \<and> e_id e \<in> set ids))
        (concat (map (\<lambda>p. filter (\<lambda>e. e_id e = p_event p) es) (filter P ps)))" for es ps
  proof (induction ps)
    case (Cons p ps)
    show ?case
    proof (cases "P p")
      case True
      with P have "row_in s ids p \<longleftrightarrow> s' = s \<and> p_event p \<in> set ids" by (auto simp: row_in_def)
      then have "filter (\<lambda>e. \<not> (s' = s \<and> e_id e \<in> set ids)) (filter (\<lambda>e. e_id e = p_event p) es) =
          (if row_in s ids p then [] else filter (\<lambda>e. e_id e = p_event p) es)"
        by (induction es) auto
      with True Cons show ?thesis by simp
    qed (use Cons in simp)
  qed simp
  then show ?thesis unfolding joined_def h f [OF subset_refl] .
qed

lemma joined_claims:
  assumes c: "claims s ids t st st'"
    and P: "\<And>p. P p \<Longrightarrow> p_session p = s' \<and> p_first_notified p = None"
  shows "joined st' P = filter (\<lambda>e. \<not> (s' = s \<and> e_id e \<in> set ids)) (joined st P)"
proof -
  from c obtain h where h: "keeps_row h" "\<And>p. \<not> row_in s ids p \<Longrightarrow> h p = p"
    "projections st' = map h (projections st)" "events st' = events st"
    by (auto simp: claims_def rows_rewritten_def)
  have marked: "\<forall>p \<in> set (projections st'). row_in s ids p \<longrightarrow> p_first_notified p = Some (db_time t)"
    using c by (simp add: claims_def)
  have bad: "\<not> P (h p)" if "p \<in> set (projections st)" "row_in s ids p" for p
  proof -
    have "h p \<in> set (projections st')" using that by (simp add: h(3))
    then have "p_first_notified (h p) = Some (db_time t)"
      using marked row_in_keeps [OF h(1)] that by blast
    with P show ?thesis by (metis option.distinct(1))
  qed
  show ?thesis by (rule joined_marked [OF h(3,4,2)]) (use P bad in blast)+
qed

lemma pending_after_claims:
  assumes "claims s ids t st st'"
  shows "pending_events st' s' u =
     filter (\<lambda>e. \<not> (s' = s \<and> e_id e \<in> set ids)) (pending_events st s' u)"
  unfolding pending_events_def filter_ordered_by
  by (subst joined_claims [OF assms, where s' = s']) (auto simp: pending_row_def conj_commute)

lemma joined_other_session:
  assumes r: "rows_rewritten s ids st st'" and P: "\<And>p. P p \<Longrightarrow> p_session p \<noteq> s"
  shows "joined st' P = joined st P"
proof -
  from r obtain h where h: "keeps_row h" "\<And>p. \<not> row_in s ids p \<Longrightarrow> h p = p"
    "projections st' = map h (projections st)" "events st' = events st"
    by (auto simp: rows_rewritten_def)
  have "filter P (map h ps) = filter P ps" for ps
  proof (induction ps)
    case (Cons p ps)
    have "row_in s ids p \<Longrightarrow> \<not> P (h p) \<and> \<not> P p"
      using P h(1) unfolding keeps_row_def row_in_def row_key_def by (metis prod.inject)
    with h(2) Cons show ?case by (cases "row_in s ids p") auto
  qed simp
  then show ?thesis by (simp add: joined_def h)
qed

lemma queries_other_session:
  assumes "rows_rewritten s ids st st'" and "s' \<noteq> s"
  shows "pending_events st' s' u = pending_events st s' u"
    and "unread_events st' s' u = unread_events st s' u"
  unfolding pending_events_def unread_events_def
  by (subst joined_other_session [OF assms(1)]; use assms(2) in \<open>auto simp: pending_row_def unread_row_def\<close>)+

text \<open>A query by urgency filters the query without one, and a pending event is an unread one.\<close>

lemma pending_urgency: "pending_events st s (Some u) = filter (\<lambda>e. e_urgency e = u) (pending_events st s None)"
  by (simp add: pending_events_def filter_ordered_by urgency_matches_def [abs_def])

lemma unread_urgency: "unread_events st s (Some u) = filter (\<lambda>e. e_urgency e = u) (unread_events st s None)"
  by (simp add: unread_events_def filter_ordered_by urgency_matches_def [abs_def])


text \<open>Acknowledging removes exactly the named events from the recipient's unread ones.\<close>

lemma unread_after_acknowledge:
  "unread_events (acknowledge_events st now s ids) s' u =
     filter (\<lambda>e. \<not> (s' = s \<and> e_id e \<in> set ids)) (unread_events st s' u)"
proof (cases "ids = []")
  case True
  then show ?thesis by (simp add: acknowledge_events_def)
next
  case False
  let ?f = "\<lambda>p. p\<lparr>p_acked := Some (db_time now), p_updated := db_time now\<rparr>"
  have "joined (acknowledge_events st now s ids) (unread_row s') =
      filter (\<lambda>e. \<not> (s' = s \<and> e_id e \<in> set ids)) (joined st (unread_row s'))"
    by (rule joined_marked [where h = "\<lambda>p. if row_in s ids p then ?f p else p"])
       (use False in \<open>auto simp: acknowledge_events_def update_where_def unread_row_def\<close>)
  then show ?thesis by (simp add: unread_events_def filter_ordered_by conj_commute)
qed

end
