(* ===== verification/AM_DeliveryLemmas.thy ===== *)
theory AM_DeliveryLemmas
  imports AM_ClaimRows
begin

text \<open>
  The shape of every delivery operation, as equations over the decision: what the store and
  the registry are afterwards, which tables the decision reads, and what its candidates are.
\<close>

section \<open>What the decision reads\<close>

lemma interpret_digests_cong:
  "projections st' = projections st \<Longrightarrow> interpret_digests st' s ids = interpret_digests st s ids"
  by (simp add: interpret_digests_def)

lemma per_recipient_diffs_cong:
  "projections st' = projections st \<Longrightarrow> per_recipient_diffs st' s ids = per_recipient_diffs st s ids"
  by (simp add: per_recipient_diffs_def)

lemma decide_delivery_cong:
  assumes ev: "events st' = events st" and pr: "projections st' = projections st"
    and reg: "leased reg' now s = leased reg now s"
  shows "decide_delivery st' reg' now s l m = decide_delivery st reg now s l m"
proof -
  note q = queries_cong [OF ev pr]
  have u: "session_unread_counts st' i = session_unread_counts st i" for i
    by (simp add: session_unread_counts_def q Let_def)
  have p: "pending_for_claim st' reg' now s w = pending_for_claim st reg now s w" for w
    by (simp add: pending_for_claim_def q reg)
  have n: "reminder_due st' reg' now s w = reminder_due st reg now s w" for w
    by (simp add: reminder_due_def leased_pending_count_def p q reg)
  show ?thesis
    unfolding decide_delivery_def decide_high_def decide_reminder_def decide_recap_def
      interpret_digests_cong [OF pr] per_recipient_diffs_cong [OF pr] u p n q ..
qed

lemma decide_touch_prune [simp]:
  "decide_delivery (touch_session st t s') (reservation_prune reg now) now s l m =
     decide_delivery st reg now s l m"
  "decide_delivery (touch_session st t s') reg now s l m = decide_delivery st reg now s l m"
  by (rule decide_delivery_cong; simp)+

lemma decide_fields:
  assumes "decide_delivery st reg now s l m = Some d"
  shows "dc_session d = s" and "cl_lifecycle (dc_claim d) = l" and "cl_session (dc_claim d) = s"
    and "dc_recap d \<longleftrightarrow> l = PostCompact"
  using assms
  by (auto simp: decide_delivery_def decide_high_def decide_reminder_def decide_recap_def Let_def
      split: if_splits)

section \<open>What the operations leave\<close>

text \<open>The store after the effects of a delivery decision.\<close>

definition delivered_store :: "(string \<Rightarrow> string \<Rightarrow> string option \<Rightarrow> string) \<Rightarrow> store \<Rightarrow> ms \<Rightarrow> ident \<Rightarrow>
    event list \<Rightarrow> bool \<Rightarrow> lifecycle \<Rightarrow> store" where
  "delivered_store bd st now s cands recap l =
     (let st2 = mark_claimed (fst (collapse_net_for_claim bd st now s cands)) now s (map e_id cands) l
      in if recap then update_session_recap st2 now s else st2)"

lemma refresh_frame [simp]:
  "rt_store (fst (refresh_hook_state rt now s)) = rt_store rt"
  "rt_reg (fst (refresh_hook_state rt now s)) = reservation_prune (rt_reg rt) now"
  "rt_adapters (fst (refresh_hook_state rt now s)) = rt_adapters rt"
  by (auto simp: refresh_hook_state_def Let_def split: sum.splits)

lemma apply_frame [simp]:
  "rt_store (fst (apply_delivery bd rt now s cands recap cl)) =
     delivered_store bd (rt_store rt) now s cands recap (cl_lifecycle cl)"
  "rt_reg (fst (apply_delivery bd rt now s cands recap cl)) = reservation_prune (rt_reg rt) now"
  "rt_adapters (fst (apply_delivery bd rt now s cands recap cl)) = rt_adapters rt"
  by (simp_all add: apply_delivery_def delivered_store_def Let_def)

lemma prune_prune [simp]: "reservation_prune (reservation_prune reg now) now = reservation_prune reg now"
  by (simp add: reservation_prune_def)

definition claimed_store :: "(string \<Rightarrow> string \<Rightarrow> string option \<Rightarrow> string) \<Rightarrow> store \<Rightarrow> registry \<Rightarrow> ms \<Rightarrow>
    ident \<Rightarrow> lifecycle \<Rightarrow> int option \<Rightarrow> store" where
  "claimed_store bd st reg now s l m =
     (case decide_delivery st reg now s l m of
        None \<Rightarrow> touch_session st now s
      | Some d \<Rightarrow> delivered_store bd (touch_session st now s) now s (dc_candidates d) (dc_recap d) l)"

lemma claim_frame:
  "rt_store (fst (claim_delivery bd rt now s l m)) = claimed_store bd (rt_store rt) (rt_reg rt) now s l m"
  "rt_reg (fst (claim_delivery bd rt now s l m)) = reservation_prune (rt_reg rt) now"
proof -
  show "rt_store (fst (claim_delivery bd rt now s l m)) = claimed_store bd (rt_store rt) (rt_reg rt) now s l m"
  proof (cases "decide_delivery (rt_store rt) (rt_reg rt) now s l m")
    case None
    then show ?thesis by (simp add: claim_delivery_def claimed_store_def)
  next
    case (Some d)
    let ?rt = "rt\<lparr>rt_store := touch_session (rt_store rt) now s,
                  rt_reg := reservation_prune (rt_reg rt) now\<rparr>"
    let ?r = "apply_delivery bd ?rt now s (dc_candidates d) (dc_recap d) (dc_claim d)"
    have "fst (claim_delivery bd rt now s l m) = fst ?r"
      using Some by (simp add: claim_delivery_def decide_fields [OF Some] split: prod.splits sum.splits)
    then show ?thesis using Some by (simp add: claimed_store_def decide_fields(2) [OF Some])
  qed
  show "rt_reg (fst (claim_delivery bd rt now s l m)) = reservation_prune (rt_reg rt) now"
  proof (cases "decide_delivery (rt_store rt) (rt_reg rt) now s l m")
    case None
    then show ?thesis by (simp add: claim_delivery_def)
  next
    case (Some d)
    let ?rt = "rt\<lparr>rt_store := touch_session (rt_store rt) now s,
                  rt_reg := reservation_prune (rt_reg rt) now\<rparr>"
    have "fst (claim_delivery bd rt now s l m) =
        fst (apply_delivery bd ?rt now s (dc_candidates d) (dc_recap d) (dc_claim d))"
      using Some by (simp add: claim_delivery_def decide_fields [OF Some] split: prod.splits sum.splits)
    then show ?thesis by simp
  qed
qed

lemma claim_result:
  assumes "claim_delivery bd rt now s l m = (rt', Inr (Some cl))"
  obtains d where "decide_delivery (rt_store rt) (rt_reg rt) now s l m = Some d" and "dc_claim d = cl"
    and "rt_store rt' = delivered_store bd (touch_session (rt_store rt) now s) now s
           (dc_candidates d) (dc_recap d) l"
    and "rt_reg rt' = reservation_prune (rt_reg rt) now"
proof -
  obtain d where d: "decide_delivery (rt_store rt) (rt_reg rt) now s l m = Some d" "dc_claim d = cl"
    using assms by (auto simp: claim_delivery_def Let_def split: option.splits prod.splits sum.splits)
  with claim_frame [of bd rt now s l m] assms that show ?thesis by (simp add: claimed_store_def)
qed

section \<open>A delivery marks exactly its candidates\<close>

lemma delivered_claims: "claims s (map e_id cands) now st (delivered_store bd st now s cands recap l)"
proof -
  have "claims s (map e_id cands) now st (if recap then update_session_recap st2 now s else st2)"
    if "claims s (map e_id cands) now st st2" for st2
    using that by (auto simp: claims_def intro: rows_cong)
  then show ?thesis unfolding delivered_store_def Let_def using claims_collapse_mark by blast
qed

lemma claims_touch: "claims s ids now (touch_session st t i) st' \<Longrightarrow> claims s ids now st st'"
  by (auto simp: claims_def rows_rewritten_def)

lemma wf_delivered: "wf_store st \<Longrightarrow> wf_store (delivered_store bd st now s cands recap l)"
  by (simp add: delivered_store_def Let_def wf_collapse wf_mark_claimed wf_session_ops)

lemma wf_claimed: "wf_store st \<Longrightarrow> wf_store (claimed_store bd st reg now s l m)"
  by (simp add: claimed_store_def wf_delivered wf_session_ops split: option.splits)

lemma delivered_frame [simp]:
  "events (delivered_store bd st now s cands recap l) = events st"
  "map s_id (sessions (delivered_store bd st now s cands recap l)) = map s_id (sessions st)"
  by (simp_all add: delivered_store_def Let_def)

section \<open>The candidates\<close>

lemma pending_for_claim_set:
  "e \<in> set (pending_for_claim st reg now s u) \<longleftrightarrow>
     e \<in> set (pending_events st s u) \<and> e_id e \<notin> leased reg now s"
  by (simp add: pending_for_claim_def)

lemma distinct_pending_for_claim [simp]:
  "wf_store st \<Longrightarrow> distinct (map e_id (pending_for_claim st reg now s u))"
  by (simp add: pending_for_claim_def distinct_map_filter)

lemma pending_urgency_of: "e \<in> set (pending_events st s (Some u)) \<Longrightarrow> e_urgency e = u"
  by (simp add: pending_urgency)

lemma pending_any: "e \<in> set (pending_events st s u) \<Longrightarrow> e \<in> set (pending_events st s None)"
  by (cases u) (simp_all add: pending_urgency)

lemma surfaced_sub: "e \<in> set (surfaced_candidates evs m) \<Longrightarrow> e \<in> set evs"
  by (simp add: surfaced_candidates_def Let_def)

text \<open>The high-urgency branch: the settled set, the surfaced groups, and what is shown of them.\<close>

definition settled_high :: "store \<Rightarrow> registry \<Rightarrow> ms \<Rightarrow> ident \<Rightarrow> event list" where
  "settled_high st reg now s = filter (settled now) (pending_for_claim st reg now s (Some High))"

lemma distinct_settled_high [simp]: "wf_store st \<Longrightarrow> distinct (map e_id (settled_high st reg now s))"
  by (simp add: settled_high_def distinct_map_filter)

lemma in_settled_high:
  "e \<in> set (settled_high st reg now s) \<longleftrightarrow>
     e \<in> set (pending_events st s (Some High)) \<and> e_id e \<notin> leased reg now s \<and> settled now e"
  by (auto simp: settled_high_def pending_for_claim_set)

lemma decide_interruptible:
  "decide_delivery st reg now s TurnInterruptible m =
     (if settled_high st reg now s \<noteq> [] then
        Some (decide_high st s (settled_high st reg now s) (pending_for_claim st reg now s (Some Normal))
          (reminder_due st reg now s Normal) m)
      else if reminder_due st reg now s Normal \<and> pending_for_claim st reg now s (Some High) = [] then
        Some (decide_reminder st s TurnInterruptible Normal (pending_for_claim st reg now s (Some Normal)))
      else None)"
  by (simp add: decide_delivery_def Let_def settled_high_def)

lemma decide_high_candidates:
  "dc_candidates (decide_high st s high normal due m) =
     (if due then surfaced_candidates high m @ normal else surfaced_candidates high m)"
  by (simp add: decide_high_def Let_def)

lemma decide_candidates:
  assumes "decide_delivery st reg now s l m = Some d" and "l \<noteq> PostCompact" and "e \<in> set (dc_candidates d)"
  obtains u where "e \<in> set (pending_for_claim st reg now s (Some u))"
proof (cases "l = TurnInterruptible")
  case True
  with assms(1,3) have "e \<in> set (settled_high st reg now s) \<or>
      e \<in> set (pending_for_claim st reg now s (Some Normal))"
    by (auto simp: decide_interruptible decide_high_candidates decide_reminder_def
        dest: surfaced_sub split: if_splits)
  then show ?thesis using that by (auto simp: settled_high_def)
next
  case False
  with assms that show ?thesis
    by (auto simp: decide_delivery_def decide_reminder_def split: if_splits)
qed

lemma decide_candidates_pending:
  assumes "decide_delivery st reg now s l m = Some d" and "l \<noteq> PostCompact" and "e \<in> set (dc_candidates d)"
  shows "e \<in> set (pending_events st s None)" and "e_id e \<notin> leased reg now s"
  using decide_candidates [OF assms] by (metis pending_any pending_for_claim_set)+


lemma decide_candidates_event:
  assumes "decide_delivery st reg now s l m = Some d" and "e \<in> set (dc_candidates d)"
  shows "e \<in> set (events st)"
proof (cases "l = PostCompact")
  case True
  with assms show ?thesis
    by (auto simp: decide_delivery_def decide_recap_def Let_def in_unread split: if_splits)
next
  case False
  from decide_candidates_pending(1) [OF assms(1) False assms(2)] show ?thesis by (simp add: in_pending)
qed

end
