(* ===== verification/AM_Fixtures.thy ===== *)
theory AM_Fixtures
  imports AM_DeliveryLemmas
begin

text \<open>
  One small concrete runtime on which the witnesses of the delivery properties evaluate: a
  lead session on a workspace, two versions of one file observed by a \<open>net\<close> monitor, an
  event without a snapshot, all of high urgency, and one normal change. The diff renderer is
  the line renderer.
\<close>

definition text_bd :: "string \<Rightarrow> string \<Rightarrow> string option \<Rightarrow> string" where
  "text_bd p c strategy = build_text_diff p c"

definition demo_event :: "ident \<Rightarrow> urgency \<Rightarrow> string option \<Rightarrow> string option \<Rightarrow> ms \<Rightarrow> event" where
  "demo_event i u snap obj t =
     \<lparr>e_id = i, e_ws = Some ''W'', e_monitor = ''m'', e_source = ''file'', e_urgency = u,
       e_title = ''t'', e_body = ''b'', e_summary = ''s'', e_payload = JObj [], e_meta = JObj [],
       e_snapshot = snap, e_diff = None, e_object = obj, e_baseline = Some Net, e_scope = [],
       e_tags = [], e_created = t\<rparr>"

definition demo_session :: "ident \<Rightarrow> role \<Rightarrow> session" where
  "demo_session i r =
     \<lparr>s_id = i, s_adapter = ''claude'', s_host = i, s_agent = ''a'', s_role = r, s_ws = Some ''W'',
       s_hook_path = ''hook-'' @ i, s_status = Active, s_baseline = 0, s_last_active = 0,
       s_last_recap = None, s_dormant = None, s_created = 0, s_updated = 0\<rparr>"

definition demo_row :: "ident \<Rightarrow> ident \<Rightarrow> ms \<Rightarrow> projection" where
  "demo_row s i t =
     \<lparr>p_session = s, p_event = i, p_first_notified = None, p_acked = None, p_last_claim = None,
       p_claim_lifecycle = None, p_diff = None, p_decision = None, p_reason = None,
       p_digest = None, p_net_suppressed = None, p_created = t, p_updated = t\<rparr>"

definition demo_store :: store where
  "demo_store = empty_store
     \<lparr>sessions := [demo_session ''L'' Lead, demo_session ''K'' Lead],
      events := [demo_event ''e1'' High (Some ''v1'') (Some ''f'') 1000,
                 demo_event ''e2'' High (Some ''v2'') (Some ''f'') 2000,
                 demo_event ''e3'' High None None 3000,
                 demo_event ''e4'' Normal None None 4000],
      projections := [demo_row ''L'' ''e1'' 1000, demo_row ''K'' ''e1'' 1000,
                      demo_row ''L'' ''e2'' 2000, demo_row ''L'' ''e3'' 3000,
                      demo_row ''L'' ''e4'' 4000]\<rparr>"

definition demo_rt :: runtime where
  "demo_rt = \<lparr>rt_store = demo_store, rt_reg = empty_registry None, rt_adapters = [''claude''],
     rt_files = Map.empty\<rparr>"

lemma demo_wf: "wf_store demo_store"
  by code_simp

text \<open>A result that evaluates to a delivery, as an equation on the operation.\<close>

definition delivers :: "'a \<times> ('e + 'b option) \<Rightarrow> bool" where
  "delivers r = (case snd r of Inr (Some c) \<Rightarrow> True | _ \<Rightarrow> False)"

lemma deliversE:
  assumes "delivers r"
  obtains a c where "r = (a, Inr (Some c))"
  using assms by (cases r) (auto simp: delivers_def split: sum.splits option.splits)

end
