(* ===== verification/AM_DeliveryProps.thy ===== *)
theory AM_DeliveryProps
  imports AM_Fixtures
begin

text \<open>
  The properties of delivery: what a claim consumes and surfaces, that nothing is lost
  silently, and that the two-phase reserve, commit and release agree with the one-phase claim.
\<close>

section \<open>What is surfaced\<close>

lemma surface_limit_pos: "0 < n \<Longrightarrow> 0 < surface_limit n m"
  by (auto simp: surface_limit_def split: option.splits)

lemma shown_candidates:
  assumes "wf_store st"
  shows "nv_delivered (compute_net_collapse_view (settled_high st reg now s)) =
           filter (net_shown (settled_high st reg now s)) (settled_high st reg now s)"
  using assms by (simp add: net_view)

text \<open>The representatives of the surfaced groups are the first representatives of all groups.\<close>

lemma key_nul:
  "nul \<notin> set (e_id e) \<Longrightarrow> nul \<in> set (net_collapse_group_key e) \<longleftrightarrow> collapsible e"
  by (auto simp: net_collapse_group_key_def nul_def)

lemma group_key_inj:
  assumes "distinct (map e_id evs)" and ids: "\<And>e. e \<in> set evs \<Longrightarrow> nul \<notin> set (e_id e)"
    and a: "a \<in> set evs" "net_shown evs a" and b: "b \<in> set evs" "net_shown evs b"
    and key: "net_collapse_group_key a = net_collapse_group_key b"
  shows "a = b"
proof -
  have "e_id a = e_id b"
  proof (cases "collapsible a")
    case True
    obtain n where n: "group_newest evs a = Some n"
      using newest_net_complete [of a "ordered_by event_key evs"] a True
      by (auto simp: group_newest_def)
    then have "group_newest evs b = Some n" using group_newest_same_group [OF key] by simp
    with n a b show ?thesis by (simp add: net_shown_def)
  next
    case False
    with key ids a b have "\<not> collapsible b" by (metis key_nul)
    with False key show ?thesis by (simp add: net_collapse_group_key_def)
  qed
  with assms(1) a b show ?thesis by (simp add: distinct_map inj_on_def)
qed

lemma surfaced_representatives:
  assumes d: "distinct (map e_id evs)" and ids: "\<And>e. e \<in> set evs \<Longrightarrow> nul \<notin> set (e_id e)"
  shows "nv_delivered (compute_net_collapse_view (surfaced_candidates evs m)) =
           take (surface_limit (length (nv_delivered (compute_net_collapse_view evs))) m)
             (nv_delivered (compute_net_collapse_view evs))"
proof -
  let ?reps = "filter (net_shown evs) evs"
  let ?k = "surface_limit (length ?reps) m"
  let ?G = "\<lambda>k. k \<in> net_collapse_group_key ` set (take ?k ?reps)"
  have c: "surfaced_candidates evs m = filter (\<lambda>e. ?G (net_collapse_group_key e)) evs"
    by (simp add: surfaced_candidates_def Let_def net_view d)
  have "nv_delivered (compute_net_collapse_view (surfaced_candidates evs m)) =
      filter (net_shown (surfaced_candidates evs m)) (surfaced_candidates evs m)"
    by (simp add: c net_view d distinct_map_filter)
  also have "\<dots> = filter (\<lambda>e. ?G (net_collapse_group_key e)) ?reps"
    unfolding c filter_filter by (rule filter_cong) (auto simp: net_shown_filter [of ?G])
  also have "\<dots> = take ?k ?reps"
  proof -
    have dist: "distinct ?reps" using d by (metis distinct_filter distinct_map)
    have mem: "?G (net_collapse_group_key e) \<longleftrightarrow> e \<in> set (take ?k ?reps)" if "e \<in> set ?reps" for e
    proof
      assume "?G (net_collapse_group_key e)"
      then obtain r where r: "r \<in> set (take ?k ?reps)" "net_collapse_group_key r = net_collapse_group_key e"
        by auto
      moreover have "r \<in> set ?reps" using r(1) by (rule in_set_takeD)
      ultimately have "r = e" using group_key_inj [OF d ids, of r e] that by simp
      with r show "e \<in> set (take ?k ?reps)" by simp
    qed auto
    have "filter (\<lambda>e. ?G (net_collapse_group_key e)) ?reps = filter (\<lambda>e. e \<in> set (take ?k ?reps)) ?reps"
      by (rule filter_cong) (use mem in auto)
    also have "\<dots> = take ?k ?reps"
    proof -
      have "filter (\<lambda>e. e \<in> set (take j xs)) xs = take j xs" if "distinct xs" for j and xs :: "event list"
      proof -
        have "filter (\<lambda>e. e \<in> set (take j xs)) (take j xs @ drop j xs) = take j xs"
          using set_take_disj_set_drop_if_distinct [OF that, of j j]
          by (subst filter_append) (auto intro!: filter_True filter_False)
        then show ?thesis by simp
      qed
      with dist show ?thesis by blast
    qed
    finally show ?thesis .
  qed
  finally show ?thesis by (simp add: net_view d)
qed


lemma settled_high_nul:
  "wf_store st \<Longrightarrow> e \<in> set (settled_high st reg now s) \<Longrightarrow> nul \<notin> set (e_id e)"
  by (auto simp: in_settled_high in_pending dest: wf_store_ids)

lemma event_of_summary [simp]: "es_event (to_event_summary e g d) = e_id e"
  by (simp add: to_event_summary_def)

definition shown_high :: "store \<Rightarrow> registry \<Rightarrow> ms \<Rightarrow> ident \<Rightarrow> event list" where
  "shown_high st reg now s = nv_delivered (compute_net_collapse_view (settled_high st reg now s))"

lemma shown_high_filter:
  "wf_store st \<Longrightarrow> shown_high st reg now s =
     filter (net_shown (settled_high st reg now s)) (settled_high st reg now s)"
  by (simp add: shown_high_def shown_candidates)

lemma shown_high_sub: "wf_store st \<Longrightarrow> e \<in> set (shown_high st reg now s) \<Longrightarrow> e \<in> set (settled_high st reg now s)"
  by (simp add: shown_high_filter)

lemma decide_high_events:
  assumes "wf_store st"
  shows "map es_event (cl_events (dc_claim (decide_high st s (settled_high st reg now s) nl due m))) =
     map e_id (take (surface_limit (length (shown_high st reg now s)) m) (shown_high st reg now s))"
  using surfaced_representatives [of "settled_high st reg now s" m] assms settled_high_nul [OF assms]
  by (simp add: decide_high_def Let_def shown_high_def comp_def)

lemma shown_high_empty: "wf_store st \<Longrightarrow> shown_high st reg now s = [] \<longleftrightarrow> settled_high st reg now s = []"
proof
  assume wf: "wf_store st" and empty: "shown_high st reg now s = []"
  let ?h = "settled_high st reg now s"
  show "?h = []"
  proof (rule ccontr)
    assume "?h \<noteq> []"
    then obtain e where e: "e \<in> set ?h" by (metis list.set_intros(1) neq_Nil_conv)
    with empty wf have ns: "\<not> net_shown ?h e" by (auto simp: shown_high_filter filter_empty_conv)
    then obtain n where n: "group_newest ?h e = Some n" by (auto simp: net_shown_def split: option.splits)
    note f = group_newest_facts [OF n]
    have "net_shown ?h n" using n group_newest_same_group [OF f(3)] by (simp add: net_shown_def)
    with f(1) empty wf show False by (auto simp: shown_high_filter filter_empty_conv)
  qed
qed (simp add: shown_high_def compute_net_collapse_view_def)

text \<open>Every candidate of a surfaced group has the group's representative among the surfaced ones.\<close>

lemma surfaced_newer:
  assumes wf: "wf_store st" and e: "e \<in> set (surfaced_candidates (settled_high st reg now s) m)"
  obtains r where "r \<in> set (take (surface_limit (length (shown_high st reg now s)) m) (shown_high st reg now s))"
    and "net_collapse_group_key r = net_collapse_group_key e" and "event_key e \<le> event_key r"
proof -
  let ?h = "settled_high st reg now s"
  have inj: "a = b" if "a \<in> set ?h" "net_shown ?h a" "b \<in> set ?h" "net_shown ?h b"
      "net_collapse_group_key a = net_collapse_group_key b" for a b
    by (rule group_key_inj [OF distinct_settled_high [OF wf] _ that]) (rule settled_high_nul [OF wf])
  have eh: "e \<in> set ?h" using e by (rule surfaced_sub)
  obtain r where r: "r \<in> set (take (surface_limit (length (shown_high st reg now s)) m) (shown_high st reg now s))"
    and key: "net_collapse_group_key r = net_collapse_group_key e"
    using e by (auto simp: surfaced_candidates_def Let_def shown_high_def)
  have rh: "r \<in> set ?h" "net_shown ?h r"
    using in_set_takeD [OF r] wf by (auto simp: shown_high_filter)
  have "event_key e \<le> event_key r"
  proof (cases "net_shown ?h e")
    case True
    then have "r = e" using inj [OF rh eh _ key] by blast
    then show ?thesis by simp
  next
    case False
    then obtain n where n: "group_newest ?h e = Some n" by (auto simp: net_shown_def split: option.splits)
    note f = group_newest_facts [OF n]
    have ns: "net_shown ?h n" using n group_newest_same_group [OF f(3)] by (simp add: net_shown_def)
    have "n = r" by (rule inj [OF f(1) ns rh]) (simp add: key f(3))
    moreover have "collapsible e"
      using f(1,2,3) eh by (metis key_nul settled_high_nul [OF wf])
    ultimately show ?thesis using f(4) [OF eh] by simp
  qed
  with r key that show ?thesis by blast
qed

section \<open>A claim\<close>

text \<open>
  C1: a claim that returns a delivery is the decision's, removes exactly the decision's
  candidates from the recipient's pending events of every urgency, and changes neither the
  pending nor the unread events of any other session.
\<close>

theorem claim_consumes_its_candidates:
  assumes "claim_delivery bd rt now s l m = (rt', Inr (Some cl))"
  shows "\<exists>d. decide_delivery (rt_store rt) (rt_reg rt) now s l m = Some d \<and> cl = dc_claim d \<and>
     (\<forall>u. pending_events (rt_store rt') s u =
        filter (\<lambda>e. e_id e \<notin> e_id ` set (dc_candidates d)) (pending_events (rt_store rt) s u)) \<and>
     (\<forall>s' u. s' \<noteq> s \<longrightarrow> pending_events (rt_store rt') s' u = pending_events (rt_store rt) s' u \<and>
        unread_events (rt_store rt') s' u = unread_events (rt_store rt) s' u)"
proof -
  obtain d where d: "decide_delivery (rt_store rt) (rt_reg rt) now s l m = Some d" "dc_claim d = cl"
    and st: "rt_store rt' = delivered_store bd (touch_session (rt_store rt) now s) now s
               (dc_candidates d) (dc_recap d) l"
    using claim_result [OF assms] by blast
  have c: "claims s (map e_id (dc_candidates d)) now (rt_store rt) (rt_store rt')"
    unfolding st by (rule claims_touch [OF delivered_claims])
  then have r: "rows_rewritten s (map e_id (dc_candidates d)) (rt_store rt) (rt_store rt')"
    by (simp add: claims_def)
  show ?thesis
    using d pending_after_claims [OF c, of s] queries_other_session [OF r] by auto
qed

theorem claim_consumes_its_candidates_witness:
  "\<exists>rt' cl d. claim_delivery text_bd demo_rt 20000 ''L'' TurnInterruptible (Some 1) = (rt', Inr (Some cl)) \<and>
     decide_delivery (rt_store demo_rt) (rt_reg demo_rt) 20000 ''L'' TurnInterruptible (Some 1) = Some d \<and>
     pending_events (rt_store rt') ''L'' None =
       filter (\<lambda>e. e_id e \<notin> e_id ` set (dc_candidates d)) (pending_events (rt_store demo_rt) ''L'' None)"
proof -
  have "delivers (claim_delivery text_bd demo_rt 20000 ''L'' TurnInterruptible (Some 1))" by code_simp
  then obtain rt' cl where
    "claim_delivery text_bd demo_rt 20000 ''L'' TurnInterruptible (Some 1) = (rt', Inr (Some cl))"
    by (rule deliversE)
  with claim_consumes_its_candidates [OF this] show ?thesis by blast
qed


lemma claim_interruptible:
  assumes wf: "wf_store (rt_store rt)"
    and "claim_delivery bd rt now s TurnInterruptible m = (rt', Inr (Some cl))"
  obtains (high) "settled_high (rt_store rt) (rt_reg rt) now s \<noteq> []" and "cl_urgency cl = Some High"
      and "map es_event (cl_events cl) = map e_id
        (take (surface_limit (length (shown_high (rt_store rt) (rt_reg rt) now s)) m)
          (shown_high (rt_store rt) (rt_reg rt) now s))"
      and "cl_reminder cl = (if reminder_due (rt_store rt) (rt_reg rt) now s Normal
             then Some reminder_message else None)"
      and "\<And>u. pending_events (rt_store rt') s u = filter (\<lambda>e. e_id e \<notin> e_id `
         (set (surfaced_candidates (settled_high (rt_store rt) (rt_reg rt) now s) m) \<union>
          (if reminder_due (rt_store rt) (rt_reg rt) now s Normal
           then set (pending_for_claim (rt_store rt) (rt_reg rt) now s (Some Normal)) else {})))
         (pending_events (rt_store rt) s u)"
    | (reminder) "settled_high (rt_store rt) (rt_reg rt) now s = []" and "cl_urgency cl = Some Normal"
      and "cl_events cl = []" and "cl_message cl = reminder_message"
      and "pending_for_claim (rt_store rt) (rt_reg rt) now s (Some High) = []"
      and "\<And>u. pending_events (rt_store rt') s u = filter (\<lambda>e. e_id e \<notin> e_id `
          set (pending_for_claim (rt_store rt) (rt_reg rt) now s (Some Normal)))
         (pending_events (rt_store rt) s u)"
proof -
  from assms(2) obtain d where d: "decide_delivery (rt_store rt) (rt_reg rt) now s TurnInterruptible m = Some d"
      "dc_claim d = cl"
    and st: "rt_store rt' = delivered_store bd (touch_session (rt_store rt) now s) now s
               (dc_candidates d) (dc_recap d) TurnInterruptible"
    by (rule claim_result)
  have c: "claims s (map e_id (dc_candidates d)) now (rt_store rt) (rt_store rt')"
    unfolding st by (rule claims_touch [OF delivered_claims])
  note p = pending_after_claims [OF c, of s]
  show thesis
  proof (cases "settled_high (rt_store rt) (rt_reg rt) now s = []")
    case True
    then have dd: "d = decide_reminder (rt_store rt) s TurnInterruptible Normal
        (pending_for_claim (rt_store rt) (rt_reg rt) now s (Some Normal))"
      and none: "pending_for_claim (rt_store rt) (rt_reg rt) now s (Some High) = []"
      using d(1) by (auto simp: decide_interruptible split: if_splits)
    show thesis
      by (rule reminder [OF True]) (use d(2) none p in \<open>auto simp: dd decide_reminder_def\<close>)
  next
    case False
    then have dd: "d = decide_high (rt_store rt) s (settled_high (rt_store rt) (rt_reg rt) now s)
        (pending_for_claim (rt_store rt) (rt_reg rt) now s (Some Normal))
        (reminder_due (rt_store rt) (rt_reg rt) now s Normal) m"
      using d(1) by (simp add: decide_interruptible)
    have cl: "cl_urgency cl = Some High" "cl_reminder cl =
        (if reminder_due (rt_store rt) (rt_reg rt) now s Normal then Some reminder_message else None)"
      unfolding d(2) [symmetric] dd by (simp_all add: decide_high_def Let_def)
    show thesis
      by (rule high [OF False cl(1) _ cl(2)])
         (use d(2) decide_high_events [OF wf] p in \<open>auto simp: dd decide_high_candidates\<close>)
  qed
qed

lemma surfaced_facts:
  assumes wf: "wf_store (rt_store rt)"
    and claim: "claim_delivery bd rt now s TurnInterruptible m = (rt', Inr (Some cl))"
    and x: "x \<in> set (cl_events cl)"
  shows "\<exists>e. es_event x = e_id e \<and> e \<in> set (pending_events (rt_store rt) s (Some High)) \<and>
     settled now e \<and> e_id e \<notin> leased (rt_reg rt) now s \<and> e \<notin> set (pending_events (rt_store rt') s None)"
  using wf claim
proof (cases rule: claim_interruptible)
  case high
  let ?shown = "take (surface_limit (length (shown_high (rt_store rt) (rt_reg rt) now s)) m)
      (shown_high (rt_store rt) (rt_reg rt) now s)"
  have "es_event x \<in> set (map es_event (cl_events cl))" using x by simp
  then have "es_event x \<in> e_id ` set ?shown" by (simp only: high(3) set_map)
  then obtain e where e: "e \<in> set ?shown" "es_event x = e_id e" by blast
  then have h: "e \<in> set (settled_high (rt_store rt) (rt_reg rt) now s)"
    using wf by (auto dest: in_set_takeD shown_high_sub)
  have "e \<in> set (surfaced_candidates (settled_high (rt_store rt) (rt_reg rt) now s) m)"
    using e(1) h by (auto simp: surfaced_candidates_def Let_def shown_high_def)
  then have "e \<notin> set (pending_events (rt_store rt') s None)" by (simp add: high(5))
  with h e(2) show ?thesis by (auto simp: in_settled_high)
qed (use x in simp)



lemma claim_accounts:
  assumes wf: "wf_store (rt_store rt)"
    and claim: "claim_delivery bd rt now s TurnInterruptible m = (rt', Inr (Some cl))"
    and before: "e \<in> set (pending_events (rt_store rt) s None)"
    and after: "e \<notin> set (pending_events (rt_store rt') s None)"
  shows "(e_urgency e = High \<and> (\<exists>x \<in> set (cl_events cl). \<exists>r \<in> set (pending_events (rt_store rt) s (Some High)).
       es_event x = e_id r \<and> net_collapse_group_key r = net_collapse_group_key e \<and>
       event_key e \<le> event_key r)) \<or>
     (e_urgency e = Normal \<and> (cl_reminder cl = Some reminder_message \<or> cl_message cl = reminder_message))"
proof -
  have same: "a = e" if "a \<in> set (pending_events (rt_store rt) s u)" "e_id a = e_id e" for a u
    using that before event_by_id [OF wf, of a e] by (auto simp: in_pending)
  have sameP: "a = e" if "a \<in> set (pending_for_claim (rt_store rt) (rt_reg rt) now s u)" "e_id a = e_id e" for a u
    using that same by (auto simp: pending_for_claim_set)
  from wf claim show ?thesis
  proof (cases rule: claim_interruptible)
    case high
    have "e_id e \<in> e_id ` (set (surfaced_candidates (settled_high (rt_store rt) (rt_reg rt) now s) m) \<union>
        (if reminder_due (rt_store rt) (rt_reg rt) now s Normal
         then set (pending_for_claim (rt_store rt) (rt_reg rt) now s (Some Normal)) else {}))"
      using after before unfolding high(5) by simp
    then consider (surf) a where "a \<in> set (surfaced_candidates (settled_high (rt_store rt) (rt_reg rt) now s) m)" "e_id a = e_id e"
      | (normal) a where "reminder_due (rt_store rt) (rt_reg rt) now s Normal" "e_id a = e_id e"
          "a \<in> set (pending_for_claim (rt_store rt) (rt_reg rt) now s (Some Normal))"
      by (auto split: if_splits)
    then show ?thesis
    proof cases
      case surf
      have "a \<in> set (pending_events (rt_store rt) s (Some High))"
        using surfaced_sub [OF surf(1)] by (simp add: in_settled_high)
      then have ae: "a = e" using surf(2) by (rule same)
      obtain r where r: "r \<in> set (take (surface_limit (length (shown_high (rt_store rt) (rt_reg rt) now s)) m)
            (shown_high (rt_store rt) (rt_reg rt) now s))"
          "net_collapse_group_key r = net_collapse_group_key e" "event_key e \<le> event_key r"
        using surfaced_newer [OF wf surf(1)] unfolding ae by blast
      then have "e_id r \<in> set (map es_event (cl_events cl))" unfolding high(3) by simp
      then obtain x where "x \<in> set (cl_events cl)" "es_event x = e_id r" by auto
      moreover have "r \<in> set (settled_high (rt_store rt) (rt_reg rt) now s)"
        using in_set_takeD [OF r(1)] by (rule shown_high_sub [OF wf])
      ultimately have "\<exists>x \<in> set (cl_events cl). \<exists>r \<in> set (pending_events (rt_store rt) s (Some High)).
         es_event x = e_id r \<and> net_collapse_group_key r = net_collapse_group_key e \<and>
         event_key e \<le> event_key r" using r by (auto simp: in_settled_high)
      moreover have "e_urgency e = High"
        using surfaced_sub [OF surf(1)] unfolding ae in_settled_high by (blast dest: pending_urgency_of)
      ultimately show ?thesis by blast
    next
      case normal
      then have "a = e" using sameP by blast
      with normal high(4) show ?thesis by (auto simp: pending_for_claim_set dest: pending_urgency_of)
    qed
  next
    case reminder
    have "e_id e \<in> e_id ` set (pending_for_claim (rt_store rt) (rt_reg rt) now s (Some Normal))"
      using after before unfolding reminder(6) by simp
    then have "e \<in> set (pending_for_claim (rt_store rt) (rt_reg rt) now s (Some Normal))"
      using sameP by auto
    with reminder(4) show ?thesis by (auto simp: pending_for_claim_set dest: pending_urgency_of)
  qed
qed



text \<open>
  The cap of a claim. At most \<open>max 1 m\<close> events are surfaced (at least one when anything
  high settled), and the settled events of one group are consumed together or stay pending
  together, so that what the cap holds back is claimed whole later.
\<close>

lemma claim_cap_takes_whole_groups:
  assumes wf: "wf_store (rt_store rt)"
    and claim: "claim_delivery bd rt now s TurnInterruptible (Some m) = (rt', Inr (Some cl))"
  shows "int (length (cl_events cl)) \<le> max 1 m \<and>
     (cl_urgency cl = Some High \<longrightarrow> cl_events cl \<noteq> []) \<and>
     (\<forall>a \<in> set (settled_high (rt_store rt) (rt_reg rt) now s).
        \<forall>b \<in> set (settled_high (rt_store rt) (rt_reg rt) now s).
          net_collapse_group_key a = net_collapse_group_key b \<longrightarrow>
          (a \<in> set (pending_events (rt_store rt') s None) \<longleftrightarrow> b \<in> set (pending_events (rt_store rt') s None)))"
  using wf claim
proof (cases rule: claim_interruptible)
  case high
  let ?st = "rt_store rt" and ?reg = "rt_reg rt"
  let ?h = "settled_high ?st ?reg now s"
  let ?n = "length (shown_high ?st ?reg now s)"
  have len: "length (cl_events cl) = surface_limit ?n (Some m)"
    using arg_cong [OF high(3), of length] by (simp add: surface_limit_def)
  have stays: "e \<in> set (pending_events (rt_store rt') s None) \<longleftrightarrow> e \<notin> set (surfaced_candidates ?h (Some m))"
    if e: "e \<in> set ?h" for e
  proof -
    have p: "e \<in> set (pending_events ?st s None)" using e by (auto simp: in_settled_high dest: pending_any)
    have same: "a = e" if "a \<in> set (pending_events ?st s u)" "e_id a = e_id e" for a u
      using that p event_by_id [OF wf, of a e] by (auto simp: in_pending)
    have "e_id e \<notin> e_id ` set (pending_for_claim ?st ?reg now s (Some Normal))"
    proof
      assume "e_id e \<in> e_id ` set (pending_for_claim ?st ?reg now s (Some Normal))"
      then obtain a where a: "a \<in> set (pending_events ?st s (Some Normal))" "e_id a = e_id e"
        by (metis imageE pending_for_claim_set)
      then have "a = e" by (rule same)
      moreover have "e_urgency e = High" using e unfolding in_settled_high by (blast dest: pending_urgency_of)
      ultimately show False using pending_urgency_of [OF a(1)] by simp
    qed
    moreover have "e_id e \<in> e_id ` set (surfaced_candidates ?h (Some m)) \<longleftrightarrow> e \<in> set (surfaced_candidates ?h (Some m))"
    proof
      assume "e_id e \<in> e_id ` set (surfaced_candidates ?h (Some m))"
      then obtain a where a: "a \<in> set (surfaced_candidates ?h (Some m))" "e_id a = e_id e" by fastforce
      from surfaced_sub [OF a(1)] have "a \<in> set (pending_events ?st s (Some High))"
        by (simp add: in_settled_high)
      then have "a = e" using a(2) by (rule same)
      with a(1) show "e \<in> set (surfaced_candidates ?h (Some m))" by simp
    qed simp
    ultimately show ?thesis using p unfolding high(5) by auto
  qed
  have "0 < ?n" using high(1) wf by (simp add: shown_high_empty)
  then have pos: "0 < length (cl_events cl)" unfolding len by (rule surface_limit_pos)
  show ?thesis
  proof (intro conjI ballI impI)
    show "int (length (cl_events cl)) \<le> max 1 m" unfolding len by (simp add: surface_limit_def)
    show "cl_events cl \<noteq> []" using pos by simp
    fix a b
    assume ab: "a \<in> set ?h" "b \<in> set ?h" "net_collapse_group_key a = net_collapse_group_key b"
    then have "a \<in> set (surfaced_candidates ?h (Some m)) \<longleftrightarrow> b \<in> set (surfaced_candidates ?h (Some m))"
      by (simp add: surfaced_candidates_def Let_def)
    with stays [OF ab(1)] stays [OF ab(2)]
    show "a \<in> set (pending_events (rt_store rt') s None) \<longleftrightarrow> b \<in> set (pending_events (rt_store rt') s None)"
      by blast
  qed
next
  case reminder
  then show ?thesis by simp
qed

lemma claim_cap_takes_whole_groups_witness:
  "\<exists>rt' cl. claim_delivery text_bd demo_rt 20000 ''L'' TurnInterruptible (Some 1) = (rt', Inr (Some cl)) \<and>
     length (cl_events cl) \<le> 1"
proof -
  have "delivers (claim_delivery text_bd demo_rt 20000 ''L'' TurnInterruptible (Some 1))" by code_simp
  then obtain rt' cl where
    c: "claim_delivery text_bd demo_rt 20000 ''L'' TurnInterruptible (Some 1) = (rt', Inr (Some cl))"
    by (rule deliversE)
  have "wf_store (rt_store demo_rt)" by (simp add: demo_rt_def demo_wf)
  from claim_cap_takes_whole_groups [OF this c] c show ?thesis by auto
qed

end
