(* ===== verification/AM_TwoPhase.thy ===== *)
theory AM_TwoPhase
  imports AM_DeliveryProps
begin

text \<open>
  The two-phase delivery: a reservation that is committed is a claim, one that is released or
  left to expire leaves no trace in what is delivered next, and while it lives its candidates
  are delivered by no other transport. The registry's laws come from the interpretation
  \<open>leases\<close>.
\<close>

section \<open>The reservation in the runtime\<close>

lemma prune_fresh: "map_of (rg_plans reg) i = None \<Longrightarrow> map_of (rg_plans (reservation_prune reg now)) i = None"
  by (auto simp: reservation_prune_def map_of_eq_None_iff)

lemma prune_ttl [simp]: "rg_ttl (reservation_prune reg now) = rg_ttl reg"
  by (simp add: reservation_prune_def)

lemma prune_add:
  assumes "map_of (rg_plans reg) i = None" and "0 < rg_ttl reg"
  shows "reservation_prune (reservation_add reg now i p) now = reservation_add (reservation_prune reg now) now i p"
  using assms prune_fresh [OF assms(1), of now] by (simp add: reservation_add_def reservation_prune_def Let_def)

definition plan_of :: "decision \<Rightarrow> plan" where
  "plan_of d = \<lparr>rv_session = dc_session d, rv_candidates = dc_candidates d, rv_recap = dc_recap d,
     rv_claim = dc_claim d, rv_expires = 0\<rparr>"

lemma reserve_result:
  assumes fresh: "map_of (rg_plans (rt_reg rt)) rid = None" and ttl: "0 < rg_ttl (rt_reg rt)"
    and res: "reserve_delivery rt now rid s l m = (rt1, Inr (Some (i, cl)))"
  obtains d ses where "decide_delivery (rt_store rt) (rt_reg rt) now s l m = Some d" and "i = rid"
    and "cl = dc_claim d" and "get_session (touch_session (rt_store rt) now s) s = Inr ses"
    and "s_adapter ses \<in> set (rt_adapters rt)"
    and "rt1 = rt\<lparr>rt_store := touch_session (rt_store rt) now s,
           rt_reg := reservation_add (reservation_prune (rt_reg rt) now) now rid (plan_of d),
           rt_files := (rt_files rt)(s_hook_path ses \<mapsto>
             hook_state_of (touch_session (rt_store rt) now s)
               (reservation_add (reservation_prune (rt_reg rt) now) now rid (plan_of d)) now s)\<rparr>"
proof -
  obtain d where d: "decide_delivery (rt_store rt) (rt_reg rt) now s l m = Some d"
    using res by (auto simp: reserve_delivery_def Let_def split: option.splits)
  let ?st = "touch_session (rt_store rt) now s"
  let ?reg = "reservation_add (reservation_prune (rt_reg rt) now) now rid (plan_of d)"
  have reg: "reservation_prune ?reg now = ?reg"
    using prune_add [OF prune_fresh [OF fresh], where now = now and p = "plan_of d"] ttl by simp
  let ?r = "refresh_hook_state (rt\<lparr>rt_store := ?st, rt_reg := ?reg\<rparr>) now s"
  have r: "reserve_delivery rt now rid s l m =
      (case ?r of (rt2, Inl e) \<Rightarrow> (rt2, Inl e) | (rt2, Inr _) \<Rightarrow> (rt2, Inr (Some (rid, dc_claim d))))"
    by (simp add: reserve_delivery_def d decide_fields [OF d] plan_of_def Let_def)
  then obtain h where h: "?r = (rt1, Inr h)" and i: "i = rid" "cl = dc_claim d"
    using res by (auto split: prod.splits sum.splits)
  from h obtain ses where ses: "get_session ?st s = Inr ses" "s_adapter ses \<in> set (rt_adapters rt)"
    and rt1: "rt1 = rt\<lparr>rt_store := ?st, rt_reg := ?reg, rt_files := (rt_files rt)(s_hook_path ses \<mapsto>
             hook_state_of ?st ?reg now s)\<rparr>"
    by (auto simp: refresh_hook_state_def Let_def reg split: sum.splits if_splits)
  from d i ses rt1 that show ?thesis by blast
qed

lemma get_session_recap:
  "get_session (update_session_recap st now s) i =
     map_sum id (\<lambda>r. if s_id r = s then r\<lparr>s_last_recap := Some (db_time now),
        s_last_active := db_time now, s_updated := db_time now\<rparr> else r) (get_session st i)"
  by (simp add: get_session_def update_session_recap_def find_update_where split: option.splits)

lemma get_session_cong: "sessions st' = sessions st \<Longrightarrow> get_session st' i = get_session st i"
  by (simp add: get_session_def)

lemma delivered_session:
  assumes "get_session st s = Inr ses"
  shows "\<exists>ses'. get_session (delivered_store bd st now s cands recap l) s = Inr ses' \<and>
     s_hook_path ses' = s_hook_path ses \<and> s_adapter ses' = s_adapter ses"
proof -
  let ?st2 = "mark_claimed (fst (collapse_net_for_claim bd st now s cands)) now s (map e_id cands) l"
  have g: "get_session ?st2 s = Inr ses" using assms by (simp add: get_session_def)
  then show ?thesis by (cases recap) (simp_all add: delivered_store_def Let_def get_session_recap)
qed

text \<open>A delivery overwrites whatever the reservation wrote to the session's hook file.\<close>

lemma apply_overwrites:
  assumes "get_session (rt_store rt) s = Inr ses" and "s_adapter ses \<in> set (rt_adapters rt)"
  shows "apply_delivery bd (rt\<lparr>rt_files := (rt_files rt)(s_hook_path ses \<mapsto> h)\<rparr>) now s cands recap cl =
     apply_delivery bd rt now s cands recap cl"
proof -
  obtain ses' where "get_session (delivered_store bd (rt_store rt) now s cands recap (cl_lifecycle cl)) s = Inr ses'"
    "s_hook_path ses' = s_hook_path ses" "s_adapter ses' = s_adapter ses"
    using delivered_session [OF assms(1)] by blast
  with assms(2) show ?thesis
    by (simp add: apply_delivery_def refresh_hook_state_def Let_def delivered_store_def [unfolded Let_def, symmetric])
qed

lemma release_frame:
  assumes "reservation_remove (rt_reg rt) rid = (reg, Some p)"
  shows "rt_store (fst (release_delivery rt now rid)) = rt_store rt"
    and "rt_reg (fst (release_delivery rt now rid)) = reservation_prune reg now"
proof -
  have "fst (release_delivery rt now rid) = fst (refresh_hook_state (rt\<lparr>rt_reg := reg\<rparr>) now (rv_session p))"
    by (simp add: release_delivery_def assms split: prod.splits sum.splits)
  then show "rt_store (fst (release_delivery rt now rid)) = rt_store rt"
    and "rt_reg (fst (release_delivery rt now rid)) = reservation_prune reg now" by simp_all
qed

section \<open>The properties\<close>

text \<open>
  C2: reserving and committing at once is claiming: the same store, registry, hook files and
  the same claim, for every lifecycle, cap and diff renderer.
\<close>

theorem commit_of_reserve_is_claim:
  assumes fresh: "map_of (rg_plans (rt_reg rt)) rid = None" and ttl: "0 < rg_ttl (rt_reg rt)"
    and res: "reserve_delivery rt now rid s l m = (rt1, Inr (Some (i, cl)))"
  shows "i = rid \<and> commit_delivery bd rt1 now rid = claim_delivery bd rt now s l m"
proof -
  from fresh ttl res obtain d ses where d: "decide_delivery (rt_store rt) (rt_reg rt) now s l m = Some d" "i = rid"
      "cl = dc_claim d"
    and ses: "get_session (touch_session (rt_store rt) now s) s = Inr ses" "s_adapter ses \<in> set (rt_adapters rt)"
    and rt1: "rt1 = rt\<lparr>rt_store := touch_session (rt_store rt) now s,
           rt_reg := reservation_add (reservation_prune (rt_reg rt) now) now rid (plan_of d),
           rt_files := (rt_files rt)(s_hook_path ses \<mapsto>
             hook_state_of (touch_session (rt_store rt) now s)
               (reservation_add (reservation_prune (rt_reg rt) now) now rid (plan_of d)) now s)\<rparr>"
    by (rule reserve_result)
  let ?rt = "rt\<lparr>rt_store := touch_session (rt_store rt) now s, rt_reg := reservation_prune (rt_reg rt) now\<rparr>"
  have take: "reservation_take (rt_reg rt1) now rid =
      (reservation_prune (rt_reg rt) now, Some ((plan_of d)\<lparr>rv_expires := now + rg_ttl (rt_reg rt)\<rparr>))"
    using leases.take_after_add [OF prune_fresh [OF fresh]] ttl by (simp add: rt1)
  have "rt1\<lparr>rt_reg := reservation_prune (rt_reg rt) now\<rparr> =
      ?rt\<lparr>rt_files := (rt_files ?rt)(s_hook_path ses \<mapsto> hook_state_of (rt_store rt1) (rt_reg rt1) now s)\<rparr>"
    by (rule runtime.equality) (simp_all add: rt1)
  then have "apply_delivery bd (rt1\<lparr>rt_reg := reservation_prune (rt_reg rt) now\<rparr>) now s (dc_candidates d)
        (dc_recap d) (dc_claim d) = apply_delivery bd ?rt now s (dc_candidates d) (dc_recap d) (dc_claim d)"
    using apply_overwrites [of ?rt s ses] ses by simp
  then show ?thesis
    using d by (simp add: commit_delivery_def take plan_of_def claim_delivery_def decide_fields [OF d(1)]
        split: prod.splits sum.splits)
qed

theorem commit_of_reserve_is_claim_witness:
  "\<exists>rt1 cl. reserve_delivery demo_rt 20000 ''r1'' ''L'' TurnInterruptible (Some 1) = (rt1, Inr (Some (''r1'', cl))) \<and>
     commit_delivery text_bd rt1 20000 ''r1'' = claim_delivery text_bd demo_rt 20000 ''L'' TurnInterruptible (Some 1)"
proof -
  have "delivers (reserve_delivery demo_rt 20000 ''r1'' ''L'' TurnInterruptible (Some 1))" by code_simp
  then obtain rt1 c where
    r: "reserve_delivery demo_rt 20000 ''r1'' ''L'' TurnInterruptible (Some 1) = (rt1, Inr (Some c))"
    by (rule deliversE)
  obtain i cl where c: "c = (i, cl)" by (cases c)
  have "map_of (rg_plans (rt_reg demo_rt)) ''r1'' = None" "0 < rg_ttl (rt_reg demo_rt)"
    by (simp_all add: demo_rt_def empty_registry_def default_reservation_ttl_ms_def)
  from commit_of_reserve_is_claim [OF this r [unfolded c]] r c show ?thesis by blast
qed

text \<open>
  A reservation that is released, and one that is left to expire, takes nothing with it:
  from then on every session is offered exactly what it would have been offered without it.
\<close>

lemma abandoned_reservation_is_neutral:
  assumes fresh: "map_of (rg_plans (rt_reg rt)) rid = None" and ttl: "0 < rg_ttl (rt_reg rt)"
    and res: "reserve_delivery rt now rid s l m = (rt1, Inr (Some (i, cl)))"
    and later: "now \<le> later"
  shows "(\<forall>t \<le> later. now \<le> t \<longrightarrow> decide_delivery (rt_store (fst (release_delivery rt1 t rid)))
            (rt_reg (fst (release_delivery rt1 t rid))) later s' l' m' =
          decide_delivery (rt_store rt) (rt_reg rt) later s' l' m') \<and>
     (now + rg_ttl (rt_reg rt) \<le> later \<longrightarrow>
        decide_delivery (rt_store rt1) (rt_reg rt1) later s' l' m' =
          decide_delivery (rt_store rt) (rt_reg rt) later s' l' m' \<and>
        snd (commit_delivery bd rt1 later rid) = Inr None)"
proof -
  from fresh ttl res obtain d ses where d: "decide_delivery (rt_store rt) (rt_reg rt) now s l m = Some d" "i = rid"
      "cl = dc_claim d"
    and ses: "get_session (touch_session (rt_store rt) now s) s = Inr ses" "s_adapter ses \<in> set (rt_adapters rt)"
    and rt1: "rt1 = rt\<lparr>rt_store := touch_session (rt_store rt) now s,
           rt_reg := reservation_add (reservation_prune (rt_reg rt) now) now rid (plan_of d),
           rt_files := (rt_files rt)(s_hook_path ses \<mapsto>
             hook_state_of (touch_session (rt_store rt) now s)
               (reservation_add (reservation_prune (rt_reg rt) now) now rid (plan_of d)) now s)\<rparr>"
    by (rule reserve_result)
  note freshp = prune_fresh [OF fresh, of now]
  have rel: "rt_store (fst (release_delivery rt1 t rid)) = touch_session (rt_store rt) now s \<and>
      rt_reg (fst (release_delivery rt1 t rid)) = reservation_prune (reservation_prune (rt_reg rt) now) t" for t
    using leases.remove_after_add [OF freshp, of now "plan_of d"]
    using release_frame [of rt1 rid] by (simp add: rt1)
  have "leased (reservation_prune (reservation_prune (rt_reg rt) now) t) later s' = leased (rt_reg rt) later s'"
    if "t \<le> later" for t using that later by simp
  then have "decide_delivery (rt_store (fst (release_delivery rt1 t rid)))
            (rt_reg (fst (release_delivery rt1 t rid))) later s' l' m' =
          decide_delivery (rt_store rt) (rt_reg rt) later s' l' m'" if "t \<le> later" for t
    using that rel [of t] by (auto intro!: decide_delivery_cong)
  moreover have "decide_delivery (rt_store rt1) (rt_reg rt1) later s' l' m' =
      decide_delivery (rt_store rt) (rt_reg rt) later s' l' m'" if "now + rg_ttl (rt_reg rt) \<le> later"
    using leases.lease_lapses [OF freshp, of now later "plan_of d" s'] that later
    by (intro decide_delivery_cong) (simp_all add: rt1)
  moreover have "snd (commit_delivery bd rt1 later rid) = Inr None" if "now + rg_ttl (rt_reg rt) \<le> later"
    using leases.take_after_add [OF freshp, of now "plan_of d" later] that
    by (simp add: commit_delivery_def rt1)
  ultimately show ?thesis by blast
qed


lemma demo_reserve:
  obtains rt1 cl where "reserve_delivery demo_rt 20000 ''r1'' ''L'' TurnInterruptible (Some 1) = (rt1, Inr (Some (''r1'', cl)))"
    and "map_of (rg_plans (rt_reg demo_rt)) ''r1'' = None" and "0 < rg_ttl (rt_reg demo_rt)"
proof -
  let ?r = "reserve_delivery demo_rt 20000 ''r1'' ''L'' TurnInterruptible (Some 1)"
  have "case snd ?r of Inr (Some (i, c)) \<Rightarrow> i = ''r1'' | _ \<Rightarrow> False" by code_simp
  moreover have "delivers ?r" by code_simp
  ultimately obtain rt1 cl where "?r = (rt1, Inr (Some (''r1'', cl)))" by (auto elim!: deliversE)
  then show ?thesis
    using that by (simp add: demo_rt_def empty_registry_def default_reservation_ttl_ms_def)
qed

lemma abandoned_reservation_is_neutral_witness:
  "\<exists>rt1. fst (reserve_delivery demo_rt 20000 ''r1'' ''L'' TurnInterruptible (Some 1)) = rt1 \<and>
     decide_delivery (rt_store (fst (release_delivery rt1 20001 ''r1'')))
        (rt_reg (fst (release_delivery rt1 20001 ''r1''))) 60000 ''L'' TurnInterruptible None =
       decide_delivery demo_store (rt_reg demo_rt) 60000 ''L'' TurnInterruptible None \<and>
     decide_delivery (rt_store rt1) (rt_reg rt1) 60000 ''L'' TurnInterruptible None =
       decide_delivery demo_store (rt_reg demo_rt) 60000 ''L'' TurnInterruptible None \<and>
     snd (commit_delivery text_bd rt1 60000 ''r1'') = Inr None"
proof -
  obtain rt1 cl where
    r: "reserve_delivery demo_rt 20000 ''r1'' ''L'' TurnInterruptible (Some 1) = (rt1, Inr (Some (''r1'', cl)))"
    and h: "map_of (rg_plans (rt_reg demo_rt)) ''r1'' = None" "0 < rg_ttl (rt_reg demo_rt)"
    by (rule demo_reserve)
  have st: "rt_store demo_rt = demo_store" and ttl: "rg_ttl (rt_reg demo_rt) = 30000"
    by (simp_all add: demo_rt_def empty_registry_def default_reservation_ttl_ms_def)
  from abandoned_reservation_is_neutral [OF h r, of 60000 "''L''" TurnInterruptible None text_bd] r
  show ?thesis by (simp add: st ttl)
qed



end
