(* ===== verification/AM_HookState.thy ===== *)
theory AM_HookState
  imports AM_TwoPhase
begin

text \<open>
  What the hook file, the previews and an acknowledgement say about the next delivery, that a
  settled event is delivered, and the recipient's cursors after a claim.
\<close>

section \<open>The hook state and the decision\<close>

text \<open>
  The hook file's flags are the next decision. A delivery is due at a turn boundary
  exactly when the high flag is up, or the normal one is with no reservation on normal events
  and nothing high pending; and at turn idle exactly when the low flag is up with no
  reservation on low events.
\<close>

lemma hook_state_is_next_decision:
  "(decide_delivery st reg now s TurnInterruptible m \<noteq> None \<longleftrightarrow>
      hk_high (hook_state_of st reg now s) \<or>
      (hk_normal (hook_state_of st reg now s) \<and> leased_pending_count st reg now s (Some Normal) = 0 \<and>
       pending_for_claim st reg now s (Some High) = [])) \<and>
   (decide_delivery st reg now s TurnIdle m \<noteq> None \<longleftrightarrow>
      hk_low (hook_state_of st reg now s) \<and> leased_pending_count st reg now s (Some Low) = 0) \<and>
   (hk_high (hook_state_of st reg now s) \<longleftrightarrow>
      (\<exists>d. decide_delivery st reg now s TurnInterruptible m = Some d \<and> cl_urgency (dc_claim d) = Some High))"
proof -
  have high: "hk_high (hook_state_of st reg now s) \<longleftrightarrow> settled_high st reg now s \<noteq> []"
    by (auto simp: hook_state_of_def session_hook_state_def Let_def settled_high_def
        list_ex_iff filter_empty_conv)
  have rest: "hk_normal (hook_state_of st reg now s) \<longleftrightarrow> pending_for_claim st reg now s (Some Normal) \<noteq> []"
    "hk_low (hook_state_of st reg now s) \<longleftrightarrow> pending_for_claim st reg now s (Some Low) \<noteq> []"
    by (simp_all add: hook_state_of_def session_hook_state_def Let_def)
  have dh: "cl_urgency (dc_claim (decide_high st s h n due m)) = Some High" for h n due
    by (simp add: decide_high_def Let_def)
  have dr: "cl_urgency (dc_claim (decide_reminder st s TurnInterruptible Normal n)) = Some Normal" for n
    by (simp add: decide_reminder_def)
  show ?thesis
    unfolding high rest
    by (auto simp: decide_interruptible reminder_due_def dh dr decide_delivery_def [of _ _ _ _ TurnIdle])
qed

lemma uncapped_high_consumed:
  assumes wf: "wf_store (rt_store rt)"
    and claim: "claim_delivery bd rt now s TurnInterruptible None = (rt', Inr (Some cl))"
  shows "settled_high (rt_store rt') (rt_reg rt') now s = []"
proof -
  have reg: "rt_reg rt' = reservation_prune (rt_reg rt) now"
    using claim_frame(2) [of bd rt now s TurnInterruptible None] claim by simp
  have none: "e \<notin> set (settled_high (rt_store rt') (rt_reg rt') now s)" for e
    using wf claim
  proof (cases rule: claim_interruptible)
    case high
    show ?thesis
    proof
      assume "e \<in> set (settled_high (rt_store rt') (rt_reg rt') now s)"
      then have e: "e \<in> set (pending_events (rt_store rt) s (Some High))" "e_id e \<notin> leased (rt_reg rt) now s"
          "settled now e" and left: "e_id e \<notin> e_id ` set (surfaced_candidates (settled_high (rt_store rt) (rt_reg rt) now s) None)"
        by (auto simp: in_settled_high reg high(5) split: if_splits)
      let ?h = "settled_high (rt_store rt) (rt_reg rt) now s"
      have eh: "e \<in> set ?h" using e by (simp add: in_settled_high)
      have "\<exists>r \<in> set (shown_high (rt_store rt) (rt_reg rt) now s). net_collapse_group_key r = net_collapse_group_key e"
      proof (cases "net_shown ?h e")
        case True
        with eh wf show ?thesis by (auto simp: shown_high_filter)
      next
        case False
        then obtain n where n: "group_newest ?h e = Some n" by (auto simp: net_shown_def split: option.splits)
        note f = group_newest_facts [OF n]
        have "net_shown ?h n" using n group_newest_same_group [OF f(3)] by (simp add: net_shown_def)
        with f wf show ?thesis by (auto simp: shown_high_filter)
      qed
      then have "e \<in> set (surfaced_candidates ?h None)"
        using eh by (auto simp: surfaced_candidates_def Let_def surface_limit_def shown_high_def
            intro: rev_image_eqI [OF _ sym])
      with left show False by simp
    qed
  next
    case reminder
    then show ?thesis by (auto simp: in_settled_high reg pending_for_claim_def filter_empty_conv)
  qed
  then show ?thesis by (metis last_in_set)
qed

text \<open>
  After a claim at a turn boundary without a cap the high flag is down: everything
  settled was consumed.
\<close>

lemma uncapped_claim_lowers_flag:
  assumes wf: "wf_store (rt_store rt)"
    and claim: "claim_delivery bd rt now s TurnInterruptible None = (rt', Inr (Some cl))"
  shows "\<not> hk_high (hook_state_of (rt_store rt') (rt_reg rt') now s)"
  using uncapped_high_consumed [OF assms]
  by (auto simp: hook_state_of_def session_hook_state_def Let_def settled_high_def list_ex_iff filter_empty_conv)

lemma uncapped_claim_lowers_flag_witness:
  "\<exists>rt' cl. claim_delivery text_bd demo_rt 20000 ''L'' TurnInterruptible None = (rt', Inr (Some cl)) \<and>
     hk_high (hook_state_of demo_store (rt_reg demo_rt) 20000 ''L'') \<and>
     \<not> hk_high (hook_state_of (rt_store rt') (rt_reg rt') 20000 ''L'')"
proof -
  have "delivers (claim_delivery text_bd demo_rt 20000 ''L'' TurnInterruptible None)" by code_simp
  then obtain rt' cl where
    c: "claim_delivery text_bd demo_rt 20000 ''L'' TurnInterruptible None = (rt', Inr (Some cl))"
    by (rule deliversE)
  have "wf_store (rt_store demo_rt)" by (simp add: demo_rt_def demo_wf)
  from uncapped_claim_lowers_flag [OF this c]
  have "\<not> hk_high (hook_state_of (rt_store rt') (rt_reg rt') 20000 ''L'')" by blast
  moreover have "hk_high (hook_state_of demo_store (rt_reg demo_rt) 20000 ''L'')" by code_simp
  ultimately show ?thesis using c by blast
qed

section \<open>Liveness\<close>

lemma claim_total:
  assumes "get_session (rt_store rt) s = Inr ses" and "s_adapter ses \<in> set (rt_adapters rt)"
    and d: "decide_delivery (rt_store rt) (rt_reg rt) now s l m = Some d"
  shows "\<exists>rt'. claim_delivery bd rt now s l m = (rt', Inr (Some (dc_claim d)))"
proof -
  let ?rt = "rt\<lparr>rt_store := touch_session (rt_store rt) now s, rt_reg := reservation_prune (rt_reg rt) now\<rparr>"
  have "get_session (touch_session (rt_store rt) now s) s =
      Inr (ses\<lparr>s_last_active := db_time now, s_updated := db_time now\<rparr>)"
    using assms(1) by (auto simp: get_session_def touch_session_def find_update_where
        dest: find_Some_set split: option.splits)
  then obtain ses' where g: "get_session (delivered_store bd (touch_session (rt_store rt) now s) now s
        (dc_candidates d) (dc_recap d) (cl_lifecycle (dc_claim d))) s = Inr ses'"
      and a: "s_adapter ses' \<in> set (rt_adapters rt)"
    using delivered_session assms(2) by (metis session.select_convs(2) session.surjective
        session.update_convs(10,14))
  have "\<exists>rt' h. apply_delivery bd ?rt now s (dc_candidates d) (dc_recap d) (dc_claim d) = (rt', Inr h)"
    using g a by (simp add: apply_delivery_def refresh_hook_state_def Let_def
        delivered_store_def [unfolded Let_def, symmetric])
  then show ?thesis by (auto simp: claim_delivery_def d decide_fields [OF d] Let_def)
qed



end
