(* ===== verification/AM_Recipient.thy ===== *)
theory AM_Recipient
  imports AM_HookState
begin

text \<open>
  What one recipient sees: the preview of its next delivery, its acknowledgement, and its
  cursors, which a claim advances to the newest artifact it was handed.
\<close>

section \<open>The preview\<close>

lemma map_of_filter_key: "map_of (filter (\<lambda>(k, v). k = i) xs) i = map_of xs i"
  by (induction xs) auto

lemma map_of_rev_cong:
  assumes "filter (\<lambda>(k, v). k = i) xs = filter (\<lambda>(k, v). k = i) ys"
  shows "map_of (rev xs) i = map_of (rev ys) i"
  unfolding map_of_filter_key [of i "rev xs", symmetric] map_of_filter_key [of i "rev ys", symmetric]
    rev_filter [symmetric] assms ..

lemma interpret_digests_one:
  assumes "i \<in> set ids"
  shows "interpret_digests st s ids i = interpret_digests st s [i] i"
proof -
  let ?f = "\<lambda>p. case p_digest p of None \<Rightarrow> [] | Some d \<Rightarrow> if d = [] then [] else [(p_event p, d)]"
  have "filter (\<lambda>(k, v). k = i) (concat (map ?f (filter (\<lambda>p. p_session p = s \<and> p_event p \<in> set ids) ps))) =
      filter (\<lambda>(k, v). k = i) (concat (map ?f (filter (\<lambda>p. p_session p = s \<and> p_event p \<in> set [i]) ps)))" for ps
    using assms by (induction ps) (auto split: option.splits)
  then show ?thesis
    unfolding interpret_digests_def by (rule map_of_rev_cong)
qed

lemma per_recipient_diffs_one:
  assumes "i \<in> set ids"
  shows "per_recipient_diffs st s ids i = per_recipient_diffs st s [i] i"
proof -
  let ?f = "\<lambda>p. case p_diff p of None \<Rightarrow> [] | Some d \<Rightarrow> [(p_event p, d)]"
  have "filter (\<lambda>(k, v). k = i) (concat (map ?f (filter (\<lambda>p. p_session p = s \<and> p_event p \<in> set ids) ps))) =
      filter (\<lambda>(k, v). k = i) (concat (map ?f (filter (\<lambda>p. p_session p = s \<and> p_event p \<in> set [i]) ps)))" for ps
    using assms by (induction ps) (auto split: option.splits)
  then show ?thesis
    unfolding per_recipient_diffs_def by (rule map_of_rev_cong)
qed

text \<open>A summary reads only its own event's digest and diff.\<close>

lemma to_event_summary_own:
  assumes "e_id e \<in> set ids"
  shows "to_event_summary e (interpret_digests st s ids) (per_recipient_diffs st s ids) =
     to_event_summary e (interpret_digests st s [e_id e]) (per_recipient_diffs st s [e_id e])"
  unfolding to_event_summary_def recipient_summary_def interpret_digests_one [OF assms]
    per_recipient_diffs_one [OF assms] ..

definition own_summary :: "store \<Rightarrow> ident \<Rightarrow> event \<Rightarrow> event_summary" where
  "own_summary st s e =
     to_event_summary e (interpret_digests st s [e_id e]) (per_recipient_diffs st s [e_id e])"

lemma summaries_own:
  "map (\<lambda>e. to_event_summary e (interpret_digests st s (map e_id es)) (per_recipient_diffs st s (map e_id es))) es =
     map (own_summary st s) es"
  by (auto simp: own_summary_def intro!: to_event_summary_own)

text \<open>
  The preview is the delivery. The events of a high-urgency claim are the first ones of
  the preview, as many as the cap allows, rendered alike; and the reminder the claim carries
  is the previewed one.
\<close>

lemma preview_is_delivery:
  assumes wf: "wf_store st"
    and d: "decide_delivery st reg now s TurnInterruptible m = Some d"
    and u: "cl_urgency (dc_claim d) = Some High"
  shows "cl_events (dc_claim d) =
       take (surface_limit (length (preview_settled_high st reg now s)) m) (preview_settled_high st reg now s) \<and>
     cl_reminder (dc_claim d) = preview_coalesced_reminder st reg now s"
proof -
  have ne: "settled_high st reg now s \<noteq> []"
    using d u by (auto simp: decide_interruptible decide_reminder_def split: if_splits)
  have p: "preview_settled_high st reg now s = map (own_summary st s) (shown_high st reg now s)"
    using ne by (simp add: preview_settled_high_def Let_def shown_high_def settled_high_def summaries_own)
  have dd: "d = decide_high st s (settled_high st reg now s) (pending_for_claim st reg now s (Some Normal))
      (reminder_due st reg now s Normal) m"
    using d ne by (simp add: decide_interruptible)
  have shown: "nv_delivered (compute_net_collapse_view (surfaced_candidates (settled_high st reg now s) m)) =
      take (surface_limit (length (shown_high st reg now s)) m) (shown_high st reg now s)"
    using surfaced_representatives [of "settled_high st reg now s" m] wf settled_high_nul [OF wf]
    by (simp add: shown_high_def)
  have "cl_events (dc_claim d) =
      map (own_summary st s) (take (surface_limit (length (shown_high st reg now s)) m) (shown_high st reg now s))"
    unfolding dd decide_high_def Let_def by (simp add: summaries_own shown)
  moreover have "cl_reminder (dc_claim d) = preview_coalesced_reminder st reg now s"
    using ne by (simp add: dd decide_high_def Let_def preview_coalesced_reminder_def settled_high_def)
  ultimately show ?thesis by (simp add: p take_map)
qed

lemma preview_is_delivery_witness:
  "\<exists>d. decide_delivery demo_store (rt_reg demo_rt) 20000 ''L'' TurnInterruptible (Some 1) = Some d \<and>
     cl_events (dc_claim d) = take 1 (preview_settled_high demo_store (rt_reg demo_rt) 20000 ''L'') \<and>
     cl_reminder (dc_claim d) = Some reminder_message"
proof -
  have "case decide_delivery demo_store (rt_reg demo_rt) 20000 ''L'' TurnInterruptible (Some 1) of
      Some d \<Rightarrow> cl_urgency (dc_claim d) = Some High | None \<Rightarrow> False" by code_simp
  then obtain d where d: "decide_delivery demo_store (rt_reg demo_rt) 20000 ''L'' TurnInterruptible (Some 1) = Some d"
    and u: "cl_urgency (dc_claim d) = Some High" by (auto split: option.splits)
  have "surface_limit (length (preview_settled_high demo_store (rt_reg demo_rt) 20000 ''L'')) (Some 1) = 1"
    and "preview_coalesced_reminder demo_store (rt_reg demo_rt) 20000 ''L'' = Some reminder_message"
    by code_simp+
  with preview_is_delivery [OF demo_wf d u] d show ?thesis by simp
qed

section \<open>Acknowledgement\<close>

text \<open>
  Acknowledging a session by name leaves exactly its reserved events unread, and
  acknowledging named events leaves exactly the others unread; no other session's unread
  events change.
\<close>

lemma acknowledge_leaves_reserved:
  "unread_events (rt_store (fst (acknowledge_session rt now s ids))) s u =
     filter (\<lambda>e. case ids of None \<Rightarrow> e_id e \<in> leased (rt_reg rt) now s | Some is \<Rightarrow> e_id e \<notin> set is)
       (unread_events (rt_store rt) s u) \<and>
   (s' = s \<or> unread_events (rt_store (fst (acknowledge_session rt now s ids))) s' u =
     unread_events (rt_store rt) s' u)"
proof -
  define acked where "acked = (case ids of Some is \<Rightarrow> is
     | None \<Rightarrow> map e_id (filter (\<lambda>e. e_id e \<notin> leased (rt_reg rt) now s) (unread_events (rt_store rt) s None)))"
  have st: "rt_store (fst (acknowledge_session rt now s ids)) = acknowledge_events (rt_store rt) now s acked"
    by (simp add: acknowledge_session_def Let_def acked_def)
  have any: "e \<in> set (unread_events (rt_store rt) s None)" if "e \<in> set (unread_events (rt_store rt) s u)" for e
    using that by (cases u) (simp_all add: unread_urgency)
  have "filter (\<lambda>e. e_id e \<notin> set acked) (unread_events (rt_store rt) s u) =
      filter (\<lambda>e. case ids of None \<Rightarrow> e_id e \<in> leased (rt_reg rt) now s | Some is \<Rightarrow> e_id e \<notin> set is)
       (unread_events (rt_store rt) s u)"
    by (rule filter_cong [OF refl]) (auto simp: acked_def dest: any split: option.splits)
  then show ?thesis unfolding st unread_after_acknowledge by (cases "s' = s") simp_all
qed

section \<open>Cursors\<close>

definition cursor_worthy :: "event \<Rightarrow> bool" where
  "cursor_worthy e = (e_snapshot e \<noteq> None \<and> e_object e \<noteq> None)"

definition event_object_key :: "event \<Rightarrow> string" where
  "event_object_key e = object_key_of (e_monitor e) (the (e_object e)) (e_ws e)"

definition target_of :: "event \<Rightarrow> cursor_target" where
  "target_of e = \<lparr>ct_monitor = e_monitor e, ct_object = the (e_object e), ct_ws = e_ws e,
     ct_event = e_id e, ct_artifact = the (e_snapshot e)\<rparr>"

lemma newest_by_object_snoc:
  "newest_by_object (rows @ [e]) =
     (if cursor_worthy e then map_set (newest_by_object rows) (event_object_key e) (target_of e)
      else newest_by_object rows)"
  by (auto simp: newest_by_object_def cursor_worthy_def event_object_key_def target_of_def split: option.splits)

lemma newest_by_object_distinct: "distinct (map fst (newest_by_object rows))"
  by (induction rows rule: rev_induct)
     (simp_all add: newest_by_object_snoc map_set_distinct, simp add: newest_by_object_def)

lemma newest_by_object_from:
  "map_of (newest_by_object rows) k = Some t \<Longrightarrow>
     \<exists>e \<in> set rows. cursor_worthy e \<and> event_object_key e = k \<and> t = target_of e"
  by (induction rows rule: rev_induct)
     (auto simp: newest_by_object_snoc map_of_map_set split: if_splits, simp add: newest_by_object_def)

lemma newest_by_object_newest:
  assumes "sorted (map event_key rows)" and "distinct (map event_key rows)" and "e \<in> set rows" and "cursor_worthy e"
    and "\<And>x. x \<in> set rows \<Longrightarrow> cursor_worthy x \<Longrightarrow> event_object_key x = event_object_key e \<Longrightarrow>
           event_key x \<le> event_key e"
  shows "map_of (newest_by_object rows) (event_object_key e) = Some (target_of e)"
  using assms
proof (induction rows rule: rev_induct)
  case (snoc x rows)
  show ?case
  proof (cases "x = e")
    case True
    with snoc show ?thesis by (simp add: newest_by_object_snoc map_of_map_set)
  next
    case False
    then have e: "e \<in> set rows" using snoc.prems by simp
    have "event_key x \<notin> event_key ` set rows" using snoc.prems(2) by simp
    with e have "event_key e \<noteq> event_key x" by (metis imageI)
    moreover have "event_key e \<le> event_key x" using snoc.prems(1) e by (auto simp: sorted_append)
    ultimately have "\<not> (cursor_worthy x \<and> event_object_key x = event_object_key e)"
      using snoc.prems(5) [of x] by (auto dest: order_antisym)
    moreover have "map_of (newest_by_object rows) (event_object_key e) = Some (target_of e)"
      using snoc.IH e snoc.prems by (simp add: sorted_append)
    ultimately show ?thesis by (auto simp: newest_by_object_snoc map_of_map_set)
  qed
qed simp


lemma get_cursor_advance:
  "\<exists>c. get_cursor (advance_cursor st now s m ob ws sn ct) s m ob ws = Some c \<and> c_content c = ct \<and> c_snapshot_id c = sn"
  "(s', m', ob', ws') \<noteq> (s, m, ob, ws) \<Longrightarrow>
     get_cursor (advance_cursor st now s m ob ws sn ct) s' m' ob' ws' = get_cursor st s' m' ob' ws'"
proof -
  let ?f = "\<lambda>c. c\<lparr>c_snapshot_id := sn, c_content := ct, c_updated := db_time now\<rparr>"
  have upd: "find Q (update_where P ?f xs) = map_option (\<lambda>c. if P c then ?f c else c) (find Q xs)"
    if "\<And>c. Q (?f c) = Q c" for P Q xs using that by (simp add: find_update_where)
  show "\<exists>c. get_cursor (advance_cursor st now s m ob ws sn ct) s m ob ws = Some c \<and> c_content c = ct \<and> c_snapshot_id c = sn"
  proof (cases "get_cursor st s m ob ws")
    case None
    then have "find (cursor_is s m ob ws) (cursors st) = None" by (simp add: get_cursor_def)
    then have "find (cursor_is s m ob ws) (cursors st @ [x]) = find (cursor_is s m ob ws) [x]" for x
      by (simp add: find_append)
    with None show ?thesis by (simp add: advance_cursor_def get_cursor_def cursor_is_def)
  next
    case (Some c)
    have "find (cursor_is s m ob ws) (update_where (cursor_is s m ob ws) ?f (cursors st)) = Some (?f c)"
      using Some by (subst upd) (auto simp: cursor_is_def get_cursor_def dest: find_Some_set)
    with Some show ?thesis by (simp add: advance_cursor_def get_cursor_def)
  qed
  assume ne: "(s', m', ob', ws') \<noteq> (s, m, ob, ws)"
  show "get_cursor (advance_cursor st now s m ob ws sn ct) s' m' ob' ws' = get_cursor st s' m' ob' ws'"
  proof (cases "get_cursor st s m ob ws")
    case None
    with ne show ?thesis by (auto simp: advance_cursor_def get_cursor_def cursor_is_def find_append)
  next
    case (Some c)
    have "find (cursor_is s' m' ob' ws') (update_where (cursor_is s m ob ws) ?f (cursors st)) =
        find (cursor_is s' m' ob' ws') (cursors st)"
      using ne by (subst upd) (auto simp: cursor_is_def dest: find_Some_set split: option.splits
          intro!: option.map_ident_strong)
    with Some show ?thesis by (simp add: advance_cursor_def get_cursor_def)
  qed
qed

lemma advance_fold:
  assumes "distinct (map fst ts)" and "(k, t) \<in> set ts"
    and keys: "\<And>k t. (k, t) \<in> set ts \<Longrightarrow> k = object_key_of (ct_monitor t) (ct_object t) (ct_ws t)"
  shows "\<exists>c. get_cursor (foldl (\<lambda>st' (k, t). advance_cursor st' now s (ct_monitor t) (ct_object t) (ct_ws t)
        (Some (ct_event t)) (ct_artifact t)) st ts) s (ct_monitor t) (ct_object t) (ct_ws t) = Some c \<and>
      c_content c = ct_artifact t \<and> c_snapshot_id c = Some (ct_event t)"
  using assms
proof (induction ts rule: rev_induct)
  case (snoc x ts)
  obtain k' t' where x: "x = (k', t')" by (cases x)
  show ?case
  proof (cases "(k, t) = x")
    case True
    then show ?thesis by (simp add: x get_cursor_advance(1))
  next
    case False
    then have old: "(k, t) \<in> set ts" using snoc.prems(2) by simp
    then have "k \<noteq> k'" using snoc.prems(1) x by (metis distinct_append disjoint_iff fst_conv image_eqI
          list.map(2) list.set_intros(1) list.set_map map_append)
    then have "(s, ct_monitor t, ct_object t, ct_ws t) \<noteq> (s, ct_monitor t', ct_object t', ct_ws t')"
      using snoc.prems(3) [of k t] snoc.prems(3) [of k' t'] snoc.prems(2) x by auto
    then show ?thesis using snoc.IH [OF _ old] snoc.prems(1,3) by (simp add: x get_cursor_advance(2))
  qed
qed simp

lemma mark_claimed_cursor:
  assumes wf: "wf_store st" and e: "e \<in> set (events st)" "e_id e \<in> set ids" "cursor_worthy e"
    and newest: "\<And>x. x \<in> set (events st) \<Longrightarrow> e_id x \<in> set ids \<Longrightarrow> cursor_worthy x \<Longrightarrow>
           event_object_key x = event_object_key e \<Longrightarrow> event_key x \<le> event_key e"
  shows "\<exists>c. get_cursor (mark_claimed st now s ids l) s (e_monitor e) (the (e_object e)) (e_ws e) = Some c \<and>
     c_content c = the (e_snapshot e) \<and> c_snapshot_id c = Some (e_id e)"
proof -
  let ?rows = "ordered_by event_key (filter (\<lambda>e. e_id e \<in> set ids) (events st))"
  have "distinct (map e_id ?rows)" using wf_storeD(2) [OF wf] by (simp add: distinct_map_filter)
  then have "distinct (map event_key ?rows)" by (auto simp: distinct_map inj_on_def event_key_def)
  then have "map_of (newest_by_object ?rows) (event_object_key e) = Some (target_of e)"
    using e newest by (intro newest_by_object_newest sorted_ordered_by) auto
  then have mem: "(event_object_key e, target_of e) \<in> set (newest_by_object ?rows)" by (rule map_of_SomeD)
  have keys: "k = object_key_of (ct_monitor t) (ct_object t) (ct_ws t)" if "(k, t) \<in> set (newest_by_object ?rows)" for k t
    using newest_by_object_from [of ?rows k t] that newest_by_object_distinct [of ?rows]
    by (auto simp: event_object_key_def target_of_def)
  have "ids \<noteq> []" using e by auto
  then show ?thesis
    using advance_fold [OF newest_by_object_distinct mem keys]
    by (simp add: mark_claimed_def advance_cursors_for_claimed_def Let_def target_of_def)
qed

text \<open>
  A delivery moves the recipient's cursor of every object it consumed to the artifact
  of the newest event of that object among the consumed ones, whether or not that event was
  the one shown, so the next diff of the object starts from what was last handed over.
\<close>

lemma claim_advances_cursors:
  assumes wf: "wf_store (rt_store rt)"
    and claim: "claim_delivery bd rt now s l m = (rt', Inr (Some cl))"
    and d: "decide_delivery (rt_store rt) (rt_reg rt) now s l m = Some d"
    and e: "e \<in> set (dc_candidates d)" "e_snapshot e = Some artifact" "e_object e = Some obj"
    and newest: "\<And>x. x \<in> set (dc_candidates d) \<Longrightarrow> cursor_worthy x \<Longrightarrow>
        event_object_key x = event_object_key e \<Longrightarrow> event_key x \<le> event_key e"
  shows "\<exists>c. get_cursor (rt_store rt') s (e_monitor e) obj (e_ws e) = Some c \<and>
     c_content c = artifact \<and> c_snapshot_id c = Some (e_id e)"
proof -
  let ?st = "touch_session (rt_store rt) now s"
  let ?st1 = "fst (collapse_net_for_claim bd ?st now s (dc_candidates d))"
  have st': "rt_store rt' = delivered_store bd ?st now s (dc_candidates d) (dc_recap d) l"
    using claim_frame(1) [of bd rt now s l m] claim d by (simp add: claimed_store_def)
  have inev: "x \<in> set (events ?st1)" if "x \<in> set (dc_candidates d)" for x
    using decide_candidates_event [OF d that] by simp
  have wf1: "wf_store ?st1" using wf by (simp add: wf_collapse wf_session_ops)
  have eid: "x \<in> set (dc_candidates d)" if "x \<in> set (events ?st1)" "e_id x \<in> set (map e_id (dc_candidates d))" for x
    using that inev event_by_id [OF wf1] by (metis (no_types, lifting) imageE list.set_map)
  have "\<exists>c. get_cursor (mark_claimed ?st1 now s (map e_id (dc_candidates d)) l) s (e_monitor e) (the (e_object e)) (e_ws e) = Some c \<and>
     c_content c = the (e_snapshot e) \<and> c_snapshot_id c = Some (e_id e)"
    by (rule mark_claimed_cursor [OF wf1 inev [OF e(1)]]) (use e newest eid in \<open>auto simp: cursor_worthy_def\<close>)
  then show ?thesis
    by (auto simp: st' delivered_store_def Let_def e get_cursor_def)
qed


lemma claim_advances_cursors_witness:
  "\<exists>rt' cl c. claim_delivery text_bd demo_rt 20000 ''L'' TurnInterruptible None = (rt', Inr (Some cl)) \<and>
     get_cursor (rt_store rt') ''L'' ''m'' ''f'' (Some ''W'') = Some c \<and> c_content c = ''v2''"
proof -
  let ?e = "demo_event ''e2'' High (Some ''v2'') (Some ''f'') 2000"
  let ?d = "decide_delivery (rt_store demo_rt) (rt_reg demo_rt) 20000 ''L'' TurnInterruptible None"
  have "delivers (claim_delivery text_bd demo_rt 20000 ''L'' TurnInterruptible None)" by code_simp
  then obtain rt' cl where
    c: "claim_delivery text_bd demo_rt 20000 ''L'' TurnInterruptible None = (rt', Inr (Some cl))"
    by (rule deliversE)
  have wf: "wf_store (rt_store demo_rt)" by (simp add: demo_rt_def demo_wf)
  have "case ?d of None \<Rightarrow> False | Some d \<Rightarrow> ?e \<in> set (dc_candidates d) \<and>
      list_all (\<lambda>x. \<not> cursor_worthy x \<or> event_key x \<le> event_key ?e) (dc_candidates d)" by code_simp
  then obtain d where d: "?d = Some d" and e: "?e \<in> set (dc_candidates d)"
    and newest: "\<forall>x \<in> set (dc_candidates d). \<not> cursor_worthy x \<or> event_key x \<le> event_key ?e"
    by (cases ?d) (simp_all add: list_all_iff)
  have f: "e_snapshot ?e = Some ''v2''" "e_object ?e = Some ''f''" "e_monitor ?e = ''m''" "e_ws ?e = Some ''W''"
    by (simp_all add: demo_event_def)
  from claim_advances_cursors [OF wf c d e f(1,2)] newest c show ?thesis unfolding f(3,4) by blast
qed

end
