(* ===== verification/AM_Fanout.thy ===== *)
theory AM_Fanout
  imports AM_Recipient
begin

text \<open>
  What materializing an event and retracting an object do to the recipients: who gets a row,
  with which diff, and that a retraction leaves nothing of the object behind.
\<close>

section \<open>Projecting to the sessions\<close>

definition row_diff :: "(string \<Rightarrow> string \<Rightarrow> string option \<Rightarrow> string) \<Rightarrow> event \<Rightarrow> string option \<Rightarrow> store \<Rightarrow>
    ident \<Rightarrow> string option" where
  "row_diff bd e previous st s =
     (case (e_snapshot e, e_object e) of
        (Some artifact, Some obj) \<Rightarrow>
          (case get_cursor st s (e_monitor e) obj (e_ws e) of
             Some c \<Rightarrow> Some (bd (c_content c) artifact (change_detection_strategy_of (e_meta e)))
           | None \<Rightarrow> map_option (\<lambda>p. bd p artifact (change_detection_strategy_of (e_meta e))) previous)
      | _ \<Rightarrow> None)"

definition fresh_row :: "event \<Rightarrow> string option \<Rightarrow> ident \<Rightarrow> projection" where
  "fresh_row e d s = \<lparr>p_session = s, p_event = e_id e, p_first_notified = None, p_acked = None,
     p_last_claim = None, p_claim_lifecycle = None, p_diff = d, p_decision = None, p_reason = None,
     p_digest = None, p_net_suppressed = None, p_created = e_created e, p_updated = e_created e\<rparr>"

lemma project_to_row:
  "projections (project_to bd now e previous st s) =
     projections st @ [fresh_row e (row_diff bd e previous st (s_id s)) (s_id s)]"
  by (auto simp: project_to_def Let_def row_diff_def fresh_row_def split: option.splits prod.splits)

lemma get_cursor_seed_other:
  "s' \<noteq> s \<Longrightarrow> get_cursor (seed_cursor st now s m ob ws sn ct) s' m' ob' ws' = get_cursor st s' m' ob' ws'"
  by (auto simp: seed_cursor_def get_cursor_def find_append cursor_is_def split: option.splits)

lemma project_to_cursor_other:
  assumes "i \<noteq> s_id s"
  shows "get_cursor (project_to bd now e previous st s) i m ob ws = get_cursor st i m ob ws"
proof -
  have c: "cursors st' = cursors st \<Longrightarrow> get_cursor st' i m ob ws = get_cursor st i m ob ws" for st'
    by (simp add: get_cursor_def)
  have "cursors (project_to bd now e previous st s) = cursors st \<or>
      (\<exists>ob' sn ct. cursors (project_to bd now e previous st s) =
         cursors (seed_cursor st now (s_id s) (e_monitor e) ob' (e_ws e) sn ct))"
    by (auto simp: project_to_def Let_def split: option.splits prod.splits)
  then show ?thesis using get_cursor_seed_other [OF assms] by (auto simp: get_cursor_def)
qed

lemma row_diff_cong:
  assumes "\<And>m ob ws. get_cursor st' s m ob ws = get_cursor st s m ob ws"
  shows "row_diff bd e previous st' s = row_diff bd e previous st s"
  unfolding row_diff_def assms ..

lemma project_all:
  assumes "distinct (map s_id ss)"
  shows "projections (foldl (project_to bd now e previous) st ss) =
     projections st @ map (\<lambda>s. fresh_row e (row_diff bd e previous st (s_id s)) (s_id s)) ss"
  using assms
proof (induction ss arbitrary: st)
  case (Cons s ss)
  have "row_diff bd e previous (project_to bd now e previous st s) (s_id x) = row_diff bd e previous st (s_id x)"
    if "x \<in> set ss" for x
  proof -
    have "s_id s \<notin> s_id ` set ss" using Cons.prems by simp
    with that have "s_id x \<noteq> s_id s" by (metis imageI)
    then show ?thesis by (intro row_diff_cong project_to_cursor_other)
  qed
  with Cons show ?case by (simp add: project_to_row cong: map_cong)
qed simp

lemma project_all_cursor_other:
  assumes "i \<notin> s_id ` set ss"
  shows "get_cursor (foldl (project_to bd now e previous) st ss) i m ob ws = get_cursor st i m ob ws"
  using assms by (induction ss arbitrary: st) (auto simp: project_to_cursor_other)

section \<open>Inserting an event\<close>

text \<open>What a successful insertion returns, in the store's terms.\<close>

lemma insert_event_ok:
  assumes wf: "wf_store st" and ins: "insert_event bd st now eid nid inp previous r = Inr (st', e)"
  shows "e_id e = eid" and "sessions st' = sessions st" and "events st' = events st @ [e]"
    and "projections st' = projections st @ map (\<lambda>s. fresh_row e (row_diff bd e previous st (s_id s)) (s_id s))
           (projection_targets st e r)"
    and "last_projected st' = map s_id (projection_targets st e r)"
    and "e_urgency e = e_urgency inp" and "e_created e = db_time (e_created inp)"
proof -
  let ?st1 = "st\<lparr>events := events st @ [e]\<rparr>"
  have t: "projection_targets ?st1 e r = projection_targets st e r"
    by (simp add: projection_targets_def sessions_for_workspace_def find_ephemeral_def)
  have d: "row_diff bd e previous ?st1 s = row_diff bd e previous st s" for s
    by (rule row_diff_cong) (simp add: get_cursor_def)
  have rows: "projections (foldl (project_to bd now e previous) ?st1 (projection_targets st e r)) =
      projections st @ map (\<lambda>s. fresh_row e (row_diff bd e previous st (s_id s)) (s_id s)) (projection_targets st e r)"
    using project_all [of "projection_targets st e r" bd now e previous ?st1]
      projection_targets_distinct [OF wf_storeD(1) [OF wf], of e r] by (simp add: d)
  show "e_id e = eid" "sessions st' = sessions st" "events st' = events st @ [e]"
    "projections st' = projections st @ map (\<lambda>s. fresh_row e (row_diff bd e previous st (s_id s)) (s_id s))
           (projection_targets st e r)"
    "last_projected st' = map s_id (projection_targets st e r)" "e_urgency e = e_urgency inp"
    "e_created e = db_time (e_created inp)"
    using ins rows t by (auto simp: insert_event_def Let_def save_snapshot_def split: option.splits)
qed



text \<open>
  Who the recipients are. An event of a shared monitor goes to every lead session of its
  workspace (or of none), dormant ones too; one restricted to a session goes to that session
  alone, only while it is an active lead of the workspace and the ephemeral monitor is still
  active; a subagent session is never a recipient.
\<close>

lemma recipients_are_leads_or_owner:
  "s \<in> set (projection_targets st e r) \<longleftrightarrow>
     s \<in> set (sessions st) \<and> s_role s = Lead \<and> (s_ws s = None \<or> (e_ws e \<noteq> None \<and> s_ws s = e_ws e)) \<and>
     (r = None \<or> (r = Some (s_id s) \<and> s_status s = Active \<and>
        map_option t_status (find_ephemeral st (e_monitor e)) = Some EActive))"
  by (auto simp: projection_targets_def sessions_for_workspace_def ws_or_global_def split: option.splits)

text \<open>
  Every recipient gets its own diff: against what that session last saw of the object
  when it has a cursor, against the previous snapshot when it has none and there was one, and
  no diff of its own otherwise; one recipient's cursor never enters another's diff.
\<close>

lemma recipient_diff_is_against_own_cursor:
  assumes wf: "wf_store st"
    and ins: "insert_event bd st now eid nid inp previous r = Inr (st', e)"
    and s: "s \<in> set (projection_targets st e r)"
    and snap: "e_snapshot e = Some artifact" "e_object e = Some obj"
  shows "\<exists>p \<in> set (projections st'). p_session p = s_id s \<and> p_event p = e_id e \<and>
     p_diff p = (case get_cursor st (s_id s) (e_monitor e) obj (e_ws e) of
        Some c \<Rightarrow> Some (bd (c_content c) artifact (change_detection_strategy_of (e_meta e)))
      | None \<Rightarrow> map_option (\<lambda>p. bd p artifact (change_detection_strategy_of (e_meta e))) previous)"
proof -
  let ?p = "fresh_row e (row_diff bd e previous st (s_id s)) (s_id s)"
  have "?p \<in> set (projections st')" using s by (auto simp: insert_event_ok(4) [OF wf ins])
  then show ?thesis by (intro bexI [of _ ?p]) (simp_all add: fresh_row_def row_diff_def snap)
qed

lemma recipient_diff_is_against_own_cursor_witness:
  "\<exists>st' e. insert_event text_bd demo_store 9000 ''e9'' ''n9''
      (demo_event ''x'' High (Some ''v3'') (Some ''f'') 8000) (Some ''v2'') None = Inr (st', e) \<and>
     (\<exists>p \<in> set (projections st'). p_session p = ''L'' \<and> p_event p = ''e9'' \<and>
        p_diff p = Some (build_text_diff ''v2'' ''v3''))"
proof -
  let ?i = "insert_event text_bd demo_store 9000 ''e9'' ''n9''
      (demo_event ''x'' High (Some ''v3'') (Some ''f'') 8000) (Some ''v2'') None"
  have "case ?i of Inr (st', e) \<Rightarrow> e_snapshot e = Some ''v3'' \<and> e_object e = Some ''f'' \<and> e_id e = ''e9'' \<and>
      e_monitor e = ''m'' \<and> e_ws e = Some ''W'' \<and> demo_session ''L'' Lead \<in> set (projection_targets demo_store e None)
      | Inl _ \<Rightarrow> False" by code_simp
  then obtain st' e where i: "?i = Inr (st', e)" and e: "e_snapshot e = Some ''v3''" "e_object e = Some ''f''"
    "e_id e = ''e9''" "e_monitor e = ''m''" "e_ws e = Some ''W''"
    and s: "demo_session ''L'' Lead \<in> set (projection_targets demo_store e None)"
    by (cases ?i) auto
  have c: "get_cursor demo_store ''L'' ''m'' ''f'' (Some ''W'') = None" by code_simp
  have l: "s_id (demo_session ''L'' Lead) = ''L''" by (simp add: demo_session_def)
  from recipient_diff_is_against_own_cursor [OF demo_wf i s e(1,2)] i show ?thesis
    by (simp add: e c l text_bd_def)
qed


section \<open>Retracting an object\<close>

lemma joined_deleted:
  assumes "events st' = delete_where (\<lambda>e. e_id e \<in> D) (events st)"
    and "projections st' = delete_where (\<lambda>p. p_event p \<in> D) (projections st)"
  shows "joined st' P = filter (\<lambda>e. e_id e \<notin> D) (joined st P)"
proof -
  have one: "filter (\<lambda>e. e_id e = i) (filter (\<lambda>e. e_id e \<notin> D) es) =
      (if i \<in> D then [] else filter (\<lambda>e. e_id e = i) es)" for i es
    by (induction es) auto
  have two: "filter (\<lambda>e. e_id e \<notin> D) (filter (\<lambda>e. e_id e = i) es) =
      (if i \<in> D then [] else filter (\<lambda>e. e_id e = i) es)" for i es
    by (induction es) auto
  have "concat (map (\<lambda>p. filter (\<lambda>e. e_id e = p_event p) (filter (\<lambda>e. e_id e \<notin> D) es))
        (filter P (filter (\<lambda>p. p_event p \<notin> D) ps))) =
      filter (\<lambda>e. e_id e \<notin> D) (concat (map (\<lambda>p. filter (\<lambda>e. e_id e = p_event p) es) (filter P ps)))" for es ps
    by (induction ps) (simp_all add: one two del: filter_filter)
  then show ?thesis unfolding joined_def assms delete_where_def .
qed

lemma delete_resolved_tables:
  "events (fst (delete_resolved st removed ws mon obj)) = delete_where (\<lambda>e. e_id e \<in> set removed) (events st)"
  "projections (fst (delete_resolved st removed ws mon obj)) = delete_where (\<lambda>p. p_event p \<in> set removed) (projections st)"
  "fst (snd (delete_resolved st removed ws mon obj)) = removed"
  "snd (snd (delete_resolved st removed ws mon obj)) = affected_sessions st removed"
  by (auto simp: delete_resolved_def Let_def affected_sessions_def)

lemma affected_iff: "s \<in> set (affected_sessions st ids) \<longleftrightarrow> (\<exists>p \<in> set (projections st). p_session p = s \<and> p_event p \<in> set ids)"
  by (auto simp: affected_sessions_def)

lemma delete_resolved_cursors:
  assumes "c \<in> set (cursors (fst (delete_resolved st removed ws mon obj)))" and "c_monitor c = mon" and "c_object c = obj"
    and "c_session c \<in> set (affected_sessions st removed)"
  shows "case ws of None \<Rightarrow> False | Some None \<Rightarrow> c_ws c \<noteq> None | Some (Some w) \<Rightarrow> c_ws c \<noteq> Some w \<and> c_ws c \<noteq> None"
proof -
  have "removed \<noteq> []" "affected_sessions st removed \<noteq> []"
    using assms(4) by (auto simp: affected_iff) (metis assms(4) list.set(1) empty_iff)
  with assms show ?thesis by (auto simp: delete_resolved_def Let_def split: option.splits)
qed

text \<open>
  Retracting an object by its key removes it from everywhere. No event of the object is
  left, every session's pending and unread events are what they were less the removed ones,
  the reported sessions are those that held a row of a removed event, and none of them keeps a
  cursor of the object in the retracted workspace.
\<close>

lemma retraction_leaves_nothing:
  assumes "retract_object_events_by_key st ws mon obj = (st', removed, affected)"
  shows "(\<forall>e \<in> set (events st'). \<not> (e_monitor e = mon \<and> e_object e = Some obj \<and> (ws = None \<or> ws = Some (e_ws e)))) \<and>
     pending_events st' s u = filter (\<lambda>e. e_id e \<notin> set removed) (pending_events st s u) \<and>
     unread_events st' s u = filter (\<lambda>e. e_id e \<notin> set removed) (unread_events st s u) \<and>
     (s \<in> set affected \<longleftrightarrow> (\<exists>p \<in> set (projections st). p_session p = s \<and> p_event p \<in> set removed)) \<and>
     (\<forall>c \<in> set (cursors st'). \<not> (c_session c \<in> set affected \<and> c_monitor c = mon \<and> c_object c = obj \<and>
        (ws = None \<or> ws = Some (c_ws c))))"
proof -
  define ids where "ids = map e_id (filter (\<lambda>e. e_monitor e = mon \<and> e_object e = Some obj \<and>
          (case ws of None \<Rightarrow> True | Some w \<Rightarrow> e_ws e = w)) (events st))"
  have r: "delete_resolved st ids ws mon obj = (st', removed, affected)"
    using assms by (simp add: retract_object_events_by_key_def ids_def)
  note tabs = delete_resolved_tables [of st ids ws mon obj, unfolded r, simplified]
  have "e_id e \<in> set ids" if "e \<in> set (events st)" "e_monitor e = mon" "e_object e = Some obj"
    "ws = None \<or> ws = Some (e_ws e)" for e
    using that by (auto simp: ids_def)
  then have "\<forall>e \<in> set (events st'). \<not> (e_monitor e = mon \<and> e_object e = Some obj \<and> (ws = None \<or> ws = Some (e_ws e)))"
    unfolding tabs(1) set_delete_where by blast
  moreover have "\<not> (c_session c \<in> set affected \<and> c_monitor c = mon \<and> c_object c = obj \<and> (ws = None \<or> ws = Some (c_ws c)))"
    if "c \<in> set (cursors st')" for c
    using delete_resolved_cursors [of c st ids ws mon obj] that by (auto simp: r tabs(3,4) split: option.splits)
  moreover have q: "joined st' P = filter (\<lambda>e. e_id e \<notin> set removed) (joined st P)" for P
    by (rule joined_deleted) (simp_all add: tabs)
  ultimately show ?thesis
    by (auto simp: pending_events_def unread_events_def q filter_ordered_by conj_commute tabs(3,4) affected_iff)
qed

lemma retraction_leaves_nothing_witness:
  "\<exists>st' affected. retract_object_events_by_key demo_store None ''m'' ''f'' = (st', [''e1'', ''e2''], affected) \<and>
     pending_events st' ''L'' None = filter (\<lambda>e. e_id e \<notin> {''e1'', ''e2''}) (pending_events demo_store ''L'' None)"
proof -
  let ?r = "retract_object_events_by_key demo_store None ''m'' ''f''"
  have "fst (snd ?r) = [''e1'', ''e2'']" by code_simp
  then obtain st' affected where r: "?r = (st', [''e1'', ''e2''], affected)" by (cases ?r) auto
  from retraction_leaves_nothing [OF r, of "''L''" None] r show ?thesis by simp
qed

end
