(* ===== verification/AM_Notify.thy ===== *)
theory AM_Notify
  imports AM_Types AM_Cron
begin

text \<open>
  Notification timing, \<open>runtime/service.ts\<close>: the effective urgency of an observation
  (\<open>effectiveObservationUrgency\<close>), the envelopes, \<open>dispatchNotify\<close> and \<open>dispatchRollup\<close>, with
  \<open>defaultNotifyConfigForUrgency\<close> of \<open>runtime/types.ts\<close>. An ISO timestamp in the notify state
  is its instant. A monitor read back from state older than urgency ranges has no upper bound,
  an envelope of that age no urgency.
\<close>

section \<open>Urgency and envelopes\<close>

definition effective_observation_urgency :: "monitor \<Rightarrow> observation \<Rightarrow> urgency" where
  "effective_observation_urgency m ob =
     (let lo = m_urgency m; hi = default (m_urgency_max m) lo; desired = default (o_salience ob) lo;
          rank = min (max (urgency_rank desired) (urgency_rank lo)) (urgency_rank hi) in
      default (urgency_by_rank rank) lo)"

definition serialize_observation :: "monitor \<Rightarrow> observation \<Rightarrow> ms \<Rightarrow> envelope" where
  "serialize_observation m ob t =
     \<lparr>v_monitor = m, v_observation = ob, v_observed_at = t,
       v_urgency = Some (effective_observation_urgency m ob)\<rparr>"

definition hydrate_envelope :: "envelope \<Rightarrow> envelope" where
  "hydrate_envelope v = v\<lparr>v_urgency := Some (default (v_urgency v)
     (effective_observation_urgency (v_monitor v) (v_observation v)))\<rparr>"

definition default_notify_config :: "urgency \<Rightarrow> notify option \<Rightarrow> notify option" where
  "default_notify_config u n = (case n of Some c \<Rightarrow> Some c
     | None \<Rightarrow> if u = High then Some (Debounce ''15s'') else None)"

section \<open>Dispatch\<close>

datatype notify_error = BadDuration duration_error | BadCron cron_error

type_synonym dispatch = "envelope list \<times> notify_state"

text \<open>The body of the loop over the new observations.\<close>

definition dispatch_one :: "monitor \<Rightarrow> ms \<Rightarrow> dispatch \<Rightarrow> observation \<Rightarrow> notify_error + dispatch" where
  "dispatch_one m now d ob =
     (let (emitted, st) = d;
          v = serialize_observation m ob now;
          u = effective_observation_urgency m ob;
          notify = default_notify_config u (m_notify m);
          escalated = (urgency_rank (m_urgency m) < urgency_rank u) in
      case (escalated, ns_debounce st) of
        (True, Some p) \<Rightarrow>
          Inr (emitted @ map hydrate_envelope (pd_observations p) @ [v], st\<lparr>ns_debounce := None\<rparr>)
      | _ \<Rightarrow>
          (case notify of
             None \<Rightarrow> Inr (emitted @ [v], st)
           | Some (Throttle w) \<Rightarrow>
               if (case ns_suppressed_until st of None \<Rightarrow> False | Some t \<Rightarrow> now < t) then Inr (emitted, st)
               else (case parse_duration w of
                   Inl e \<Rightarrow> Inl (BadDuration e)
                 | Inr ms \<Rightarrow> Inr (emitted @ [v], st\<lparr>ns_suppressed_until := Some (now + ms)\<rparr>))
           | Some (Rollup w tz) \<Rightarrow> Inr (emitted, st)
           | Some (Debounce w) \<Rightarrow>
               (case parse_duration w of
                  Inl e \<Rightarrow> Inl (BadDuration e)
                | Inr ms \<Rightarrow>
                    Inr (emitted, st\<lparr>ns_debounce := Some \<lparr>pd_observations =
                       (case ns_debounce st of None \<Rightarrow> []
                        | Some p \<Rightarrow> map hydrate_envelope (pd_observations p)) @ [v],
                       pd_due = now + ms\<rparr>\<rparr>))))"

fun dispatch_loop :: "monitor \<Rightarrow> ms \<Rightarrow> dispatch \<Rightarrow> observation list \<Rightarrow> notify_error + dispatch" where
  "dispatch_loop m now d [] = Inr d"
| "dispatch_loop m now d (ob # obs) =
     (case dispatch_one m now d ob of Inl e \<Rightarrow> Inl e | Inr d' \<Rightarrow> dispatch_loop m now d' obs)"

definition current_minute :: "ms \<Rightarrow> int" where
  "current_minute t = t div 60000"

definition dispatch_rollup :: "(string \<Rightarrow> ms \<Rightarrow> nat list option) \<Rightarrow> monitor \<Rightarrow> observation list \<Rightarrow> ms \<Rightarrow>
    notify_state \<Rightarrow> notify_error + dispatch" where
  "dispatch_rollup cal m obs now st =
     (case m_notify m of
        Some (Rollup window tz) \<Rightarrow>
          (let accumulated = map hydrate_envelope (default (ns_rollup st) []) @
                 map (\<lambda>ob. serialize_observation m ob now) obs in
           case cron_matches_date cal window now (default tz ''UTC'') of
             Inl e \<Rightarrow> Inl (BadCron e)
           | Inr matches \<Rightarrow>
               (let fires = (matches \<and> ns_last_fired st \<noteq> Some (current_minute now));
                    st1 = (if fires then st\<lparr>ns_last_fired := Some (current_minute now)\<rparr> else st) in
                if fires \<and> accumulated \<noteq> [] then Inr (accumulated, st1\<lparr>ns_rollup := None\<rparr>)
                else Inr ([], st1\<lparr>ns_rollup := (if accumulated \<noteq> [] then Some accumulated else None)\<rparr>)))
      | _ \<Rightarrow> Inr ([], st))"

definition is_rollup :: "monitor \<Rightarrow> bool" where
  "is_rollup m = (case m_notify m of Some (Rollup w tz) \<Rightarrow> True | _ \<Rightarrow> False)"

definition dispatch_notify :: "(string \<Rightarrow> ms \<Rightarrow> nat list option) \<Rightarrow> monitor \<Rightarrow> observation list \<Rightarrow> ms \<Rightarrow>
    notify_state \<Rightarrow> notify_error + dispatch" where
  "dispatch_notify cal m obs now st =
     (if is_rollup m then dispatch_rollup cal m obs now (st\<lparr>ns_debounce := None\<rparr>)
      else
        (let d = (case ns_debounce st of
                    Some p \<Rightarrow> if pd_due p \<le> now
                      then (map hydrate_envelope (pd_observations p), st\<lparr>ns_debounce := None\<rparr>)
                      else ([], st)
                  | None \<Rightarrow> ([], st)) in
         dispatch_loop m now d obs))"

section \<open>The effective urgency\<close>

text \<open>
  The effective urgency of an observation never leaves the monitor's authored band, it
  is the source's salience whenever that lies in the band, and without a salience (or with an
  empty band) it is the authored urgency.
\<close>

lemma effective_urgency_in_band:
  assumes band: "m_urgency m \<le> default (m_urgency_max m) (m_urgency m)"
  shows "m_urgency m \<le> effective_observation_urgency m ob \<and>
     effective_observation_urgency m ob \<le> default (m_urgency_max m) (m_urgency m) \<and>
     (o_salience ob = Some u \<and> m_urgency m \<le> u \<and> u \<le> default (m_urgency_max m) (m_urgency m) \<longrightarrow>
        effective_observation_urgency m ob = u) \<and>
     (o_salience ob = None \<or> m_urgency_max m = None \<longrightarrow> effective_observation_urgency m ob = m_urgency m)"
proof -
  define hi where "hi = default (m_urgency_max m) (m_urgency m)"
  define w where "w = max (default (o_salience ob) (m_urgency m)) (m_urgency m)"
  have mm: "min (max (urgency_rank a) (urgency_rank b)) (urgency_rank c) = urgency_rank (min (max a b) c)" for a b c
    by (cases a; cases b; cases c) (simp_all add: min_def max_def less_eq_urgency_def)
  have e: "effective_observation_urgency m ob = min w hi"
    by (simp add: effective_observation_urgency_def Let_def mm w_def hi_def)
  show ?thesis
    using band unfolding e hi_def [symmetric]
    by (auto simp: w_def hi_def min_def max_def split: option.splits)
qed


definition demo_monitor :: "notify option \<Rightarrow> monitor" where
  "demo_monitor n = \<lparr>m_id = ''m'', m_display = ''M'', m_name = None, m_type = ''file-fingerprint'',
     m_config = [], m_urgency = Low, m_urgency_max = Some High, m_notify = n, m_baseline = Net,
     m_tags = None, m_shape = None, m_payload = None, m_instructions = [], m_file = ''M.md''\<rparr>"

definition demo_observation :: "string \<Rightarrow> urgency option \<Rightarrow> observation" where
  "demo_observation t u = \<lparr>o_title = t, o_body = None, o_summary = None, o_payload = None,
     o_snapshot_text = None, o_object_key = None, o_scope = None, o_change = None,
     o_salience = u, o_snapshot = None\<rparr>"

lemma effective_urgency_in_band_witness:
  "effective_observation_urgency (demo_monitor None) (demo_observation ''t'' (Some Normal)) = Normal"
  using effective_urgency_in_band [of "demo_monitor None" "demo_observation ''t'' (Some Normal)" Normal]
  by (simp add: demo_monitor_def demo_observation_def less_eq_urgency_def)

section \<open>Nothing is lost while a batch is held\<close>

definition held_debounce :: "notify_state \<Rightarrow> envelope list" where
  "held_debounce st = (case ns_debounce st of None \<Rightarrow> [] | Some p \<Rightarrow> map hydrate_envelope (pd_observations p))"

definition held_rollup :: "notify_state \<Rightarrow> envelope list" where
  "held_rollup st = map hydrate_envelope (default (ns_rollup st) [])"

definition serialized :: "monitor \<Rightarrow> ms \<Rightarrow> observation list \<Rightarrow> envelope list" where
  "serialized m t obs = map (\<lambda>ob. serialize_observation m ob t) obs"

lemma hydrate_idem [simp]: "hydrate_envelope (hydrate_envelope v) = hydrate_envelope v"
  by (simp add: hydrate_envelope_def)

lemma hydrate_serialize [simp]: "hydrate_envelope (serialize_observation m ob t) = serialize_observation m ob t"
  by (simp add: hydrate_envelope_def serialize_observation_def)

lemma hydrate_map_idem [simp]: "map (hydrate_envelope \<circ> hydrate_envelope) vs = map hydrate_envelope vs"
  by (simp add: comp_def)

text \<open>A sequence of ticks, each with its instant and its observations.\<close>

fun notify_run :: "(string \<Rightarrow> ms \<Rightarrow> nat list option) \<Rightarrow> monitor \<Rightarrow> dispatch \<Rightarrow> (ms \<times> observation list) list \<Rightarrow>
    notify_error + dispatch" where
  "notify_run cal m d [] = Inr d"
| "notify_run cal m d ((now, obs) # ticks) =
     (case dispatch_notify cal m obs now (snd d) of
        Inl e \<Rightarrow> Inl e
      | Inr (emitted, st) \<Rightarrow> notify_run cal m (fst d @ emitted, st) ticks)"

lemma dispatch_one_debounce:
  assumes "m_notify m = Some (Debounce w)" and "dispatch_one m now d ob = Inr d'"
  shows "fst d' @ held_debounce (snd d') = fst d @ held_debounce (snd d) @ [serialize_observation m ob now]"
proof (cases "urgency_rank (m_urgency m) < urgency_rank (effective_observation_urgency m ob) \<and>
    ns_debounce (snd d) \<noteq> None")
  case True
  with assms(2) show ?thesis
    by (auto simp: dispatch_one_def Let_def held_debounce_def split: prod.splits option.splits)
next
  case False
  with assms show ?thesis
    by (auto simp: dispatch_one_def Let_def held_debounce_def default_notify_config_def
        split: prod.splits option.splits sum.splits bool.splits)
qed

lemma dispatch_loop_debounce:
  assumes "m_notify m = Some (Debounce w)" and "dispatch_loop m now d obs = Inr d'"
  shows "fst d' @ held_debounce (snd d') = fst d @ held_debounce (snd d) @ serialized m now obs"
  using assms(2)
proof (induction obs arbitrary: d)
  case (Cons ob obs)
  then obtain d1 where d1: "dispatch_one m now d ob = Inr d1" "dispatch_loop m now d1 obs = Inr d'"
    by (auto split: sum.splits)
  from Cons.IH [OF d1(2)] dispatch_one_debounce [OF assms(1) d1(1)] show ?case
    by (simp add: serialized_def)
qed (simp add: serialized_def)

lemma dispatch_debounce:
  assumes "m_notify m = Some (Debounce w)" and "dispatch_notify cal m obs now st = Inr (emitted, st')"
  shows "emitted @ held_debounce st' = held_debounce st @ serialized m now obs"
proof -
  let ?d = "case ns_debounce st of
      Some p \<Rightarrow> if pd_due p \<le> now then (map hydrate_envelope (pd_observations p), st\<lparr>ns_debounce := None\<rparr>) else ([], st)
    | None \<Rightarrow> ([], st)"
  have "dispatch_loop m now ?d obs = Inr (emitted, st')"
    using assms by (simp add: dispatch_notify_def is_rollup_def Let_def)
  from dispatch_loop_debounce [OF assms(1) this]
  have "emitted @ held_debounce st' = fst ?d @ held_debounce (snd ?d) @ serialized m now obs" by simp
  moreover have "fst ?d @ held_debounce (snd ?d) = held_debounce st"
    by (auto simp: held_debounce_def split: option.splits)
  ultimately show ?thesis by (simp only: append.assoc [symmetric])
qed

lemma dispatch_rollup_conserves:
  assumes "m_notify m = Some (Rollup w tz)" and "dispatch_notify cal m obs now st = Inr (emitted, st')"
  shows "emitted @ held_rollup st' = held_rollup st @ serialized m now obs"
  using assms
  by (auto simp: dispatch_notify_def is_rollup_def dispatch_rollup_def Let_def held_rollup_def
      serialized_def split: sum.splits if_splits)

text \<open>
  C8: over any sequence of ticks that a debounced (or rolled-up) monitor completes, what was
  emitted followed by what is still held is exactly what was held at the start followed by
  every observation made, in order: no observation is lost, duplicated or reordered, however
  windows close, settle windows restart or escalations flush.
\<close>

theorem notify_run_conserves:
  assumes "notify_run cal m (before, st) ticks = Inr (emitted, st')"
  shows "(\<forall>w. m_notify m = Some (Debounce w) \<longrightarrow>
       emitted @ held_debounce st' = before @ held_debounce st @ concat (map (\<lambda>(t, obs). serialized m t obs) ticks)) \<and>
     (\<forall>w tz. m_notify m = Some (Rollup w tz) \<longrightarrow>
       emitted @ held_rollup st' = before @ held_rollup st @ concat (map (\<lambda>(t, obs). serialized m t obs) ticks))"
  using assms
proof (induction ticks arbitrary: before st)
  case (Cons x ticks)
  obtain now obs where x: "x = (now, obs)" by (cases x)
  from Cons.prems obtain e1 st1 where d: "dispatch_notify cal m obs now st = Inr (e1, st1)"
    and r: "notify_run cal m (before @ e1, st1) ticks = Inr (emitted, st')"
    by (auto simp: x split: sum.splits)
  show ?case
    using Cons.IH [OF r] dispatch_debounce [OF _ d] dispatch_rollup_conserves [OF _ d]
    by (auto simp: x)
qed simp

theorem notify_run_conserves_witness:
  "\<exists>emitted st'. notify_run (\<lambda>tz t. None) (demo_monitor (Some (Debounce ''5s'')))
       ([], empty_notify) [(0, [demo_observation ''a'' None]), (1000, [demo_observation ''b'' (Some High)])] =
         Inr (emitted, st') \<and>
     map (o_title \<circ> v_observation) (emitted @ held_debounce st') = [''a'', ''b'']"
proof -
  let ?r = "notify_run (\<lambda>tz t. None) (demo_monitor (Some (Debounce ''5s'')))
       ([], empty_notify) [(0, [demo_observation ''a'' None]), (1000, [demo_observation ''b'' (Some High)])]"
  have "case ?r of Inr _ \<Rightarrow> True | Inl _ \<Rightarrow> False" by code_simp
  then obtain emitted st' where r: "?r = Inr (emitted, st')" by (cases ?r) auto
  have n: "m_notify (demo_monitor (Some (Debounce ''5s''))) = Some (Debounce ''5s'')" by (simp add: demo_monitor_def)
  have eq: "emitted @ held_debounce st' = [] @ held_debounce empty_notify @ concat (map (\<lambda>(t, obs).
      serialized (demo_monitor (Some (Debounce ''5s''))) t obs)
      [(0, [demo_observation ''a'' None]), (1000, [demo_observation ''b'' (Some High)])])"
    using notify_run_conserves [OF r] n by blast
  have "map (o_title \<circ> v_observation) (emitted @ held_debounce st') = [''a'', ''b'']"
    unfolding eq by code_simp
  then show ?thesis using r by (intro exI conjI)
qed

end
