(* ===== verification/AM_Json.thy ===== *)
theory AM_Json
  imports AM_Text
begin

text \<open>
  JSON values as the code handles them: the own keys of a JavaScript object in the order
  \<open>Object.keys\<close> lists them, property assignment (\<open>obj_set\<close>, which loses \<open>__proto__\<close>),
  \<open>JSON.stringify\<close>, and the two equalities of the code: \<open>deepEqualJson\<close> of
  \<open>runtime/diff.ts\<close>, which compares structure, and \<open>sortKeys\<close> of
  \<open>observation/keyed-collection.ts\<close>, which canonicalizes a value so that its text can be
  compared. The property is that the two agree.
\<close>

section \<open>Objects\<close>

text \<open>The keys JavaScript orders numerically, before all others: canonical array indices.\<close>

definition is_index :: "string \<Rightarrow> bool" where
  "is_index k = (list_all is_digit k \<and> k = show_nat (digits_val k) \<and> int (digits_val k) < 4294967295)"

fun index_insert :: "(string \<times> 'v) list \<Rightarrow> string \<Rightarrow> 'v \<Rightarrow> (string \<times> 'v) list" where
  "index_insert [] k v = [(k, v)]"
| "index_insert ((j, w) # m) k v =
     (if is_index j \<and> digits_val j < digits_val k then (j, w) # index_insert m k v
      else (k, v) # (j, w) # m)"

definition proto_key :: string where
  "proto_key = ''__proto__''"

text \<open>
  \<open>o[k] = v\<close> on a plain object: an existing key keeps its place, a new index is inserted in
  numeric order, and assigning \<open>__proto__\<close> sets the prototype and creates no own property.
\<close>

definition obj_set :: "(string \<times> 'v) list \<Rightarrow> string \<Rightarrow> 'v \<Rightarrow> (string \<times> 'v) list" where
  "obj_set kvs k v =
     (if k = proto_key then kvs
      else if k \<in> fst ` set kvs then map_set kvs k v
      else if is_index k then index_insert kvs k v
      else kvs @ [(k, v)])"

definition obj_of :: "(string \<times> 'v) list \<Rightarrow> (string \<times> 'v) list" where
  "obj_of kvs = foldl (\<lambda>m (k, v). obj_set m k v) [] kvs"

lemma map_of_index_insert: "k \<notin> fst ` set m \<Longrightarrow> map_of (index_insert m k v) = (map_of m)(k \<mapsto> v)"
  by (induction m k v rule: index_insert.induct) (auto simp: fun_upd_twist)

lemma set_index_insert [simp]: "set (index_insert m k v) = insert (k, v) (set m)"
  by (induction m k v rule: index_insert.induct) auto

lemma distinct_index_insert:
  "distinct (map fst m) \<Longrightarrow> k \<notin> fst ` set m \<Longrightarrow> distinct (map fst (index_insert m k v))"
  by (induction m k v rule: index_insert.induct) auto

lemma distinct_obj_set: "distinct (map fst m) \<Longrightarrow> distinct (map fst (obj_set m k v))"
  by (auto simp: obj_set_def map_set_distinct distinct_index_insert)

lemma set_map_set: "set (map_set m k v) \<subseteq> insert (k, v) (set m)"
  by (induction m k v rule: map_set.induct) auto

lemma set_obj_set: "set (obj_set m k v) \<subseteq> insert (k, v) (set m)"
  using set_map_set [of m k v] by (auto simp: obj_set_def)

lemma map_of_obj_set:
  "map_of (obj_set m k v) = (if k = proto_key then map_of m else (map_of m)(k \<mapsto> v))"
proof (cases "k \<in> fst ` set m")
  case True
  then show ?thesis by (auto simp: obj_set_def map_of_map_set fun_eq_iff)
next
  case False
  then have "map_of m k = None" by (metis map_of_eq_None_iff)
  with False show ?thesis
    by (auto simp: obj_set_def map_of_index_insert map_add_def fun_eq_iff split: option.splits)
qed

lemma map_of_foldl_obj_set:
  "distinct (map fst L) \<Longrightarrow> proto_key \<notin> fst ` set L \<Longrightarrow>
     map_of (foldl (\<lambda>m (k, v). obj_set m k v) m L) = map_of m ++ map_of L"
proof (induction L arbitrary: m)
  case (Cons kv L)
  obtain k v where kv: "kv = (k, v)" by fastforce
  with Cons.prems have k: "k \<noteq> proto_key" "map_of L k = None" by (auto simp: map_of_eq_None_iff)
  with Cons show ?case
    by (auto simp: kv map_of_obj_set map_add_def fun_eq_iff split: option.splits)
qed simp

lemma map_of_obj_of:
  "distinct (map fst L) \<Longrightarrow> proto_key \<notin> fst ` set L \<Longrightarrow> map_of (obj_of L) = map_of L"
  by (simp add: obj_of_def map_of_foldl_obj_set)

section \<open>Members are smaller\<close>

lemma size_obj_entry: "(k, v) \<in> set kvs \<Longrightarrow> size v < size (JObj kvs)"
  by (induction kvs) auto

lemma size_obj_member: "map_of kvs k = Some v \<Longrightarrow> size v < size (JObj kvs)"
  by (rule size_obj_entry [OF map_of_SomeD])

lemma size_arr_member: "v \<in> set vs \<Longrightarrow> size v < size (JArr vs)"
  by (induction vs) auto

section \<open>Well-formed values\<close>

definition number_char :: "char \<Rightarrow> bool" where
  "number_char c = (is_digit c \<or> c \<in> set ''+-.eE'')"

text \<open>A value in the sense of \<open>JSON.parse\<close>: own keys are distinct, a number has a number's text.\<close>

fun json_ok :: "json \<Rightarrow> bool" where
  "json_ok (JNum s) = (s \<noteq> [] \<and> list_all number_char s \<and> (is_digit (hd s) \<or> hd s = CHR ''-''))"
| "json_ok (JArr vs) = list_all json_ok vs"
| "json_ok (JObj kvs) = (distinct (map fst kvs) \<and> list_all (\<lambda>(k, v). json_ok v) kvs)"
| "json_ok v = True"

text \<open>No object of the value has the own key \<open>__proto__\<close>.\<close>

fun no_proto :: "json \<Rightarrow> bool" where
  "no_proto (JArr vs) = list_all no_proto vs"
| "no_proto (JObj kvs) = list_all (\<lambda>(k, v). k \<noteq> proto_key \<and> no_proto v) kvs"
| "no_proto v = True"

text \<open>What the properties assume of a value: parsed, and without that key.\<close>

definition plain :: "json \<Rightarrow> bool" where
  "plain v = (json_ok v \<and> no_proto v)"

lemma plain_obj: "plain (JObj kvs) \<longleftrightarrow> distinct (map fst kvs) \<and> list_all (\<lambda>(k, v). k \<noteq> proto_key \<and> plain v) kvs"
  by (auto simp: plain_def list_all_iff)

lemma plain_arr: "plain (JArr vs) \<longleftrightarrow> list_all plain vs"
  by (auto simp: plain_def list_all_iff)

lemma plain_field: "plain (JObj kvs) \<Longrightarrow> map_of kvs k = Some v \<Longrightarrow> plain v \<and> k \<noteq> proto_key"
  by (fastforce simp: plain_obj list_all_iff dest: map_of_SomeD)

section \<open>The operations\<close>

fun deep_equal :: "json \<Rightarrow> json \<Rightarrow> bool" where
  "deep_equal (JArr a) (JArr b) = (length a = length b \<and> list_all2 deep_equal a b)"
| "deep_equal (JObj a) (JObj b) = (length a = length b \<and>
     list_all (\<lambda>(k, v). case map_of b k of None \<Rightarrow> False | Some w \<Rightarrow> deep_equal v w) a)"
| "deep_equal a b = (a = b)"

fun sort_keys :: "json \<Rightarrow> json" where
  "sort_keys (JArr vs) = JArr (map sort_keys vs)"
| "sort_keys (JObj kvs) = JObj (obj_of (sort_key fst (map (\<lambda>(k, v). (k, sort_keys v)) kvs)))"
| "sort_keys v = v"

text \<open>\<open>String(v)\<close> of a scalar.\<close>

definition scalar_text :: "json \<Rightarrow> string option" where
  "scalar_text v = (case v of JStr s \<Rightarrow> Some s | JNum s \<Rightarrow> Some s
     | JBool b \<Rightarrow> Some (if b then ''true'' else ''false'') | _ \<Rightarrow> None)"

text \<open>\<open>JSON.stringify\<close>.\<close>

definition hex_char :: "nat \<Rightarrow> char" where
  "hex_char d = (if d < 10 then char_of (48 + d) else char_of (87 + d))"

definition escape_char :: "char \<Rightarrow> string" where
  "escape_char c =
     (let n = of_char c :: nat in
      if n = 34 \<or> n = 92 then [CHR 0x5C, c]
      else if n = 8 then [CHR 0x5C, CHR ''b'']
      else if n = 9 then [CHR 0x5C, CHR ''t'']
      else if n = 10 then [CHR 0x5C, CHR ''n'']
      else if n = 12 then [CHR 0x5C, CHR ''f'']
      else if n = 13 then [CHR 0x5C, CHR ''r'']
      else if n < 32 then [CHR 0x5C, CHR ''u'', CHR ''0'', CHR ''0'', hex_char (n div 16), hex_char (n mod 16)]
      else [c])"

text \<open>The same function on the bits of a character, for evaluation.\<close>

fun nibble :: "bool \<Rightarrow> bool \<Rightarrow> bool \<Rightarrow> bool \<Rightarrow> char" where
  "nibble b3 b2 b1 b0 = (if b3 then
     (if b2 then (if b1 then (if b0 then CHR ''f'' else CHR ''e'') else (if b0 then CHR ''d'' else CHR ''c''))
      else (if b1 then (if b0 then CHR ''b'' else CHR ''a'') else (if b0 then CHR ''9'' else CHR ''8'')))
    else (if b2 then (if b1 then (if b0 then CHR ''7'' else CHR ''6'') else (if b0 then CHR ''5'' else CHR ''4''))
      else (if b1 then (if b0 then CHR ''3'' else CHR ''2'') else (if b0 then CHR ''1'' else CHR ''0''))))"

lemma escape_char_code [code]:
  "escape_char c =
     (if c = CHR 0x22 \<or> c = CHR 0x5C then [CHR 0x5C, c]
      else if digit7 c \<or> digit6 c \<or> digit5 c then [c]
      else if c = CHR 0x08 then [CHR 0x5C, CHR ''b'']
      else if c = CHR 0x09 then [CHR 0x5C, CHR ''t'']
      else if c = CHR 0x0A then [CHR 0x5C, CHR ''n'']
      else if c = CHR 0x0C then [CHR 0x5C, CHR ''f'']
      else if c = CHR 0x0D then [CHR 0x5C, CHR ''r'']
      else [CHR 0x5C, CHR ''u'', CHR ''0'', CHR ''0'', if digit4 c then CHR ''1'' else CHR ''0'',
            nibble (digit3 c) (digit2 c) (digit1 c) (digit0 c)])"
proof (cases c)
  case (Char b0 b1 b2 b3 b4 b5 b6 b7)
  show ?thesis
    unfolding Char
    by (cases b5; cases b6; cases b7; cases b0; cases b1; cases b2; cases b3; cases b4)
      (simp_all add: escape_char_def hex_char_def Let_def char_of_def bit_iff_odd)
qed

definition quote :: "string \<Rightarrow> string" where
  "quote s = CHR 0x22 # concat (map escape_char s) @ [CHR 0x22]"

fun json_text :: "json \<Rightarrow> string" where
  "json_text JNull = ''null''"
| "json_text (JBool b) = (if b then ''true'' else ''false'')"
| "json_text (JNum s) = s"
| "json_text (JStr s) = quote s"
| "json_text (JArr vs) = ''['' @ join '','' (map json_text vs) @ '']''"
| "json_text (JObj kvs) = ''{'' @ join '','' (map (\<lambda>(k, v). quote k @ '':'' @ json_text v) kvs) @ ''}''"

definition canonicalize_json :: "json \<Rightarrow> string" where
  "canonicalize_json v = json_text (sort_keys v)"

section \<open>\<open>JSON.stringify\<close> is injective\<close>

definition unhex :: "char \<Rightarrow> nat" where
  "unhex c = (let n = of_char c :: nat in if n < 58 then n - 48 else n - 87)"

lemma unhex_hex: "d < 16 \<Longrightarrow> unhex (hex_char d) = d"
  by (simp add: unhex_def hex_char_def Let_def)

text \<open>What one escape sequence stands for, and what follows it.\<close>

definition unescape :: "string \<Rightarrow> char \<times> string" where
  "unescape s =
     (case s of
        a # b # r \<Rightarrow>
          if a \<noteq> CHR 0x5C then (a, b # r)
          else if b = CHR ''b'' then (char_of (8::nat), r)
          else if b = CHR ''t'' then (char_of (9::nat), r)
          else if b = CHR ''n'' then (char_of (10::nat), r)
          else if b = CHR ''f'' then (char_of (12::nat), r)
          else if b = CHR ''r'' then (char_of (13::nat), r)
          else if b = CHR ''u'' then (char_of (16 * unhex (r ! 2) + unhex (r ! 3)), drop 4 r)
          else (b, r)
      | a # [] \<Rightarrow> (a, [])
      | [] \<Rightarrow> (CHR 0x00, []))"

lemma char_iff: "c = d \<longleftrightarrow> (of_char c :: nat) = of_char d"
  by (metis char_of_char)

lemma of_char_neq: "c \<noteq> d \<longleftrightarrow> (of_char c :: nat) \<noteq> of_char d"
  by (metis char_of_char)

lemma unescape_escape: "r \<noteq> [] \<Longrightarrow> unescape (escape_char c @ r) = (c, r)"
proof -
  assume r: "r \<noteq> []"
  obtain b rs where rs: "r = b # rs" using r by (cases r) auto
  define n where "n = (of_char c :: nat)"
  have cn: "c = char_of n" by (simp add: n_def)
  consider "n = 34 \<or> n = 92" | "n \<in> {8, 9, 10, 12, 13}" | "n < 32" "n \<notin> {8, 9, 10, 12, 13}"
    | "32 \<le> n" "n \<noteq> 34" "n \<noteq> 92" by fastforce
  then show ?thesis
  proof cases
    case 1
    then have "c = CHR 0x22 \<or> c = CHR 0x5C" by (auto simp: char_iff n_def simp del: of_char_eq_iff)
    then show ?thesis by (auto simp: escape_char_def unescape_def)
  next
    case 2
    then have "c \<in> {CHR 0x08, CHR 0x09, CHR 0x0A, CHR 0x0C, CHR 0x0D}" by (auto simp: char_iff n_def simp del: of_char_eq_iff)
    then show ?thesis by (auto simp: escape_char_def unescape_def char_of_def bit_iff_odd)
  next
    case 3
    have h: "unhex (hex_char (n div 16)) = n div 16" "unhex (hex_char (n mod 16)) = n mod 16"
      using 3(1) by (auto intro!: unhex_hex)
    have "char_of (16 * (n div 16) + n mod 16) = c" by (simp add: cn)
    moreover have "escape_char c =
        [CHR 0x5C, CHR ''u'', CHR ''0'', CHR ''0'', hex_char (n div 16), hex_char (n mod 16)]"
      using 3 unfolding escape_char_def n_def [symmetric] Let_def by auto
    ultimately show ?thesis by (simp add: unescape_def h)
  next
    case 4
    have "c \<noteq> CHR 0x5C" using 4(3) by (simp add: of_char_neq n_def)
    with 4 rs show ?thesis by (auto simp: escape_char_def unescape_def n_def [symmetric] Let_def)
  qed
qed

lemma escape_char_ne: "escape_char c \<noteq> []"
  by (auto simp: escape_char_def Let_def)

lemma hd_escape_char: "hd (escape_char c) \<noteq> CHR 0x22"
proof -
  have "hd (escape_char c) = CHR 0x5C \<or> (hd (escape_char c) = c \<and> (of_char c :: nat) \<noteq> 34)"
    by (auto simp: escape_char_def Let_def)
  then show ?thesis by (auto simp: of_char_neq)
qed

lemma escaped_inj:
  "concat (map escape_char s) @ CHR 0x22 # r = concat (map escape_char t) @ CHR 0x22 # r' \<Longrightarrow> s = t \<and> r = r'"
proof (induction s arbitrary: t)
  case Nil
  show ?case
  proof (cases t)
    case (Cons d t')
    with Nil have "hd (escape_char d) = CHR 0x22"
      by (cases "escape_char d") (auto simp: escape_char_ne)
    then show ?thesis by (simp add: hd_escape_char)
  qed (use Nil in auto)
next
  case (Cons c s)
  show ?case
  proof (cases t)
    case Nil
    with Cons.prems have "hd (escape_char c) = CHR 0x22"
      by (cases "escape_char c") (auto simp: escape_char_ne)
    then show ?thesis by (simp add: hd_escape_char)
  next
    case t: (Cons d t')
    let ?x = "concat (map escape_char s) @ CHR 0x22 # r" and ?y = "concat (map escape_char t') @ CHR 0x22 # r'"
    have "escape_char c @ ?x = escape_char d @ ?y" using Cons.prems t by simp
    then have "unescape (escape_char c @ ?x) = unescape (escape_char d @ ?y)" by (rule arg_cong)
    then have "c = d \<and> ?x = ?y" by (simp add: unescape_escape)
    with Cons.IH [of t'] t show ?thesis by simp
  qed
qed

lemma quote_inj: "quote s @ r = quote t @ r' \<Longrightarrow> s = t \<and> r = r'"
  using escaped_inj [of s r t r'] by (simp add: quote_def)

text \<open>What may follow a value: nothing, a separator or a closing bracket; a number stops there.\<close>

definition stops :: "string \<Rightarrow> bool" where
  "stops r = (r = [] \<or> \<not> number_char (hd r))"

lemma number_text_inj:
  assumes "list_all number_char s" "list_all number_char t" "stops r" "stops r'" and "s @ r = t @ r'"
  shows "s = t \<and> r = r'"
proof -
  have tw: "takeWhile number_char (s @ r) = s" if "list_all number_char s" "stops r" for s r
    using that by (cases r) (auto simp: stops_def list_all_iff takeWhile_append2)
  have "s = t" using tw [OF assms(1,3)] tw [OF assms(2,4)] assms(5) by simp
  with assms(5) show ?thesis by simp
qed

lemma stops_chars: "stops (CHR '','' # r)" "stops (CHR '']'' # r)" "stops (CHR ''}'' # r)"
  by (simp_all add: stops_def number_char_def is_digit_def)

text \<open>A joined list is read back element by element.\<close>

lemma joined_inj:
  assumes "\<And>x y r r'. x \<in> set xs \<Longrightarrow> y \<in> set ys \<Longrightarrow> stops r \<Longrightarrow> stops r' \<Longrightarrow> f x @ r = f y @ r' \<Longrightarrow> x = y \<and> r = r'"
    and "\<And>x. x \<in> set xs \<union> set ys \<Longrightarrow> f x \<noteq> [] \<and> hd (f x) \<noteq> close"
    and close: "close = CHR '']'' \<or> close = CHR ''}''"
    and "join '','' (map f xs) @ close # r = join '','' (map f ys) @ close # r'"
  shows "xs = ys \<and> r = r'"
  using assms(1,2,4)
proof (induction xs arbitrary: ys)
  case Nil
  show ?case
  proof (cases ys)
    case (Cons y ys')
    with Nil.prems(2) [of y] obtain a as where "f y = a # as" "a \<noteq> close" by (cases "f y") auto
    with Nil.prems(3) Cons show ?thesis by (cases ys') auto
  qed (use Nil.prems in auto)
next
  case (Cons x xs)
  have st: "stops (close # r)" for r using close stops_chars by auto
  have jc: "join '','' (map f (x # xs)) = f x @ (if xs = [] then [] else CHR '','' # join '','' (map f xs))" for x xs
    by (cases xs) auto
  show ?case
  proof (cases ys)
    case Nil
    have "f x \<noteq> []" "hd (f x) \<noteq> close" using Cons.prems(2) [of x] by simp_all
    then obtain a as where a: "f x = a # as" "a \<noteq> close" by (cases "f x") auto
    have "f x @ (if xs = [] then [] else CHR '','' # join '','' (map f xs)) @ close # r = close # r'"
      using Cons.prems(3) unfolding Nil jc by simp
    with a show ?thesis by simp
  next
    case ys: (Cons y ys')
    define p where "p = (if xs = [] then close # r else CHR '','' # join '','' (map f xs) @ close # r)"
    define q where "q = (if ys' = [] then close # r' else CHR '','' # join '','' (map f ys') @ close # r')"
    have "f x @ p = f y @ q" using Cons.prems(3) unfolding ys jc p_def q_def by auto
    moreover have "stops p" "stops q" using st stops_chars by (auto simp: p_def q_def)
    ultimately have xy: "x = y" and pq: "p = q" using Cons.prems(1) [of x y p q] ys by auto
    have nc: "CHR '','' \<noteq> close" using close by auto
    show ?thesis
    proof (cases "xs = [] \<or> ys' = []")
      case True
      with pq nc xy show ?thesis by (auto simp: p_def q_def ys split: if_splits)
    next
      case False
      with pq have "join '','' (map f xs) @ close # r = join '','' (map f ys') @ close # r'"
        by (simp add: p_def q_def)
      moreover have "x' = y' \<and> s = s'"
        if "x' \<in> set xs" "y' \<in> set ys'" "stops s" "stops s'" "f x' @ s = f y' @ s'" for x' y' s s'
        using Cons.prems(1) [of x' y' s s'] that ys by auto
      moreover have "f x' \<noteq> [] \<and> hd (f x') \<noteq> close" if "x' \<in> set xs \<union> set ys'" for x'
        using Cons.prems(2) [of x'] that ys by auto
      ultimately have "xs = ys' \<and> r = r'" by (rule Cons.IH [rotated -1])
      with xy ys show ?thesis by simp
    qed
  qed
qed

text \<open>The first character of a value's text tells its kind.\<close>

fun first_ok :: "json \<Rightarrow> char \<Rightarrow> bool" where
  "first_ok JNull c = (c = CHR ''n'')"
| "first_ok (JBool b) c = (c = (if b then CHR ''t'' else CHR ''f''))"
| "first_ok (JNum s) c = (is_digit c \<or> c = CHR ''-'')"
| "first_ok (JStr s) c = (c = CHR 0x22)"
| "first_ok (JArr vs) c = (c = CHR ''['')"
| "first_ok (JObj kvs) c = (c = CHR ''{'')"

lemma json_text_first: "json_ok v \<Longrightarrow> json_text v \<noteq> [] \<and> first_ok v (hd (json_text v))"
  by (cases v) (auto simp: quote_def)

lemma first_ok_brackets: "first_ok v c \<Longrightarrow> c \<noteq> CHR '']'' \<and> c \<noteq> CHR ''}''"
  by (cases v) (auto simp: is_digit_def)

lemma number_first: "first_ok (JNum s) c \<Longrightarrow> first_ok w c \<Longrightarrow> \<exists>t. w = JNum t"
  by (cases w) (auto simp: is_digit_def split: if_splits)

lemma json_text_inj:
  assumes "json_ok v" "json_ok w" "stops r" "stops r'" and "json_text v @ r = json_text w @ r'"
  shows "v = w \<and> r = r'"
  using assms
proof (induction v arbitrary: w r r')
  case (JNum s)
  have "first_ok w (hd s)" "first_ok (JNum s) (hd s)"
    using json_text_first [OF JNum.prems(2)] JNum.prems(1,5) by (cases s; cases "json_text w"; simp)+
  then obtain t where w: "w = JNum t" using number_first by blast
  with JNum.prems number_text_inj [of s t r r'] show ?case by simp
next
  case (JStr s)
  have "first_ok w (CHR 0x22)"
    using json_text_first [OF JStr.prems(2)] JStr.prems(5) by (cases "json_text w") (auto simp: quote_def)
  then obtain t where w: "w = JStr t" by (cases w) (auto simp: is_digit_def split: if_splits)
  with JStr.prems quote_inj [of s r t r'] show ?case by simp
next
  case (JArr vs)
  have "first_ok w (CHR ''['')"
    using json_text_first [OF JArr.prems(2)] JArr.prems(5) by (cases "json_text w") auto
  then obtain ws where w: "w = JArr ws" by (cases w) (auto simp: is_digit_def split: if_splits)
  have "vs = ws \<and> r = r'"
  proof (rule joined_inj [of vs ws json_text "CHR '']''"])
    show "x = y \<and> p = q" if "x \<in> set vs" "y \<in> set ws" "stops p" "stops q" "json_text x @ p = json_text y @ q" for x y p q
      using JArr.IH [OF that(1) _ _ that(3,4,5)] JArr.prems(1,2) that(1,2) by (auto simp: w list_all_iff)
    show "json_text x \<noteq> [] \<and> hd (json_text x) \<noteq> CHR '']''" if "x \<in> set vs \<union> set ws" for x
      using json_text_first [of x] first_ok_brackets [of x] JArr.prems(1,2) that by (auto simp: w list_all_iff)
  qed (use JArr.prems(5) w in auto)
  with w show ?case by simp
next
  case (JObj kvs)
  have "first_ok w (CHR ''{'')"
    using json_text_first [OF JObj.prems(2)] JObj.prems(5) by (cases "json_text w") auto
  then obtain ws where w: "w = JObj ws" by (cases w) (auto simp: is_digit_def split: if_splits)
  let ?f = "\<lambda>(k, v). quote k @ '':'' @ json_text v"
  have "kvs = ws \<and> r = r'"
  proof (rule joined_inj [of kvs ws ?f "CHR ''}''"])
    show "x = y \<and> p = q" if xy: "x \<in> set kvs" "y \<in> set ws" and st: "stops p" "stops q" and e: "?f x @ p = ?f y @ q" for x y p q
    proof -
      obtain k v j u where x: "x = (k, v)" and y: "y = (j, u)" by fastforce
      have "k = j \<and> '':'' @ json_text v @ p = '':'' @ json_text u @ q"
        using e by (intro quote_inj) (simp add: x y)
      then have "k = j" "json_text v @ p = json_text u @ q" by simp_all
      moreover have "v \<in> Basic_BNFs.snds x" by (simp add: x prod_set_simps)
      moreover have "json_ok v" "json_ok u" using JObj.prems(1,2) xy by (auto simp: w x y list_all_iff)
      ultimately have "v = u \<and> p = q" using JObj.IH [OF xy(1)] st by blast
      with \<open>k = j\<close> x y show ?thesis by simp
    qed
    show "?f x \<noteq> [] \<and> hd (?f x) \<noteq> CHR ''}''" if "x \<in> set kvs \<union> set ws" for x
      by (cases x) (simp add: quote_def)
  qed (use JObj.prems(5) w in auto)
  with w show ?case by simp
next
  case JNull
  have "first_ok w (CHR ''n'')"
    using json_text_first [OF JNull.prems(2)] JNull.prems(5) by (cases "json_text w") auto
  then have "w = JNull" by (cases w) (auto simp: is_digit_def split: if_splits)
  with JNull.prems show ?case by simp
next
  case (JBool b)
  have "first_ok w (if b then CHR ''t'' else CHR ''f'')"
    using json_text_first [OF JBool.prems(2)] JBool.prems(5) by (cases "json_text w") (auto split: if_splits)
  then have "w = JBool b" by (cases w) (auto simp: is_digit_def split: if_splits)
  with JBool.prems show ?case by simp
qed

section \<open>The two equalities agree\<close>

lemma distinct_sort_key_fst: "distinct (map fst (sort_key fst L)) = distinct (map fst L)"
proof -
  have "mset (map fst (sort_key fst L)) = mset (map fst L)" by simp
  then show ?thesis by (rule mset_eq_imp_distinct_iff)
qed

lemma sort_fst_eq_iff:
  fixes L M :: "('k::linorder \<times> 'v) list"
  assumes "distinct (map fst L)" "distinct (map fst M)"
  shows "sort_key fst L = sort_key fst M \<longleftrightarrow> map_of L = map_of M"
proof
  assume e: "sort_key fst L = sort_key fst M"
  then have "set (sort_key fst L) = set (sort_key fst M)" by (rule arg_cong)
  then show "map_of L = map_of M" by (simp add: map_of_inject_set [OF assms])
next
  assume e: "map_of L = map_of M"
  have d: "distinct L" "distinct M" using assms by (simp_all add: distinct_map)
  have "set L = set M" using e by (simp add: map_of_inject_set [OF assms])
  then have "mset L = mset M" using d by (simp add: set_eq_iff_mset_eq_distinct)
  moreover have "inj_on fst (set L)" using assms(1) by (simp add: distinct_map)
  ultimately show "sort_key fst L = sort_key fst M"
    by (intro sort_key_inj_key_eq) simp_all
qed

lemma map_of_map_snd: "map_of (map (\<lambda>(k, v). (k, f v)) L) = map_option f \<circ> map_of L"
  by (induction L) (auto simp: fun_eq_iff)

lemma length_eq_of_map_of:
  "distinct (map fst L) \<Longrightarrow> distinct (map fst M) \<Longrightarrow> dom (map_of L) = dom (map_of M) \<Longrightarrow> length L = length M"
  by (metis distinct_card dom_map_of_conv_image_fst length_map list.set_map)

lemma fst_pairs [simp]: "map (\<lambda>x. fst (case x of (k, v) \<Rightarrow> (k, f v))) L = map fst L"
  "fst ` (\<lambda>(k, v). (k, f v)) ` S = fst ` S"
  by (simp_all add: image_image case_prod_unfold)

text \<open>The canonical form of an object is determined by the object as a map.\<close>

lemma sort_keys_obj_eq:
  assumes "distinct (map fst a)" "distinct (map fst b)" "proto_key \<notin> fst ` set a" "proto_key \<notin> fst ` set b"
  shows "sort_keys (JObj a) = sort_keys (JObj b) \<longleftrightarrow>
     (\<forall>k. map_option sort_keys (map_of a k) = map_option sort_keys (map_of b k))"
proof -
  let ?s = "\<lambda>L. map (\<lambda>(k, v). (k, sort_keys v)) L"
  have d: "distinct (map fst (?s a))" "distinct (map fst (?s b))"
    using assms(1,2) by (simp_all add: comp_def)
  have p: "proto_key \<notin> fst ` set (sort_key fst (?s a))" "proto_key \<notin> fst ` set (sort_key fst (?s b))"
    using assms(3,4) by simp_all
  have m: "map_of (obj_of (sort_key fst (?s L))) = map_option sort_keys \<circ> map_of L"
    if "distinct (map fst (?s L))" "proto_key \<notin> fst ` set (sort_key fst (?s L))" for L
  proof -
    have "map_of (sort_key fst (?s L)) = map_of (?s L)"
      using that(1) by (simp add: map_of_inject_set distinct_sort_key_fst del: map_map)
    with that show ?thesis
      by (simp add: map_of_obj_of distinct_sort_key_fst map_of_map_snd del: set_sort)
  qed
  have "sort_keys (JObj a) = sort_keys (JObj b) \<longleftrightarrow> map_of (?s a) = map_of (?s b)"
  proof
    assume "sort_keys (JObj a) = sort_keys (JObj b)"
    then have "map_of (obj_of (sort_key fst (?s a))) = map_of (obj_of (sort_key fst (?s b)))" by simp
    then show "map_of (?s a) = map_of (?s b)"
      unfolding m [OF d(1) p(1)] m [OF d(2) p(2)] map_of_map_snd .
  next
    assume "map_of (?s a) = map_of (?s b)"
    then show "sort_keys (JObj a) = sort_keys (JObj b)"
      using sort_fst_eq_iff [OF d] by simp
  qed
  then show ?thesis by (simp add: map_of_map_snd fun_eq_iff)
qed

lemma no_proto_keys: "no_proto (JObj kvs) \<Longrightarrow> proto_key \<notin> fst ` set kvs"
  by (auto simp: list_all_iff)

lemma obj_member: "json_ok (JObj a) \<Longrightarrow> no_proto (JObj a) \<Longrightarrow> map_of a k = Some v \<Longrightarrow> json_ok v \<and> no_proto v"
  by (fastforce dest: map_of_SomeD simp: list_all_iff)

lemma sort_keys_scalar:
  "sort_keys b = JNull \<longleftrightarrow> b = JNull" "JNull = sort_keys b \<longleftrightarrow> b = JNull"
  "sort_keys b = JBool x \<longleftrightarrow> b = JBool x" "JBool x = sort_keys b \<longleftrightarrow> b = JBool x"
  "sort_keys b = JNum s \<longleftrightarrow> b = JNum s" "JNum s = sort_keys b \<longleftrightarrow> b = JNum s"
  "sort_keys b = JStr s \<longleftrightarrow> b = JStr s" "JStr s = sort_keys b \<longleftrightarrow> b = JStr s"
  by (cases b; auto)+

lemma deep_equal_sort_keys:
  "json_ok a \<Longrightarrow> json_ok b \<Longrightarrow> no_proto a \<Longrightarrow> no_proto b \<Longrightarrow> deep_equal a b \<longleftrightarrow> sort_keys a = sort_keys b"
proof (induction a b rule: deep_equal.induct)
  case (1 a b)
  then have e: "deep_equal x y \<longleftrightarrow> sort_keys x = sort_keys y" if "x \<in> set a" "y \<in> set b" for x y
    using that by (auto simp: list_all_iff)
  have "list_all2 deep_equal a b \<longleftrightarrow> list_all2 (\<lambda>x y. sort_keys x = sort_keys y) a b"
    by (intro iffI; erule list.rel_mono_strong) (simp_all add: e)
  moreover have "list_all2 (\<lambda>x y. sort_keys x = sort_keys y) a b \<longleftrightarrow> map sort_keys a = map sort_keys b"
    by (auto simp: list_all2_conv_all_nth list_eq_iff_nth_eq)
  ultimately show ?case by (auto dest: map_eq_imp_length_eq)
next
  case (2 a b)
  have d: "distinct (map fst a)" "distinct (map fst b)" using 2(2,3) by simp_all
  have p: "proto_key \<notin> fst ` set a" "proto_key \<notin> fst ` set b"
    using 2(4,5) by (blast dest: no_proto_keys)+
  have ih: "deep_equal v w \<longleftrightarrow> sort_keys v = sort_keys w"
    if "map_of a k = Some v" "map_of b k = Some w" for k v w
    using 2(1) [OF map_of_SomeD [OF that(1)] refl that(2)] obj_member [OF 2(2,4) that(1)]
      obj_member [OF 2(3,5) that(2)] by simp
  let ?agree = "\<forall>k. map_option sort_keys (map_of a k) = map_option sort_keys (map_of b k)"
  have "deep_equal (JObj a) (JObj b) \<longleftrightarrow> ?agree"
  proof
    assume de: "deep_equal (JObj a) (JObj b)"
    have sub: "\<exists>w. map_of b k = Some w \<and> sort_keys v = sort_keys w" if "map_of a k = Some v" for k v
    proof -
      have "case map_of b k of None \<Rightarrow> False | Some w \<Rightarrow> deep_equal v w"
        using de map_of_SomeD [OF that] by (fastforce simp: list_all_iff)
      then show ?thesis using ih [OF that] by (auto split: option.splits)
    qed
    then have "fst ` set a \<subseteq> fst ` set b" unfolding dom_map_of_conv_image_fst [symmetric] dom_def by blast
    moreover have "card (fst ` set a) = card (fst ` set b)"
      using de d by (metis deep_equal.simps(2) distinct_card length_map list.set_map)
    ultimately have "fst ` set a = fst ` set b" by (intro card_subset_eq) simp_all
    then have n: "map_of a k = None \<longleftrightarrow> map_of b k = None" for k by (simp add: map_of_eq_None_iff)
    show ?agree
    proof
      fix k
      show "map_option sort_keys (map_of a k) = map_option sort_keys (map_of b k)"
        using sub [of k] n [of k] by (cases "map_of a k") auto
    qed
  next
    assume ag: ?agree
    have "map_of a k = None \<longleftrightarrow> map_of b k = None" for k
      using spec [OF ag, of k] by (cases "map_of a k"; cases "map_of b k") auto
    then have "dom (map_of a) = dom (map_of b)" unfolding dom_def by simp
    then have "length a = length b" using d by (rule length_eq_of_map_of [rotated 2])
    moreover have "case map_of b k of None \<Rightarrow> False | Some w \<Rightarrow> deep_equal v w" if "(k, v) \<in> set a" for k v
    proof -
      have v: "map_of a k = Some v" using that d(1) by simp
      with ag obtain w where "map_of b k = Some w" "sort_keys v = sort_keys w"
        by (metis (no_types, lifting) map_option_eq_Some)
      then show ?thesis using ih [OF v] by simp
    qed
    ultimately show "deep_equal (JObj a) (JObj b)" by (auto simp: list_all_iff)
  qed
  then show ?case by (simp only: sort_keys_obj_eq [OF d p])
qed (auto simp: sort_keys_scalar)

lemma json_ok_obj_of:
  "list_all (\<lambda>(k, v). json_ok v) L \<Longrightarrow> json_ok (JObj (obj_of L))"
proof -
  have step: "json_ok (JObj (obj_set m k v))" if "json_ok (JObj m)" "json_ok v" for m k v
    using that set_obj_set [of m k v] by (auto simp: distinct_obj_set list_all_iff)
  have "json_ok (JObj (foldl (\<lambda>m (k, v). obj_set m k v) m L))"
    if "json_ok (JObj m)" "list_all (\<lambda>(k, v). json_ok v) L" for m L
    using that
  proof (induction L arbitrary: m)
    case (Cons kv L)
    obtain k v where kv: "kv = (k, v)" by fastforce
    with Cons.prems have "json_ok (JObj (obj_set m k v))" by (intro step) simp_all
    with Cons kv show ?case by simp
  qed simp
  then show "list_all (\<lambda>(k, v). json_ok v) L \<Longrightarrow> json_ok (JObj (obj_of L))" by (simp add: obj_of_def)
qed

lemma json_ok_sort_keys: "json_ok v \<Longrightarrow> json_ok (sort_keys v)"
proof (induction v rule: sort_keys.induct)
  case (2 kvs)
  then have "list_all (\<lambda>(k, v). json_ok v) (sort_key fst (map (\<lambda>(k, v). (k, sort_keys v)) kvs))"
    by (fastforce simp: list_all_iff)
  from json_ok_obj_of [OF this] show ?case by simp
qed (auto simp: list_all_iff)

lemma canonical_eq_iff:
  assumes "json_ok a" "json_ok b" "no_proto a" "no_proto b"
  shows "canonicalize_json a = canonicalize_json b \<longleftrightarrow> deep_equal a b"
proof -
  have "canonicalize_json a = canonicalize_json b \<longleftrightarrow> sort_keys a = sort_keys b"
    using json_text_inj [of "sort_keys a" "sort_keys b" "[]" "[]"] json_ok_sort_keys assms(1,2)
    by (auto simp: canonicalize_json_def stops_def)
  then show ?thesis using deep_equal_sort_keys [OF assms] by simp
qed

text \<open>
  The canonical text decides structural equality. For parsed JSON values none of whose
  objects has an own key \<open>__proto__\<close>, \<open>JSON.stringify(sortKeys(a))\<close> equals that of \<open>b\<close> exactly
  when \<open>deepEqualJson(a, b)\<close>: the hash keys of the array matcher and the content comparison of
  keyed collections never confuse two values and never separate equal ones.
\<close>

lemma canonical_text_is_deep_equality:
  assumes "json_ok a" "json_ok b" "no_proto a" "no_proto b"
  shows "canonicalize_json a = canonicalize_json b \<longleftrightarrow> deep_equal a b"
  using assms by (rule canonical_eq_iff)

lemma canonical_text_is_deep_equality_witness:
  "canonicalize_json (JObj [(''b'', JNum ''1''), (''a'', JArr [JBool True])]) =
   canonicalize_json (JObj [(''a'', JArr [JBool True]), (''b'', JNum ''1'')])"
proof -
  let ?a = "JObj [(''b'', JNum ''1''), (''a'', JArr [JBool True])]"
  let ?b = "JObj [(''a'', JArr [JBool True]), (''b'', JNum ''1'')]"
  have "json_ok ?a" "json_ok ?b" "no_proto ?a" "no_proto ?b" "deep_equal ?a ?b" by code_simp+
  then show ?thesis using canonical_text_is_deep_equality [of ?a ?b] by blast
qed

text \<open>The key \<open>__proto__\<close> is the exception: sorting loses it, so different values share a text.\<close>

lemma proto_key_is_lost:
  "canonicalize_json (JObj [(proto_key, v)]) = canonicalize_json (JObj [])"
  "\<not> deep_equal (JObj [(proto_key, v)]) (JObj [])"
  by (simp_all add: canonicalize_json_def obj_of_def obj_set_def)

end
