(* ===== verification/AM_KeyedCollection.thy ===== *)
theory AM_KeyedCollection
  imports AM_Json AM_Types
begin

text \<open>
  Keyed-collection change detection, \<open>observation/keyed-collection.ts\<close>, with
  \<open>displayObjectKey\<close> of \<open>observation/display.ts\<close>: the parsing of the collection block, the
  dotted paths, the normalization of an element, and the diff of a parsed output against the
  previous keyed snapshot. The grapheme segmenter (\<open>Intl.Segmenter\<close>) is an argument.

  Property lookups are lookups of own properties. The code also sees inherited names
  (\<open>constructor\<close>, \<open>__proto__\<close>): in a collection path they end in the same error as a missing
  field, since nothing inherited is an array.
\<close>

section \<open>Errors and configuration\<close>

datatype collection_error =
    CollectionNotObject
  | CollectionPathInvalid
  | CollectionKeyInvalid
  | IgnorePathsInvalid
  | MalformedRoot string
  | EmptySegment string
  | UnsupportedSyntax string string
  | NotAnArray string
  | ElementNotObject string
  | MissingScalarKey string
  | DuplicateKey string string

record collection_config =
  cc_path :: string
  cc_key :: string
  cc_ignore :: "string list option"

definition non_empty_string :: "json option \<Rightarrow> string option" where
  "non_empty_string v = (case v of Some (JStr s) \<Rightarrow> if s = [] then None else Some s | _ \<Rightarrow> None)"

fun all_strings :: "json list \<Rightarrow> string list option" where
  "all_strings [] = Some []"
| "all_strings (JStr s # vs) = map_option ((#) s) (all_strings vs)"
| "all_strings (v # vs) = None"

definition parse_collection_config :: "json option \<Rightarrow> collection_error + collection_config option" where
  "parse_collection_config change_detection =
     (case change_detection of
        Some (JObj kvs) \<Rightarrow>
          (case map_of kvs ''collection'' of
             None \<Rightarrow> Inr None
           | Some (JObj c) \<Rightarrow>
               (case non_empty_string (map_of c ''path'') of
                  None \<Rightarrow> Inl CollectionPathInvalid
                | Some p \<Rightarrow>
                    (case non_empty_string (map_of c ''key'') of
                       None \<Rightarrow> Inl CollectionKeyInvalid
                     | Some k \<Rightarrow>
                         (case map_of c ''ignore-paths'' of
                            None \<Rightarrow> Inr (Some \<lparr>cc_path = p, cc_key = k, cc_ignore = None\<rparr>)
                          | Some (JArr vs) \<Rightarrow>
                              (case all_strings vs of
                                 None \<Rightarrow> Inl IgnorePathsInvalid
                               | Some ss \<Rightarrow> Inr (Some \<lparr>cc_path = p, cc_key = k, cc_ignore = Some ss\<rparr>))
                          | Some _ \<Rightarrow> Inl IgnorePathsInvalid)))
           | Some _ \<Rightarrow> Inl CollectionNotObject)
      | _ \<Rightarrow> Inr None)"

section \<open>Dotted paths\<close>

definition unsupported_segment :: "string \<Rightarrow> bool" where
  "unsupported_segment seg = list_ex (\<lambda>c. c \<in> set ''[]*?'' \<or> is_space c) seg"

text \<open>The segments of a normalized path; \<open>None\<close> for the root itself.\<close>

definition normalize_dotted_path :: "string \<Rightarrow> collection_error + string list option" where
  "normalize_dotted_path p =
     (if p = ''$'' then Inr None
      else if take 2 p = ''$.'' then Inr (Some (split_on (CHR ''.'') (drop 2 p)))
      else if take 1 p = ''$'' then Inl (MalformedRoot p)
      else Inr (Some (split_on (CHR ''.'') p)))"

fun resolve_segments :: "string \<Rightarrow> json option \<Rightarrow> string list \<Rightarrow> collection_error + json option" where
  "resolve_segments p current [] = Inr current"
| "resolve_segments p current (seg # rest) =
     (if seg = [] then Inl (EmptySegment p)
      else if unsupported_segment seg then Inl (UnsupportedSyntax p seg)
      else (case current of
          Some (JObj kvs) \<Rightarrow> resolve_segments p (map_of kvs seg) rest
        | _ \<Rightarrow> Inr None))"

definition resolve_dotted_path :: "json \<Rightarrow> string \<Rightarrow> collection_error + json option" where
  "resolve_dotted_path root p =
     (case normalize_dotted_path p of
        Inl e \<Rightarrow> Inl e
      | Inr None \<Rightarrow> Inr (Some root)
      | Inr (Some segs) \<Rightarrow> resolve_segments p (Some root) segs)"

text \<open>
  The removal walks down the value while it is an object and deletes the last segment. A walk
  that leaves the objects early returns before the later segments are validated.
\<close>

fun remove_segments :: "string \<Rightarrow> json option \<Rightarrow> string list \<Rightarrow> collection_error + json option" where
  "remove_segments p current [] = Inl (EmptySegment p)"
| "remove_segments p current (seg # rest) =
     (if seg = [] then Inl (EmptySegment p)
      else if unsupported_segment seg then Inl (UnsupportedSyntax p seg)
      else (case current of
          Some (JObj kvs) \<Rightarrow>
            if rest = [] then Inr (Some (JObj (filter (\<lambda>(k, v). k \<noteq> seg) kvs)))
            else (case remove_segments p (map_of kvs seg) rest of
                Inl e \<Rightarrow> Inl e
              | Inr None \<Rightarrow> Inr current
              | Inr (Some v) \<Rightarrow> Inr (Some (JObj (map_set kvs seg v))))
        | _ \<Rightarrow> Inr current))"

definition remove_dotted_path :: "json \<Rightarrow> string \<Rightarrow> collection_error + json" where
  "remove_dotted_path v p =
     (case normalize_dotted_path p of
        Inl e \<Rightarrow> Inl e
      | Inr None \<Rightarrow> Inr v
      | Inr (Some segs) \<Rightarrow>
          (case remove_segments p (Some v) segs of
             Inl e \<Rightarrow> Inl e | Inr w \<Rightarrow> Inr (default w v)))"

section \<open>Elements\<close>

fun remove_all :: "json \<Rightarrow> string list \<Rightarrow> collection_error + json" where
  "remove_all v [] = Inr v"
| "remove_all v (p # ps) = (case remove_dotted_path v p of Inl e \<Rightarrow> Inl e | Inr w \<Rightarrow> remove_all w ps)"

definition normalize_element :: "json \<Rightarrow> string list option \<Rightarrow> collection_error + json" where
  "normalize_element el ignore =
     (case remove_all el (default ignore []) of Inl e \<Rightarrow> Inl e | Inr v \<Rightarrow> Inr (sort_keys v))"

definition key_value_of :: "json \<Rightarrow> string \<Rightarrow> collection_error + string" where
  "key_value_of el key =
     (case el of
        JObj kvs \<Rightarrow>
          (case map_of kvs key of
             None \<Rightarrow> Inl (MissingScalarKey key)
           | Some raw \<Rightarrow> (case scalar_text raw of None \<Rightarrow> Inl (MissingScalarKey key) | Some s \<Rightarrow> Inr s))
      | _ \<Rightarrow> Inl (ElementNotObject key))"

fun keyed_snapshot :: "collection_config \<Rightarrow> json list \<Rightarrow> (string \<times> json) list \<Rightarrow>
    collection_error + (string \<times> json) list" where
  "keyed_snapshot cfg [] current = Inr current"
| "keyed_snapshot cfg (el # els) current =
     (case key_value_of el (cc_key cfg) of
        Inl e \<Rightarrow> Inl e
      | Inr k \<Rightarrow>
          if k \<in> fst ` set current then Inl (DuplicateKey (cc_key cfg) k)
          else (case normalize_element el (cc_ignore cfg) of
              Inl e \<Rightarrow> Inl e
            | Inr v \<Rightarrow> keyed_snapshot cfg els (obj_set current k v)))"

section \<open>Titles\<close>

definition max_display_key_length :: nat where
  "max_display_key_length = 60"

fun grapheme_prefix :: "nat \<Rightarrow> string \<Rightarrow> string list \<Rightarrow> string" where
  "grapheme_prefix budget prefix [] = prefix"
| "grapheme_prefix budget prefix (g # gs) =
     (if budget < length prefix + length g then prefix else grapheme_prefix budget (prefix @ g) gs)"

definition display_object_key :: "(string \<Rightarrow> string list) \<Rightarrow> string \<Rightarrow> string" where
  "display_object_key graphemes k =
     (if length k \<le> max_display_key_length then k
      else grapheme_prefix (max_display_key_length - 1) [] (graphemes k) @ [ellipsis])"

fun title_verb :: "change_kind \<Rightarrow> string" where
  "title_verb Created = ''Item added''"
| "title_verb Modified = ''Item changed''"
| "title_verb Descoped = ''Item removed''"
| "title_verb Deleted = ''Item deleted''"

fun change_text :: "change_kind \<Rightarrow> string" where
  "change_text Created = ''created''"
| "change_text Modified = ''modified''"
| "change_text Descoped = ''descoped''"
| "change_text Deleted = ''deleted''"

section \<open>The diff\<close>

record keyed_context =
  kc_graphemes :: "string \<Rightarrow> string list"
  kc_object_key :: string
  kc_display :: string
  kc_payload :: "(string \<times> json) list"
  kc_scope :: "(string \<times> scope_value) list"

definition item_key :: "keyed_context \<Rightarrow> string \<Rightarrow> string" where
  "item_key ctx k = kc_object_key ctx @ ''#'' @ k"

definition emit_change :: "keyed_context \<Rightarrow> string \<Rightarrow> change_kind \<Rightarrow> observation" where
  "emit_change ctx k change =
     (let title = title_verb change @ '': '' @ display_object_key (kc_graphemes ctx) (kc_display ctx) @ ''#'' @ k in
      \<lparr>o_title = title, o_body = None, o_summary = Some title,
        o_payload = Some (JObj (obj_set (obj_set (kc_payload ctx) ''key'' (JStr k))
          ''changeKind'' (JStr (change_text change)))),
        o_snapshot_text = None, o_object_key = Some (item_key ctx k),
        o_scope = Some (obj_set (kc_scope ctx) ''objectKey'' (SOne (item_key ctx k))),
        o_change = Some change, o_salience = None, o_snapshot = None\<rparr>)"

definition present_change :: "(string \<times> json) list \<Rightarrow> string \<times> json \<Rightarrow> change_kind option" where
  "present_change previous kv =
     (case map_of previous (fst kv) of
        None \<Rightarrow> Some Created
      | Some w \<Rightarrow> if json_text (snd kv) \<noteq> json_text w then Some Modified else None)"

definition keyed_changes :: "keyed_context \<Rightarrow> (string \<times> json) list \<Rightarrow> (string \<times> json) list \<Rightarrow> observation list" where
  "keyed_changes ctx current previous =
     concat (map (\<lambda>kv. case present_change previous kv of None \<Rightarrow> [] | Some c \<Rightarrow> [emit_change ctx (fst kv) c]) current) @
     map (\<lambda>kv. emit_change ctx (fst kv) Descoped) (filter (\<lambda>kv. fst kv \<notin> fst ` set current) previous)"

definition diff_keyed_collection :: "keyed_context \<Rightarrow> json \<Rightarrow> collection_config \<Rightarrow>
    (string \<times> json) list option \<Rightarrow> collection_error + (observation list \<times> (string \<times> json) list)" where
  "diff_keyed_collection ctx parsed cfg previous =
     (case resolve_dotted_path parsed (cc_path cfg) of
        Inl e \<Rightarrow> Inl e
      | Inr (Some (JArr els)) \<Rightarrow>
          (case keyed_snapshot cfg els [] of
             Inl e \<Rightarrow> Inl e
           | Inr current \<Rightarrow>
               (case previous of
                  None \<Rightarrow> Inr ([], current)
                | Some prev \<Rightarrow> Inr (keyed_changes ctx current prev, current)))
      | Inr _ \<Rightarrow> Inl (NotAnArray (cc_path cfg)))"

section \<open>What a cycle reports\<close>

text \<open>The collection of an output: each element without its ignored fields, under its key.\<close>

definition element_entry :: "collection_config \<Rightarrow> json \<Rightarrow> (string \<times> json) option" where
  "element_entry cfg el =
     (case (key_value_of el (cc_key cfg), remove_all el (default (cc_ignore cfg) [])) of
        (Inr k, Inr v) \<Rightarrow> Some (k, v) | _ \<Rightarrow> None)"

definition elements_at :: "collection_config \<Rightarrow> json \<Rightarrow> json list" where
  "elements_at cfg parsed = (case resolve_dotted_path parsed (cc_path cfg) of
     Inr (Some (JArr els)) \<Rightarrow> els | _ \<Rightarrow> [])"

definition collection_of :: "collection_config \<Rightarrow> json \<Rightarrow> string \<Rightarrow> json option" where
  "collection_of cfg parsed = map_of (List.map_filter (element_entry cfg) (elements_at cfg parsed))"

lemma keyed_snapshot_step:
  assumes "keyed_snapshot cfg (el # els) current = Inr result"
  obtains k v where "element_entry cfg el = Some (k, v)" and "k \<notin> fst ` set current"
    and "keyed_snapshot cfg els (obj_set current k (sort_keys v)) = Inr result"
proof (cases "key_value_of el (cc_key cfg)")
  case (Inr k)
  with assms have k: "k \<notin> fst ` set current" by (auto split: if_splits)
  show thesis
  proof (cases "remove_all el (default (cc_ignore cfg) [])")
    case (Inr v)
    have "element_entry cfg el = Some (k, v)"
      using \<open>key_value_of el (cc_key cfg) = Inr k\<close> Inr by (simp add: element_entry_def)
    moreover have "keyed_snapshot cfg els (obj_set current k (sort_keys v)) = Inr result"
      using assms \<open>key_value_of el (cc_key cfg) = Inr k\<close> Inr k by (simp add: normalize_element_def)
    ultimately show thesis using k that by blast
  qed (use assms Inr k in \<open>auto simp: normalize_element_def\<close>)
qed (use assms in auto)

lemma keyed_snapshot_is_collection:
  assumes "keyed_snapshot cfg els current = Inr result" and "distinct (map fst current)"
    and "\<forall>el \<in> set els. key_value_of el (cc_key cfg) \<noteq> Inr proto_key"
  shows "distinct (map fst result) \<and> map_of result = map_of current ++
     (map_option sort_keys \<circ> map_of (List.map_filter (element_entry cfg) els)) \<and>
     (\<forall>k \<in> fst ` set current. map_of (List.map_filter (element_entry cfg) els) k = None)"
  using assms
proof (induction els arbitrary: current)
  case Nil
  then show ?case by (simp add: map_filter_simps)
next
  case (Cons el els)
  from Cons.prems(1) obtain k v where kv: "element_entry cfg el = Some (k, v)" "k \<notin> fst ` set current"
    and rest: "keyed_snapshot cfg els (obj_set current k (sort_keys v)) = Inr result"
    by (rule keyed_snapshot_step)
  have np: "k \<noteq> proto_key"
    using Cons.prems(3) kv(1) by (auto simp: element_entry_def split: sum.splits)
  let ?M = "map_of (List.map_filter (element_entry cfg) els)"
  have np': "\<forall>x \<in> set els. key_value_of x (cc_key cfg) \<noteq> Inr proto_key" using Cons.prems(3) by simp
  note h = Cons.IH [OF rest distinct_obj_set [OF Cons.prems(2)] np']
  note ih = conjunct1 [OF h] conjunct1 [OF conjunct2 [OF h]] conjunct2 [OF conjunct2 [OF h]]
  have keys: "fst ` set (obj_set current k (sort_keys v)) = insert k (fst ` set current)"
    unfolding dom_map_of_conv_image_fst [symmetric] by (simp add: map_of_obj_set np)
  have kn: "?M k = None" and cn: "\<forall>j \<in> fst ` set current. ?M j = None" using ih(3) keys by simp_all
  have c: "map_of current k = None" using kv(2) by (simp add: map_of_eq_None_iff)
  show ?case
    unfolding ih(2) map_of_obj_set using ih(1) kv cn kn c np
    by (auto simp: map_filter_simps fun_eq_iff map_add_def split: option.splits)
qed

lemma collection_snapshot:
  assumes "diff_keyed_collection ctx parsed cfg previous = Inr (obs, current)"
    and "\<forall>el \<in> set (elements_at cfg parsed). key_value_of el (cc_key cfg) \<noteq> Inr proto_key"
  shows "distinct (map fst current)" and "map_of current = map_option sort_keys \<circ> collection_of cfg parsed"
    and "obs = (case previous of None \<Rightarrow> [] | Some prev \<Rightarrow> keyed_changes ctx current prev)"
proof -
  obtain els where els: "resolve_dotted_path parsed (cc_path cfg) = Inr (Some (JArr els))"
    and snap: "keyed_snapshot cfg els [] = Inr current"
    and obs: "obs = (case previous of None \<Rightarrow> [] | Some prev \<Rightarrow> keyed_changes ctx current prev)"
    using assms(1) by (auto simp: diff_keyed_collection_def split: sum.splits option.splits json.splits)
  have "elements_at cfg parsed = els" by (simp add: elements_at_def els)
  with keyed_snapshot_is_collection [OF snap] assms(2)
  show "distinct (map fst current)" "map_of current = map_option sort_keys \<circ> collection_of cfg parsed"
    by (simp_all add: collection_of_def)
  show "obs = (case previous of None \<Rightarrow> [] | Some prev \<Rightarrow> keyed_changes ctx current prev)" by (rule obs)
qed

lemma emit_change_fields [simp]:
  "o_object_key (emit_change ctx k c) = Some (item_key ctx k)" "o_change (emit_change ctx k c) = Some c"
  by (simp_all add: emit_change_def Let_def)

lemma item_key_inj [simp]: "item_key ctx j = item_key ctx k \<longleftrightarrow> j = k"
  by (simp add: item_key_def)

lemma emit_change_inj [simp]: "emit_change ctx j c = emit_change ctx k d \<longleftrightarrow> j = k \<and> c = d"
  by (metis emit_change_fields item_key_inj option.inject)

text \<open>The change the two snapshots show for a key.\<close>

definition change_between :: "json option \<Rightarrow> json option \<Rightarrow> (json \<Rightarrow> json \<Rightarrow> bool) \<Rightarrow> change_kind option" where
  "change_between before after same =
     (case (before, after) of
        (None, Some b) \<Rightarrow> Some Created
      | (Some a, None) \<Rightarrow> Some Descoped
      | (Some a, Some b) \<Rightarrow> if same a b then None else Some Modified
      | (None, None) \<Rightarrow> None)"

lemma keyed_changes_set:
  assumes "distinct (map fst current)"
  shows "x \<in> set (keyed_changes ctx current previous) \<longleftrightarrow>
     (\<exists>k c. change_between (map_of previous k) (map_of current k) (\<lambda>a b. json_text b = json_text a) = Some c \<and>
        x = emit_change ctx k c)"
proof -
  have p: "present_change previous (k, v) =
      change_between (map_of previous k) (Some v) (\<lambda>a b. json_text b = json_text a)" for k v
    by (auto simp: present_change_def change_between_def split: option.splits)
  have m: "(k, v) \<in> set current \<longleftrightarrow> map_of current k = Some v" for k v using assms by simp
  have n: "k \<notin> fst ` set current \<longleftrightarrow> map_of current k = None" "k \<in> fst ` set previous \<longleftrightarrow> map_of previous k \<noteq> None" for k
    by (simp_all add: map_of_eq_None_iff)
  have present: "x \<in> set (concat (map (\<lambda>kv. case present_change previous kv of None \<Rightarrow> [] | Some c \<Rightarrow> [emit_change ctx (fst kv) c]) current)) \<longleftrightarrow>
      (\<exists>k v c. (k, v) \<in> set current \<and> present_change previous (k, v) = Some c \<and> x = emit_change ctx k c)"
  proof -
    have "x \<in> set (case present_change previous kv of None \<Rightarrow> [] | Some c \<Rightarrow> [emit_change ctx (fst kv) c]) \<longleftrightarrow>
        (\<exists>c. present_change previous kv = Some c \<and> x = emit_change ctx (fst kv) c)" for kv
      by (cases "present_change previous kv") simp_all
    then show ?thesis by (simp add: Bex_def)
  qed
  have gone: "x \<in> set (map (\<lambda>kv. emit_change ctx (fst kv) Descoped) (filter (\<lambda>kv. fst kv \<notin> fst ` set current) previous)) \<longleftrightarrow>
      (\<exists>k. k \<notin> fst ` set current \<and> k \<in> fst ` set previous \<and> x = emit_change ctx k Descoped)"
    by auto
  have "x \<in> set (keyed_changes ctx current previous) \<longleftrightarrow>
     (\<exists>k v c. map_of current k = Some v \<and> present_change previous (k, v) = Some c \<and> x = emit_change ctx k c) \<or>
     (\<exists>k. map_of current k = None \<and> map_of previous k \<noteq> None \<and> x = emit_change ctx k Descoped)"
    unfolding keyed_changes_def set_append Un_iff present gone unfolding m n by blast
  also have "\<dots> \<longleftrightarrow> (\<exists>k c. change_between (map_of previous k) (map_of current k) (\<lambda>a b. json_text b = json_text a) = Some c \<and>
        x = emit_change ctx k c)"
  proof -
    have "change_between (map_of previous k) (map_of current k) (\<lambda>a b. json_text b = json_text a) = Some c \<longleftrightarrow>
        (\<exists>v. map_of current k = Some v \<and> present_change previous (k, v) = Some c) \<or>
        (map_of current k = None \<and> map_of previous k \<noteq> None \<and> c = Descoped)" for k c
      unfolding p by (cases "map_of current k"; cases "map_of previous k") (auto simp: change_between_def)
    then show ?thesis by blast
  qed
  finally show ?thesis .
qed

lemma keyed_changes_distinct:
  assumes "distinct (map fst current)" and "distinct (map fst previous)"
  shows "distinct (map o_object_key (keyed_changes ctx current previous))"
proof -
  define f where "f = (\<lambda>kv. case present_change previous kv of None \<Rightarrow> [] | Some c \<Rightarrow> [emit_change ctx (fst kv) c])"
  define g where "g = (\<lambda>kv :: string \<times> json. Some (item_key ctx (fst kv)))"
  have ks: "map o_object_key (concat (map f kvs)) = map g (filter (\<lambda>kv. present_change previous kv \<noteq> None) kvs)" for kvs
    by (induction kvs) (auto simp: f_def g_def split: option.splits)
  have gd: "map o_object_key (map (\<lambda>kv. emit_change ctx (fst kv) Descoped) kvs) = map g kvs" for kvs :: "(string \<times> json) list"
    by (simp add: g_def)
  have dist: "distinct (map g (filter P kvs))" if "distinct (map fst kvs)" for P and kvs :: "(string \<times> json) list"
    using that by (auto simp: g_def distinct_map inj_on_def)
  have "g ` set (filter (\<lambda>kv. present_change previous kv \<noteq> None) current) \<inter>
      g ` set (filter (\<lambda>kv. fst kv \<notin> fst ` set current) previous) = {}"
    by (force simp: g_def)
  then show ?thesis
    using dist [OF assms(1)] dist [OF assms(2)]
    unfolding keyed_changes_def f_def [symmetric] map_append ks gd distinct_append set_map by blast
qed

section \<open>Stripping keeps a value well formed\<close>

lemma list_all_map_set: "list_all (\<lambda>(k, v). P k v) m \<Longrightarrow> P k v \<Longrightarrow> list_all (\<lambda>(k, v). P k v) (map_set m k v)"
  using set_map_set [of m k v] by (fastforce simp: list_all_iff)

lemma remove_segments_None: "remove_segments p None segs = Inr r \<Longrightarrow> r = None"
  by (cases segs) (auto split: if_splits)

lemma plain_remove_segments:
  "remove_segments p current segs = Inr (Some w) \<Longrightarrow> (\<forall>v. current = Some v \<longrightarrow> plain v) \<Longrightarrow> plain w"
proof (induction p current segs arbitrary: w rule: remove_segments.induct)
  case (2 p current seg rest)
  show ?case
  proof (cases "\<exists>kvs. current = Some (JObj kvs)")
    case True
    then obtain kvs where c: "current = Some (JObj kvs)" by blast
    with 2(3) have kvs: "plain (JObj kvs)" by simp
    have ok: "seg \<noteq> []" "\<not> unsupported_segment seg" using 2(2) by (auto split: if_splits)
    show ?thesis
    proof (cases "rest = []")
      case True
      with 2(2) c ok have "w = JObj (filter (\<lambda>(k, v). k \<noteq> seg) kvs)" by simp
      with kvs show ?thesis by (auto simp: plain_obj list_all_iff distinct_map_filter)
    next
      case False
      with 2(2) c ok obtain r where r: "remove_segments p (map_of kvs seg) rest = Inr r"
        and w: "w = (case r of None \<Rightarrow> JObj kvs | Some v \<Rightarrow> JObj (map_set kvs seg v))"
        by (auto split: sum.splits option.splits)
      show ?thesis
      proof (cases r)
        case (Some v)
        have "plain v"
          using 2(1) [OF ok c refl False, of v] r Some plain_field [OF kvs] by simp
        moreover have "seg \<noteq> proto_key"
        proof -
          have "map_of kvs seg \<noteq> None" using r Some remove_segments_None [of p rest r] by (cases "map_of kvs seg") auto
          then show ?thesis using plain_field [OF kvs] by blast
        qed
        ultimately show ?thesis
          using kvs w Some by (simp add: plain_obj map_set_distinct list_all_map_set)
      qed (use kvs w in simp)
    qed
  qed (use 2(2,3) in \<open>auto split: if_splits option.splits json.splits\<close>)
qed simp

lemma plain_remove_all: "remove_all v ps = Inr w \<Longrightarrow> plain v \<Longrightarrow> plain w"
proof (induction v ps rule: remove_all.induct)
  case (2 v p ps)
  from 2(2) obtain u where u: "remove_dotted_path v p = Inr u" "remove_all u ps = Inr w"
    by (auto split: sum.splits)
  have "plain u"
    using u(1) 2(3) plain_remove_segments [of p "Some v"]
    by (auto simp: remove_dotted_path_def default_def split: sum.splits option.splits)
  with 2(1) [OF u(1)] u(2) show ?case by blast
qed simp

lemma plain_resolve: "resolve_segments p (Some v) segs = Inr (Some w) \<Longrightarrow> plain v \<Longrightarrow> plain w"
proof (induction segs arbitrary: v)
  case (Cons seg rest)
  then obtain kvs where v: "v = JObj kvs" and r: "resolve_segments p (map_of kvs seg) rest = Inr (Some w)"
    by (auto split: if_splits json.splits)
  have n: "resolve_segments p None rest \<noteq> Inr (Some w)" by (cases rest) auto
  with r obtain u where u: "map_of kvs seg = Some u" by (cases "map_of kvs seg") auto
  with Cons.IH [of u] r plain_field [of kvs seg u] Cons.prems(2) v show ?case by simp
qed simp

lemma plain_collection:
  assumes "plain parsed" and "collection_of cfg parsed k = Some v"
  shows "plain v"
proof -
  have "plain w" if "resolve_dotted_path parsed (cc_path cfg) = Inr (Some w)" for w
    using that assms(1) by (auto simp: resolve_dotted_path_def intro: plain_resolve split: sum.splits option.splits)
  then have els: "list_all plain (elements_at cfg parsed)"
    by (auto simp: elements_at_def plain_arr [symmetric] plain_def [of "JArr []"] split: sum.splits option.splits json.splits)
  have "(k, v) \<in> set (List.map_filter (element_entry cfg) (elements_at cfg parsed))"
    using assms(2) by (auto simp: collection_of_def dest: map_of_SomeD)
  then obtain el where "el \<in> set (elements_at cfg parsed)" "element_entry cfg el = Some (k, v)"
    by (auto simp: map_filter_def)
  with els show ?thesis
    by (auto simp: element_entry_def list_all_iff intro: plain_remove_all split: sum.splits)
qed

text \<open>
  C12: a cycle reports exactly the difference between the two collections. After a cycle that
  stored a snapshot of one output, the next cycle emits for every key whose element appeared,
  disappeared or changed one observation of that kind, and nothing else: elements are compared
  as structures, without the ignored fields and whatever the order of their keys, and no two
  observations share an object key.
\<close>

theorem keyed_cycle_reports_difference:
  assumes "diff_keyed_collection ctx0 before cfg previous = Inr (obs0, snapshot)"
    and "diff_keyed_collection ctx after cfg (Some snapshot) = Inr (obs, snapshot')"
    and "plain before" "plain after"
    and "\<forall>el \<in> set (elements_at cfg before) \<union> set (elements_at cfg after).
           key_value_of el (cc_key cfg) \<noteq> Inr proto_key"
  shows "set obs = {emit_change ctx k c | k c.
           change_between (collection_of cfg before k) (collection_of cfg after k) deep_equal = Some c} \<and>
         distinct (map o_object_key obs)"
proof -
  let ?B = "collection_of cfg before" and ?A = "collection_of cfg after"
  have b: "distinct (map fst snapshot)" "map_of snapshot = map_option sort_keys \<circ> ?B"
    by (rule collection_snapshot [OF assms(1)]; use assms(5) in blast)+
  have a: "distinct (map fst snapshot')" "map_of snapshot' = map_option sort_keys \<circ> ?A"
    and obs: "obs = keyed_changes ctx snapshot' snapshot"
    using collection_snapshot [OF assms(2)] assms(5) by auto
  have "json_text (sort_keys y) = json_text (sort_keys x) \<longleftrightarrow> deep_equal x y"
    if "?B k = Some x" "?A k = Some y" for k x y
    using canonical_eq_iff [of x y] plain_collection [OF assms(3) that(1)]
      plain_collection [OF assms(4) that(2)] by (auto simp: plain_def canonicalize_json_def)
  then have "change_between (map_of snapshot k) (map_of snapshot' k) (\<lambda>a b. json_text b = json_text a) =
      change_between (?B k) (?A k) deep_equal" for k
    by (cases "?B k"; cases "?A k") (simp_all add: a(2) b(2) change_between_def)
  then show ?thesis
    unfolding obs using keyed_changes_set [OF a(1)] keyed_changes_distinct [OF a(1) b(1)] by auto
qed

definition demo_context :: keyed_context where
  "demo_context = \<lparr>kc_graphemes = map (\<lambda>c. [c]), kc_object_key = ''cmd'', kc_display = ''cmd'',
     kc_payload = [], kc_scope = []\<rparr>"

definition demo_collection :: "(string \<times> string) list \<Rightarrow> json" where
  "demo_collection items = JObj [(''tasks'', JArr (map (\<lambda>(i, s).
     JObj [(''id'', JNum i), (''state'', JStr s), (''at'', JNum ''0'')]) items))]"

definition demo_collection_config :: collection_config where
  "demo_collection_config = \<lparr>cc_path = ''$.tasks'', cc_key = ''id'', cc_ignore = Some [''$.at'']\<rparr>"

lemma two_cycles:
  assumes "case first of Inr (o0, snap) \<Rightarrow> o0 = [] \<and> (case second snap of Inr _ \<Rightarrow> True | Inl _ \<Rightarrow> False) | Inl _ \<Rightarrow> False"
  obtains snap obs snap' where "first = Inr ([], snap)" and "second snap = Inr (obs, snap')"
proof (cases first)
  case (Inr p)
  obtain o0 snap where p: "p = (o0, snap)" by fastforce
  show thesis
  proof (cases "second snap")
    case (Inr q)
    with assms \<open>first = Inr p\<close> p that [of snap "fst q" "snd q"] show thesis by simp
  qed (use assms Inr p in simp)
qed (use assms in simp)

theorem keyed_cycle_reports_difference_witness:
  "\<exists>snap obs snap'.
     diff_keyed_collection demo_context (demo_collection [(''1'', ''open''), (''2'', ''open'')])
       demo_collection_config None = Inr ([], snap) \<and>
     diff_keyed_collection demo_context (demo_collection [(''2'', ''done''), (''3'', ''open'')])
       demo_collection_config (Some snap) = Inr (obs, snap') \<and>
     emit_change demo_context ''2'' Modified \<in> set obs \<and> emit_change demo_context ''1'' Descoped \<in> set obs"
proof -
  let ?b = "demo_collection [(''1'', ''open''), (''2'', ''open'')]"
  let ?a = "demo_collection [(''2'', ''done''), (''3'', ''open'')]"
  let ?diff = "diff_keyed_collection demo_context"
  have "case ?diff ?b demo_collection_config None of Inr (o0, snap) \<Rightarrow> o0 = [] \<and>
      (case ?diff ?a demo_collection_config (Some snap) of Inr _ \<Rightarrow> True | Inl _ \<Rightarrow> False) | Inl _ \<Rightarrow> False"
    by code_simp
  then obtain snap obs snap' where d: "?diff ?b demo_collection_config None = Inr ([], snap)"
    "?diff ?a demo_collection_config (Some snap) = Inr (obs, snap')"
    by (rule two_cycles [where first = "?diff ?b demo_collection_config None"
          and second = "\<lambda>snap. ?diff ?a demo_collection_config (Some snap)"])
  have "plain ?b" "plain ?a" by (unfold plain_def, code_simp+)
  moreover have "\<forall>el \<in> set (elements_at demo_collection_config ?b) \<union> set (elements_at demo_collection_config ?a).
      key_value_of el (cc_key demo_collection_config) \<noteq> Inr proto_key" by code_simp
  ultimately have "set obs = {emit_change demo_context k c | k c.
      change_between (collection_of demo_collection_config ?b k) (collection_of demo_collection_config ?a k) deep_equal = Some c}"
    using keyed_cycle_reports_difference [OF d] by blast
  moreover have "change_between (collection_of demo_collection_config ?b ''2'') (collection_of demo_collection_config ?a ''2'') deep_equal = Some Modified"
    "change_between (collection_of demo_collection_config ?b ''1'') (collection_of demo_collection_config ?a ''1'') deep_equal = Some Descoped"
    by code_simp+
  ultimately show ?thesis using d by blast
qed

text \<open>An element whose key is \<open>__proto__\<close> is not recorded, so it is never reported.\<close>

lemma proto_element_is_not_recorded:
  assumes "key_value_of el (cc_key cfg) = Inr proto_key" and "keyed_snapshot cfg [el] [] = Inr current"
  shows "current = []"
  using assms by (auto simp: obj_set_def split: sum.splits)

section \<open>Titles are bounded\<close>

lemma grapheme_prefix_bound: "length prefix \<le> n \<Longrightarrow> length (grapheme_prefix n prefix gs) \<le> n"
  by (induction n prefix gs rule: grapheme_prefix.induct) auto

text \<open>
  The key shown in a title never exceeds sixty characters, the ellipsis included, however
  the segmenter splits the text; a key that fits is shown whole.
\<close>

lemma display_key_bounded:
  "length (display_object_key graphemes k) \<le> 60 \<and>
   (if length k \<le> 60 then display_object_key graphemes k = k else last (display_object_key graphemes k) = ellipsis)"
  using grapheme_prefix_bound [of "[]" 59 "graphemes k"]
  by (simp add: display_object_key_def max_display_key_length_def)

end
