(* ===== verification/AM_JsonDiff.thy ===== *)
theory AM_JsonDiff
  imports AM_Json AM_TextDiff
begin

text \<open>
  The structural renderer of \<open>runtime/diff.ts\<close>, \<open>buildJsonDiff\<close>: the traversal of two parsed
  values into a capped sink of entries, the three ways of matching array elements, the escaping
  and bounding of what is rendered. \<open>JSON.parse\<close> and the overflow of the call stack on a
  pathologically deep value are arguments. A text's characters are code units, one per code
  point; the ellipsis \<open>U+2026\<close> is written as a character of its own.
\<close>

section \<open>The sink\<close>

datatype diff_entry =
    Removed string json
  | Added string json
  | Changed string json json
  | Reordered string json

record sink =
  sk_cap :: nat
  sk_stored :: "diff_entry list"
  sk_count :: nat

definition new_sink :: "nat \<Rightarrow> sink" where
  "new_sink cap = \<lparr>sk_cap = cap, sk_stored = [], sk_count = 0\<rparr>"

definition sink_push :: "sink \<Rightarrow> diff_entry \<Rightarrow> sink" where
  "sink_push s e = s\<lparr>sk_count := sk_count s + 1,
     sk_stored := (if length (sk_stored s) \<le> sk_cap s then sk_stored s @ [e] else sk_stored s)\<rparr>"

definition max_json_diff_entries :: nat where
  "max_json_diff_entries = 20"

definition max_json_diff_value_length :: nat where
  "max_json_diff_value_length = 300"

definition max_path_segment_length :: nat where
  "max_path_segment_length = 60"

definition max_json_diff_output_length :: nat where
  "max_json_diff_output_length = 20000"

section \<open>Paths\<close>

definition truncate_at_code_point :: "string \<Rightarrow> nat \<Rightarrow> string \<times> bool" where
  "truncate_at_code_point s n = (if length s \<le> n then (s, False) else (take n s, True))"

definition escape_path_char :: "char \<Rightarrow> string" where
  "escape_path_char c =
     (let n = of_char c :: nat in
      if c \<in> set [CHR 0x5C, CHR ''.'', CHR ''['', CHR '']'', CHR ''=''] then [CHR 0x5C, c]
      else if n < 32 \<or> (127 \<le> n \<and> n \<le> 159)
      then [CHR 0x5C, CHR ''u'', CHR ''0'', CHR ''0'', hex_char (n div 16), hex_char (n mod 16)]
      else [c])"

definition escape_path_segment :: "string \<Rightarrow> string" where
  "escape_path_segment v =
     (let (text, truncated) = truncate_at_code_point v max_path_segment_length;
          out = concat (map escape_path_char text) in
      if truncated then out @ [ellipsis] else out)"

definition field_path :: "string \<Rightarrow> string \<Rightarrow> string" where
  "field_path base field =
     (if base = [] then escape_path_segment field else base @ ''.'' @ escape_path_segment field)"

definition index_path :: "string \<Rightarrow> nat \<Rightarrow> string" where
  "index_path base i = base @ ''['' @ show_nat i @ '']''"

definition keyed_element_path :: "string \<Rightarrow> string \<Rightarrow> string \<Rightarrow> string" where
  "keyed_element_path base key v = base @ ''['' @ key @ ''='' @ escape_path_segment v @ '']''"

section \<open>The traversal\<close>

type_synonym json_object = "(string \<times> json) list"

type_synonym json_visitor = "sink \<Rightarrow> string \<Rightarrow> json \<Rightarrow> json \<Rightarrow> sink"

definition identity_key_candidates :: "string list" where
  "identity_key_candidates = [''id'', ''key'', ''uuid'', ''_id'', ''slug'', ''sha'', ''number'', ''name'']"

definition is_plain_record :: "json \<Rightarrow> bool" where
  "is_plain_record v = (case v of JObj _ \<Rightarrow> True | _ \<Rightarrow> False)"

definition record_fields :: "json \<Rightarrow> json_object" where
  "record_fields v = (case v of JObj kvs \<Rightarrow> kvs | _ \<Rightarrow> [])"

definition element_text :: "string \<Rightarrow> json_object \<Rightarrow> string option" where
  "element_text key el = (case map_of el key of None \<Rightarrow> None | Some v \<Rightarrow> scalar_text v)"

fun unique_scalar_loop :: "string list \<Rightarrow> json_object list \<Rightarrow> string \<Rightarrow> bool" where
  "unique_scalar_loop seen [] key = True"
| "unique_scalar_loop seen (el # els) key =
     (case element_text key el of
        None \<Rightarrow> False
      | Some s \<Rightarrow> s \<notin> set seen \<and> unique_scalar_loop (s # seen) els key)"

definition is_unique_scalar_key :: "json_object list \<Rightarrow> string \<Rightarrow> bool" where
  "is_unique_scalar_key els key = unique_scalar_loop [] els key"

definition find_identity_key :: "json_object list \<Rightarrow> json_object list \<Rightarrow> string option" where
  "find_identity_key prev cur =
     find (\<lambda>c. is_unique_scalar_key prev c \<and> is_unique_scalar_key cur c) identity_key_candidates"

definition diff_object :: "json_visitor \<Rightarrow> sink \<Rightarrow> string \<Rightarrow> json_object \<Rightarrow> json_object \<Rightarrow> sink" where
  "diff_object visit sink path prev cur =
     foldl (\<lambda>s key.
         let child = field_path path key in
         case (map_of prev key, map_of cur key) of
           (Some p, None) \<Rightarrow> sink_push s (Removed child p)
         | (None, Some c) \<Rightarrow> sink_push s (Added child c)
         | (Some p, Some c) \<Rightarrow> visit s child p c
         | (None, None) \<Rightarrow> s)
       sink (sort (remdups (map fst prev @ map fst cur)))"

text \<open>\<open>String(el[key])\<close>, used where every element has a scalar there.\<close>

definition key_text :: "string \<Rightarrow> json_object \<Rightarrow> string" where
  "key_text key el = default (element_text key el) []"

definition by_key :: "string \<Rightarrow> json_object list \<Rightarrow> (string \<times> json_object) list" where
  "by_key key els = foldl (\<lambda>m el. map_set m (key_text key el) el) [] els"

definition diff_array_by_key :: "json_visitor \<Rightarrow> sink \<Rightarrow> string \<Rightarrow> string \<Rightarrow> json_object list \<Rightarrow>
    json_object list \<Rightarrow> sink" where
  "diff_array_by_key visit sink path key prev cur =
     (let pm = by_key key prev; cm = by_key key cur;
          s1 = foldl (\<lambda>s (k, el). if map_of cm k = None
                 then sink_push s (Removed (keyed_element_path path key k) (JObj el)) else s) sink pm;
          s2 = foldl (\<lambda>s (k, el). if map_of pm k = None
                 then sink_push s (Added (keyed_element_path path key k) (JObj el)) else s) s1 cm;
          s3 = foldl (\<lambda>s (k, c). case map_of pm k of
                   None \<Rightarrow> s
                 | Some p \<Rightarrow> visit s (keyed_element_path path key k) (JObj p) (JObj c)) s2 cm;
          curr_order = map (key_text key) cur in
      if sk_count s3 = sk_count sink \<and> map (key_text key) prev \<noteq> curr_order
      then sink_push s3 (Reordered path (JArr (map JStr curr_order))) else s3)"

fun match_by_canon :: "sink \<Rightarrow> string \<Rightarrow> (string \<times> json_object list) list \<Rightarrow> json_object list \<Rightarrow>
    sink \<times> (string \<times> json_object list) list" where
  "match_by_canon s path remaining [] = (s, remaining)"
| "match_by_canon s path remaining (el # els) =
     (let canon = canonicalize_json (JObj el) in
      case map_of remaining canon of
        Some (b # bucket) \<Rightarrow> match_by_canon s path (map_set remaining canon (butlast (b # bucket))) els
      | _ \<Rightarrow> match_by_canon (sink_push s (Removed path (JObj el))) path remaining els)"

definition diff_array_by_deep_equality :: "sink \<Rightarrow> string \<Rightarrow> json_object list \<Rightarrow> json_object list \<Rightarrow> sink" where
  "diff_array_by_deep_equality sink path prev cur =
     (let prev_canon = map (\<lambda>el. canonicalize_json (JObj el)) prev;
          curr_canon = map (\<lambda>el. canonicalize_json (JObj el)) cur;
          remaining = foldl (\<lambda>m (canon, el). map_set m canon (default (map_of m canon) [] @ [el])) []
            (zip curr_canon cur);
          (s1, left) = match_by_canon sink path remaining prev;
          s2 = foldl (\<lambda>s el. sink_push s (Added path (JObj el))) s1 (concat (map snd left)) in
      if sk_count s2 = sk_count sink \<and> prev_canon \<noteq> curr_canon
      then sink_push s2 (Reordered path (JArr (map JObj cur))) else s2)"

definition diff_array_by_index :: "json_visitor \<Rightarrow> sink \<Rightarrow> string \<Rightarrow> json list \<Rightarrow> json list \<Rightarrow> sink" where
  "diff_array_by_index visit sink path prev cur =
     foldl (\<lambda>s i.
         let child = index_path path i in
         if length cur \<le> i then sink_push s (Removed child (prev ! i))
         else if length prev \<le> i then sink_push s (Added child (cur ! i))
         else visit s child (prev ! i) (cur ! i))
       sink [0..<max (length prev) (length cur)]"

definition diff_array :: "json_visitor \<Rightarrow> sink \<Rightarrow> string \<Rightarrow> json list \<Rightarrow> json list \<Rightarrow> sink" where
  "diff_array visit sink path prev cur =
     (if list_all is_plain_record prev \<and> list_all is_plain_record cur then
        (let ps = map record_fields prev; cs = map record_fields cur in
         case find_identity_key ps cs of
           Some key \<Rightarrow> diff_array_by_key visit sink path key ps cs
         | None \<Rightarrow> diff_array_by_deep_equality sink path ps cs)
      else diff_array_by_index visit sink path prev cur)"

text \<open>The visitor is only used on the members of the previous value.\<close>

lemma diff_object_cong [fundef_cong]:
  assumes "sink = sink'" "path = path'" "prev = prev'" "cur = cur'"
    and "\<And>s pa k p c. map_of prev' k = Some p \<Longrightarrow> visit s pa p c = visit' s pa p c"
  shows "diff_object visit sink path prev cur = diff_object visit' sink' path' prev' cur'"
  unfolding diff_object_def assms(1-4)
  by (rule foldl_cong) (auto simp: Let_def assms(5) split: option.splits)

lemma by_key_member: "(k, el) \<in> set (by_key key els) \<Longrightarrow> el \<in> set els"
proof -
  have "(k, el) \<in> set (foldl (\<lambda>m el. map_set m (key_text key el) el) m els) \<Longrightarrow> el \<in> set els \<or> (k, el) \<in> set m" for m
  proof (induction els arbitrary: m)
    case (Cons x els)
    then show ?case using set_map_set [of m "key_text key x" x] by fastforce
  qed simp
  from this [of "[]"] show "(k, el) \<in> set (by_key key els) \<Longrightarrow> el \<in> set els" by (simp add: by_key_def)
qed

lemma diff_array_by_key_cong:
  assumes "\<And>s pa p c. p \<in> set prev \<Longrightarrow> visit s pa (JObj p) c = visit' s pa (JObj p) c"
  shows "diff_array_by_key visit sink path key prev cur = diff_array_by_key visit' sink path key prev cur"
proof -
  have "(\<lambda>s (k, c). case map_of (by_key key prev) k of None \<Rightarrow> s
        | Some p \<Rightarrow> visit s (keyed_element_path path key k) (JObj p) (JObj c)) =
      (\<lambda>s (k, c). case map_of (by_key key prev) k of None \<Rightarrow> s
        | Some p \<Rightarrow> visit' s (keyed_element_path path key k) (JObj p) (JObj c))"
    by (intro ext) (auto split: option.splits dest!: map_of_SomeD by_key_member intro: assms)
  then show ?thesis unfolding diff_array_by_key_def by simp
qed

lemma diff_array_cong [fundef_cong]:
  assumes "sink = sink'" "path = path'" "prev = prev'" "cur = cur'"
    and "\<And>s pa p c. p \<in> set prev' \<Longrightarrow> visit s pa p c = visit' s pa p c"
  shows "diff_array visit sink path prev cur = diff_array visit' sink' path' prev' cur'"
proof -
  have "diff_array_by_index visit sink' path' prev' cur' = diff_array_by_index visit' sink' path' prev' cur'"
    unfolding diff_array_by_index_def by (rule foldl_cong) (auto simp: Let_def assms(5))
  moreover have "diff_array_by_key visit sink' path' key (map record_fields prev') cs =
      diff_array_by_key visit' sink' path' key (map record_fields prev') cs" if "list_all is_plain_record prev'" for key cs
  proof (rule diff_array_by_key_cong)
    fix s pa p c assume "p \<in> set (map record_fields prev')"
    with that have "JObj p \<in> set prev'"
      by (force simp: list_all_iff is_plain_record_def record_fields_def split: json.splits)
    then show "visit s pa (JObj p) c = visit' s pa (JObj p) c" by (rule assms(5))
  qed
  ultimately show ?thesis
    unfolding diff_array_def assms(1-4) by (auto simp: Let_def split: option.splits)
qed

function (sequential) diff_values :: "sink \<Rightarrow> string \<Rightarrow> json \<Rightarrow> json \<Rightarrow> sink" where
  "diff_values sink path prev cur =
     (if deep_equal prev cur then sink
      else (case (prev, cur) of
          (JArr ps, JArr cs) \<Rightarrow> diff_array diff_values sink path ps cs
        | (JObj ps, JObj cs) \<Rightarrow> diff_object diff_values sink path ps cs
        | _ \<Rightarrow> sink_push sink (Changed path prev cur)))"
  by pat_completeness auto

termination
  by (relation "measure (\<lambda>(s, path, prev, cur). size prev)")
    (auto dest: size_obj_member size_arr_member)

declare diff_values.simps [simp del]

section \<open>Rendering\<close>

definition format_path_suffix :: "string \<Rightarrow> string" where
  "format_path_suffix p = (if p = [] then [] else if take 1 p = ''['' then p else '' '' @ p)"

definition render_json_value :: "json \<Rightarrow> string" where
  "render_json_value v =
     (let (text, truncated) = truncate_at_code_point (json_text v) max_json_diff_value_length in
      if truncated then text @ [ellipsis] @ ''(truncated)'' else json_text v)"

fun render_json_diff_entry :: "diff_entry \<Rightarrow> string" where
  "render_json_diff_entry (Removed p v) = ''- removed'' @ format_path_suffix p @ '': '' @ render_json_value v"
| "render_json_diff_entry (Added p v) = ''+ added'' @ format_path_suffix p @ '': '' @ render_json_value v"
| "render_json_diff_entry (Changed p v w) = ''~ changed'' @ format_path_suffix p @ '': '' @
     render_json_value v @ '' -> '' @ render_json_value w"
| "render_json_diff_entry (Reordered p v) = ''~ reordered'' @ format_path_suffix p @ '': '' @ render_json_value v"

definition bound_total_output :: "string \<Rightarrow> string" where
  "bound_total_output rendered =
     (if length rendered \<le> max_json_diff_output_length then rendered
      else let marker = [newline, ellipsis] @ '' output truncated at '' @
                 show_nat max_json_diff_output_length @ '' characters'';
               budget = max_json_diff_output_length - length marker in
        fst (truncate_at_code_point rendered budget) @ marker)"

definition render_json_diff_entries :: "sink \<Rightarrow> string" where
  "render_json_diff_entries s =
     (let capped = take max_json_diff_entries (sk_stored s);
          lines = map render_json_diff_entry capped @
            (if max_json_diff_entries < sk_count s
             then [ellipsis # '' '' @ show_nat (sk_count s - max_json_diff_entries) @ '' more changes elided'']
             else []) in
      bound_total_output (join [newline] lines))"

definition formatting_only_diff :: string where
  "formatting_only_diff = ''~ formatting-only change (no structural difference)''"

definition build_json_diff :: "(string \<Rightarrow> json option) \<Rightarrow> (json \<Rightarrow> json \<Rightarrow> bool) \<Rightarrow> string \<Rightarrow> string \<Rightarrow>
    string option" where
  "build_json_diff parse overflows previous current =
     (if previous = current then Some []
      else (case (parse previous, parse current) of
          (Some p, Some c) \<Rightarrow>
            if overflows p c then None
            else let s = diff_values (new_sink max_json_diff_entries) [] p c in
              Some (if sk_count s = 0 then formatting_only_diff else render_json_diff_entries s)
        | _ \<Rightarrow> None))"

section \<open>The traversal only pushes\<close>

definition pushes :: "sink \<Rightarrow> diff_entry list \<Rightarrow> sink" where
  "pushes s es = foldl sink_push s es"

text \<open>What \<open>f\<close> does to a sink is to push entries that do not depend on the sink.\<close>

definition adds :: "(sink \<Rightarrow> sink) \<Rightarrow> bool" where
  "adds f = (\<exists>es. \<forall>s. f s = pushes s es)"

lemma sk_count_push [simp]: "sk_count (sink_push s e) = Suc (sk_count s)"
  by (simp add: sink_push_def)

lemma sk_cap_push [simp]: "sk_cap (sink_push s e) = sk_cap s"
  by (simp add: sink_push_def)

lemma sk_count_pushes [simp]: "sk_count (pushes s es) = sk_count s + length es"
  by (induction es arbitrary: s) (simp_all add: pushes_def)

lemma adds_id: "adds (\<lambda>s. s)"
  unfolding adds_def by (rule exI [of _ "[]"]) (simp add: pushes_def)

lemma adds_push: "adds (\<lambda>s. sink_push s e)"
  unfolding adds_def by (rule exI [of _ "[e]"]) (simp add: pushes_def)

lemma adds_comp:
  assumes "adds f" "adds g"
  shows "adds (\<lambda>s. g (f s))"
proof -
  from assms obtain es fs where "\<forall>s. f s = pushes s es" "\<forall>s. g s = pushes s fs" unfolding adds_def by blast
  then have "\<forall>s. g (f s) = pushes s (es @ fs)" by (simp add: pushes_def)
  then show ?thesis unfolding adds_def by blast
qed

lemma adds_foldl: "(\<And>x. x \<in> set xs \<Longrightarrow> adds (\<lambda>s. f s x)) \<Longrightarrow> adds (\<lambda>s. foldl f s xs)"
proof (induction xs)
  case (Cons x xs)
  then have "adds (\<lambda>s. f s x)" "adds (\<lambda>s. foldl f s xs)" by simp_all
  from adds_comp [OF this] show ?case by simp
qed (simp add: adds_id)

lemma adds_unless:
  assumes "adds f"
  shows "adds (\<lambda>s. if sk_count (f s) = sk_count s \<and> b then sink_push (f s) e else f s)"
proof -
  from assms obtain es where es: "\<forall>s. f s = pushes s es" unfolding adds_def by blast
  show ?thesis
  proof (cases "es = [] \<and> b")
    case True
    with es show ?thesis using adds_push by (simp add: pushes_def)
  next
    case False
    with es have "(\<lambda>s. if sk_count (f s) = sk_count s \<and> b then sink_push (f s) e else f s) = f" by auto
    with assms show ?thesis by simp
  qed
qed

lemma adds_count_mono: "adds f \<Longrightarrow> sk_count s \<le> sk_count (f s)"
  by (auto simp: adds_def)

definition silent :: "(sink \<Rightarrow> sink) \<Rightarrow> bool" where
  "silent f = (\<forall>s. sk_count (f s) = sk_count s)"

lemma silentI: "adds f \<Longrightarrow> sk_count (f s) = sk_count s \<Longrightarrow> silent f"
  by (auto simp: adds_def silent_def)

lemma silent_push [simp]: "\<not> silent (\<lambda>s. sink_push s e)"
  by (simp add: silent_def)

lemma silent_comp:
  assumes "adds f" "adds g" "silent (\<lambda>s. g (f s))"
  shows "silent f" and "silent g"
proof -
  fix s
  have "sk_count s \<le> sk_count (f s)" "sk_count (f s) \<le> sk_count (g (f s))"
    using adds_count_mono assms(1,2) by blast+
  moreover have "sk_count (g (f s)) = sk_count s" using assms(3) by (simp add: silent_def)
  ultimately have "sk_count (f s) = sk_count s" "sk_count (g (f s)) = sk_count (f s)" by simp_all
  then show "silent f" "silent g" using silentI assms(1,2) by blast+
qed

lemma silent_foldl:
  "(\<And>x. x \<in> set xs \<Longrightarrow> adds (\<lambda>s. f s x)) \<Longrightarrow> silent (\<lambda>s. foldl f s xs) \<Longrightarrow> x \<in> set xs \<Longrightarrow> silent (\<lambda>s. f s x)"
proof (induction xs)
  case (Cons y ys)
  have a: "adds (\<lambda>s. f s y)" "adds (\<lambda>s. foldl f s ys)" using Cons.prems(1) by (simp_all add: adds_foldl)
  have "silent (\<lambda>s. foldl f (f s y) ys)" using Cons.prems(2) by simp
  from silent_comp [OF a this] have "silent (\<lambda>s. f s y)" "silent (\<lambda>s. foldl f s ys)" .
  with Cons show ?case by auto
qed simp

lemma silent_unless:
  assumes "adds f" and "silent (\<lambda>s. if sk_count (f s) = sk_count s \<and> b then sink_push (f s) e else f s)"
  shows "silent f \<and> \<not> b"
proof (intro conjI)
  have c: "sk_count (if sk_count (f s) = sk_count s \<and> b then sink_push (f s) e else f s) = sk_count s" for s
    using assms(2) by (simp add: silent_def)
  have "sk_count (f s) = sk_count s" for s
    using c [of s] adds_count_mono [OF assms(1), of s] by (auto split: if_splits)
  then show "silent f" by (simp add: silent_def)
  then show "\<not> b" using c [of undefined] by (auto simp: silent_def)
qed

subsection \<open>Objects and arrays\<close>

lemma adds_diff_object:
  assumes "\<And>pa k p c. map_of prev k = Some p \<Longrightarrow> adds (\<lambda>s. visit s pa p c)"
  shows "adds (\<lambda>s. diff_object visit s path prev cur)"
  unfolding diff_object_def
proof (rule adds_foldl)
  fix k
  show "adds (\<lambda>s. let child = field_path path k in case (map_of prev k, map_of cur k) of
        (Some p, None) \<Rightarrow> sink_push s (Removed child p) | (None, Some c) \<Rightarrow> sink_push s (Added child c)
      | (Some p, Some c) \<Rightarrow> visit s child p c | (None, None) \<Rightarrow> s)"
    using assms by (cases "map_of prev k"; cases "map_of cur k") (simp_all add: Let_def adds_push adds_id)
qed

lemma silent_diff_object:
  assumes "\<And>pa k p c. map_of prev k = Some p \<Longrightarrow> adds (\<lambda>s. visit s pa p c)"
    and "silent (\<lambda>s. diff_object visit s path prev cur)"
  shows "fst ` set prev = fst ` set cur"
    and "map_of prev k = Some p \<Longrightarrow> map_of cur k = Some c \<Longrightarrow> silent (\<lambda>s. visit s (field_path path k) p c)"
proof -
  define step where "step = (\<lambda>s key. let child = field_path path key in case (map_of prev key, map_of cur key) of
        (Some p, None) \<Rightarrow> sink_push s (Removed child p) | (None, Some c) \<Rightarrow> sink_push s (Added child c)
      | (Some p, Some c) \<Rightarrow> visit s child p c | (None, None) \<Rightarrow> s)"
  have a: "adds (\<lambda>s. step s k)" for k
    using assms(1) by (cases "map_of prev k"; cases "map_of cur k") (simp_all add: step_def Let_def adds_push adds_id)
  have sil: "silent (\<lambda>s. step s k)" if "k \<in> fst ` set prev \<union> fst ` set cur" for k
    using silent_foldl [of "sort (remdups (map fst prev @ map fst cur))" step k] a assms(2) that
    by (simp add: diff_object_def step_def)
  have "map_of prev k = None \<longleftrightarrow> map_of cur k = None" if "k \<in> fst ` set prev \<union> fst ` set cur" for k
    using sil [OF that] by (cases "map_of prev k"; cases "map_of cur k") (simp_all add: step_def Let_def)
  then show "fst ` set prev = fst ` set cur" by (force simp: map_of_eq_None_iff)
  show "map_of prev k = Some p \<Longrightarrow> map_of cur k = Some c \<Longrightarrow> silent (\<lambda>s. visit s (field_path path k) p c)"
    using sil [of k] by (force simp: step_def Let_def dest: map_of_SomeD)
qed

lemma adds_diff_array_by_index:
  assumes "\<And>pa p c. p \<in> set prev \<Longrightarrow> adds (\<lambda>s. visit s pa p c)"
  shows "adds (\<lambda>s. diff_array_by_index visit s path prev cur)"
  unfolding diff_array_by_index_def
proof (rule adds_foldl)
  fix i
  have "adds (\<lambda>s. visit s (index_path path i) (prev ! i) (cur ! i))" if "i < length prev"
    using that by (simp add: assms)
  then show "adds (\<lambda>s. let child = index_path path i in
         if length cur \<le> i then sink_push s (Removed child (prev ! i))
         else if length prev \<le> i then sink_push s (Added child (cur ! i))
         else visit s child (prev ! i) (cur ! i))"
    by (cases "length cur \<le> i"; cases "length prev \<le> i") (simp_all add: Let_def adds_push)
qed

lemma silent_diff_array_by_index:
  assumes "\<And>pa p c. p \<in> set prev \<Longrightarrow> adds (\<lambda>s. visit s pa p c)"
    and "silent (\<lambda>s. diff_array_by_index visit s path prev cur)"
  shows "length prev = length cur"
    and "i < length prev \<Longrightarrow> silent (\<lambda>s. visit s (index_path path i) (prev ! i) (cur ! i))"
proof -
  define step where "step = (\<lambda>s i. let child = index_path path i in
         if length cur \<le> i then sink_push s (Removed child (prev ! i))
         else if length prev \<le> i then sink_push s (Added child (cur ! i))
         else visit s child (prev ! i) (cur ! i))"
  have a: "adds (\<lambda>s. step s i)" for i
    using assms(1) by (cases "length cur \<le> i"; cases "length prev \<le> i") (simp_all add: step_def Let_def adds_push)
  have sil: "silent (\<lambda>s. step s i)" if "i < max (length prev) (length cur)" for i
    using silent_foldl [of "[0..<max (length prev) (length cur)]" step i] a assms(2) that
    by (simp add: diff_array_by_index_def step_def)
  show len: "length prev = length cur"
  proof (rule ccontr)
    assume "length prev \<noteq> length cur"
    then consider "length prev < length cur" | "length cur < length prev" by linarith
    then show False
    proof cases
      case 1
      with sil [of "length prev"] show False by (simp add: step_def Let_def)
    next
      case 2
      with sil [of "length cur"] show False by (simp add: step_def Let_def)
    qed
  qed
  show "i < length prev \<Longrightarrow> silent (\<lambda>s. visit s (index_path path i) (prev ! i) (cur ! i))"
    using sil [of i] len by (simp add: step_def Let_def)
qed

lemma map_set_new: "k \<notin> fst ` set m \<Longrightarrow> map_set m k v = m @ [(k, v)]"
  by (induction m k v rule: map_set.induct) auto

lemma unique_keys:
  "unique_scalar_loop seen els key \<Longrightarrow> distinct (map (key_text key) els) \<and> set seen \<inter> key_text key ` set els = {}"
proof (induction seen els key rule: unique_scalar_loop.induct)
  case (2 seen el els key)
  then obtain s where s: "element_text key el = Some s" "s \<notin> set seen" "unique_scalar_loop (s # seen) els key"
    by (auto split: option.splits)
  with 2(1) [OF s(1)] show ?case by (auto simp: key_text_def)
qed simp

lemma by_key_unique:
  assumes "distinct (map (key_text key) els)"
  shows "by_key key els = map (\<lambda>el. (key_text key el, el)) els"
proof -
  have "foldl (\<lambda>m el. map_set m (key_text key el) el) m els = m @ map (\<lambda>el. (key_text key el, el)) els"
    if "distinct (map (key_text key) els)" "key_text key ` set els \<inter> fst ` set m = {}" for m
    using that by (induction els arbitrary: m) (auto simp: map_set_new)
  from this [of "[]"] assms show ?thesis by (simp add: by_key_def)
qed

lemma map_of_by_key:
  assumes "distinct (map (key_text key) els)" and "el \<in> set els"
  shows "map_of (by_key key els) (key_text key el) = Some el"
  using assms by (simp add: by_key_unique comp_def)

definition by_key_visit :: "json_visitor \<Rightarrow> string \<Rightarrow> string \<Rightarrow> json_object list \<Rightarrow> sink \<Rightarrow> string \<times> json_object \<Rightarrow> sink" where
  "by_key_visit visit path key prev s kc =
     (case map_of (by_key key prev) (fst kc) of None \<Rightarrow> s
      | Some p \<Rightarrow> visit s (keyed_element_path path key (fst kc)) (JObj p) (JObj (snd kc)))"

text \<open>The two loops over the unmatched elements, then the one over the matched.\<close>

definition by_key_edges :: "string \<Rightarrow> string \<Rightarrow> json_object list \<Rightarrow> json_object list \<Rightarrow> sink \<Rightarrow> sink" where
  "by_key_edges path key prev cur s =
     foldl (\<lambda>s (k, el). if map_of (by_key key prev) k = None
         then sink_push s (Added (keyed_element_path path key k) (JObj el)) else s)
       (foldl (\<lambda>s (k, el). if map_of (by_key key cur) k = None
         then sink_push s (Removed (keyed_element_path path key k) (JObj el)) else s) s (by_key key prev))
       (by_key key cur)"

definition by_key_loops :: "json_visitor \<Rightarrow> string \<Rightarrow> string \<Rightarrow> json_object list \<Rightarrow> json_object list \<Rightarrow> sink \<Rightarrow> sink" where
  "by_key_loops visit path key prev cur s =
     foldl (by_key_visit visit path key prev) (by_key_edges path key prev cur s) (by_key key cur)"

lemma diff_array_by_key_loops:
  "diff_array_by_key visit s path key prev cur =
     (if sk_count (by_key_loops visit path key prev cur s) = sk_count s \<and> map (key_text key) prev \<noteq> map (key_text key) cur
      then sink_push (by_key_loops visit path key prev cur s) (Reordered path (JArr (map JStr (map (key_text key) cur))))
      else by_key_loops visit path key prev cur s)"
  by (simp add: diff_array_by_key_def by_key_loops_def by_key_edges_def by_key_visit_def [abs_def] case_prod_unfold Let_def)

lemma adds_by_key_visit:
  assumes "\<And>pa p c. p \<in> set prev \<Longrightarrow> adds (\<lambda>s. visit s pa (JObj p) c)"
  shows "adds (\<lambda>s. by_key_visit visit path key prev s kc)"
proof (cases "map_of (by_key key prev) (fst kc)")
  case (Some p)
  then have "p \<in> set prev" by (auto dest!: map_of_SomeD by_key_member)
  with Some assms show ?thesis by (simp add: by_key_visit_def)
qed (simp add: by_key_visit_def adds_id)

lemma adds_conditional: "adds (\<lambda>s. foldl (\<lambda>s (k, el). if P k then sink_push s (f k el) else s) s xs)"
proof (rule adds_foldl)
  fix x :: "'a \<times> 'b"
  show "adds (\<lambda>s. (\<lambda>(k, el). if P k then sink_push s (f k el) else s) x)"
    by (cases x; cases "P (fst x)") (simp_all add: adds_push adds_id)
qed

lemma adds_by_key_edges: "adds (by_key_edges path key prev cur)"
  unfolding by_key_edges_def [abs_def] by (rule adds_comp [OF adds_conditional adds_conditional])

lemma adds_by_key_matched:
  assumes "\<And>pa p c. p \<in> set prev \<Longrightarrow> adds (\<lambda>s. visit s pa (JObj p) c)"
  shows "adds (\<lambda>s. foldl (by_key_visit visit path key prev) s xs)"
  by (intro adds_foldl adds_by_key_visit assms)

lemma adds_by_key_loops:
  assumes "\<And>pa p c. p \<in> set prev \<Longrightarrow> adds (\<lambda>s. visit s pa (JObj p) c)"
  shows "adds (by_key_loops visit path key prev cur)"
  unfolding by_key_loops_def [abs_def]
  by (rule adds_comp [OF adds_by_key_edges]) (intro adds_by_key_matched assms)

lemma silent_by_key_loops:
  assumes "\<And>pa p c. p \<in> set prev \<Longrightarrow> adds (\<lambda>s. visit s pa (JObj p) c)"
    and "silent (by_key_loops visit path key prev cur)" and "x \<in> set (by_key key cur)"
  shows "silent (\<lambda>s. by_key_visit visit path key prev s x)"
proof -
  have v: "adds (\<lambda>s. foldl (by_key_visit visit path key prev) s (by_key key cur))"
    by (intro adds_by_key_matched assms(1))
  have "silent (\<lambda>s. foldl (by_key_visit visit path key prev) s (by_key key cur))"
    by (rule silent_comp(2) [OF adds_by_key_edges v assms(2) [unfolded by_key_loops_def [abs_def]]])
  then show ?thesis
    by (rule silent_foldl [rotated]) (intro adds_by_key_visit assms(1,3))+
qed

lemma adds_diff_array_by_key:
  assumes "\<And>pa p c. p \<in> set prev \<Longrightarrow> adds (\<lambda>s. visit s pa (JObj p) c)"
  shows "adds (\<lambda>s. diff_array_by_key visit s path key prev cur)"
  unfolding diff_array_by_key_loops by (intro adds_unless adds_by_key_loops assms)

lemma silent_diff_array_by_key:
  assumes add: "\<And>pa p c. p \<in> set prev \<Longrightarrow> adds (\<lambda>s. visit s pa (JObj p) c)"
    and sil: "silent (\<lambda>s. diff_array_by_key visit s path key prev cur)"
    and dist: "distinct (map (key_text key) prev)" "distinct (map (key_text key) cur)"
  shows "length prev = length cur"
    and "i < length prev \<Longrightarrow> \<exists>pa. silent (\<lambda>s. visit s pa (JObj (prev ! i)) (JObj (cur ! i)))"
proof -
  have s: "silent (by_key_loops visit path key prev cur)" and o: "map (key_text key) prev = map (key_text key) cur"
    using silent_unless [OF adds_by_key_loops [of prev visit, OF add] sil [unfolded diff_array_by_key_loops]] by simp_all
  show len: "length prev = length cur" using o by (rule map_eq_imp_length_eq)
  assume i: "i < length prev"
  let ?k = "key_text key (cur ! i)"
  have "key_text key (prev ! i) = ?k" using o i len by (metis nth_map)
  then have "map_of (by_key key prev) ?k = Some (prev ! i)"
    using map_of_by_key [OF dist(1), of "prev ! i"] i by simp
  moreover have "(?k, cur ! i) \<in> set (by_key key cur)"
    using map_of_by_key [OF dist(2), of "cur ! i"] i len by (simp add: map_of_SomeD)
  from silent_by_key_loops [of prev visit, OF add s this]
  have "silent (\<lambda>t. by_key_visit visit path key prev t (?k, cur ! i))" .
  ultimately show "\<exists>pa. silent (\<lambda>s. visit s pa (JObj (prev ! i)) (JObj (cur ! i)))"
    unfolding by_key_visit_def by auto
qed

lemma match_by_canon_adds:
  "\<exists>es left. \<forall>s. match_by_canon s path remaining els = (pushes s es, left)"
proof (induction els arbitrary: remaining)
  case Nil
  show ?case by (rule exI [of _ "[]"]) (simp add: pushes_def)
next
  case (Cons el els)
  let ?canon = "canonicalize_json (JObj el)"
  show ?case
  proof (cases "\<exists>b bucket. map_of remaining ?canon = Some (b # bucket)")
    case True
    then obtain b bucket where b: "map_of remaining ?canon = Some (b # bucket)" by blast
    obtain es left where "\<forall>s. match_by_canon s path (map_set remaining ?canon (butlast (b # bucket))) els = (pushes s es, left)"
      using Cons.IH by blast
    with b show ?thesis by (intro exI [of _ es] exI [of _ left]) (simp add: Let_def)
  next
    case False
    obtain es left where "\<forall>s. match_by_canon s path remaining els = (pushes s es, left)" using Cons.IH by blast
    with False show ?thesis
      by (intro exI [of _ "Removed path (JObj el) # es"] exI [of _ left])
        (auto simp: Let_def pushes_def split: option.splits list.splits)
  qed
qed

definition deep_equality_loops :: "string \<Rightarrow> json_object list \<Rightarrow> json_object list \<Rightarrow> sink \<Rightarrow> sink" where
  "deep_equality_loops path prev cur sink =
     (let remaining = foldl (\<lambda>m (canon, el). map_set m canon (default (map_of m canon) [] @ [el])) []
            (zip (map (\<lambda>el. canonicalize_json (JObj el)) cur) cur);
          (s1, left) = match_by_canon sink path remaining prev in
      foldl (\<lambda>s el. sink_push s (Added path (JObj el))) s1 (concat (map snd left)))"

lemma diff_array_by_deep_equality_loops:
  "diff_array_by_deep_equality s path prev cur =
     (if sk_count (deep_equality_loops path prev cur s) = sk_count s \<and>
         map (\<lambda>el. canonicalize_json (JObj el)) prev \<noteq> map (\<lambda>el. canonicalize_json (JObj el)) cur
      then sink_push (deep_equality_loops path prev cur s) (Reordered path (JArr (map JObj cur)))
      else deep_equality_loops path prev cur s)"
  by (simp add: diff_array_by_deep_equality_def deep_equality_loops_def Let_def case_prod_unfold)

lemma adds_deep_equality_loops: "adds (deep_equality_loops path prev cur)"
proof -
  define remaining where "remaining = foldl (\<lambda>m (canon, el). map_set m canon (default (map_of m canon) [] @ [el])) []
            (zip (map (\<lambda>el. canonicalize_json (JObj el)) cur) cur)"
  obtain es left where m: "\<forall>s. match_by_canon s path remaining prev = (pushes s es, left)"
    using match_by_canon_adds by blast
  define f where "f = (\<lambda>s. pushes s es)"
  define g where "g = (\<lambda>s. foldl (\<lambda>s el. sink_push s (Added path (JObj el))) s (concat (map snd left)))"
  have "deep_equality_loops path prev cur = (\<lambda>s. g (f s))"
    by (simp add: deep_equality_loops_def Let_def remaining_def [symmetric] m fun_eq_iff f_def g_def)
  moreover have "adds f" unfolding adds_def f_def by blast
  moreover have "adds g" unfolding g_def by (intro adds_foldl adds_push)
  ultimately show ?thesis by (simp only: adds_comp)
qed

text \<open>One step of the traversal.\<close>

lemma diff_values_equal: "deep_equal prev cur \<Longrightarrow> diff_values s path prev cur = s"
  by (simp add: diff_values.simps)

lemma diff_values_differ:
  assumes "\<not> deep_equal prev cur"
  shows "prev = JArr ps \<Longrightarrow> cur = JArr cs \<Longrightarrow> diff_values s path prev cur = diff_array diff_values s path ps cs"
    and "prev = JObj po \<Longrightarrow> cur = JObj co \<Longrightarrow> diff_values s path prev cur = diff_object diff_values s path po co"
    and "\<not> (\<exists>ps cs. prev = JArr ps \<and> cur = JArr cs) \<Longrightarrow> \<not> (\<exists>po co. prev = JObj po \<and> cur = JObj co) \<Longrightarrow>
      diff_values s path prev cur = sink_push s (Changed path prev cur)"
  unfolding diff_values.simps [of s path prev cur] using assms by (auto split: json.splits)

lemma adds_diff_array:
  assumes "\<And>pa p c. p \<in> set prev \<Longrightarrow> adds (\<lambda>s. visit s pa p c)"
  shows "adds (\<lambda>s. diff_array visit s path prev cur)"
proof -
  have k: "adds (\<lambda>s. diff_array_by_key visit s path key (map record_fields prev) cs)"
    if "list_all is_plain_record prev" for key cs
  proof (rule adds_diff_array_by_key)
    fix pa p c assume "p \<in> set (map record_fields prev)"
    with that have "JObj p \<in> set prev"
      by (force simp: list_all_iff is_plain_record_def record_fields_def split: json.splits)
    then show "adds (\<lambda>s. visit s pa (JObj p) c)" by (rule assms)
  qed
  have e: "adds (\<lambda>s. diff_array_by_deep_equality s path ps cs)" for ps cs
    unfolding diff_array_by_deep_equality_loops by (intro adds_unless adds_deep_equality_loops)
  have i: "adds (\<lambda>s. diff_array_by_index visit s path prev cur)"
    by (intro adds_diff_array_by_index assms)
  show ?thesis
  proof (cases "list_all is_plain_record prev \<and> list_all is_plain_record cur")
    case True
    then show ?thesis
      by (cases "find_identity_key (map record_fields prev) (map record_fields cur)")
        (simp_all add: diff_array_def Let_def k e)
  next
    case False
    then have "(\<lambda>s. diff_array visit s path prev cur) = (\<lambda>s. diff_array_by_index visit s path prev cur)"
      by (auto simp: diff_array_def)
    with i show ?thesis by simp
  qed
qed

lemma adds_diff_values: "adds (\<lambda>s. diff_values s path prev cur)"
proof (induction "size prev" arbitrary: path prev cur rule: less_induct)
  case less
  have ih: "adds (\<lambda>s. diff_values s pa p c)" if "size p < size prev" for pa p c using less that by blast
  show ?case
  proof (cases "deep_equal prev cur")
    case True
    then have "(\<lambda>s. diff_values s path prev cur) = (\<lambda>s. s)" by (simp add: diff_values.simps fun_eq_iff)
    then show ?thesis by (simp add: adds_id)
  next
    case False
    consider ps cs where "prev = JArr ps" "cur = JArr cs" | ps cs where "prev = JObj ps" "cur = JObj cs"
      | "\<not> (\<exists>ps cs. prev = JArr ps \<and> cur = JArr cs)" "\<not> (\<exists>po co. prev = JObj po \<and> cur = JObj co)" by blast
    then show ?thesis
    proof cases
      case 1
      have "adds (\<lambda>s. diff_array diff_values s path ps cs)"
        by (intro adds_diff_array ih) (use 1 size_arr_member in simp)
      then show ?thesis by (simp only: diff_values_differ(1) [OF False 1])
    next
      case 2
      have "adds (\<lambda>s. diff_object diff_values s path ps cs)"
        by (intro adds_diff_object ih) (use 2 size_obj_member in simp)
      then show ?thesis by (simp only: diff_values_differ(2) [OF False 2])
    next
      case 3
      show ?thesis by (simp only: diff_values_differ(3) [OF False 3] adds_push)
    qed
  qed
qed

section \<open>What the traversal finds\<close>

lemma plain_record: "is_plain_record v \<Longrightarrow> JObj (record_fields v) = v"
  by (cases v) (simp_all add: is_plain_record_def record_fields_def)

lemma arrays_equal:
  "length ps = length cs \<Longrightarrow> (\<And>i. i < length ps \<Longrightarrow> deep_equal (ps ! i) (cs ! i)) \<Longrightarrow> deep_equal (JArr ps) (JArr cs)"
  by (simp add: list_all2_conv_all_nth)

lemma find_identity_keyD:
  "find_identity_key ps cs = Some key \<Longrightarrow>
     distinct (map (key_text key) ps) \<and> distinct (map (key_text key) cs)"
  using unique_keys by (auto simp: find_identity_key_def is_unique_scalar_key_def dest!: find_Some_set)

lemma silent_diff_array:
  assumes sil: "silent (\<lambda>s. diff_array visit s path prev cur)"
    and add: "\<And>pa p c. p \<in> set prev \<Longrightarrow> adds (\<lambda>s. visit s pa p c)"
    and ih: "\<And>pa p c. p \<in> set prev \<Longrightarrow> c \<in> set cur \<Longrightarrow> silent (\<lambda>s. visit s pa p c) \<Longrightarrow> deep_equal p c"
    and plain: "list_all plain prev" "list_all plain cur"
  shows "deep_equal (JArr prev) (JArr cur)"
proof (cases "list_all is_plain_record prev \<and> list_all is_plain_record cur")
  case False
  have s: "silent (\<lambda>s. diff_array_by_index visit s path prev cur)"
    using sil unfolding diff_array_def if_not_P [OF False] .
  show ?thesis
  proof (rule arrays_equal)
    show len: "length prev = length cur" by (rule silent_diff_array_by_index(1) [OF add s])
    show "deep_equal (prev ! i) (cur ! i)" if "i < length prev" for i
      using ih [OF _ _ silent_diff_array_by_index(2) [OF add s that]] that len by simp
  qed
next
  case True
  let ?ps = "map record_fields prev" and ?cs = "map record_fields cur"
  have rp: "JObj (?ps ! i) = prev ! i" if "i < length prev" for i
    using True that by (simp add: plain_record list_all_length)
  have rc: "JObj (?cs ! i) = cur ! i" if "i < length cur" for i
    using True that by (simp add: plain_record list_all_length)
  have mem: "JObj p \<in> set prev" if "p \<in> set ?ps" for p
    using that rp by (metis in_set_conv_nth length_map nth_mem)
  have add': "adds (\<lambda>s. visit s pa (JObj p) c)" if "p \<in> set ?ps" for pa p c
    by (rule add [OF mem [OF that]])
  show ?thesis
  proof (cases "find_identity_key ?ps ?cs")
    case (Some key)
    then have s: "silent (\<lambda>s. diff_array_by_key visit s path key ?ps ?cs)"
      using sil True by (simp add: diff_array_def Let_def)
    note d = find_identity_keyD [OF Some]
    note k = silent_diff_array_by_key [OF add' s d [THEN conjunct1] d [THEN conjunct2]]
    show ?thesis
    proof (rule arrays_equal)
      show len: "length prev = length cur" using k(1) by simp
      fix i assume i: "i < length prev"
      then obtain pa where "silent (\<lambda>s. visit s pa (JObj (?ps ! i)) (JObj (?cs ! i)))"
        using k(2) [of i] by auto
      with ih [of "prev ! i" "cur ! i" pa] show "deep_equal (prev ! i) (cur ! i)" using i len rp rc by simp
    qed
  next
    case None
    then have "silent (\<lambda>s. diff_array_by_deep_equality s path ?ps ?cs)"
      using sil True by (simp add: diff_array_def Let_def)
    then have c: "map (\<lambda>el. canonicalize_json (JObj el)) ?ps = map (\<lambda>el. canonicalize_json (JObj el)) ?cs"
      using silent_unless [OF adds_deep_equality_loops] unfolding diff_array_by_deep_equality_loops by blast
    show ?thesis
    proof (rule arrays_equal)
      show len: "length prev = length cur" using map_eq_imp_length_eq [OF c] by simp
      fix i assume i: "i < length prev"
      have "canonicalize_json (JObj (?ps ! i)) = canonicalize_json (JObj (?cs ! i))"
        using arg_cong [OF c, of "\<lambda>xs. xs ! i"] i len by simp
      then have "canonicalize_json (prev ! i) = canonicalize_json (cur ! i)" using rp rc i len by simp
      moreover have "plain (prev ! i)" "plain (cur ! i)" using plain i len by (simp_all add: list_all_length)
      ultimately show "deep_equal (prev ! i) (cur ! i)" by (simp add: canonical_eq_iff plain_def)
    qed
  qed
qed

lemma silent_diff_values:
  "silent (\<lambda>s. diff_values s path prev cur) \<Longrightarrow> plain prev \<Longrightarrow> plain cur \<Longrightarrow> deep_equal prev cur"
proof (induction "size prev" arbitrary: path prev cur rule: less_induct)
  case less
  show ?case
  proof (rule ccontr)
    assume ne: "\<not> deep_equal prev cur"
    consider ps cs where "prev = JArr ps" "cur = JArr cs" | ps cs where "prev = JObj ps" "cur = JObj cs"
      | "\<not> (\<exists>ps cs. prev = JArr ps \<and> cur = JArr cs)" "\<not> (\<exists>po co. prev = JObj po \<and> cur = JObj co)" by blast
    then show False
    proof cases
      case 1
      have sil: "silent (\<lambda>s. diff_array diff_values s path ps cs)"
        using less.prems(1) by (simp only: diff_values_differ(1) [OF ne 1])
      have pl: "list_all plain ps" "list_all plain cs" using less.prems(2,3) 1 by (simp_all add: plain_arr)
      have "deep_equal (JArr ps) (JArr cs)"
      proof (rule silent_diff_array [OF sil adds_diff_values _ pl])
        fix pa p c assume "p \<in> set ps" "c \<in> set cs" "silent (\<lambda>s. diff_values s pa p c)"
        with less.hyps [of p pa c] pl size_arr_member [of p ps] 1(1) show "deep_equal p c"
          by (simp add: list_all_iff)
      qed
      with ne 1 show False by simp
    next
      case 2
      have sil: "silent (\<lambda>s. diff_object diff_values s path ps cs)"
        using less.prems(1) by (simp only: diff_values_differ(2) [OF ne 2])
      note o = silent_diff_object [OF adds_diff_values sil]
      have pl: "plain (JObj ps)" "plain (JObj cs)" using less.prems(2,3) 2 by simp_all
      have d: "distinct (map fst ps)" "distinct (map fst cs)" using pl by (simp_all add: plain_obj)
      have "case map_of cs k of None \<Rightarrow> False | Some w \<Rightarrow> deep_equal v w" if "(k, v) \<in> set ps" for k v
      proof -
        have v: "map_of ps k = Some v" using that d(1) by simp
        have "k \<in> fst ` set cs" using o(1) that by force
        then obtain w where w: "map_of cs k = Some w" by (metis map_of_eq_None_iff not_None_eq)
        have "deep_equal v w"
          using less.hyps [OF _ o(2) [OF v w]] size_obj_member [OF v] 2(1) plain_field [OF pl(1) v] plain_field [OF pl(2) w]
          by simp
        with w show ?thesis by simp
      qed
      moreover have "length ps = length cs"
        using o(1) d by (intro length_eq_of_map_of) (simp_all add: dom_map_of_conv_image_fst)
      ultimately have "deep_equal (JObj ps) (JObj cs)" by (auto simp: list_all_iff)
      with ne 2 show False by simp
    next
      case 3
      with less.prems(1) show False by (simp only: diff_values_differ(3) [OF ne 3] silent_push)
    qed
  qed
qed

section \<open>What is rendered\<close>

lemma sk_stored_pushes:
  "length (sk_stored s) \<le> Suc (sk_cap s) \<Longrightarrow> sk_stored (pushes s es) = take (Suc (sk_cap s)) (sk_stored s @ es)"
proof (induction es arbitrary: s)
  case (Cons e es)
  show ?case
  proof (cases "length (sk_stored s) \<le> sk_cap s")
    case True
    with Cons.IH [of "sink_push s e"] show ?thesis by (simp add: pushes_def sink_push_def)
  next
    case False
    with Cons.prems have "length (sk_stored s) = Suc (sk_cap s)" by simp
    with Cons.IH [of "sink_push s e"] show ?thesis by (simp add: pushes_def sink_push_def)
  qed
qed (simp add: pushes_def)

lemma new_sink_simps [simp]: "sk_cap (new_sink n) = n" "sk_stored (new_sink n) = []" "sk_count (new_sink n) = 0"
  by (simp_all add: new_sink_def)

lemma traversal_entries:
  obtains es where "\<And>cap. sk_stored (diff_values (new_sink cap) path p c) = take (Suc cap) es"
    and "\<And>cap. sk_count (diff_values (new_sink cap) path p c) = length es"
proof -
  obtain es where "\<forall>s. diff_values s path p c = pushes s es" using adds_diff_values unfolding adds_def by blast
  then show thesis by (intro that [of es]) (simp_all add: sk_stored_pushes)
qed

lemma entry_line_ne: "render_json_diff_entry e \<noteq> []"
  by (cases e) simp_all

lemma bound_total_output_length: "length (bound_total_output s) \<le> 20000"
proof (cases "length s \<le> max_json_diff_output_length")
  case False
  define m where "m = [newline, ellipsis] @ '' output truncated at '' @ show_nat max_json_diff_output_length @ '' characters''"
  have m: "length m \<le> 20000" by (simp add: m_def max_json_diff_output_length_def show_nat.simps)
  have "length (fst (truncate_at_code_point s n)) \<le> n" for n by (simp add: truncate_at_code_point_def)
  from this [of "20000 - length m"] m
  have "length (fst (truncate_at_code_point s (20000 - length m))) + length m \<le> 20000" by linarith
  with False show ?thesis
    unfolding bound_total_output_def m_def [symmetric] Let_def by (simp add: max_json_diff_output_length_def)
qed (simp add: bound_total_output_def max_json_diff_output_length_def)

lemma bound_total_output_prefix:
  "take 10 (bound_total_output s) = take 10 s"
proof (cases "length s \<le> max_json_diff_output_length")
  case False
  define m where "m = [newline, ellipsis] @ '' output truncated at '' @ show_nat max_json_diff_output_length @ '' characters''"
  have "length m \<le> 1000" by (simp add: m_def max_json_diff_output_length_def show_nat.simps)
  then show ?thesis
    using False unfolding bound_total_output_def m_def [symmetric] Let_def
    by (simp add: truncate_at_code_point_def max_json_diff_output_length_def)
qed (simp add: bound_total_output_def)

text \<open>The rendering of a sink with an entry starts like that entry's line.\<close>

lemma rendered_start:
  assumes "sk_stored s = e # es"
  shows "\<exists>rest. render_json_diff_entries s = bound_total_output (render_json_diff_entry e @ rest)"
proof -
  have j: "\<exists>rest. join [newline] (x # xs) = x @ rest" for x xs by (cases xs) auto
  have t: "take max_json_diff_entries (e # es) = e # take 19 es"
    by (simp add: max_json_diff_entries_def)
  have "\<exists>xs. render_json_diff_entries s = bound_total_output (join [newline] (render_json_diff_entry e # xs))"
    unfolding render_json_diff_entries_def assms Let_def t list.map append_Cons by blast
  with j show ?thesis by metis
qed

lemma rendered_not_formatting:
  assumes "sk_stored s \<noteq> []"
  shows "render_json_diff_entries s \<noteq> formatting_only_diff" and "render_json_diff_entries s \<noteq> []"
proof -
  obtain e es rest where r: "render_json_diff_entries s = bound_total_output (render_json_diff_entry e @ rest)"
    using assms rendered_start by (metis neq_Nil_conv)
  have t: "take 3 (render_json_diff_entries s) = take 3 (render_json_diff_entry e @ rest)"
  proof -
    have "take 3 (take 10 (render_json_diff_entries s)) = take 3 (take 10 (render_json_diff_entry e @ rest))"
      unfolding r bound_total_output_prefix ..
    then show ?thesis unfolding take_take by simp
  qed
  have "take 3 (render_json_diff_entry e @ rest) \<noteq> take 3 formatting_only_diff"
    "take 3 (render_json_diff_entry e @ rest) \<noteq> []"
    by (cases e; simp add: formatting_only_diff_def)+
  with t show "render_json_diff_entries s \<noteq> formatting_only_diff" "render_json_diff_entries s \<noteq> []" by auto
qed

lemma json_diff_cases:
  assumes "build_json_diff parse overflows p c = Some d"
  obtains (same) "p = c" "d = []"
  | (formatting) a b where "p \<noteq> c" "parse p = Some a" "parse c = Some b" "d = formatting_only_diff"
      "sk_count (diff_values (new_sink max_json_diff_entries) [] a b) = 0"
  | (entries) a b where "p \<noteq> c" "parse p = Some a" "parse c = Some b"
      "d = render_json_diff_entries (diff_values (new_sink max_json_diff_entries) [] a b)"
      "sk_count (diff_values (new_sink max_json_diff_entries) [] a b) \<noteq> 0"
      "sk_stored (diff_values (new_sink max_json_diff_entries) [] a b) \<noteq> []"
proof (cases "p = c")
  case True
  with assms show thesis by (intro same) (auto simp: build_json_diff_def)
next
  case False
  with assms obtain a b where ab: "parse p = Some a" "parse c = Some b"
    and d: "d = (if sk_count (diff_values (new_sink max_json_diff_entries) [] a b) = 0 then formatting_only_diff
        else render_json_diff_entries (diff_values (new_sink max_json_diff_entries) [] a b))"
    by (auto simp: build_json_diff_def Let_def split: option.splits if_splits)
  show thesis
  proof (cases "sk_count (diff_values (new_sink max_json_diff_entries) [] a b) = 0")
    case True
    with False ab d show thesis by (intro formatting) simp_all
  next
    case ne: False
    obtain es where "\<And>cap. sk_stored (diff_values (new_sink cap) [] a b) = take (Suc cap) es"
      "\<And>cap. sk_count (diff_values (new_sink cap) [] a b) = length es"
      by (rule traversal_entries [of "[]" a b]) blast
    with ne have "sk_stored (diff_values (new_sink max_json_diff_entries) [] a b) \<noteq> []" by auto
    with False ab d ne show thesis by (intro entries) simp_all
  qed
qed

interpretation json_diffs: diff_renderer "build_diff (build_json_diff parse overflows)"
  for parse :: "string \<Rightarrow> json option" and overflows :: "json \<Rightarrow> json \<Rightarrow> bool"
proof
  fix p c :: string and strategy :: "string option"
  have "d = [] \<longleftrightarrow> p = c" if "build_json_diff parse overflows p c = Some d" for d
    using that by (cases rule: json_diff_cases) (auto simp: formatting_only_diff_def rendered_not_formatting)
  then show "build_diff (build_json_diff parse overflows) p c strategy = [] \<longleftrightarrow> p = c"
    by (auto simp: build_diff_def dest: build_text_diff_changed split: option.splits)
qed

section \<open>Properties\<close>

text \<open>
  A delta is empty exactly when nothing changed. Whatever strategy an object declares,
  whatever \<open>JSON.parse\<close> makes of the two texts and wherever the traversal overflows, the
  rendered diff of two snapshots is the empty text if and only if they are the same text.
\<close>

lemma diff_empty_iff_unchanged:
  "build_diff (build_json_diff parse overflows) previous current strategy = [] \<longleftrightarrow> previous = current"
  by (rule json_diffs.bd_empty_iff)


definition demo_parse :: "string \<Rightarrow> json option" where
  "demo_parse s = (if s = ''A'' then Some (JArr [JObj [(''id'', JNum ''1''), (''v'', JStr ''x'')]])
     else if s = ''B'' then Some (JArr [JObj [(''v'', JStr ''x''), (''id'', JNum ''1'')]])
     else if s = ''C'' then Some (JArr [JObj [(''id'', JNum ''2''), (''v'', JStr ''x'')]]) else None)"


text \<open>
  What is rendered is bounded, and the elision count is exact. A rendered diff never
  exceeds twenty thousand characters; and however large the two values, the capped sink holds
  the first entries of the one traversal, in order, with the number of all of them: capping
  changes neither which entries come first nor how many are counted.
\<close>

lemma json_diff_bounded:
  "(build_json_diff parse overflows previous current = Some d \<longrightarrow> length d \<le> 20000) \<and>
   (\<exists>es. \<forall>cap. sk_stored (diff_values (new_sink cap) path a b) = take (Suc cap) es \<and>
        sk_count (diff_values (new_sink cap) path a b) = length es)"
proof
  show "build_json_diff parse overflows previous current = Some d \<longrightarrow> length d \<le> 20000"
    by (auto simp: formatting_only_diff_def render_json_diff_entries_def Let_def bound_total_output_length
        elim!: json_diff_cases)
  show "\<exists>es. \<forall>cap. sk_stored (diff_values (new_sink cap) path a b) = take (Suc cap) es \<and>
        sk_count (diff_values (new_sink cap) path a b) = length es"
    using traversal_entries [of path a b] by metis
qed

lemma json_diff_bounded_witness:
  "\<exists>d. build_json_diff demo_parse (\<lambda>_ _. False) ''A'' ''C'' = Some d \<and> length d \<le> 20000"
proof -
  have "build_json_diff demo_parse (\<lambda>_ _. False) ''A'' ''C'' \<noteq> None" by code_simp
  then obtain d where "build_json_diff demo_parse (\<lambda>_ _. False) ''A'' ''C'' = Some d" by blast
  with json_diff_bounded [of demo_parse "\<lambda>_ _. False" "''A''" "''C''" d] show ?thesis by blast
qed

end
