(* ===== verification/AM_Shape.thy ===== *)
theory AM_Shape
  imports AM_Json AM_TextDiff
begin

text \<open>
  The Shape stage: \<open>runtime/shape.ts\<close> (derived facts, the rendered artifact),
  \<open>runtime/transform.ts\<close> (the structured payload's transform) and
  \<open>runtime/shape-stage.ts\<close> (\<open>shapeObservation\<close>), with \<open>renderShapeArtifact\<close> of
  \<open>runtime/diff.ts\<close>. The CEL and jq evaluators are third-party: \<open>cel expr context\<close> and
  \<open>jq expr value\<close> are arguments that answer a value or the message of what they throw; a jq
  program may have no output. A snapshot's values are JSON values.
\<close>

type_synonym cel_engine = "string \<Rightarrow> (string \<times> json) list \<Rightarrow> string + json"
type_synonym jq_engine = "string \<Rightarrow> json \<Rightarrow> string + json option"

section \<open>Derived facts\<close>

definition show_int :: "int \<Rightarrow> string" where
  "show_int i = (if i < 0 then ''-'' @ show_nat (nat (- i)) else show_nat (nat i))"

definition build_context :: "json \<Rightarrow> ms \<Rightarrow> (string \<times> json) list" where
  "build_context snapshot now =
     obj_set (case snapshot of JObj kvs \<Rightarrow> kvs | _ \<Rightarrow> [(''value'', snapshot)]) ''now'' (JNum (show_int now))"

definition compute_derived_facts :: "cel_engine \<Rightarrow> json \<Rightarrow> ms \<Rightarrow> derive_rule list \<Rightarrow> string list" where
  "compute_derived_facts cel snapshot now rules =
     map dr_name (filter (\<lambda>r. cel (dr_when r) (build_context snapshot now) = Inr (JBool True)) rules)"

section \<open>The artifact\<close>

definition render_scalar :: "json \<Rightarrow> string" where
  "render_scalar v = (case v of JNull \<Rightarrow> ''(none)'' | _ \<Rightarrow> default (scalar_text v) (json_text v))"

definition composite :: "json \<Rightarrow> bool" where
  "composite v = (case v of JArr _ \<Rightarrow> True | JObj _ \<Rightarrow> True | _ \<Rightarrow> False)"

definition indent_pad :: "nat \<Rightarrow> string" where
  "indent_pad n = concat (replicate n ''  '')"

function (sequential) render_value_lines :: "nat \<Rightarrow> json \<Rightarrow> string list" where
  "render_value_lines n JNull = [indent_pad n @ ''- (none)'']"
| "render_value_lines n (JArr vs) =
     concat (map (\<lambda>i.
       if composite (vs ! i)
       then (indent_pad n @ ''- ['' @ show_nat i @ '']'') # render_value_lines (n + 1) (vs ! i)
       else [indent_pad n @ ''- ['' @ show_nat i @ ''] '' @ render_scalar (vs ! i)]) [0..<length vs])"
| "render_value_lines n (JObj kvs) =
     concat (map (\<lambda>(k, child).
       if composite child
       then (indent_pad n @ ''- '' @ k @ '':'') # render_value_lines (n + 1) child
       else [indent_pad n @ ''- '' @ k @ '': '' @ render_scalar child]) (sort_key fst kvs))"
| "render_value_lines n v = [indent_pad n @ ''- '' @ render_scalar v]"
  by pat_completeness auto

termination
  by (relation "measure (\<lambda>(n, v). size v)") (auto dest: size_obj_entry size_arr_member [OF nth_mem])

declare render_value_lines.simps [simp del]

definition render_artifact :: "json \<Rightarrow> string list \<Rightarrow> string" where
  "render_artifact snapshot facts =
     join [newline] ([''# snapshot''] @ render_value_lines 0 snapshot @ [''# facts''] @ map (\<lambda>f. ''- '' @ f) facts)"

definition render_shape_artifact :: "cel_engine \<Rightarrow> json \<Rightarrow> ms \<Rightarrow> derive_rule list \<Rightarrow> string" where
  "render_shape_artifact cel snapshot now rules =
     render_artifact snapshot (compute_derived_facts cel snapshot now rules)"

section \<open>The payload transform\<close>

definition apply_payload_transform :: "cel_engine \<Rightarrow> jq_engine \<Rightarrow> json \<Rightarrow> transform \<Rightarrow>
    string + json option option" where
  "apply_payload_transform cel jq canonical t =
     (case t of
        Jq expr \<Rightarrow> (case jq expr canonical of Inl e \<Rightarrow> Inl e | Inr v \<Rightarrow> Inr (Some v))
      | Cel expr \<Rightarrow>
          (case cel expr (case canonical of JObj kvs \<Rightarrow> kvs | _ \<Rightarrow> [(''value'', canonical)]) of
             Inl e \<Rightarrow> Inl e
           | Inr gate \<Rightarrow> Inr (if gate = JBool True then Some (Some canonical) else None)))"

section \<open>The stage\<close>

record shaped =
  sd_suppressed :: bool
  sd_snapshot_text :: "string option"
  sd_payload :: "json option"

definition shaped_snapshot :: "observation \<Rightarrow> json" where
  "shaped_snapshot ob =
     (if nullish (o_snapshot ob) then (case o_snapshot_text ob of None \<Rightarrow> JNull | Some t \<Rightarrow> JStr t)
      else the (o_snapshot ob))"

definition shape_observation :: "cel_engine \<Rightarrow> jq_engine \<Rightarrow> observation \<Rightarrow> ms \<Rightarrow> shape_config option \<Rightarrow>
    payload_config option \<Rightarrow> string + shaped" where
  "shape_observation cel jq ob now shape payload =
     (let canonical = shaped_snapshot ob;
          text = (case shape of
              Some sh \<Rightarrow> if sh_rendered sh
                then Some (render_shape_artifact cel canonical now (default (sh_derive sh) [])) else o_snapshot_text ob
            | None \<Rightarrow> o_snapshot_text ob);
          result = \<lparr>sd_suppressed = False, sd_snapshot_text = text, sd_payload = None\<rparr> in
      case payload of
        None \<Rightarrow> Inr result
      | Some pl \<Rightarrow>
          (case (pl_form pl, pl_transform pl) of
             (Structured, Some t) \<Rightarrow>
               (case apply_payload_transform cel jq canonical t of
                  Inl e \<Rightarrow> Inl e
                | Inr None \<Rightarrow> Inr (result\<lparr>sd_suppressed := True\<rparr>)
                | Inr (Some v) \<Rightarrow> Inr (result\<lparr>sd_payload := v\<rparr>))
           | _ \<Rightarrow> Inr result))"

section \<open>The artifact is canonical and shows every fact\<close>

lemma deep_equal_composite: "deep_equal a b \<Longrightarrow> composite a = composite b"
  by (cases a; cases b) (simp_all add: composite_def)

lemma deep_equal_scalar: "deep_equal a b \<Longrightarrow> \<not> composite a \<Longrightarrow> a = b"
  by (cases a; cases b) (simp_all add: composite_def)

text \<open>An object's lines, key by key in sorted order.\<close>

definition field_lines :: "nat \<Rightarrow> string \<times> json \<Rightarrow> string list" where
  "field_lines n kv = (if composite (snd kv)
     then (indent_pad n @ ''- '' @ fst kv @ '':'') # render_value_lines (n + 1) (snd kv)
     else [indent_pad n @ ''- '' @ fst kv @ '': '' @ render_scalar (snd kv)])"

definition element_lines :: "nat \<Rightarrow> nat \<Rightarrow> json \<Rightarrow> string list" where
  "element_lines n i v = (if composite v
     then (indent_pad n @ ''- ['' @ show_nat i @ '']'') # render_value_lines (n + 1) v
     else [indent_pad n @ ''- ['' @ show_nat i @ ''] '' @ render_scalar v])"

lemma sorted_by_lookup:
  fixes L :: "('k::linorder \<times> 'v) list"
  assumes "distinct (map fst L)"
  shows "sort_key fst L = map (\<lambda>k. (k, the (map_of L k))) (sort (map fst L))"
proof (rule sort_key_inj_key_eq)
  have "mset (map (\<lambda>k. (k, the (map_of L k))) (sort (map fst L))) = image_mset (\<lambda>k. (k, the (map_of L k))) (image_mset fst (mset L))"
    by simp
  also have "\<dots> = mset L"
    using assms by (auto simp: multiset.map_comp comp_def intro!: multiset.map_ident_strong)
  finally show "mset L = mset (map (\<lambda>k. (k, the (map_of L k))) (sort (map fst L)))" ..
  show "inj_on fst (set L)" using assms by (simp add: distinct_map)
  show "sorted (map fst (map (\<lambda>k. (k, the (map_of L k))) (sort (map fst L))))" by (simp add: comp_def)
qed

lemma render_lines_same:
  "deep_equal a b \<Longrightarrow> json_ok a \<Longrightarrow> json_ok b \<Longrightarrow> render_value_lines n a = render_value_lines n b"
proof (induction "size a" arbitrary: a b n rule: less_induct)
  case less
  have child: "composite v = composite w \<and> (composite v \<longrightarrow> render_value_lines m v = render_value_lines m w) \<and> (\<not> composite v \<longrightarrow> v = w)"
    if "size v < size a" "deep_equal v w" "json_ok v" "json_ok w" for v w m
    using less.hyps [of v w m] that deep_equal_composite deep_equal_scalar by blast
  show ?case
  proof (cases a)
    case (JArr vs)
    with less.prems(1) obtain ws where b: "b = JArr ws" by (cases b) auto
    have len: "length vs = length ws" and eq: "\<forall>i < length vs. deep_equal (vs ! i) (ws ! i)"
      using less.prems(1) by (auto simp: JArr b list_all2_conv_all_nth)
    have "element_lines n i (vs ! i) = element_lines n i (ws ! i)" if i: "i < length vs" for i
    proof -
      have "size (vs ! i) < size a" unfolding JArr by (rule size_arr_member [OF nth_mem [OF i]])
      moreover have "deep_equal (vs ! i) (ws ! i)" using eq i by blast
      moreover have "json_ok (vs ! i)" "json_ok (ws ! i)"
        using less.prems(2,3) i len unfolding JArr b by (simp_all add: list_all_length)
      ultimately have "composite (vs ! i) = composite (ws ! i)"
        "composite (vs ! i) \<longrightarrow> render_value_lines (n + 1) (vs ! i) = render_value_lines (n + 1) (ws ! i)"
        "\<not> composite (vs ! i) \<longrightarrow> vs ! i = ws ! i" using child by blast+
      then show ?thesis unfolding element_lines_def by metis
    qed
    then have "map (\<lambda>i. element_lines n i (vs ! i)) [0..<length vs] = map (\<lambda>i. element_lines n i (ws ! i)) [0..<length ws]"
      using len by simp
    then show ?thesis by (simp add: JArr b render_value_lines.simps element_lines_def)
  next
    case (JObj vs)
    with less.prems(1) obtain ws where b: "b = JObj ws" by (cases b) auto
    have d: "distinct (map fst vs)" "distinct (map fst ws)" using less.prems(2,3) by (simp_all add: JObj b)
    have w: "\<exists>w. map_of ws k = Some w \<and> deep_equal v w" if "map_of vs k = Some v" for k v
      using less.prems(1) map_of_SomeD [OF that] by (fastforce simp: JObj b list_all_iff split: option.splits)
    then have "fst ` set vs \<subseteq> fst ` set ws" unfolding dom_map_of_conv_image_fst [symmetric] dom_def by blast
    moreover have "card (fst ` set vs) = card (fst ` set ws)"
      using less.prems(1) d by (metis JObj b deep_equal.simps(2) distinct_card length_map list.set_map)
    ultimately have keys: "fst ` set vs = fst ` set ws" by (intro card_subset_eq) simp_all
    then have sk: "sort (map fst vs) = sort (map fst ws)"
      using d by (intro sorted_distinct_set_unique) simp_all
    have "field_lines n (k, the (map_of vs k)) = field_lines n (k, the (map_of ws k))" if k: "k \<in> fst ` set vs" for k
    proof -
      obtain v where v: "map_of vs k = Some v" using k by (metis map_of_eq_None_iff not_None_eq)
      with w obtain u where u: "map_of ws k = Some u" "deep_equal v u" by blast
      have "json_ok v" "json_ok u"
        using less.prems(2,3) map_of_SomeD [OF v] map_of_SomeD [OF u(1)] by (auto simp: JObj b list_all_iff)
      moreover have "size v < size a" unfolding JObj by (rule size_obj_member [OF v])
      ultimately have "composite v = composite u"
        "composite v \<longrightarrow> render_value_lines (n + 1) v = render_value_lines (n + 1) u"
        "\<not> composite v \<longrightarrow> v = u" using child u(2) by blast+
      then show ?thesis unfolding field_lines_def v u(1) option.sel snd_conv fst_conv by metis
    qed
    then have "map (\<lambda>k. field_lines n (k, the (map_of vs k))) (sort (map fst vs)) =
        map (\<lambda>k. field_lines n (k, the (map_of ws k))) (sort (map fst ws))"
      unfolding sk [symmetric] by simp
    then have "map (field_lines n) (sort_key fst vs) = map (field_lines n) (sort_key fst ws)"
      by (simp add: sorted_by_lookup [OF d(1)] sorted_by_lookup [OF d(2)] comp_def)
    then show ?thesis by (simp add: JObj b render_value_lines.simps field_lines_def [abs_def] case_prod_unfold)
  qed (use less.prems(1) in \<open>cases b; simp\<close>)+
qed

lemma join_append: "xs \<noteq> [] \<Longrightarrow> join [c] (xs @ ys) = join [c] xs @ concat (map ((#) c) ys)"
proof (induction xs rule: remdups_adj.induct)
  case (2 x)
  then show ?case by (induction ys arbitrary: x) auto
qed auto

lemma lines_inj:
  "concat (map ((#) c) ys) = concat (map ((#) c) zs) \<Longrightarrow> \<forall>y \<in> set ys \<union> set zs. c \<notin> set y \<Longrightarrow> ys = zs"
proof (induction ys arbitrary: zs)
  case (Cons y ys)
  then obtain z zs' where zs: "zs = z # zs'" by (cases zs) auto
  have tw: "takeWhile (\<lambda>a. a \<noteq> c) (y @ concat (map ((#) c) ys)) = y" if "c \<notin> set y" for y ys
  proof -
    have "takeWhile (\<lambda>a. a \<noteq> c) (concat (map ((#) c) ys)) = []" by (cases ys) simp_all
    with that show ?thesis by (subst takeWhile_append2) auto
  qed
  have e: "y @ concat (map ((#) c) ys) = z @ concat (map ((#) c) zs')" using Cons.prems(1) zs by simp
  then have "y = z" using tw [of y ys] tw [of z zs'] Cons.prems(2) zs by simp
  with e Cons zs show ?case by simp
next
  case Nil
  then show ?case by (cases zs) auto
qed

lemma render_artifact_facts:
  assumes "render_artifact s f = render_artifact s g" and "\<forall>x \<in> set f \<union> set g. newline \<notin> set x"
  shows "f = g"
proof -
  let ?p = "[''# snapshot''] @ render_value_lines 0 s @ [''# facts'']" and ?l = "map (\<lambda>x. ''- '' @ x)"
  have j: "join [newline] (?p @ ?l h) = join [newline] ?p @ concat (map ((#) newline) (?l h))" for h
    by (rule join_append) simp
  have "join [newline] (?p @ ?l f) = join [newline] (?p @ ?l g)" using assms(1) by (simp add: render_artifact_def)
  then have "concat (map ((#) newline) (?l f)) = concat (map ((#) newline) (?l g))" unfolding j by (simp only: same_append_eq)
  moreover have "\<forall>y \<in> set (?l f) \<union> set (?l g). newline \<notin> set y" using assms(2) by (auto simp: newline_def)
  ultimately have "?l f = ?l g" by (rule lines_inj)
  then show ?thesis by (simp add: inj_map_eq_map inj_def)
qed

text \<open>
  The Shape artifact is canonical and hides no derived fact. Two snapshots that are equal
  as structures render to the same text whatever the order of their keys, so a re-serialized
  snapshot makes no phantom change; and for one snapshot, whenever a different list of derived
  facts holds, the artifact and therefore the rendered diff is different. (Names of derived
  facts are single lines.)
\<close>

lemma shape_artifact_is_canonical:
  assumes "deep_equal a b" and "json_ok a" and "json_ok b"
  shows "render_artifact a facts = render_artifact b facts \<and>
     ((\<forall>f \<in> set facts \<union> set facts'. newline \<notin> set f) \<longrightarrow>
        (build_text_diff (render_artifact a facts) (render_artifact b facts') = [] \<longleftrightarrow> facts = facts'))"
proof -
  have ab: "render_artifact b fs = render_artifact a fs" for fs
    using render_lines_same [OF assms] by (simp add: render_artifact_def)
  have "build_text_diff x y = [] \<longleftrightarrow> x = y" for x y
    using build_text_diff_changed by (cases "x = y") auto
  then show ?thesis unfolding ab using render_artifact_facts by blast
qed

lemma shape_artifact_is_canonical_witness:
  "render_artifact (JObj [(''b'', JNum ''1''), (''a'', JNull)]) [''late''] =
     render_artifact (JObj [(''a'', JNull), (''b'', JNum ''1'')]) [''late''] \<and>
   build_text_diff (render_artifact (JObj [(''b'', JNum ''1''), (''a'', JNull)]) [''late''])
     (render_artifact (JObj [(''a'', JNull), (''b'', JNum ''1'')]) []) \<noteq> []"
proof -
  let ?a = "JObj [(''b'', JNum ''1''), (''a'', JNull)]" and ?b = "JObj [(''a'', JNull), (''b'', JNum ''1'')]"
  have "deep_equal ?a ?b" "json_ok ?a" "json_ok ?b" by code_simp+
  note t = shape_artifact_is_canonical [OF this, of "[''late'']" "[]"]
  have n: "\<forall>f \<in> set [''late''] \<union> set []. newline \<notin> set f" by (simp add: newline_def)
  show ?thesis using conjunct1 [OF t] unfolding mp [OF conjunct2 [OF t] n] by (intro conjI) simp_all
qed

section \<open>Suppression\<close>

text \<open>
  Only a structured payload's CEL gate suppresses an observation. The stage suppresses
  exactly when the payload is structured with a CEL transform that evaluates to something other
  than \<open>true\<close>; otherwise the observation passes, its payload is the transform's value (the whole
  snapshot for a CEL gate), and without a transform its payload is left alone. An error of an
  evaluator is an error of the stage.
\<close>

lemma shape_suppresses_only_by_gate:
  "shape_observation cel jq ob now shape payload = Inr r \<Longrightarrow>
     (sd_suppressed r \<longleftrightarrow> (\<exists>pl expr v. payload = Some pl \<and> pl_form pl = Structured \<and> pl_transform pl = Some (Cel expr) \<and>
        cel expr (case shaped_snapshot ob of JObj kvs \<Rightarrow> kvs | v \<Rightarrow> [(''value'', v)]) = Inr v \<and> v \<noteq> JBool True)) \<and>
     (sd_payload r \<noteq> None \<and> (\<exists>pl expr. payload = Some pl \<and> pl_transform pl = Some (Cel expr)) \<longrightarrow>
        sd_payload r = Some (shaped_snapshot ob)) \<and>
     ((\<forall>pl. payload = Some pl \<longrightarrow> pl_form pl \<noteq> Structured \<or> pl_transform pl = None) \<longrightarrow> sd_payload r = None)"
proof (cases "\<exists>pl t. payload = Some pl \<and> pl_form pl = Structured \<and> pl_transform pl = Some t")
  case False
  assume "shape_observation cel jq ob now shape payload = Inr r"
  with False have "sd_suppressed r = False" "sd_payload r = None"
    by (auto simp: shape_observation_def Let_def split: option.splits payload_form.splits)
  with False show ?thesis by auto
next
  case True
  assume r: "shape_observation cel jq ob now shape payload = Inr r"
  from True obtain pl t where pl: "payload = Some pl" "pl_form pl = Structured" "pl_transform pl = Some t" by blast
  let ?ctx = "case shaped_snapshot ob of JObj kvs \<Rightarrow> kvs | v \<Rightarrow> [(''value'', v)]"
  show ?thesis
  proof (cases t)
    case (Jq expr)
    with r pl show ?thesis
      by (auto simp: shape_observation_def Let_def apply_payload_transform_def split: sum.splits)
  next
    case (Cel expr)
    have ctx: "(case shaped_snapshot ob of JObj kvs \<Rightarrow> kvs | _ \<Rightarrow> [(''value'', shaped_snapshot ob)]) = ?ctx"
      by (auto split: json.splits)
    from r pl Cel show ?thesis
      unfolding shape_observation_def Let_def apply_payload_transform_def ctx
      by (auto split: sum.splits if_splits)
  qed
qed

definition gated_observation :: observation where
  "gated_observation = \<lparr>o_title = ''t'', o_body = None, o_summary = None, o_payload = None,
     o_snapshot_text = Some ''x'', o_object_key = None, o_scope = None, o_change = None,
     o_salience = None, o_snapshot = None\<rparr>"

lemma shape_suppresses_only_by_gate_witness:
  "\<exists>r. shape_observation (\<lambda>e c. Inr (JBool False)) (\<lambda>e v. Inr None) gated_observation 0 None
        (Some \<lparr>pl_form = Structured, pl_transform = Some (Cel ''changed'')\<rparr>) = Inr r \<and> sd_suppressed r"
proof -
  let ?pl = "\<lparr>pl_form = Structured, pl_transform = Some (Cel ''changed'')\<rparr>"
  obtain r where r: "shape_observation (\<lambda>e c. Inr (JBool False)) (\<lambda>e v. Inr None) gated_observation 0 None (Some ?pl) = Inr r"
    by (simp add: shape_observation_def Let_def apply_payload_transform_def)
  from shape_suppresses_only_by_gate [OF this] have "sd_suppressed r" by simp
  with r show ?thesis by blast
qed

end
