(* ===== verification/AM_Materialize.thy ===== *)
theory AM_Materialize
  imports AM_Shape AM_JsonDiff AM_Notify AM_Fanout
begin

text \<open>
  From observations to events, \<open>runtime/service.ts\<close>: \<open>materializeObservation\<close>,
  \<open>runInterpret\<close>, \<open>processObservation\<close>, \<open>materializeSpan\<close> and \<open>ingest\<close>, with the reading of
  the Interpret tool's answer (\<open>adapter/interpret.ts\<close>).

  What is not the runtime's own code is the record \<open>env\<close>: the diff renderer's argument, the
  CEL and jq engines, the calendar, the drawing of ULIDs (a pair for an event and its snapshot),
  the text of an error's message and the Interpret adapter. The writes to the history table that
  the code guards against a failing database are taken to succeed.
\<close>

section \<open>The environment\<close>

datatype ingest_error =
    ShapeFailed string
  | NotifyFailed notify_error
  | InsertFailed store_error
  | MissingUrgency
  | ObserveFailed string
  | ScheduleFailed cron_error
  | IntervalInvalid duration_error
  | UnknownSource string

datatype interpret_result = InterpretDeliver string | InterpretSuppress string

record env =
  ev_diff :: "string \<Rightarrow> string \<Rightarrow> string option \<Rightarrow> string"
  ev_cel :: cel_engine
  ev_jq :: jq_engine
  ev_cal :: "string \<Rightarrow> ms \<Rightarrow> nat list option"
  ev_ids :: "store \<Rightarrow> ident \<times> ident"
  ev_text :: "ingest_error \<Rightarrow> string"
  ev_interpret :: "(string \<Rightarrow> string \<Rightarrow> ident \<Rightarrow> string + interpret_result) option"

text \<open>The ULIDs the environment draws are new.\<close>

definition draws_fresh :: "env \<Rightarrow> bool" where
  "draws_fresh env = (\<forall>st. fresh_ulid st (fst (ev_ids env st)))"

section \<open>Materializing one observation\<close>

definition object_key_for :: "monitor \<Rightarrow> observation \<Rightarrow> string" where
  "object_key_for m ob = default (o_object_key ob) (m_id m)"

definition strategy_of_observation :: "observation \<Rightarrow> string option" where
  "strategy_of_observation ob =
     (case o_snapshot ob of None \<Rightarrow> None | Some v \<Rightarrow> change_detection_strategy_of v)"

text \<open>The fields of the inserted event; the key and the creation time are filled by the store.\<close>

definition event_of :: "envelope \<Rightarrow> string option \<Rightarrow> urgency \<Rightarrow> shaped \<Rightarrow> string option \<Rightarrow> event" where
  "event_of v ws u sh diff =
     (let m = v_monitor v; ob = v_observation v in
      \<lparr>e_id = [], e_ws = ws, e_monitor = m_id m, e_source = m_type m, e_urgency = u,
        e_title = default (m_name m) (o_title ob),
        e_body = default (o_body ob) (m_instructions m),
        e_summary = default (or_else (o_summary ob) (o_body ob)) (o_title ob),
        e_payload = (if \<not> nullish (sd_payload sh) then the (sd_payload sh)
                     else if \<not> nullish (o_payload ob) then the (o_payload ob) else JObj []),
        e_meta = (if \<not> nullish (o_snapshot ob) then the (o_snapshot ob) else JObj []),
        e_snapshot = sd_snapshot_text sh, e_diff = diff, e_object = Some (object_key_for m ob),
        e_baseline = Some (m_baseline m),
        e_scope = (case o_change ob of
            None \<Rightarrow> default (o_scope ob) []
          | Some c \<Rightarrow> obj_set (default (o_scope ob) []) ''changeKind'' (SOne (case c of
              Created \<Rightarrow> ''created'' | Modified \<Rightarrow> ''modified'' | Deleted \<Rightarrow> ''deleted'' | Descoped \<Rightarrow> ''descoped''))),
        e_tags = default (m_tags m) [], e_created = v_observed_at v\<rparr>)"

definition previous_content :: "store \<Rightarrow> envelope \<Rightarrow> string option \<Rightarrow> shaped \<Rightarrow> string option" where
  "previous_content st v ws sh =
     (case sd_snapshot_text sh of
        None \<Rightarrow> None
      | Some _ \<Rightarrow> latest_snapshot st (m_id (v_monitor v)) (object_key_for (v_monitor v) (v_observation v)) ws)"

definition shared_diff :: "env \<Rightarrow> envelope \<Rightarrow> shaped \<Rightarrow> string option \<Rightarrow> string option" where
  "shared_diff env v sh previous =
     (case (sd_snapshot_text sh, previous) of
        (Some t, Some p) \<Rightarrow> Some (ev_diff env p t (strategy_of_observation (v_observation v)))
      | _ \<Rightarrow> None)"

definition materialize_observation :: "env \<Rightarrow> store \<Rightarrow> ms \<Rightarrow> envelope \<Rightarrow> string option \<Rightarrow> ident option \<Rightarrow>
    ingest_error + (store \<times> event \<times> string option) option" where
  "materialize_observation env st now v ws restrict =
     (case shape_observation (ev_cel env) (ev_jq env) (v_observation v) (v_observed_at v)
             (m_shape (v_monitor v)) (m_payload (v_monitor v)) of
        Inl e \<Rightarrow> Inl (ShapeFailed e)
      | Inr sh \<Rightarrow>
          if sd_suppressed sh then Inr None
          else (let previous = previous_content st v ws sh; diff = shared_diff env v sh previous in
                case v_urgency v of
                  None \<Rightarrow> Inl MissingUrgency
                | Some u \<Rightarrow>
                    (case insert_event (ev_diff env) st now (fst (ev_ids env st)) (snd (ev_ids env st))
                            (event_of v ws u sh diff) previous restrict of
                       Inl e \<Rightarrow> Inl (InsertFailed e)
                     | Inr (st', e) \<Rightarrow> Inr (Some (st', e, diff)))))"

section \<open>Interpret\<close>

definition all_recipient_diffs :: "store \<Rightarrow> ident list \<Rightarrow> ident \<Rightarrow> ident \<rightharpoonup> string" where
  "all_recipient_diffs st sids i =
     map_of (rev (concat (map (\<lambda>p. case p_diff p of None \<Rightarrow> [] | Some d \<Rightarrow> [(p_session p, d)])
       (filter (\<lambda>p. p_session p \<in> set sids \<and> p_event p = i) (projections st)))))"

definition sessions_by_delta :: "(ident \<rightharpoonup> string) \<Rightarrow> string \<Rightarrow> ident list \<Rightarrow> (string \<times> ident list) list" where
  "sessions_by_delta dm fallback sids =
     foldl (\<lambda>m s. let delta = default (dm s) fallback in
         map_set m delta (default (map_of m delta) [] @ [s])) [] sids"

definition record_verdict :: "ms \<Rightarrow> ident \<Rightarrow> string + interpret_result \<Rightarrow> store \<Rightarrow> ident \<Rightarrow> store" where
  "record_verdict now i result st s =
     (case result of
        Inl msg \<Rightarrow> record_interpret st now s i IFailed (Some msg) None
      | Inr (InterpretSuppress reason) \<Rightarrow> record_interpret st now s i ISuppress (Some reason) None
      | Inr (InterpretDeliver digest) \<Rightarrow> record_interpret st now s i IDeliver None (Some digest))"

definition run_interpret :: "env \<Rightarrow> store \<Rightarrow> ms \<Rightarrow> monitor \<Rightarrow> event \<Rightarrow> string option \<Rightarrow> store" where
  "run_interpret env st now m e diff =
     (case ev_interpret env of
        None \<Rightarrow> st
      | Some adapter \<Rightarrow>
          (let sids = last_projected st in
           if sids = [] then st
           else foldl (\<lambda>st' (delta, ss).
                foldl (record_verdict now (e_id e) (adapter delta (m_instructions m) (m_id m))) st' ss)
              st (sessions_by_delta (all_recipient_diffs st sids (e_id e))
                    (default (or_else diff (e_snapshot e)) []) sids)))"

text \<open>The answer of the Interpret tool.\<close>

definition strip_tag :: "string \<Rightarrow> string \<Rightarrow> string option" where
  "strip_tag tag text = (if map lower_char (take (length tag) text) = map lower_char tag
     then Some (trim (drop (length tag) text)) else None)"

definition parse_tool_output :: "string \<Rightarrow> interpret_result" where
  "parse_tool_output stdout =
     (let text = trim stdout in
      case strip_tag ''SUPPRESS:'' text of
        Some reason \<Rightarrow> InterpretSuppress (if reason = [] then ''not substantive'' else reason)
      | None \<Rightarrow>
          (let digest = default (strip_tag ''DELIVER:'' text) text in
           InterpretDeliver (if digest = [] then text else digest)))"

section \<open>A span of envelopes\<close>

definition process_observation :: "env \<Rightarrow> store \<Rightarrow> ms \<Rightarrow> envelope \<Rightarrow> string option \<Rightarrow> ident option \<Rightarrow>
    ingest_error + (store \<times> event) option" where
  "process_observation env st now v ws restrict =
     (case materialize_observation env st now v ws restrict of
        Inl e \<Rightarrow> Inl e
      | Inr None \<Rightarrow> Inr None
      | Inr (Some (st', e, diff)) \<Rightarrow>
          Inr (Some ((case m_payload (v_monitor v) of
              Some pl \<Rightarrow> if pl_form pl = Prose then run_interpret env st' now (v_monitor v) e diff else st'
            | None \<Rightarrow> st'), e)))"

definition errored_row :: "env \<Rightarrow> store \<Rightarrow> ms \<Rightarrow> monitor \<Rightarrow> string option \<Rightarrow> ingest_error \<Rightarrow> store" where
  "errored_row env st now m ws e =
     record_history st now (m_id m) ws (m_type m) Errored (JObj [(''error'', JStr (ev_text env e))])"

fun materialize_loop :: "env \<Rightarrow> ms \<Rightarrow> monitor \<Rightarrow> string option \<Rightarrow> ident option \<Rightarrow> envelope list \<Rightarrow>
    store \<times> ident list \<Rightarrow> store \<times> ident list" where
  "materialize_loop env now m ws restrict [] acc = acc"
| "materialize_loop env now m ws restrict (v # vs) (st, ids) =
     (case process_observation env st now v ws restrict of
        Inl e \<Rightarrow> materialize_loop env now m ws restrict vs (errored_row env st now m ws e, ids)
      | Inr None \<Rightarrow> materialize_loop env now m ws restrict vs (st, ids)
      | Inr (Some (st', e)) \<Rightarrow> materialize_loop env now m ws restrict vs (st', ids @ [e_id e]))"

definition span_outcome :: "nat \<Rightarrow> nat \<Rightarrow> outcome option \<Rightarrow> outcome" where
  "span_outcome observed emitted source_outcome =
     (if 0 < emitted then Triggered
      else if observed = 0 \<and> source_outcome \<noteq> None then the source_outcome
      else if 0 < observed then Suppressed else NoChange)"

definition materialize_span :: "env \<Rightarrow> store \<Rightarrow> ms \<Rightarrow> monitor \<Rightarrow> envelope list \<Rightarrow> nat \<Rightarrow> string option \<Rightarrow>
    outcome option \<Rightarrow> ident option \<Rightarrow> store \<times> ident list" where
  "materialize_span env st now m emitted observed ws source_outcome restrict =
     materialize_loop env now m ws restrict emitted
       (record_history st now (m_id m) ws (m_type m) (span_outcome observed (length emitted) source_outcome)
          (JObj [(''observed'', JNum (show_nat observed)), (''emitted'', JNum (show_nat (length emitted)))]), [])"

section \<open>Ingest\<close>

fun passed_observations :: "env \<Rightarrow> monitor \<Rightarrow> ms \<Rightarrow> observation list \<Rightarrow> ingest_error + observation list" where
  "passed_observations env m now [] = Inr []"
| "passed_observations env m now (ob # obs) =
     (case shape_observation (ev_cel env) (ev_jq env) ob now (m_shape m) (m_payload m) of
        Inl e \<Rightarrow> Inl (ShapeFailed e)
      | Inr sh \<Rightarrow>
          (case passed_observations env m now obs of
             Inl e \<Rightarrow> Inl e
           | Inr rest \<Rightarrow> Inr (if sd_suppressed sh then rest else ob # rest)))"

definition ingest :: "env \<Rightarrow> store \<Rightarrow> ms \<Rightarrow> monitor \<Rightarrow> observation list \<Rightarrow> string option \<Rightarrow> json option \<Rightarrow>
    outcome option \<Rightarrow> ident option \<Rightarrow> ingest_error + (store \<times> ident list)" where
  "ingest env st now m obs ws next_state source_outcome restrict =
     (case passed_observations env m now obs of
        Inl e \<Rightarrow> Inl e
      | Inr passed \<Rightarrow>
          (let state = get_monitor_state st (m_id m) ws in
           case dispatch_notify (ev_cal env) m passed now (rs_notify state) of
             Inl e \<Rightarrow> Inl (NotifyFailed e)
           | Inr (emitted, notify) \<Rightarrow>
               (let st1 = set_monitor_state st now (m_id m) ws
                      (case next_state of Some v \<Rightarrow> Some v | None \<Rightarrow> rs_source_state state) notify (Some now) in
                Inr (materialize_span env st1 now m emitted (length obs) ws source_outcome restrict))))"

end
