(* ===== verification/AM_MaterializeProps.thy ===== *)
theory AM_MaterializeProps
  imports AM_Materialize AM_ClaimRows AM_Fixtures
begin

text \<open>
  What materialization keeps and what it accounts for: the frame of the bookkeeping writes, the
  rows Interpret rewrites, the fate of an envelope (which does not depend on the store), and the
  properties of a span of envelopes and of an ingest.
\<close>

section \<open>What leaves the events alone\<close>

lemma history_frame [frame, simp]:
  "events (record_history st now m ws src r d) = events st" "sessions (record_history st now m ws src r d) = sessions st"
  "projections (record_history st now m ws src r d) = projections st" "cursors (record_history st now m ws src r d) = cursors st"
  "snapshots (record_history st now m ws src r d) = snapshots st" "ephemerals (record_history st now m ws src r d) = ephemerals st"
  "suppressions (record_history st now m ws src r d) = suppressions st"
  "monitor_rows (record_history st now m ws src r d) = monitor_rows st"
  by (simp_all add: record_history_def)

lemma errored_row_frame [frame, simp]:
  "events (errored_row env st now m ws e) = events st" "sessions (errored_row env st now m ws e) = sessions st"
  "projections (errored_row env st now m ws e) = projections st" "cursors (errored_row env st now m ws e) = cursors st"
  "ephemerals (errored_row env st now m ws e) = ephemerals st" "suppressions (errored_row env st now m ws e) = suppressions st"
  by (simp_all add: errored_row_def)

lemma monitor_state_frame [frame, simp]:
  "events (set_monitor_state st now m ws src n t) = events st" "sessions (set_monitor_state st now m ws src n t) = sessions st"
  "projections (set_monitor_state st now m ws src n t) = projections st" "cursors (set_monitor_state st now m ws src n t) = cursors st"
  "snapshots (set_monitor_state st now m ws src n t) = snapshots st" "ephemerals (set_monitor_state st now m ws src n t) = ephemerals st"
  "history (set_monitor_state st now m ws src n t) = history st" "suppressions (set_monitor_state st now m ws src n t) = suppressions st"
  by (auto simp: set_monitor_state_def Let_def split: option.splits)

lemma wf_bookkeeping:
  assumes "wf_store st"
  shows "wf_store (record_history st now m ws src r d)" and "wf_store (errored_row env st now mon ws e)"
    and "wf_store (set_monitor_state st now m ws src' n t)"
  using assms by (auto intro!: wf_store_same_keys [OF assms] dest: wf_storeD)

section \<open>Interpret rewrites the recipients' rows only\<close>

definition verdicts_only :: "ident set \<Rightarrow> ident \<Rightarrow> store \<Rightarrow> store \<Rightarrow> bool" where
  "verdicts_only S i st st' =
     (\<exists>h. st' = st\<lparr>projections := map h (projections st)\<rparr> \<and>
        (\<forall>p. row_key (h p) = row_key p) \<and> (\<forall>p. p_session p \<notin> S \<or> p_event p \<noteq> i \<longrightarrow> h p = p))"

lemma verdicts_refl: "verdicts_only S i st st"
  unfolding verdicts_only_def by (rule exI [of _ id]) simp

lemma verdicts_trans:
  assumes "verdicts_only S i a b" and "verdicts_only S i b c"
  shows "verdicts_only S i a c"
proof -
  obtain f where f: "b = a\<lparr>projections := map f (projections a)\<rparr>" "\<forall>p. row_key (f p) = row_key p" "\<forall>p. p_session p \<notin> S \<or> p_event p \<noteq> i \<longrightarrow> f p = p"
    using assms(1) unfolding verdicts_only_def by (elim exE conjE)
  obtain g where g: "c = b\<lparr>projections := map g (projections b)\<rparr>" "\<forall>p. row_key (g p) = row_key p" "\<forall>p. p_session p \<notin> S \<or> p_event p \<noteq> i \<longrightarrow> g p = p"
    using assms(2) unfolding verdicts_only_def by (elim exE conjE)
  have "c = a\<lparr>projections := map (g \<circ> f) (projections a)\<rparr>" by (simp add: g(1) f(1))
  moreover have "\<forall>p. row_key ((g \<circ> f) p) = row_key p" using f(2) g(2) by simp
  moreover have "\<forall>p. p_session p \<notin> S \<or> p_event p \<noteq> i \<longrightarrow> (g \<circ> f) p = p"
    using f(3) g(3) by (metis comp_apply)
  ultimately show ?thesis unfolding verdicts_only_def by blast
qed

lemma verdicts_record: "s \<in> S \<Longrightarrow> verdicts_only S i st (record_verdict now i result st s)"
proof -
  assume s: "s \<in> S"
  have "verdicts_only S i st (record_interpret st now s i v r d)" for v r d
  proof -
    define h where "h = (\<lambda>p :: projection. if p_session p = s \<and> p_event p = i
      then p\<lparr>p_decision := Some v, p_reason := r, p_digest := d, p_updated := db_time now\<rparr> else p)"
    have "record_interpret st now s i v r d = st\<lparr>projections := map h (projections st)\<rparr>"
      by (simp add: record_interpret_def update_where_def h_def)
    moreover have "\<forall>p. row_key (h p) = row_key p" by (simp add: row_key_def h_def)
    moreover have "\<forall>p. p_session p \<notin> S \<or> p_event p \<noteq> i \<longrightarrow> h p = p" using s by (auto simp: h_def)
    ultimately show ?thesis unfolding verdicts_only_def by blast
  qed
  then show ?thesis by (auto simp: record_verdict_def split: sum.splits interpret_result.splits)
qed

lemma verdicts_foldl:
  "(\<And>x st. x \<in> set xs \<Longrightarrow> verdicts_only S i st (f st x)) \<Longrightarrow> verdicts_only S i st (foldl f st xs)"
proof (induction xs arbitrary: st)
  case (Cons x xs)
  have "verdicts_only S i (f st x) (foldl f (f st x) xs)" by (rule Cons.IH) (use Cons.prems in auto)
  with Cons.prems [of x st] show ?case by (auto intro: verdicts_trans)
qed (simp add: verdicts_refl)

lemma sessions_by_delta_members:
  "(d, ss) \<in> set (sessions_by_delta dm fallback sids) \<Longrightarrow> set ss \<subseteq> set sids"
proof -
  have "\<forall>(d, ss) \<in> set (foldl (\<lambda>m s. let delta = default (dm s) fallback in
         map_set m delta (default (map_of m delta) [] @ [s])) m sids). set ss \<subseteq> A \<union> set sids"
    if "\<forall>(d, ss) \<in> set m. set ss \<subseteq> A" for m A
    using that
  proof (induction sids arbitrary: m A)
    case (Cons s sids)
    let ?k = "default (dm s) fallback"
    let ?m = "map_set m ?k (default (map_of m ?k) [] @ [s])"
    have "set (default (map_of m ?k) []) \<subseteq> A"
      using Cons.prems by (cases "map_of m ?k") (fastforce dest: map_of_SomeD)+
    then have "\<forall>(d, ss) \<in> set ?m. set ss \<subseteq> insert s A"
      using set_map_set [of m ?k "default (map_of m ?k) [] @ [s]"] Cons.prems by fastforce
    from Cons.IH [OF this] show ?case by (simp add: Let_def)
  qed auto
  from this [of "[]" "{}"] show "(d, ss) \<in> set (sessions_by_delta dm fallback sids) \<Longrightarrow> set ss \<subseteq> set sids"
    unfolding sessions_by_delta_def by fastforce
qed

lemma verdicts_run_interpret: "verdicts_only (set (last_projected st)) (e_id e) st (run_interpret env st now m e diff)"
proof (cases "ev_interpret env")
  case (Some adapter)
  show ?thesis
  proof (cases "last_projected st = []")
    case False
    let ?S = "set (last_projected st)"
    have "verdicts_only ?S (e_id e) st' (foldl (record_verdict now (e_id e) (adapter d (m_instructions m) (m_id m))) st' ss)"
      if "(d, ss) \<in> set (sessions_by_delta dm fallback (last_projected st))" for d ss st' dm fallback
      using sessions_by_delta_members [OF that] by (intro verdicts_foldl verdicts_record) auto
    then show ?thesis
      unfolding run_interpret_def Some option.case Let_def if_not_P [OF False] by (intro verdicts_foldl) auto
  qed (simp add: run_interpret_def Some verdicts_refl)
qed (simp add: run_interpret_def verdicts_refl)

lemma wf_verdicts: "verdicts_only S i st st' \<Longrightarrow> wf_store st \<Longrightarrow> wf_store st'"
  unfolding verdicts_only_def by (elim exE conjE, rule wf_store_same_keys) (auto dest: wf_storeD)

lemma verdicts_frame:
  assumes "verdicts_only S i st st'"
  shows "events st' = events st" "sessions st' = sessions st" "history st' = history st"
    "ephemerals st' = ephemerals st" "suppressions st' = suppressions st" "monitor_rows st' = monitor_rows st"
  using assms unfolding verdicts_only_def by (elim exE conjE, simp)+

lemma joined_verdicts:
  assumes "verdicts_only S i st st'" and "\<And>p. P p \<Longrightarrow> p_session p \<notin> S"
  shows "joined st' P = joined st P"
proof -
  obtain h where st': "st' = st\<lparr>projections := map h (projections st)\<rparr>" and k: "\<forall>p. row_key (h p) = row_key p"
    and o: "\<forall>p. p_session p \<notin> S \<or> p_event p \<noteq> i \<longrightarrow> h p = p"
    using assms(1) unfolding verdicts_only_def by (elim exE conjE)
  have "filter P (map h ps) = filter P ps" for ps
  proof (induction ps)
    case (Cons p ps)
    have "P (h p) = P p \<and> (P p \<longrightarrow> h p = p)"
      using assms(2) [of p] assms(2) [of "h p"] o spec [OF k, of p] by (cases "p_session p \<in> S") (auto simp: row_key_def)
    with Cons show ?case by simp
  qed simp
  then show ?thesis by (simp add: joined_def st')
qed

text \<open>A new event with rows for other sessions is not seen by a query of this session.\<close>

lemma joined_extend:
  assumes "events st' = events st @ [e]" and "projections st' = projections st @ rows"
    and "\<forall>p \<in> set rows. \<not> P p" and "\<forall>p \<in> set (projections st). p_event p \<noteq> e_id e"
  shows "joined st' P = joined st P"
proof -
  have "filter (\<lambda>x. e_id x = p_event p) (events st') = filter (\<lambda>x. e_id x = p_event p) (events st)"
    if "p \<in> set (filter P (projections st))" for p
    using assms(1,4) that by auto
  moreover have "filter P (projections st') = filter P (projections st)"
    using assms(2,3) by simp
  ultimately show ?thesis unfolding joined_def by (intro arg_cong [where f = concat] map_cong) simp_all
qed

section \<open>The fate of an envelope\<close>

text \<open>Whether an envelope becomes an event does not depend on the store.\<close>

definition fate :: "env \<Rightarrow> envelope \<Rightarrow> ingest_error + bool" where
  "fate env v =
     (case shape_observation (ev_cel env) (ev_jq env) (v_observation v) (v_observed_at v)
             (m_shape (v_monitor v)) (m_payload (v_monitor v)) of
        Inl e \<Rightarrow> Inl (ShapeFailed e)
      | Inr sh \<Rightarrow> if sd_suppressed sh then Inr False
          else if v_urgency v = None then Inl MissingUrgency else Inr True)"

text \<open>What identifies an event's content, as the envelope determines it.\<close>

definition header :: "event \<Rightarrow> string \<times> urgency \<times> string \<times> string \<times> string \<times> string option \<times> string option \<times> ms" where
  "header e = (e_monitor e, e_urgency e, e_title e, e_body e, e_summary e, e_object e, e_ws e, e_created e)"

definition envelope_header :: "string option \<Rightarrow> envelope \<Rightarrow>
    string \<times> urgency \<times> string \<times> string \<times> string \<times> string option \<times> string option \<times> ms" where
  "envelope_header ws v =
     (let m = v_monitor v; ob = v_observation v in
      (m_id m, the (v_urgency v), default (m_name m) (o_title ob), default (o_body ob) (m_instructions m),
       default (or_else (o_summary ob) (o_body ob)) (o_title ob), Some (default (o_object_key ob) (m_id m)), ws,
       db_time (v_observed_at v)))"

lemma insert_event_some:
  assumes "e_object inp \<noteq> None"
  shows "\<exists>st' e. insert_event bd st now eid nid inp previous r = Inr (st', e) \<and> history st' = history st \<and>
     ephemerals st' = ephemerals st \<and> suppressions st' = suppressions st \<and> monitor_rows st' = monitor_rows st \<and>
     header e = (e_monitor inp, e_urgency inp, e_title inp, e_body inp, e_summary inp, e_object inp, e_ws inp, db_time (e_created inp))"
proof -
  have f: "history (foldl (project_to bd now e previous) st ss) = history st"
    "ephemerals (foldl (project_to bd now e previous) st ss) = ephemerals st"
    "suppressions (foldl (project_to bd now e previous) st ss) = suppressions st"
    "monitor_rows (foldl (project_to bd now e previous) st ss) = monitor_rows st" for e st ss
    by (rule foldl_keeps; auto simp: project_to_def Let_def seed_cursor_def split: option.splits prod.splits)+
  from assms show ?thesis
    by (auto simp: insert_event_def Let_def save_snapshot_def f header_def split: option.splits)
qed

lemma materialize_fate:
  "(case fate env v of
      Inl err \<Rightarrow> materialize_observation env st now v ws r = Inl err
    | Inr False \<Rightarrow> materialize_observation env st now v ws r = Inr None
    | Inr True \<Rightarrow> \<exists>st' e d previous sh diff. materialize_observation env st now v ws r = Inr (Some (st', e, d)) \<and>
        insert_event (ev_diff env) st now (fst (ev_ids env st)) (snd (ev_ids env st))
          (event_of v ws (the (v_urgency v)) sh diff) previous r = Inr (st', e) \<and>
        history st' = history st \<and> ephemerals st' = ephemerals st \<and> suppressions st' = suppressions st \<and>
        monitor_rows st' = monitor_rows st \<and> header e = envelope_header ws v)"
proof (cases "shape_observation (ev_cel env) (ev_jq env) (v_observation v) (v_observed_at v)
             (m_shape (v_monitor v)) (m_payload (v_monitor v))")
  case (Inr sh)
  show ?thesis
  proof (cases "sd_suppressed sh \<or> v_urgency v = None")
    case False
    then obtain u where u: "v_urgency v = Some u" by auto
    define previous where "previous = previous_content st v ws sh"
    define diff where "diff = shared_diff env v sh previous"
    define inp where "inp = event_of v ws u sh diff"
    have "e_object inp \<noteq> None" by (simp add: inp_def event_of_def Let_def)
    from insert_event_some [OF this] obtain st' e where
      i: "insert_event (ev_diff env) st now (fst (ev_ids env st)) (snd (ev_ids env st)) inp previous r = Inr (st', e)"
      and h: "history st' = history st" "ephemerals st' = ephemerals st" "suppressions st' = suppressions st"
        "monitor_rows st' = monitor_rows st" "header e = (e_monitor inp, e_urgency inp, e_title inp, e_body inp, e_summary inp, e_object inp, e_ws inp, db_time (e_created inp))"
      by blast
    have m: "materialize_observation env st now v ws r = Inr (Some (st', e, diff))"
      unfolding materialize_observation_def Let_def
      using i False u by (simp add: Inr previous_def [symmetric] diff_def [symmetric] inp_def [symmetric])
    have "header e = envelope_header ws v"
      unfolding h(5) by (simp add: inp_def event_of_def Let_def envelope_header_def object_key_for_def u)
    moreover have "fate env v = Inr True" using False Inr by (simp add: fate_def)
    ultimately show ?thesis using m i h(1,2,3,4) u unfolding inp_def by (simp, blast)
  qed (use Inr in \<open>auto simp: fate_def materialize_observation_def Let_def\<close>)
qed (simp add: fate_def materialize_observation_def Let_def)

section \<open>One envelope, then a span\<close>

text \<open>What a query of another session reads, when the recipient is restricted.\<close>

definition isolated :: "ident option \<Rightarrow> store \<Rightarrow> store \<Rightarrow> bool" where
  "isolated r st st' =
     (\<forall>i s'. r = Some i \<longrightarrow> s' \<noteq> i \<longrightarrow> joined st' (pending_row s') = joined st (pending_row s') \<and>
        joined st' (unread_row s') = joined st (unread_row s'))"

lemma isolated_trans: "isolated r a b \<Longrightarrow> isolated r b c \<Longrightarrow> isolated r a c"
  unfolding isolated_def by metis

lemma isolated_same: "events st' = events st \<Longrightarrow> projections st' = projections st \<Longrightarrow> isolated r st st'"
  by (simp add: isolated_def joined_def)

lemma targets_restricted: "x \<in> set (projection_targets st e (Some i)) \<Longrightarrow> s_id x = i"
  by (auto simp: projection_targets_def split: if_splits)

lemma inserted_isolated:
  assumes wf: "wf_store st" and fresh: "fresh_ulid st eid"
    and ins: "insert_event bd st now eid nid inp previous r = Inr (st', e)"
  shows "isolated r st st'"
proof -
  note ok = insert_event_ok [OF wf ins]
  have old: "\<forall>p \<in> set (projections st). p_event p \<noteq> e_id e"
    using wf_storeD(6) [OF wf] fresh ok(1) by (metis fresh_ulid_def)
  show ?thesis unfolding isolated_def
  proof (intro allI impI)
    fix i s' assume r: "r = Some i" and s': "s' \<noteq> i"
    have "p_session p = i" if "p \<in> set (map (\<lambda>s. fresh_row e (row_diff bd e previous st (s_id s)) (s_id s)) (projection_targets st e r))" for p
      using that targets_restricted [of _ st e i] r by (auto simp: fresh_row_def)
    with s' have "\<forall>p \<in> set (map (\<lambda>s. fresh_row e (row_diff bd e previous st (s_id s)) (s_id s)) (projection_targets st e r)). p_session p \<noteq> s'"
      by metis
    then show "joined st' (pending_row s') = joined st (pending_row s') \<and> joined st' (unread_row s') = joined st (unread_row s')"
      by (intro conjI joined_extend [OF ok(3,4) _ old]; simp only: pending_row_def unread_row_def; blast)
  qed
qed

text \<open>What posting one event does: one new event, and one new row for some of its recipients.\<close>

definition posts :: "event \<Rightarrow> ident option \<Rightarrow> store \<Rightarrow> store \<Rightarrow> bool" where
  "posts e r st st' =
     (events st' = events st @ [e] \<and> sessions st' = sessions st \<and> ephemerals st' = ephemerals st \<and>
      monitor_rows st' = monitor_rows st \<and> suppressions st' = suppressions st \<and> e_id e \<notin> e_id ` set (events st) \<and>
      (\<exists>rows. projections st' = projections st @ rows \<and>
        (\<forall>p \<in> set rows. p_event p = e_id e \<and> p_session p \<in> s_id ` set (projection_targets st e r))))"

lemma posts_verdicts:
  assumes wf: "wf_store st" and p: "posts e r st st1" and v: "verdicts_only S (e_id e) st1 st2"
  shows "posts e r st st2"
proof -
  obtain rows where rows: "projections st1 = projections st @ rows"
    "\<forall>p \<in> set rows. p_event p = e_id e \<and> p_session p \<in> s_id ` set (projection_targets st e r)"
    and e: "e_id e \<notin> e_id ` set (events st)"
    using p by (auto simp: posts_def)
  obtain h where h: "st2 = st1\<lparr>projections := map h (projections st1)\<rparr>" "\<forall>p. row_key (h p) = row_key p"
    "\<forall>p. p_session p \<notin> S \<or> p_event p \<noteq> e_id e \<longrightarrow> h p = p"
    using v unfolding verdicts_only_def by (elim exE conjE)
  have "map h (projections st) = projections st"
    by (rule map_idI) (use h(3) wf_storeD(6) [OF wf] e in metis)
  then have "projections st2 = projections st @ map h rows" by (simp add: h(1) rows(1))
  moreover have "\<forall>p \<in> set (map h rows). p_event p = e_id e \<and> p_session p \<in> s_id ` set (projection_targets st e r)"
    using rows(2) h(2) by (auto simp: row_key_def)
  ultimately show ?thesis using p by (auto simp: posts_def h(1))
qed

lemma process_step:
  assumes wf: "wf_store st" and fresh: "draws_fresh env" and f: "fate env v = Inr True"
  obtains st' e where "process_observation env st now v ws r = Inr (Some (st', e))" and "wf_store st'"
    and "events st' = events st @ [e]" and "header e = envelope_header ws v" and "history st' = history st"
    and "sessions st' = sessions st" and "isolated r st st'" and "posts e r st st'" and "e_id e = fst (ev_ids env st)"
proof -
  obtain st1 e d previous sh diff where m: "materialize_observation env st now v ws r = Inr (Some (st1, e, d))"
    and ins: "insert_event (ev_diff env) st now (fst (ev_ids env st)) (snd (ev_ids env st))
          (event_of v ws (the (v_urgency v)) sh diff) previous r = Inr (st1, e)"
    and h: "history st1 = history st" "header e = envelope_header ws v" "ephemerals st1 = ephemerals st"
      "monitor_rows st1 = monitor_rows st" "suppressions st1 = suppressions st"
    using materialize_fate [where env = env and v = v and st = st and now = now and ws = ws and r = r] unfolding f by auto
  have fr: "fresh_ulid st (fst (ev_ids env st))" using fresh by (simp add: draws_fresh_def)
  note ok = insert_event_ok [OF wf ins]
  have w1: "wf_store st1" by (rule wf_insert_event [OF wf fr ins])
  define st2 where "st2 = (case m_payload (v_monitor v) of
      Some pl \<Rightarrow> if pl_form pl = Prose then run_interpret env st1 now (v_monitor v) e d else st1 | None \<Rightarrow> st1)"
  have p: "process_observation env st now v ws r = Inr (Some (st2, e))"
    by (simp add: process_observation_def m st2_def)
  have v: "verdicts_only (set (last_projected st1)) (e_id e) st1 st2"
    unfolding st2_def by (auto simp: verdicts_refl verdicts_run_interpret split: option.splits)
  have "isolated r st1 st2" unfolding isolated_def
  proof (intro allI impI)
    fix i s' assume r: "r = Some i" and s': "s' \<noteq> i"
    have "set (last_projected st1) \<subseteq> {i}" using ok(5) targets_restricted [of _ st e i] r by auto
    then have "s' \<notin> set (last_projected st1)" using s' by auto
    then show "joined st2 (pending_row s') = joined st1 (pending_row s') \<and> joined st2 (unread_row s') = joined st1 (unread_row s')"
      by (intro conjI joined_verdicts [OF v]) (auto simp: pending_row_def unread_row_def)
  qed
  then have iso: "isolated r st st2" using inserted_isolated [OF wf fr ins] isolated_trans by blast
  have "posts e r st st1"
    unfolding posts_def using ok(1,2,3) h fr
    by (intro conjI exI [of _ "map (\<lambda>s. fresh_row e (row_diff (ev_diff env) e previous st (s_id s)) (s_id s)) (projection_targets st e r)"])
      (auto simp: ok(4) fresh_row_def fresh_ulid_def)
  then have post: "posts e r st st2" by (rule posts_verdicts [OF wf _ v])
  show thesis
    by (rule that [OF p wf_verdicts [OF v w1]])
      (use verdicts_frame [OF v] ok(1,2,3) h iso post in simp_all)
qed

lemma process_other:
  "fate env v = Inl err \<Longrightarrow> process_observation env st now v ws r = Inl err"
  "fate env v = Inr False \<Longrightarrow> process_observation env st now v ws r = Inr None"
  using materialize_fate [where env = env and v = v and st = st and now = now and ws = ws and r = r] by (auto simp: process_observation_def)

definition error_history :: "env \<Rightarrow> ms \<Rightarrow> monitor \<Rightarrow> string option \<Rightarrow> envelope \<Rightarrow> history_row list" where
  "error_history env now m ws v = (case fate env v of
     Inl err \<Rightarrow> [\<lparr>h_monitor = m_id m, h_ws = ws, h_source = m_type m, h_result = Errored,
        h_data = JObj [(''error'', JStr (ev_text env err))], h_created = db_time now\<rparr>]
   | Inr _ \<Rightarrow> [])"

lemma materialize_loop_spec:
  assumes "wf_store st" and "draws_fresh env" and "materialize_loop env now m ws r vs (st, ids) = (st', ids')"
  shows "\<exists>new. events st' = events st @ new \<and> ids' = ids @ map e_id new \<and>
     map header new = map (envelope_header ws) (filter (\<lambda>v. fate env v = Inr True) vs) \<and>
     history st' = history st @ concat (map (error_history env now m ws) vs) \<and>
     wf_store st' \<and> sessions st' = sessions st \<and> isolated r st st'"
  using assms
proof (induction vs arbitrary: st ids)
  case Nil
  then show ?case by (auto simp: isolated_same)
next
  case (Cons v vs)
  consider (err) err where "fate env v = Inl err" | (gated) "fate env v = Inr False" | (event) "fate env v = Inr True"
    by (metis (full_types) sum.exhaust)
  then show ?case
  proof cases
    case err
    let ?st1 = "errored_row env st now m ws err"
    have "materialize_loop env now m ws r vs (?st1, ids) = (st', ids')"
      using Cons.prems(3) by (simp add: process_other(1) [OF err])
    from Cons.IH [OF wf_bookkeeping(2) [OF Cons.prems(1)] Cons.prems(2) this] obtain new where
      n: "events st' = events ?st1 @ new" "ids' = ids @ map e_id new"
        "map header new = map (envelope_header ws) (filter (\<lambda>v. fate env v = Inr True) vs)"
        "history st' = history ?st1 @ concat (map (error_history env now m ws) vs)"
        "wf_store st'" "sessions st' = sessions ?st1" "isolated r ?st1 st'" by blast
    have "history ?st1 = history st @ error_history env now m ws v"
      by (simp add: errored_row_def record_history_def error_history_def err)
    moreover have "isolated r st st'" using n(7) isolated_same [of ?st1 st] isolated_trans by fastforce
    ultimately show ?thesis using n err by (intro exI [of _ new]) simp
  next
    case gated
    have "materialize_loop env now m ws r vs (st, ids) = (st', ids')"
      using Cons.prems(3) by (simp add: process_other(2) [OF gated])
    moreover have "error_history env now m ws v = []" by (simp add: gated error_history_def)
    ultimately show ?thesis using Cons.IH [OF Cons.prems(1,2)] gated by simp
  next
    case event
    obtain st1 e where p: "process_observation env st now v ws r = Inr (Some (st1, e))" and w: "wf_store st1"
      and s1: "events st1 = events st @ [e]" "header e = envelope_header ws v" "history st1 = history st"
        "sessions st1 = sessions st" "isolated r st st1"
      by (rule process_step [OF Cons.prems(1,2) event])
    have "materialize_loop env now m ws r vs (st1, ids @ [e_id e]) = (st', ids')"
      using Cons.prems(3) by (simp add: p)
    from Cons.IH [OF w Cons.prems(2) this] obtain new where
      n: "events st' = events st1 @ new" "ids' = (ids @ [e_id e]) @ map e_id new"
        "map header new = map (envelope_header ws) (filter (\<lambda>v. fate env v = Inr True) vs)"
        "history st' = history st1 @ concat (map (error_history env now m ws) vs)"
        "wf_store st'" "sessions st' = sessions st1" "isolated r st1 st'" by blast
    have "isolated r st st'" using s1(5) n(7) by (rule isolated_trans)
    moreover have "error_history env now m ws v = []" by (simp add: event error_history_def)
    ultimately show ?thesis using n s1 event by (intro exI [of _ "e # new"]) simp
  qed
qed

section \<open>Properties\<close>

definition demo_id :: "store \<Rightarrow> ident" where
  "demo_id st = replicate (Suc (sum_list (map (length \<circ> e_id) (events st)))) (CHR ''z'')"

definition demo_env :: env where
  "demo_env = \<lparr>ev_diff = text_bd, ev_cel = (\<lambda>e c. Inr (JBool (e = ''on''))), ev_jq = (\<lambda>e v. Inl ''jq''),
     ev_cal = (\<lambda>tz t. None), ev_ids = (\<lambda>st. (demo_id st, demo_id st)), ev_text = (\<lambda>e. ''failed''),
     ev_interpret = None\<rparr>"

lemma demo_env_fresh: "draws_fresh demo_env"
proof -
  have "demo_id st \<notin> e_id ` set (events st)" for st
  proof
    assume "demo_id st \<in> e_id ` set (events st)"
    then obtain e where "e \<in> set (events st)" "e_id e = demo_id st" by auto
    then have "length (demo_id st) \<in> set (map (length \<circ> e_id) (events st))" by force
    then have "length (demo_id st) \<le> sum_list (map (length \<circ> e_id) (events st))" by (rule member_le_sum_list) simp
    then show False by (simp add: demo_id_def)
  qed
  moreover have "nul \<notin> set (demo_id st)" for st by (simp add: demo_id_def nul_def)
  ultimately show ?thesis by (simp add: draws_fresh_def demo_env_def fresh_ulid_def)
qed

text \<open>
  C13: a span accounts for every envelope it is given. Each envelope becomes exactly one event,
  in order, carrying the monitor, urgency, title, body, summary, object, workspace and instant
  the envelope determines; or it fails and leaves one errored history row; or the Shape gate
  drops it. Nothing else is inserted, the returned identifiers are those of the new events, and
  one failing envelope does not stop the ones after it.
\<close>

theorem span_accounts_for_envelopes:
  assumes "wf_store st" and "draws_fresh env"
    and "materialize_span env st now m emitted observed ws source r = (st', ids)"
  shows "\<exists>new row. events st' = events st @ new \<and> ids = map e_id new \<and>
     map header new = map (envelope_header ws) (filter (\<lambda>v. fate env v = Inr True) emitted) \<and>
     history st' = history st @ row # concat (map (error_history env now m ws) emitted) \<and>
     h_result row = span_outcome observed (length emitted) source"
proof -
  let ?d = "JObj [(''observed'', JNum (show_nat observed)), (''emitted'', JNum (show_nat (length emitted)))]"
  let ?st1 = "record_history st now (m_id m) ws (m_type m) (span_outcome observed (length emitted) source) ?d"
  have l: "materialize_loop env now m ws r emitted (?st1, []) = (st', ids)"
    using assms(3) by (simp add: materialize_span_def)
  have h: "\<exists>row. history ?st1 = history st @ [row] \<and> h_result row = span_outcome observed (length emitted) source"
    by (simp add: record_history_def)
  then obtain row where row: "history ?st1 = history st @ [row]" "h_result row = span_outcome observed (length emitted) source"
    by blast
  from materialize_loop_spec [OF wf_bookkeeping(1) [OF assms(1)] assms(2) l] obtain new where
    "events st' = events ?st1 @ new" "ids = [] @ map e_id new"
    "map header new = map (envelope_header ws) (filter (\<lambda>v. fate env v = Inr True) emitted)"
    "history st' = history ?st1 @ concat (map (error_history env now m ws) emitted)" by blast
  with row show ?thesis by (intro exI [of _ new] exI [of _ row]) (simp del: concat.simps map_append)
qed

definition demo_envelope :: "string \<Rightarrow> payload_config option \<Rightarrow> envelope" where
  "demo_envelope t pl = \<lparr>v_monitor = (demo_monitor None)\<lparr>m_payload := pl\<rparr>, v_observation = demo_observation t None,
     v_observed_at = 5000, v_urgency = Some Normal\<rparr>"

definition failing_payload :: "payload_config option" where
  "failing_payload = Some \<lparr>pl_form = Structured, pl_transform = Some (Jq ''.'')\<rparr>"

theorem span_accounts_for_envelopes_witness:
  "length (snd (materialize_span demo_env demo_store 6000 (demo_monitor None)
      [demo_envelope ''a'' None, demo_envelope ''b'' failing_payload, demo_envelope ''c'' None] 3 (Some ''W'') None None)) = 2"
proof -
  let ?vs = "[demo_envelope ''a'' None, demo_envelope ''b'' failing_payload, demo_envelope ''c'' None]"
  obtain st' ids where s: "materialize_span demo_env demo_store 6000 (demo_monitor None) ?vs 3 (Some ''W'') None None = (st', ids)"
    by fastforce
  obtain new where n: "ids = map e_id new"
    "map header new = map (envelope_header (Some ''W'')) (filter (\<lambda>v. fate demo_env v = Inr True) ?vs)"
    using span_accounts_for_envelopes [OF demo_wf demo_env_fresh s] by blast
  have "fate demo_env (demo_envelope ''a'' None) = Inr True" "fate demo_env (demo_envelope ''b'' failing_payload) \<noteq> Inr True"
    "fate demo_env (demo_envelope ''c'' None) = Inr True" by code_simp+
  with n have "length ids = 2" using map_eq_imp_length_eq [OF n(2)] by simp
  with s show ?thesis by simp
qed

section \<open>Ingest\<close>

lemma ingest_spec:
  assumes wf: "wf_store st" and fresh: "draws_fresh env"
    and ing: "ingest env st now m obs ws next source r = Inr (st', ids)"
  shows "wf_store st'" and "sessions st' = sessions st" and "isolated r st st'"
    and "\<exists>new. events st' = events st @ new \<and> ids = map e_id new"
proof -
  obtain passed emitted notify where
    s: "materialize_span env (set_monitor_state st now (m_id m) ws
          (case next of Some v \<Rightarrow> Some v | None \<Rightarrow> rs_source_state (get_monitor_state st (m_id m) ws)) notify (Some now))
        now m emitted (length obs) ws source r = (st', ids)"
    using ing by (auto simp: ingest_def Let_def split: sum.splits)
  define st1 where "st1 = set_monitor_state st now (m_id m) ws
      (case next of Some v \<Rightarrow> Some v | None \<Rightarrow> rs_source_state (get_monitor_state st (m_id m) ws)) notify (Some now)"
  define d where "d = JObj [(''observed'', JNum (show_nat (length obs))), (''emitted'', JNum (show_nat (length emitted)))]"
  define st2 where "st2 = record_history st1 now (m_id m) ws (m_type m) (span_outcome (length obs) (length emitted) source) d"
  have l: "materialize_loop env now m ws r emitted (st2, []) = (st', ids)"
    using s by (simp add: materialize_span_def st1_def [symmetric] d_def [symmetric] st2_def [symmetric])
  have w: "wf_store st2" unfolding st2_def st1_def by (intro wf_bookkeeping wf)
  have e: "events st2 = events st" "projections st2 = projections st" "sessions st2 = sessions st"
    by (simp_all add: st2_def st1_def)
  from materialize_loop_spec [OF w fresh l] obtain new where
    n: "events st' = events st2 @ new" "ids = [] @ map e_id new" "wf_store st'" "sessions st' = sessions st2" "isolated r st2 st'"
    by blast
  show "wf_store st'" "sessions st' = sessions st" using n e by simp_all
  show "isolated r st st'" using isolated_same [OF e(1,2)] n(5) by (rule isolated_trans)
  show "\<exists>new. events st' = events st @ new \<and> ids = map e_id new" using n e by simp
qed

lemma isolated_queries:
  assumes "isolated (Some i) st st'" and "s \<noteq> i"
  shows "pending_events st' s u = pending_events st s u" and "unread_events st' s u = unread_events st s u"
  using assms by (simp_all add: isolated_def pending_events_def unread_events_def)

text \<open>
  An ephemeral monitor's events reach only the session that declared it. Whatever the
  observations, payload form and Interpret verdicts, after an ingest restricted to one session
  every other session has exactly the pending and unread events it had before, and the store
  stays well formed.
\<close>

lemma restricted_ingest_is_private:
  assumes "wf_store st" and "draws_fresh env"
    and "ingest env st now m obs ws next source (Some owner) = Inr (st', ids)" and "s \<noteq> owner"
  shows "pending_events st' s u = pending_events st s u \<and> unread_events st' s u = unread_events st s u \<and> wf_store st'"
  using ingest_spec [OF assms(1-3)] isolated_queries [OF _ assms(4)] by simp

lemma restricted_ingest_is_private_witness:
  "\<exists>st' ids. ingest demo_env demo_store 6000 (demo_monitor None) [demo_observation ''a'' None] (Some ''W'') None None (Some ''L'') =
      Inr (st', ids) \<and> pending_events st' ''K'' None = pending_events demo_store ''K'' None"
proof -
  let ?r = "ingest demo_env demo_store 6000 (demo_monitor None) [demo_observation ''a'' None] (Some ''W'') None None (Some ''L'')"
  have "case ?r of Inr _ \<Rightarrow> True | Inl _ \<Rightarrow> False" by code_simp
  then obtain st' ids where r: "?r = Inr (st', ids)" by (cases ?r) auto
  from restricted_ingest_is_private [OF demo_wf demo_env_fresh r, of "''K''" None] r show ?thesis by blast
qed

text \<open>
  A structured payload whose jq program answers \<open>null\<close> (or nothing) is not delivered: the
  observation's own payload is.
\<close>

lemma null_transform_delivers_raw_payload:
  assumes "sd_payload sh = Some JNull \<or> sd_payload sh = None" and "o_payload (v_observation v) = Some p" and "p \<noteq> JNull"
  shows "e_payload (event_of v ws u sh diff) = p"
  using assms by (auto simp: event_of_def Let_def nullish_def)

end
