(* ===== verification/AM_Query.thy ===== *)
theory AM_Query
  imports AM_StoreInv
begin

text \<open>
  The event query of \<open>runtime/store.ts\<close>: \<open>listEvents\<close> with \<open>scopeMatches\<close>. A query for one
  session joins that session's projections; one without a session reads the events themselves
  and leaves those of ephemeral monitors out.
\<close>

definition ephemeral_prefix :: string where
  "ephemeral_prefix = ''ephemeral:''"

text \<open>SQLite's \<open>LIKE 'ephemeral:%'\<close>, which ignores the case of ASCII letters.\<close>

definition like_ephemeral :: "string \<Rightarrow> bool" where
  "like_ephemeral m = (map lower_char (take (length ephemeral_prefix) m) = ephemeral_prefix)"

record event_query =
  q_session :: "ident option"
  q_unread :: bool
  q_monitor :: "string option"
  q_urgency :: "urgency option"
  q_object :: "string option"
  q_since :: "ms option"
  q_ws :: "string option option"
  q_tags :: "string list"
  q_scope :: "(string \<times> string) list"
  q_since_baseline :: bool

definition empty_query :: event_query where
  "empty_query = \<lparr>q_session = None, q_unread = False, q_monitor = None, q_urgency = None, q_object = None,
     q_since = None, q_ws = None, q_tags = [], q_scope = [], q_since_baseline = False\<rparr>"

definition scope_matches :: "(string \<times> scope_value) list \<Rightarrow> (string \<times> string) list \<Rightarrow> bool" where
  "scope_matches scope requested =
     list_all (\<lambda>(k, v). case map_of scope k of
         Some (SMany vs) \<Rightarrow> v \<in> set vs
       | Some (SOne w) \<Rightarrow> w = v
       | None \<Rightarrow> False) requested"

text \<open>An empty string asks for nothing: \<open>if (query.monitorId)\<close>.\<close>

definition asks :: "string option \<Rightarrow> (string \<Rightarrow> bool) \<Rightarrow> bool" where
  "asks q P = (case q of None \<Rightarrow> True | Some v \<Rightarrow> v = [] \<or> P v)"

definition query_conditions :: "event_query \<Rightarrow> event \<Rightarrow> bool" where
  "query_conditions q e =
     (asks (q_monitor q) (\<lambda>m. e_monitor e = m) \<and>
      (case q_urgency q of None \<Rightarrow> True | Some u \<Rightarrow> e_urgency e = u) \<and>
      asks (q_object q) (\<lambda>obj. e_object e = Some obj) \<and>
      (case q_since q of None \<Rightarrow> True | Some t \<Rightarrow> db_time t < e_created e) \<and>
      (case q_ws q of None \<Rightarrow> True | Some w \<Rightarrow> ws_or_global w (e_ws e)))"

definition newest_first :: "event list \<Rightarrow> event list" where
  "newest_first es = rev (ordered_by event_key es)"

definition list_events :: "store \<Rightarrow> event_query \<Rightarrow> store_error + event list" where
  "list_events st q =
     (let scoped = (case q_session q of None \<Rightarrow> None | Some s \<Rightarrow> if s = [] then None else Some s);
          rows = newest_first (filter (query_conditions q)
            (case scoped of
               Some s \<Rightarrow> joined st (\<lambda>p. p_session p = s \<and> (q_unread q \<longrightarrow> p_acked p = None))
             | None \<Rightarrow> filter (\<lambda>e. \<not> like_ephemeral (e_monitor e)) (events st)));
          tagged = filter (\<lambda>e. list_all (\<lambda>t. t \<in> set (e_tags e)) (q_tags q)) rows;
          scope = filter (\<lambda>e. scope_matches (e_scope e) (q_scope q)) tagged in
      case scoped of
        Some s \<Rightarrow>
          if q_since_baseline q
          then (case get_session st s of
              Inl e \<Rightarrow> Inl e
            | Inr ses \<Rightarrow> Inr (filter (\<lambda>e. s_baseline ses \<le> e_created e) scope))
          else Inr scope
      | None \<Rightarrow> Inr scope)"

lemma set_newest_first [simp]: "set (newest_first es) = set es"
  by (simp add: newest_first_def)

text \<open>
  What an event query returns. Without a session it is exactly the stored events that meet
  every condition, tag and scope asked for and belong to no ephemeral monitor, so an
  unscoped reader never sees another session's private events; for a session it is exactly
  those among the events projected to that session (unacknowledged, when asked). Newest first.
\<close>

lemma list_events_meaning:
  assumes "q_since_baseline q = False"
  shows "\<exists>rows. list_events st q = Inr rows \<and>
     sorted (rev (map event_key rows)) \<and>
     (\<forall>e. e \<in> set rows \<longleftrightarrow> e \<in> set (events st) \<and> query_conditions q e \<and>
        (\<forall>t \<in> set (q_tags q). t \<in> set (e_tags e)) \<and> scope_matches (e_scope e) (q_scope q) \<and>
        (if q_session q = None \<or> q_session q = Some []
         then \<not> like_ephemeral (e_monitor e)
         else (\<exists>p \<in> set (projections st). Some (p_session p) = q_session q \<and> p_event p = e_id e \<and>
                (q_unread q \<longrightarrow> p_acked p = None))))"
proof -
  have srt: "sorted (rev (map event_key (filter P (filter Q (newest_first es)))))" for P Q es
  proof -
    have "filter P (filter Q (newest_first es)) = rev (filter P (filter Q (ordered_by event_key es)))"
      by (simp add: newest_first_def rev_filter)
    moreover have "sorted (map event_key (filter P (filter Q (ordered_by event_key es))))"
      by (intro sorted_filter sorted_ordered_by)
    ultimately show ?thesis by (simp add: rev_map)
  qed
  show ?thesis
  proof (cases "q_session q = None \<or> q_session q = Some []")
    case True
    then have s: "(case q_session q of None \<Rightarrow> None | Some s \<Rightarrow> if s = [] then None else Some s) = None" by auto
    show ?thesis
      unfolding list_events_def s Let_def option.case
      by (rule exI, rule conjI [OF refl], rule conjI [OF srt]) (use True in \<open>auto simp: list_all_iff\<close>)
  next
    case False
    then obtain s where q: "q_session q = Some s" "s \<noteq> []" by auto
    then have s: "(case q_session q of None \<Rightarrow> None | Some s \<Rightarrow> if s = [] then None else Some s) = Some s" by auto
    show ?thesis
      unfolding list_events_def s Let_def option.case assms if_False
      by (rule exI, rule conjI [OF refl], rule conjI [OF srt]) (use q in \<open>auto simp: list_all_iff in_joined\<close>)
  qed
qed

lemma list_events_meaning_witness:
  "\<exists>rows. list_events empty_store empty_query = Inr rows \<and> rows = []"
  using list_events_meaning [of empty_query empty_store] by (auto simp: empty_query_def empty_store_def)

end
