(* ===== verification/AM_Lifecycle.thy ===== *)
theory AM_Lifecycle
  imports AM_MaterializeProps AM_Query
begin

text \<open>
  The lifecycle operations of \<open>runtime/service.ts\<close> around a tick: opening and closing sessions,
  declaring and cancelling ephemeral monitors, the scheduling decision, retracting and
  suppressing an object's events, and the reaping of dormant sessions. The urgency band of a
  declaration is parsed by \<open>urgencyBandSchema\<close> of \<open>schema/monitor-schema.ts\<close>. The JSON-schema
  validation of a watch scope is an argument.
\<close>

section \<open>Sessions\<close>

definition open_runtime_session :: "runtime \<Rightarrow> ms \<Rightarrow> ident \<Rightarrow> open_session_input \<Rightarrow> runtime \<times> (rt_error + ident)" where
  "open_runtime_session rt now new_id inp =
     (let (st, i) = open_session (rt_store rt) now new_id inp in
      case refresh_hook_state (rt\<lparr>rt_store := st\<rparr>) now i of
        (rt', Inl e) \<Rightarrow> (rt', Inl e)
      | (rt', Inr _) \<Rightarrow> (rt', Inr i))"

definition close_runtime_session :: "runtime \<Rightarrow> ms \<Rightarrow> ident \<Rightarrow> runtime \<times> (rt_error + unit)" where
  "close_runtime_session rt now i =
     (let st1 = close_session (rt_store rt) now i in
      case get_session st1 i of
        Inl e \<Rightarrow> (rt\<lparr>rt_store := st1\<rparr>, Inl (StoreError e))
      | Inr _ \<Rightarrow>
          (case refresh_hook_state (rt\<lparr>rt_store := fst (reap_ephemerals_for_session st1 now i)\<rparr>) now i of
             (rt', Inl e) \<Rightarrow> (rt', Inl e)
           | (rt', Inr _) \<Rightarrow> (rt', Inr ())))"

section \<open>The urgency band\<close>

fun split_dots :: "string \<Rightarrow> string list" where
  "split_dots [] = [[]]"
| "split_dots [c] = [[c]]"
| "split_dots (c # d # r) =
     (if c = CHR ''.'' \<and> d = CHR ''.'' then [] # split_dots r
      else (case split_dots (d # r) of w # ws \<Rightarrow> (c # w) # ws | [] \<Rightarrow> [[c]]))"

definition urgency_level :: "string \<Rightarrow> urgency option" where
  "urgency_level s = (if s = ''low'' then Some Low else if s = ''normal'' then Some Normal
     else if s = ''high'' then Some High else None)"

datatype band_error = NotABand | UnknownLevel | InvertedBand

definition parse_urgency_band :: "string \<Rightarrow> band_error + urgency \<times> urgency" where
  "parse_urgency_band raw =
     (let text = trim raw;
          parts = (let ps = split_dots text in if 1 < length ps then map trim ps else [text, text]) in
      case parts of
        [lo_raw, hi_raw] \<Rightarrow>
          (case (urgency_level lo_raw, urgency_level hi_raw) of
             (Some lo, Some hi) \<Rightarrow> if urgency_rank hi < urgency_rank lo then Inl InvertedBand else Inr (lo, hi)
           | _ \<Rightarrow> Inl UnknownLevel)
      | _ \<Rightarrow> Inl NotABand)"

fun urgency_text :: "urgency \<Rightarrow> string" where
  "urgency_text Low = ''low''"
| "urgency_text Normal = ''normal''"
| "urgency_text High = ''high''"

section \<open>Ephemeral monitors\<close>

datatype declare_error =
    DeclSessionMissing ident
  | DeclSessionDormant ident
  | DeclNotLead ident
  | DeclUnknownSource string
  | DeclInvalidScope "string list"
  | DeclBadType string
  | DeclBadUrgency band_error
  | DeclBlankName

record watch_decl =
  dl_session :: ident
  dl_source :: string
  dl_scope :: "(string \<times> json) list"
  dl_urgency :: "string option"
  dl_instruction :: "string option"
  dl_display :: "string option"

text \<open>The type of a watch block: a lower-case letter, then lower-case letters, digits and dashes.\<close>

definition lower_letter :: "char \<Rightarrow> bool" where
  "lower_letter c = (97 \<le> (of_char c :: nat) \<and> (of_char c :: nat) \<le> 122)"

definition kebab_type :: "string \<Rightarrow> bool" where
  "kebab_type s = (case s of [] \<Rightarrow> False
     | c # cs \<Rightarrow> lower_letter c \<and> list_all (\<lambda>d. lower_letter d \<or> is_digit d \<or> d = CHR ''-'') cs)"

text \<open>
  \<open>sources\<close> tells which observation sources are registered, \<open>scope_errors\<close> is the validation
  of a scope against its source's schema, \<open>u\<close> the drawn ULID.
\<close>

definition declare_ephemeral :: "(string \<Rightarrow> bool) \<Rightarrow> (string \<Rightarrow> (string \<times> json) list \<Rightarrow> string list) \<Rightarrow>
    store \<Rightarrow> ms \<Rightarrow> ident \<Rightarrow> watch_decl \<Rightarrow> declare_error + store \<times> ident" where
  "declare_ephemeral sources scope_errors st now u d =
     (case find_session st (dl_session d) of
        None \<Rightarrow> Inl (DeclSessionMissing (dl_session d))
      | Some s \<Rightarrow>
          if s_status s \<noteq> Active then Inl (DeclSessionDormant (s_id s))
          else if s_role s \<noteq> Lead then Inl (DeclNotLead (s_id s))
          else if \<not> sources (dl_source d) then Inl (DeclUnknownSource (dl_source d))
          else if scope_errors (dl_source d) (dl_scope d) \<noteq> [] then Inl (DeclInvalidScope (scope_errors (dl_source d) (dl_scope d)))
          else if \<not> kebab_type (dl_source d) then Inl (DeclBadType (dl_source d))
          else (case parse_urgency_band (default (dl_urgency d) ''normal'') of
              Inl e \<Rightarrow> Inl (DeclBadUrgency e)
            | Inr (lo, hi) \<Rightarrow>
                if (case dl_display d of None \<Rightarrow> False | Some n \<Rightarrow> trim n = []) then Inl DeclBlankName
                else (let i = ephemeral_prefix @ s_id s @ ''/'' @ u in
                  Inr (touch_session
                     (insert_ephemeral st now
                        \<lparr>t_id = i, t_session = s_id s, t_ws = s_ws s, t_source = dl_source d, t_scope = dl_scope d,
                          t_urgency = lo, t_urgency_max = hi, t_instruction = default (dl_instruction d) [],
                          t_display = dl_display d, t_status = EActive, t_created = now, t_updated = now,
                          t_reaped = None\<rparr>) now (s_id s), i))))"

definition cancel_ephemeral :: "store \<Rightarrow> ms \<Rightarrow> ident \<Rightarrow> ident \<Rightarrow> store_error + store \<times> ephemeral" where
  "cancel_ephemeral st now s i =
     (case find_ephemeral st i of
        None \<Rightarrow> Inl (EphemeralNotFound i)
      | Some t \<Rightarrow>
          if t_session t \<noteq> s then Inl (EphemeralNotFound i)
          else (let st' = reap_ephemeral st now i in
            case get_ephemeral st' i of Inl e \<Rightarrow> Inl e | Inr t' \<Rightarrow> Inr (st', t')))"

text \<open>The monitor an ephemeral record stands for: schema defaults for what it does not declare.\<close>

definition ephemeral_monitor :: "ephemeral \<Rightarrow> monitor" where
  "ephemeral_monitor t =
     \<lparr>m_id = t_id t, m_display = default (t_display t) (t_id t),
       m_name = (case t_display t of None \<Rightarrow> None | Some n \<Rightarrow> if n = [] then None else Some n),
       m_type = t_source t, m_config = filter (\<lambda>(k, v). k \<noteq> ''type'') (t_scope t),
       m_urgency = t_urgency t, m_urgency_max = Some (t_urgency_max t), m_notify = None, m_baseline = Net,
       m_tags = None, m_shape = None, m_payload = None, m_instructions = t_instruction t, m_file = []\<rparr>"

section \<open>Scheduling\<close>

definition file_fingerprint_poll_ms :: ms where "file_fingerprint_poll_ms = 30000"
definition api_poll_ms :: ms where "api_poll_ms = 300000"
definition schedule_tick_ms :: ms where "schedule_tick_ms = 60000"

record polling =
  pg_due :: bool
  pg_next :: ms
  pg_error :: "cron_error option"

definition schedule_for_monitor :: "env \<Rightarrow> store \<Rightarrow> ms \<Rightarrow> monitor \<Rightarrow> string option \<Rightarrow> duration_error + polling" where
  "schedule_for_monitor env st now m ws =
     (let elapsed = now - default (rs_last_observation (get_monitor_state st (m_id m) ws)) 0;
          interval = map_of (m_config m) ''interval'' in
      if m_type m = ''schedule'' then
        (case map_of (m_config m) ''cron'' of
           Some (JStr cron) \<Rightarrow>
             (case cron_matches_date (ev_cal env) cron now
                  (case map_of (m_config m) ''timezone'' of Some (JStr tz) \<Rightarrow> tz | _ \<Rightarrow> ''UTC'') of
                Inl e \<Rightarrow> Inr \<lparr>pg_due = False, pg_next = schedule_tick_ms, pg_error = Some e\<rparr>
              | Inr matches \<Rightarrow> Inr \<lparr>pg_due = matches \<and> schedule_tick_ms \<le> elapsed, pg_next = schedule_tick_ms, pg_error = None\<rparr>)
         | _ \<Rightarrow> Inr \<lparr>pg_due = False, pg_next = schedule_tick_ms, pg_error = None\<rparr>)
      else (case interval of
          Some (JStr text) \<Rightarrow>
            (case parse_duration text of
               Inl e \<Rightarrow> Inl e
             | Inr ms \<Rightarrow> Inr \<lparr>pg_due = ms \<le> elapsed, pg_next = ms, pg_error = None\<rparr>)
        | _ \<Rightarrow>
            (let ms = (if m_type m = ''api-poll'' then api_poll_ms else file_fingerprint_poll_ms) in
             Inr \<lparr>pg_due = ms \<le> elapsed, pg_next = ms, pg_error = None\<rparr>)))"

section \<open>Retraction and suppression\<close>

fun refresh_all :: "runtime \<Rightarrow> ms \<Rightarrow> ident list \<Rightarrow> runtime \<times> (rt_error + unit)" where
  "refresh_all rt now [] = (rt, Inr ())"
| "refresh_all rt now (s # ss) =
     (case refresh_hook_state rt now s of
        (rt', Inl e) \<Rightarrow> (rt', Inl e)
      | (rt', Inr _) \<Rightarrow> refresh_all rt' now ss)"

definition retract_runtime_events :: "runtime \<Rightarrow> ms \<Rightarrow> string option option \<Rightarrow> string \<Rightarrow> string \<Rightarrow> ident list \<Rightarrow>
    runtime \<times> (rt_error + nat)" where
  "retract_runtime_events rt now ws mon obj ids =
     (let (st, removed, affected) = retract_object_events (rt_store rt) ws mon obj ids in
      case refresh_all (rt\<lparr>rt_store := st\<rparr>) now affected of
        (rt', Inl e) \<Rightarrow> (rt', Inl e)
      | (rt', Inr _) \<Rightarrow> (rt', Inr (length removed)))"

definition verify_prefix :: string where
  "verify_prefix = ''agentmonitors-verify-''"

definition hex_digit :: "char \<Rightarrow> bool" where
  "hex_digit c = (is_digit c \<or> (97 \<le> (of_char c :: nat) \<and> (of_char c :: nat) \<le> 102))"

definition line_break :: "char \<Rightarrow> bool" where
  "line_break c = (c = CHR 0x0A \<or> c = CHR 0x0D)"

text \<open>The pattern of \<open>isVerifyScratchObjectKey\<close> on the last path component.\<close>

definition is_verify_scratch_key :: "string \<Rightarrow> bool" where
  "is_verify_scratch_key key =
     (let base = last (concat (map (split_on (CHR 0x5C)) (split_on (CHR ''/'') key)));
          n = length verify_prefix; rest = drop (n + 12) base in
      take n base = verify_prefix \<and> length (take 12 (drop n base)) = 12 \<and>
      list_all hex_digit (take 12 (drop n base)) \<and>
      (rest = [] \<or> (hd rest = CHR ''.'' \<and> \<not> list_ex line_break (tl rest))))"

definition suppress_object_events :: "runtime \<Rightarrow> ms \<Rightarrow> string \<Rightarrow> string \<Rightarrow> string option \<Rightarrow> ms \<Rightarrow>
    runtime \<times> (rt_error + nat)" where
  "suppress_object_events rt now mon obj ws ttl =
     (if \<not> is_verify_scratch_key obj then (rt, Inl (NotScratchKey obj))
      else (let st1 = upsert_suppression (rt_store rt) mon obj ws None now (now + ttl);
                (st2, removed, affected) = retract_object_events_by_key st1 (Some ws) mon obj in
            case refresh_all (rt\<lparr>rt_store := st2\<rparr>) now affected of
              (rt', Inl e) \<Rightarrow> (rt', Inl e)
            | (rt', Inr _) \<Rightarrow> (rt', Inr (length removed))))"

fun apply_suppression_loop :: "runtime \<Rightarrow> ms \<Rightarrow> suppression list \<Rightarrow> runtime \<times> (rt_error + unit)" where
  "apply_suppression_loop rt now [] = (rt, Inr ())"
| "apply_suppression_loop rt now (x # xs) =
     (let (st, removed, affected) =
        retract_object_events_by_key (rt_store rt) (Some (x_ws x)) (x_monitor x) (x_object x) in
      case refresh_all (rt\<lparr>rt_store := st\<rparr>) now affected of
        (rt', Inl e) \<Rightarrow> (rt', Inl e)
      | (rt', Inr _) \<Rightarrow> apply_suppression_loop rt' now xs)"

definition apply_object_suppressions :: "runtime \<Rightarrow> ms \<Rightarrow> string option \<Rightarrow> runtime \<times> (rt_error + unit)" where
  "apply_object_suppressions rt now ws =
     (case apply_suppression_loop rt now (active_suppressions (rt_store rt) ws now) of
        (rt', Inl e) \<Rightarrow> (rt', Inl e)
      | (rt', Inr _) \<Rightarrow> (rt'\<lparr>rt_store := purge_suppressions (rt_store rt') now\<rparr>, Inr ()))"

section \<open>Reaping dormant sessions\<close>

definition session_dormancy_ms :: ms where "session_dormancy_ms = 1800000"
definition orphaned_suppression_ttl_ms :: ms where "orphaned_suppression_ttl_ms = 300000"
definition orphaned_suppression_margin_ms :: ms where "orphaned_suppression_margin_ms = 60000"

text \<open>The scratch objects among a session's events: the first event of each monitor and key.\<close>

fun scratch_objects_loop :: "string list \<Rightarrow> event list \<Rightarrow> (string \<times> string \<times> string option) list" where
  "scratch_objects_loop seen [] = []"
| "scratch_objects_loop seen (e # es) =
     (case e_object e of
        None \<Rightarrow> scratch_objects_loop seen es
      | Some obj \<Rightarrow>
          if \<not> is_verify_scratch_key obj then scratch_objects_loop seen es
          else (let key = e_monitor e @ ''::'' @ obj in
            if key \<in> set seen then scratch_objects_loop seen es
            else (e_monitor e, obj, e_ws e) # scratch_objects_loop (key # seen) es))"

definition verify_scratch_objects :: "store \<Rightarrow> ident \<Rightarrow> (string \<times> string \<times> string option) list" where
  "verify_scratch_objects st s =
     (case list_events st (empty_query\<lparr>q_session := Some s\<rparr>) of
        Inl _ \<Rightarrow> [] | Inr es \<Rightarrow> scratch_objects_loop [] es)"

definition orphan_suppression_ttl :: "env \<Rightarrow> store \<Rightarrow> ms \<Rightarrow> monitor option \<Rightarrow> string option \<Rightarrow> duration_error + ms" where
  "orphan_suppression_ttl env st now monitor ws =
     (case monitor of
        None \<Rightarrow> Inr orphaned_suppression_ttl_ms
      | Some m \<Rightarrow>
          (case schedule_for_monitor env st now m ws of
             Inl e \<Rightarrow> Inl e
           | Inr p \<Rightarrow>
               (let settle = (case m_notify m of
                    Some (Debounce w) \<Rightarrow> (case parse_duration w of Inl _ \<Rightarrow> 0 | Inr ms \<Rightarrow> ms)
                  | Some (Throttle w) \<Rightarrow> (case parse_duration w of Inl _ \<Rightarrow> 0 | Inr ms \<Rightarrow> ms)
                  | _ \<Rightarrow> 0) in
                Inr (max orphaned_suppression_ttl_ms (pg_next p + settle + orphaned_suppression_margin_ms)))))"

datatype tick_error = RuntimeFailed rt_error | BadInterval duration_error | UnknownTickSource ident string | DuplicateIds "ident list"

fun suppress_orphans :: "env \<Rightarrow> (ident \<rightharpoonup> monitor) \<Rightarrow> runtime \<Rightarrow> ms \<Rightarrow> (string \<times> string \<times> string option) list \<Rightarrow>
    runtime \<times> (tick_error + unit)" where
  "suppress_orphans env monitors rt now [] = (rt, Inr ())"
| "suppress_orphans env monitors rt now ((mon, obj, ws) # objs) =
     (case orphan_suppression_ttl env (rt_store rt) now (monitors mon) ws of
        Inl e \<Rightarrow> (rt, Inl (BadInterval e))
      | Inr ttl \<Rightarrow>
          (case suppress_object_events rt now mon obj ws ttl of
             (rt', Inl e) \<Rightarrow> (rt', Inl (RuntimeFailed e))
           | (rt', Inr _) \<Rightarrow> suppress_orphans env monitors rt' now objs))"

fun reap_loop :: "env \<Rightarrow> (ident \<rightharpoonup> monitor) \<Rightarrow> runtime \<Rightarrow> ms \<Rightarrow> session list \<Rightarrow> runtime \<times> (tick_error + unit)" where
  "reap_loop env monitors rt now [] = (rt, Inr ())"
| "reap_loop env monitors rt now (s # ss) =
     (let objs = (if take (length verify_prefix) (s_host s) = verify_prefix
                  then verify_scratch_objects (rt_store rt) (s_id s) else []) in
      case close_runtime_session rt now (s_id s) of
        (rt1, Inl e) \<Rightarrow> (rt1, Inl (RuntimeFailed e))
      | (rt1, Inr _) \<Rightarrow>
          (case suppress_orphans env monitors rt1 now objs of
             (rt2, Inl e) \<Rightarrow> (rt2, Inl e)
           | (rt2, Inr _) \<Rightarrow> reap_loop env monitors rt2 now ss))"

definition reap_dormant_sessions :: "env \<Rightarrow> ms \<Rightarrow> (ident \<rightharpoonup> monitor) \<Rightarrow> runtime \<Rightarrow> ms \<Rightarrow> string option \<Rightarrow>
    runtime \<times> (tick_error + unit)" where
  "reap_dormant_sessions env dormancy monitors rt now ws =
     reap_loop env monitors rt now (stale_active_sessions (rt_store rt) ws (now - dormancy))"

end
