(* ===== verification/AM_Tick.thy ===== *)
theory AM_Tick
  imports AM_Lifecycle
begin

text \<open>
  One tick of the daemon, \<open>runtime/service.ts\<close>: \<open>evaluateMonitorOnTick\<close>, \<open>tick\<close>,
  \<open>refreshWorkspaceSessions\<close> and the watch checkpoint. The directory scan and the observation
  sources are arguments: the scan's monitors and duplicate ids, and \<open>host\<close>, which tells what
  a source answers when a monitor is observed. One instant stands for the clock of a tick.
\<close>

section \<open>The host\<close>

record observed =
  ob_observations :: "observation list"
  ob_next :: "json option"
  ob_outcome :: "outcome option"

record host =
  ho_sources :: "string \<Rightarrow> bool"
  ho_observe :: "ident \<Rightarrow> (string \<times> json) list \<Rightarrow> json option \<Rightarrow> ms \<Rightarrow> string option \<Rightarrow> string + observed"
  ho_watched :: "ident \<Rightarrow> bool"
  ho_dormancy :: ms

record accum =
  ac_evaluated :: "ident list"
  ac_emitted :: "ident list"
  ac_errored :: "(ident \<times> ingest_error) list"
  ac_skipped :: "(ident \<times> ms) list"

definition empty_accum :: accum where
  "empty_accum = \<lparr>ac_evaluated = [], ac_emitted = [], ac_errored = [], ac_skipped = []\<rparr>"

section \<open>One monitor\<close>

definition report_error :: "ident \<Rightarrow> ingest_error \<Rightarrow> accum \<Rightarrow> accum" where
  "report_error i e acc = acc\<lparr>ac_errored := ac_errored acc @ [(i, e)]\<rparr>"

definition report_emitted :: "ident list \<Rightarrow> accum \<Rightarrow> accum" where
  "report_emitted ids acc = acc\<lparr>ac_emitted := ac_emitted acc @ ids\<rparr>"

definition monitor_failed :: "env \<Rightarrow> ms \<Rightarrow> string option \<Rightarrow> monitor \<Rightarrow> ingest_error \<Rightarrow> store \<times> accum \<Rightarrow> store \<times> accum" where
  "monitor_failed env now ws m e = (\<lambda>(st, acc). (errored_row env st now m ws e, report_error (m_id m) e acc))"

text \<open>A monitor that is not due: a rollup's window may close all the same.\<close>

definition skip_monitor :: "env \<Rightarrow> ms \<Rightarrow> string option \<Rightarrow> ident option \<Rightarrow> monitor \<Rightarrow> ms \<Rightarrow> store \<times> accum \<Rightarrow> store \<times> accum" where
  "skip_monitor env now ws restrict m poll = (\<lambda>(st, acc).
     (let state = get_monitor_state st (m_id m) ws;
          next_due = default (rs_last_observation state) now + poll;
          acc1 = acc\<lparr>ac_skipped := ac_skipped acc @ [(m_id m, next_due)]\<rparr> in
      if \<not> is_rollup m then (st, acc1)
      else (case dispatch_rollup (ev_cal env) m [] now (rs_notify state) of
          Inl e \<Rightarrow> monitor_failed env now ws m (NotifyFailed e) (st, acc1)
        | Inr (emitted, notify) \<Rightarrow>
            (let st1 = set_monitor_state st now (m_id m) ws (rs_source_state state) notify (rs_last_observation state) in
             if emitted = [] then (st1, acc1)
             else (let (st2, ids) = materialize_span env st1 now m emitted 0 ws None restrict in
                   (st2, report_emitted ids acc1))))))"

definition observe_monitor :: "env \<Rightarrow> host \<Rightarrow> ms \<Rightarrow> string option \<Rightarrow> ident option \<Rightarrow> monitor \<Rightarrow> store \<times> accum \<Rightarrow> store \<times> accum" where
  "observe_monitor env host now ws restrict m = (\<lambda>(st, acc).
     (let acc1 = acc\<lparr>ac_evaluated := ac_evaluated acc @ [m_id m]\<rparr> in
      case ho_observe host (m_id m) (m_config m) (rs_source_state (get_monitor_state st (m_id m) ws)) now ws of
        Inl msg \<Rightarrow> monitor_failed env now ws m (ObserveFailed msg) (st, acc1)
      | Inr result \<Rightarrow>
          (case ingest env st now m (ob_observations result) ws (ob_next result) (ob_outcome result) restrict of
             Inl e \<Rightarrow> monitor_failed env now ws m e (st, acc1)
           | Inr (st', ids) \<Rightarrow> (st', report_emitted ids acc1))))"

definition evaluate_monitor :: "env \<Rightarrow> host \<Rightarrow> ms \<Rightarrow> string option \<Rightarrow> ident option \<Rightarrow> monitor \<Rightarrow> store \<times> accum \<Rightarrow>
    duration_error + store \<times> accum" where
  "evaluate_monitor env host now ws restrict m sa =
     (if ho_watched host (m_id m) then Inr sa
      else (case schedule_for_monitor env (fst sa) now m ws of
          Inl e \<Rightarrow> Inl e
        | Inr p \<Rightarrow>
            (case pg_error p of
               Some e \<Rightarrow> Inr (monitor_failed env now ws m (ScheduleFailed e) sa)
             | None \<Rightarrow> if pg_due p then Inr (observe_monitor env host now ws restrict m sa)
                  else Inr (skip_monitor env now ws restrict m (pg_next p) sa))))"

section \<open>The two passes\<close>

text \<open>Authored monitors: an unknown source or a malformed interval aborts the tick.\<close>

fun authored_pass :: "env \<Rightarrow> host \<Rightarrow> ms \<Rightarrow> string option \<Rightarrow> monitor list \<Rightarrow> store \<times> accum \<Rightarrow>
    store \<times> (tick_error + accum)" where
  "authored_pass env host now ws [] sa = (fst sa, Inr (snd sa))"
| "authored_pass env host now ws (m # ms) sa =
     (if \<not> ho_sources host (m_type m) then (fst sa, Inl (UnknownTickSource (m_id m) (m_type m)))
      else (case evaluate_monitor env host now ws None m sa of
          Inl e \<Rightarrow> (fst sa, Inl (BadInterval e))
        | Inr sa' \<Rightarrow> authored_pass env host now ws ms sa'))"

text \<open>Ephemeral monitors: the same failures are reported and the pass goes on.\<close>

definition ephemeral_step :: "env \<Rightarrow> host \<Rightarrow> ms \<Rightarrow> string option \<Rightarrow> store \<times> accum \<Rightarrow> ephemeral \<Rightarrow> store \<times> accum" where
  "ephemeral_step env host now ws sa t =
     (if \<not> ho_sources host (t_source t)
      then (fst sa, report_error (t_id t) (UnknownSource (t_source t)) (snd sa))
      else (case evaluate_monitor env host now ws (Some (t_session t)) (ephemeral_monitor t) sa of
          Inl e \<Rightarrow> (fst sa, report_error (t_id t) (IntervalInvalid e) (snd sa))
        | Inr sa' \<Rightarrow> sa'))"

definition ephemeral_pass :: "env \<Rightarrow> host \<Rightarrow> ms \<Rightarrow> string option \<Rightarrow> store \<times> accum \<Rightarrow> store \<times> accum" where
  "ephemeral_pass env host now ws sa =
     foldl (ephemeral_step env host now ws) sa (list_active_ephemerals (fst sa) ws)"

section \<open>The tick\<close>

definition refresh_workspace_sessions :: "runtime \<Rightarrow> ms \<Rightarrow> string option \<Rightarrow> runtime \<times> (rt_error + unit)" where
  "refresh_workspace_sessions rt now ws = refresh_all rt now (map s_id (sessions_for_workspace (rt_store rt) ws))"

definition tick_end :: "runtime \<Rightarrow> ms \<Rightarrow> string option \<Rightarrow> runtime \<times> (tick_error + unit)" where
  "tick_end rt now ws =
     (case apply_object_suppressions rt now ws of
        (rt1, Inl e) \<Rightarrow> (rt1, Inl (RuntimeFailed e))
      | (rt1, Inr _) \<Rightarrow>
          (case refresh_workspace_sessions rt1 now ws of
             (rt2, Inl e) \<Rightarrow> (rt2, Inl (RuntimeFailed e))
           | (rt2, Inr _) \<Rightarrow> (rt2, Inr ())))"

definition tick :: "env \<Rightarrow> host \<Rightarrow> runtime \<Rightarrow> ms \<Rightarrow> monitor list \<Rightarrow> ident list \<Rightarrow> string \<Rightarrow>
    runtime \<times> (tick_error + accum)" where
  "tick env host rt now monitors duplicates workspace =
     (if duplicates \<noteq> [] then (rt, Inl (DuplicateIds duplicates))
      else (case reap_dormant_sessions env (ho_dormancy host) (map_of (rev (map (\<lambda>m. (m_id m, m)) monitors))) rt now (Some workspace) of
          (rt1, Inl e) \<Rightarrow> (rt1, Inl e)
        | (rt1, Inr _) \<Rightarrow>
            (case authored_pass env host now (Some workspace) monitors (rt_store rt1, empty_accum) of
               (st2, Inl e) \<Rightarrow> (rt1\<lparr>rt_store := st2\<rparr>, Inl e)
             | (st2, Inr acc) \<Rightarrow>
                 (let (st3, acc') = ephemeral_pass env host now (Some workspace) (st2, acc) in
                  case tick_end (rt1\<lparr>rt_store := st3\<rparr>) now (Some workspace) of
                    (rt4, Inl e) \<Rightarrow> (rt4, Inl e)
                  | (rt4, Inr _) \<Rightarrow> (rt4, Inr acc')))))"

text \<open>The checkpoint a watching source writes: its state only.\<close>

definition write_checkpoint :: "store \<Rightarrow> ms \<Rightarrow> ident \<Rightarrow> string option \<Rightarrow> json option \<Rightarrow> store" where
  "write_checkpoint st now mon ws next_state =
     (let cur = get_monitor_state st mon ws in
      set_monitor_state st now mon ws next_state (rs_notify cur) (rs_last_observation cur))"

end
