(* ===== verification/AM_StoreOps.thy ===== *)
theory AM_StoreOps
  imports AM_Tick AM_TwoPhase
begin

text \<open>
  What every store operation of a tick keeps, stated once as a locale over an invariant of the
  store: its laws are about the primitive operations, its lemmas about everything a tick
  composes from them, up to \<open>tick\<close> itself.
\<close>

section \<open>Envelopes keep their monitor\<close>

definition held :: "notify_state \<Rightarrow> envelope list" where
  "held n = (case ns_debounce n of None \<Rightarrow> [] | Some p \<Rightarrow> pd_observations p) @ default (ns_rollup n) []"

definition of_monitor :: "ident \<Rightarrow> envelope list \<Rightarrow> bool" where
  "of_monitor i vs = (\<forall>v \<in> set vs. m_id (v_monitor v) = i)"

lemma of_monitor_simps [simp]:
  "of_monitor i []" "of_monitor i (v # vs) = (m_id (v_monitor v) = i \<and> of_monitor i vs)"
  "of_monitor i (vs @ ws) = (of_monitor i vs \<and> of_monitor i ws)"
  "of_monitor i (map hydrate_envelope vs) = of_monitor i vs"
  "of_monitor (m_id m) (map (\<lambda>ob. serialize_observation m ob t) obs)"
  "m_id (v_monitor (serialize_observation m ob t)) = m_id m"
  by (auto simp: of_monitor_def hydrate_envelope_def serialize_observation_def)

lemma held_debounce_update [simp]:
  "of_monitor i (held (n\<lparr>ns_debounce := None\<rparr>)) = of_monitor i (default (ns_rollup n) [])"
  "of_monitor i (held (n\<lparr>ns_debounce := Some p\<rparr>)) = (of_monitor i (pd_observations p) \<and> of_monitor i (default (ns_rollup n) []))"
  "held (n\<lparr>ns_suppressed_until := t\<rparr>) = held n" "held (n\<lparr>ns_last_fired := k\<rparr>) = held n"
  by (simp_all add: held_def)

lemma held_parts: "of_monitor i (held n) \<Longrightarrow> ns_debounce n = Some p \<Longrightarrow> of_monitor i (pd_observations p)"
  "of_monitor i (held n) \<Longrightarrow> of_monitor i (default (ns_rollup n) [])"
  by (simp_all add: held_def)

lemma dispatch_one_monitor:
  assumes "dispatch_one m now (em, n) ob = Inr (em', n')" and "of_monitor (m_id m) em" and "of_monitor (m_id m) (held n)"
  shows "of_monitor (m_id m) em' \<and> of_monitor (m_id m) (held n')"
  using assms
  by (auto simp: dispatch_one_def Let_def held_parts split: option.splits bool.splits notify.splits sum.splits if_splits)

lemma dispatch_loop_monitor:
  assumes "dispatch_loop m now (em, n) obs = Inr (em', n')" and "of_monitor (m_id m) em" and "of_monitor (m_id m) (held n)"
  shows "of_monitor (m_id m) em' \<and> of_monitor (m_id m) (held n')"
  using assms
proof (induction obs arbitrary: em n)
  case (Cons ob obs)
  then obtain em1 n1 where "dispatch_one m now (em, n) ob = Inr (em1, n1)" "dispatch_loop m now (em1, n1) obs = Inr (em', n')"
    by (auto split: sum.splits)
  with Cons.IH [of em1 n1] dispatch_one_monitor [of m now em n ob em1 n1] Cons.prems(2,3) show ?case by blast
qed simp

lemma dispatch_rollup_monitor:
  assumes "dispatch_rollup cal m obs now n = Inr (em, n')" and "of_monitor (m_id m) (held n)"
  shows "of_monitor (m_id m) em \<and> of_monitor (m_id m) (held n')"
proof -
  note h = held_parts [OF assms(2)]
  show ?thesis using assms(1,2) h
    by (auto simp: dispatch_rollup_def Let_def split: option.splits notify.splits sum.splits if_splits)
      (auto simp: held_def split: option.splits)
qed

lemma dispatch_notify_monitor:
  assumes "dispatch_notify cal m obs now n = Inr (em, n')" and "of_monitor (m_id m) (held n)"
  shows "of_monitor (m_id m) em \<and> of_monitor (m_id m) (held n')"
proof (cases "is_rollup m")
  case True
  with assms dispatch_rollup_monitor [of cal m obs now "n\<lparr>ns_debounce := None\<rparr>" em n'] show ?thesis
    by (simp add: dispatch_notify_def held_parts(2))
next
  case False
  obtain em0 n0 where d: "(case ns_debounce n of Some p \<Rightarrow> if pd_due p \<le> now
      then (map hydrate_envelope (pd_observations p), n\<lparr>ns_debounce := None\<rparr>) else ([], n) | None \<Rightarrow> ([], n)) = (em0, n0)"
    by fastforce
  then have "of_monitor (m_id m) em0 \<and> of_monitor (m_id m) (held n0)"
    using assms(2) held_parts [OF assms(2)] by (auto split: option.splits if_splits)
  with assms(1) False d dispatch_loop_monitor [of m now em0 n0 obs em n'] show ?thesis
    by (simp add: dispatch_notify_def Let_def)
qed

section \<open>The interface\<close>

locale store_ops =
  fixes I :: "store \<Rightarrow> bool"
  assumes keeps_history: "I st \<Longrightarrow> I (record_history st now mon ws src res d)"
    and keeps_monitor_state: "I st \<Longrightarrow> of_monitor mon (held n) \<Longrightarrow> I (set_monitor_state st now mon ws s n t)"
    and state_typed: "I st \<Longrightarrow> of_monitor mon (held (rs_notify (get_monitor_state st mon ws)))"
    and keeps_close: "I st \<Longrightarrow> I (close_session st now i)"
    and keeps_reap: "I st \<Longrightarrow> I (fst (reap_ephemerals_for_session st now i))"
    and keeps_by_key: "I st \<Longrightarrow> is_verify_scratch_key obj \<Longrightarrow> I (fst (retract_object_events_by_key st ws' mon obj))"
    and scratch_only: "I st \<Longrightarrow> x \<in> set (suppressions st) \<Longrightarrow> is_verify_scratch_key (x_object x)"
    and keeps_suppression: "I st \<Longrightarrow> is_verify_scratch_key obj \<Longrightarrow> I (upsert_suppression st mon obj ws reason created expires)"
    and keeps_purge: "I st \<Longrightarrow> I (purge_suppressions st now)"

text \<open>Which monitor may post, and to which restriction; \<open>env\<close> draws the identifiers.\<close>

locale ingest_ops = store_ops I for I :: "store \<Rightarrow> bool" +
  fixes allowed :: "ident \<Rightarrow> ident option \<Rightarrow> bool" and env :: env
  assumes keeps_process: "I st \<Longrightarrow> allowed (m_id (v_monitor v)) r \<Longrightarrow>
        process_observation env st now v ws r = Inr (Some (st', e)) \<Longrightarrow> I st'"
    and owner_allowed: "I st \<Longrightarrow> x \<in> set (ephemerals st) \<Longrightarrow> allowed (t_id x) (Some (t_session x))"

section \<open>The runtime operations of a tick\<close>

lemma refresh_all_store [simp]: "rt_store (fst (refresh_all rt now ss)) = rt_store rt"
proof (induction ss arbitrary: rt)
  case (Cons s ss)
  obtain rt' x where r: "refresh_hook_state rt now s = (rt', x)" by fastforce
  have "rt_store rt' = rt_store rt" using refresh_frame(1) [of rt now s] r by simp
  with Cons show ?case by (simp add: r split: sum.splits)
qed simp

context store_ops begin

lemma keeps_close_runtime: "I (rt_store rt) \<Longrightarrow> I (rt_store (fst (close_runtime_session rt now i)))"
proof -
  assume a: "I (rt_store rt)"
  let ?st = "fst (reap_ephemerals_for_session (close_session (rt_store rt) now i) now i)"
  obtain rt' x where r: "refresh_hook_state (rt\<lparr>rt_store := ?st\<rparr>) now i = (rt', x)" by fastforce
  have "rt_store rt' = ?st" using refresh_frame(1) [of "rt\<lparr>rt_store := ?st\<rparr>" now i] r by simp
  then show ?thesis using a keeps_close [OF a, of now i] keeps_reap [OF keeps_close [OF a, of now i]]
    by (simp add: close_runtime_session_def Let_def r split: sum.splits)
qed

lemma keeps_suppress_events: "I (rt_store rt) \<Longrightarrow> I (rt_store (fst (suppress_object_events rt now mon obj ws ttl)))"
proof (cases "is_verify_scratch_key obj")
  assume a: "I (rt_store rt)" and key: "is_verify_scratch_key obj"
  let ?st1 = "upsert_suppression (rt_store rt) mon obj ws None now (now + ttl)"
  obtain st2 removed affected where d: "retract_object_events_by_key ?st1 (Some ws) mon obj = (st2, removed, affected)"
    by (cases "retract_object_events_by_key ?st1 (Some ws) mon obj")
  have "I (fst (retract_object_events_by_key ?st1 (Some ws) mon obj))" by (intro keeps_by_key keeps_suppression a key)
  then have k: "I st2" by (simp add: d)
  obtain rt' x where r: "refresh_all (rt\<lparr>rt_store := st2\<rparr>) now affected = (rt', x)" by fastforce
  have "rt_store rt' = st2" using refresh_all_store [of "rt\<lparr>rt_store := st2\<rparr>" now affected] r by simp
  with a k key show ?thesis by (simp add: suppress_object_events_def Let_def d r split: sum.splits)
qed (simp add: suppress_object_events_def)

lemma keeps_suppression_loop:
  "I (rt_store rt) \<Longrightarrow> \<forall>x \<in> set xs. is_verify_scratch_key (x_object x) \<Longrightarrow> I (rt_store (fst (apply_suppression_loop rt now xs)))"
proof (induction xs arbitrary: rt)
  case (Cons x xs)
  obtain st removed affected where d: "retract_object_events_by_key (rt_store rt) (Some (x_ws x)) (x_monitor x) (x_object x) = (st, removed, affected)"
    by (cases "retract_object_events_by_key (rt_store rt) (Some (x_ws x)) (x_monitor x) (x_object x)")
  have k: "I st" using keeps_by_key [OF Cons.prems(1), of "x_object x" "Some (x_ws x)" "x_monitor x"] Cons.prems(2) d by simp
  obtain rt' y where r: "refresh_all (rt\<lparr>rt_store := st\<rparr>) now affected = (rt', y)" by fastforce
  have s: "rt_store rt' = st" using refresh_all_store [of "rt\<lparr>rt_store := st\<rparr>" now affected] r by simp
  with Cons.IH [of rt'] Cons.prems(2) k show ?case by (simp add: d r split: sum.splits)
qed simp

lemma keeps_suppressions: "I (rt_store rt) \<Longrightarrow> I (rt_store (fst (apply_object_suppressions rt now ws)))"
  using keeps_suppression_loop [of rt "active_suppressions (rt_store rt) ws now" now] scratch_only [of "rt_store rt"]
  by (auto simp: active_suppressions_def apply_object_suppressions_def keeps_purge split: prod.splits sum.splits)

lemma keeps_tick_end: "I (rt_store rt) \<Longrightarrow> I (rt_store (fst (tick_end rt now ws)))"
proof -
  assume a: "I (rt_store rt)"
  obtain rt1 x where s: "apply_object_suppressions rt now ws = (rt1, x)" by fastforce
  obtain rt2 y where r: "refresh_workspace_sessions rt1 now ws = (rt2, y)" by fastforce
  have "I (rt_store rt1)" using keeps_suppressions [OF a, of now ws] s by simp
  moreover have "rt_store rt2 = rt_store rt1"
    using refresh_all_store [of rt1 now] r unfolding refresh_workspace_sessions_def by (metis fst_conv)
  ultimately show ?thesis by (simp add: tick_end_def s r split: sum.splits)
qed

lemma keeps_orphans: "I (rt_store rt) \<Longrightarrow> I (rt_store (fst (suppress_orphans env monitors rt now objs)))"
proof (induction objs arbitrary: rt)
  case (Cons x objs)
  obtain mon obj ws where x: "x = (mon, obj, ws)" by (cases x)
  show ?case
  proof (cases "orphan_suppression_ttl env (rt_store rt) now (monitors mon) ws")
    case (Inr ttl)
    obtain rt' y where r: "suppress_object_events rt now mon obj ws ttl = (rt', y)" by fastforce
    have "I (rt_store rt')" using keeps_suppress_events [OF Cons.prems, of now mon obj ws ttl] r by simp
    with Cons.IH [of rt'] show ?thesis by (simp add: x Inr r split: sum.splits)
  qed (use Cons x in simp)
qed simp

lemma keeps_reaping: "I (rt_store rt) \<Longrightarrow> I (rt_store (fst (reap_loop env monitors rt now ss)))"
proof (induction ss arbitrary: rt)
  case (Cons s ss)
  define objs where "objs = (if take (length verify_prefix) (s_host s) = verify_prefix
    then verify_scratch_objects (rt_store rt) (s_id s) else [])"
  obtain rt1 x where c: "close_runtime_session rt now (s_id s) = (rt1, x)" by fastforce
  have k1: "I (rt_store rt1)" using keeps_close_runtime [OF Cons.prems, of now "s_id s"] c by simp
  obtain rt2 y where o: "suppress_orphans env monitors rt1 now objs = (rt2, y)" by fastforce
  have "I (rt_store rt2)" using keeps_orphans [OF k1, of env monitors now objs] o by simp
  with Cons.IH [of rt2] k1 show ?case by (simp add: Let_def objs_def [symmetric] c o split: sum.splits)
qed simp

end

section \<open>Observations, monitors and the tick\<close>

context ingest_ops begin

lemma keeps_errored: "I st \<Longrightarrow> I (errored_row env st now m ws e)"
  by (simp add: errored_row_def keeps_history)

lemma keeps_loop:
  assumes "I st" and "of_monitor (m_id m) vs" and "allowed (m_id m) r"
  shows "I (fst (materialize_loop env now m ws r vs (st, ids)))"
  using assms
proof (induction vs arbitrary: st ids)
  case (Cons v vs)
  show ?case
  proof (cases "process_observation env st now v ws r")
    case (Inl e)
    with Cons show ?thesis by (simp add: keeps_errored)
  next
    case (Inr x)
    then show ?thesis using Cons keeps_process [of st v r now ws]
      by (cases x) auto
  qed
qed simp

lemma keeps_span:
  "I st \<Longrightarrow> of_monitor (m_id m) vs \<Longrightarrow> allowed (m_id m) r \<Longrightarrow>
     I (fst (materialize_span env st now m vs observed ws src r))"
  unfolding materialize_span_def by (rule keeps_loop) (rule keeps_history)

lemma keeps_ingest:
  assumes "I st" and "allowed (m_id m) r" and "ingest env st now m obs ws next src r = Inr (st', ids)"
  shows "I st'"
proof -
  let ?state = "get_monitor_state st (m_id m) ws"
  obtain passed em n where d: "dispatch_notify (ev_cal env) m passed now (rs_notify ?state) = Inr (em, n)"
    and s: "materialize_span env (set_monitor_state st now (m_id m) ws
        (case next of Some v \<Rightarrow> Some v | None \<Rightarrow> rs_source_state ?state) n (Some now)) now m em (length obs) ws src r = (st', ids)"
    using assms(3) by (auto simp: ingest_def Let_def split: sum.splits)
  have o: "of_monitor (m_id m) em \<and> of_monitor (m_id m) (held n)"
    by (rule dispatch_notify_monitor [OF d state_typed [OF assms(1)]])
  have "I (fst (materialize_span env (set_monitor_state st now (m_id m) ws
        (case next of Some v \<Rightarrow> Some v | None \<Rightarrow> rs_source_state ?state) n (Some now)) now m em (length obs) ws src r))"
    using o by (intro keeps_span keeps_monitor_state assms(1,2)) simp_all
  then show ?thesis by (simp add: s)
qed

lemma keeps_failed: "I (fst sa) \<Longrightarrow> I (fst (monitor_failed env now ws m e sa))"
  by (cases sa) (simp add: monitor_failed_def keeps_errored)

lemma keeps_skip:
  assumes "I (fst sa)" and "allowed (m_id m) r"
  shows "I (fst (skip_monitor env now ws r m poll sa))"
proof -
  obtain st acc where sa: "sa = (st, acc)" by fastforce
  have st: "I st" using assms(1) by (simp add: sa)
  show ?thesis
  proof (cases "dispatch_rollup (ev_cal env) m [] now (rs_notify (get_monitor_state st (m_id m) ws))")
    case (Inl e)
    then show ?thesis using st by (simp add: skip_monitor_def sa Let_def keeps_failed)
  next
    case (Inr d)
    then obtain em n where d: "dispatch_rollup (ev_cal env) m [] now (rs_notify (get_monitor_state st (m_id m) ws)) = Inr (em, n)"
      by (cases d) auto
    have o: "of_monitor (m_id m) em" "of_monitor (m_id m) (held n)"
      using dispatch_rollup_monitor [OF d state_typed [OF st]] by simp_all
    show ?thesis using keeps_span [OF keeps_monitor_state [OF st o(2)] o(1) assms(2)] keeps_monitor_state [OF st o(2)] st
      by (auto simp: skip_monitor_def sa Let_def d split: prod.splits) (metis fst_conv)
  qed
qed

lemma keeps_observe:
  assumes "I (fst sa)" and "allowed (m_id m) r"
  shows "I (fst (observe_monitor env host now ws r m sa))"
  using assms keeps_ingest [OF _ assms(2)]
  by (cases sa) (auto simp: observe_monitor_def Let_def keeps_failed split: sum.splits)

lemma keeps_evaluate:
  "evaluate_monitor env host now ws r m sa = Inr sa' \<Longrightarrow> I (fst sa) \<Longrightarrow> allowed (m_id m) r \<Longrightarrow> I (fst sa')"
  by (auto simp: evaluate_monitor_def keeps_failed keeps_skip keeps_observe split: if_splits sum.splits option.splits)

lemma keeps_authored:
  assumes "I (fst sa)" and "\<forall>m \<in> set ms. allowed (m_id m) None"
  shows "I (fst (authored_pass env host now ws ms sa))"
  using assms
proof (induction ms arbitrary: sa)
  case (Cons m ms)
  then show ?case using keeps_evaluate [of host now ws None m sa]
    by (auto split: sum.splits)
qed simp

lemma keeps_ephemeral:
  assumes "I (fst sa)" shows "I (fst (ephemeral_pass env host now ws sa))"
proof -
  have "I (fst (foldl (ephemeral_step env host now ws) sb ts))"
    if "I (fst sb)" and "\<forall>t \<in> set ts. allowed (t_id t) (Some (t_session t))" for sb ts
    using that
  proof (induction ts arbitrary: sb)
    case (Cons t ts)
    have "I (fst (ephemeral_step env host now ws sb t))"
      using Cons.prems keeps_evaluate [of host now ws "Some (t_session t)" "ephemeral_monitor t" sb]
      by (auto simp: ephemeral_step_def ephemeral_monitor_def split: sum.splits)
    with Cons show ?case by simp
  qed simp
  moreover have "set (list_active_ephemerals (fst sa) ws) \<subseteq> set (ephemerals (fst sa))"
    by (auto simp: list_active_ephemerals_def)
  ultimately show ?thesis using assms owner_allowed [OF assms]
    unfolding ephemeral_pass_def by blast
qed

lemma keeps_tick:
  assumes "I (rt_store rt)" and "\<forall>m \<in> set ms. allowed (m_id m) None"
  shows "I (rt_store (fst (tick env host rt now ms dups ws)))"
proof (cases "dups = []")
  case True
  define mons where "mons = map_of (rev (map (\<lambda>m. (m_id m, m)) ms))"
  obtain rt1 x where r: "reap_dormant_sessions env (ho_dormancy host) mons rt now (Some ws) = (rt1, x)" by fastforce
  have k1: "I (rt_store rt1)" using keeps_reaping [OF assms(1)] r unfolding reap_dormant_sessions_def by (metis fst_conv)
  obtain st2 y where a: "authored_pass env host now (Some ws) ms (rt_store rt1, empty_accum) = (st2, y)" by fastforce
  have k2: "I st2" using keeps_authored [of "(rt_store rt1, empty_accum)" ms host now "Some ws"] k1 assms(2) a by simp
  show ?thesis
  proof (cases y)
    case (Inr acc)
    obtain st3 acc3 where e: "ephemeral_pass env host now (Some ws) (st2, acc) = (st3, acc3)" by fastforce
    have k3: "I st3" using keeps_ephemeral [of "(st2, acc)" host now "Some ws"] k2 e by simp
    obtain rt4 z where t: "tick_end (rt1\<lparr>rt_store := st3\<rparr>) now (Some ws) = (rt4, z)" by fastforce
    have "I (rt_store rt4)" using keeps_tick_end [of "rt1\<lparr>rt_store := st3\<rparr>" now "Some ws"] k3 t by simp
    with k1 show ?thesis by (simp add: tick_def True mons_def [symmetric] r a Inr e t split: sum.splits)
  qed (use k1 k2 in \<open>simp add: tick_def True mons_def [symmetric] r a split: sum.splits\<close>)
qed (simp add: tick_def assms(1))

end

end
