(* ===== verification/AM_Mail.thy ===== *)
theory AM_Mail
  imports AM_StoreOps
begin

text \<open>
  An abstract specification of what the store promises its recipients: a mailbox of pending
  events per session, into which an event is posted once and from which events are only taken
  or withdrawn. The store refines it.
\<close>

section \<open>The specification\<close>

type_synonym mail = "ident \<Rightarrow> ident set"

text \<open>\<open>D\<close> holds the identifiers already drawn.\<close>

inductive mail_step :: "ident set \<Rightarrow> mail \<Rightarrow> mail \<Rightarrow> bool" for D where
  Post: "i \<notin> D \<Longrightarrow> m' = (\<lambda>s. if s \<in> R then insert i (m s) else m s) \<Longrightarrow> mail_step D m m'"
| Take: "m' = m(s := m s - X) \<Longrightarrow> mail_step D m m'"
| Withdraw: "m' = (\<lambda>s. m s - X) \<Longrightarrow> mail_step D m m'"

inductive mail_run :: "ident set \<Rightarrow> mail \<Rightarrow> mail \<Rightarrow> bool" for D where
  Done: "mail_run D m m"
| Step: "mail_run D m m1 \<Longrightarrow> mail_step D m1 m2 \<Longrightarrow> mail_run D m m2"

inductive_cases mail_stepE: "mail_step D m m'"

lemma mail_run_trans: "mail_run D b c \<Longrightarrow> mail_run D a b \<Longrightarrow> mail_run D a c"
  by (induction rule: mail_run.induct) (auto intro: mail_run.Step)

lemma mail_run_one: "mail_step D a b \<Longrightarrow> mail_run D a b"
  by (rule mail_run.Step [OF mail_run.Done])

text \<open>What has left a mailbox never returns to it.\<close>

lemma mail_never_returns: "mail_run D m m' \<Longrightarrow> i \<in> D \<Longrightarrow> i \<notin> m s \<Longrightarrow> i \<notin> m' s"
  by (induction rule: mail_run.induct) (auto elim!: mail_stepE split: if_splits)

section \<open>The store's mailbox\<close>

definition mailbox :: "store \<Rightarrow> mail" where
  "mailbox st s = e_id ` set (pending_events st s None)"

lemma mailbox_rows:
  assumes "wf_store st"
  shows "mailbox st s = p_event ` {p \<in> set (projections st). pending_row s p}"
proof -
  have "mailbox st s = set (map e_id (joined st (pending_row s)))"
    by (simp add: mailbox_def pending_events_def urgency_matches_def)
  then show ?thesis unfolding joined_ids [OF assms] by auto
qed

lemma mailbox_same:
  assumes "events st' = events st" and "projections st' = projections st"
  shows "mailbox st' = mailbox st"
  by (rule ext) (simp only: mailbox_def queries_cong(2) [OF assms])

lemma mailbox_claims:
  assumes "claims s ids t st st'"
  shows "mail_step D (mailbox st) (mailbox st')"
proof (rule mail_step.Take)
  show "mailbox st' = (mailbox st)(s := mailbox st s - set ids)"
    by (auto simp: mailbox_def fun_eq_iff pending_after_claims [OF assms])
qed

lemma mailbox_acknowledge: "mail_step D (mailbox st) (mailbox (acknowledge_events st now s ids))"
proof (cases "ids = []")
  case True
  then show ?thesis by (intro mail_step.Take [where X = "{}"]) (simp add: acknowledge_events_def)
next
  case False
  let ?st' = "acknowledge_events st now s ids"
  let ?f = "\<lambda>p. p\<lparr>p_acked := Some (db_time now), p_updated := db_time now\<rparr>"
  have "joined ?st' (pending_row s') = filter (\<lambda>e. \<not> (s' = s \<and> e_id e \<in> set ids)) (joined st (pending_row s'))" for s'
    by (rule joined_marked [where h = "\<lambda>p. if row_in s ids p then ?f p else p"])
       (use False in \<open>auto simp: acknowledge_events_def update_where_def pending_row_def\<close>)
  then have "mailbox ?st' = (mailbox st)(s := mailbox st s - set ids)"
    by (auto simp: mailbox_def fun_eq_iff pending_events_def)
  then show ?thesis by (rule mail_step.Take)
qed

lemma mailbox_posts:
  assumes p: "posts e r st st'" and wf: "wf_store st" "wf_store st'" and i: "e_id e \<notin> D"
  shows "mail_step D (mailbox st) (mailbox st')"
proof -
  obtain rows where rows: "projections st' = projections st @ rows" "\<forall>p \<in> set rows. p_event p = e_id e"
    using p by (auto simp: posts_def)
  have "mailbox st' = (\<lambda>s. if s \<in> {s. \<exists>p \<in> set rows. pending_row s p} then insert (e_id e) (mailbox st s) else mailbox st s)"
    by (rule ext) (use rows(2) in \<open>force simp: mailbox_rows wf rows(1)\<close>)
  with i show ?thesis by (rule mail_step.Post)
qed

lemma mailbox_delete: "mail_step D (mailbox st) (mailbox (fst (delete_resolved st removed ws mon obj)))"
proof (cases "removed = []")
  case True
  then show ?thesis by (intro mail_step.Withdraw [where X = "{}"]) (simp add: delete_resolved_def)
next
  case False
  let ?st' = "fst (delete_resolved st removed ws mon obj)"
  have "events ?st' = delete_where (\<lambda>e. e_id e \<in> set removed) (events st)"
    "projections ?st' = delete_where (\<lambda>p. p_event p \<in> set removed) (projections st)"
    using False by (auto simp: delete_resolved_def Let_def)
  from joined_deleted [OF this] have "mailbox ?st' = (\<lambda>s. mailbox st s - set removed)"
    by (auto simp: mailbox_def fun_eq_iff pending_events_def)
  then show ?thesis by (rule mail_step.Withdraw)
qed

section \<open>Soundness of the store\<close>

text \<open>
  An ephemeral identifier holds a slash, so no directory-derived one is ever equal to it.
  Every event of an ephemeral monitor belongs to a declared one, and its rows to its owner.
\<close>

definition ephemeral_id :: "ident \<Rightarrow> bool" where
  "ephemeral_id i = (take (length ephemeral_prefix) i = ephemeral_prefix \<and> CHR ''/'' \<in> set i)"

definition owners :: "store \<Rightarrow> (ident \<times> ident) list" where
  "owners st = map (\<lambda>t. (t_id t, t_session t)) (ephemerals st)"

definition private_store :: "store \<Rightarrow> bool" where
  "private_store st =
     (distinct (map fst (owners st)) \<and> (\<forall>(i, s) \<in> set (owners st). ephemeral_id i) \<and>
      (\<forall>e \<in> set (events st). ephemeral_id (e_monitor e) \<longrightarrow>
         (\<exists>s. (e_monitor e, s) \<in> set (owners st) \<and>
            (\<forall>p \<in> set (projections st). p_event p = e_id e \<longrightarrow> p_session p = s))))"

definition rows_typed :: "store \<Rightarrow> bool" where
  "rows_typed st = (\<forall>r \<in> set (monitor_rows st). of_monitor (r_monitor r) (held (r_notify r)))"

text \<open>A suppression is of a scratch object only, so no suppression ever reaches a real one.\<close>

definition scratch_suppressions :: "store \<Rightarrow> bool" where
  "scratch_suppressions st = (\<forall>x \<in> set (suppressions st). is_verify_scratch_key (x_object x))"

definition sound :: "store \<Rightarrow> bool" where
  "sound st = (wf_store st \<and> private_store st \<and> rows_typed st \<and> scratch_suppressions st)"

lemma private_rows:
  assumes "private_store st" and "events st' = events st" and "owners st' = owners st"
    and "map row_key (projections st') = map row_key (projections st)"
  shows "private_store st'"
proof -
  have k: "row_key ` set (projections st') = row_key ` set (projections st)"
    using assms(4) by (metis list.set_map)
  have "(\<forall>p \<in> set (projections st'). p_event p = i \<longrightarrow> p_session p = s) \<longleftrightarrow>
      (\<forall>x \<in> row_key ` set (projections st'). snd x = i \<longrightarrow> fst x = s)" for i s
    by (auto simp: row_key_def)
  moreover have "(\<forall>p \<in> set (projections st). p_event p = i \<longrightarrow> p_session p = s) \<longleftrightarrow>
      (\<forall>x \<in> row_key ` set (projections st). snd x = i \<longrightarrow> fst x = s)" for i s
    by (auto simp: row_key_def)
  ultimately show ?thesis using assms(1) unfolding private_store_def assms(2,3) k by presburger
qed

lemma private_fewer:
  assumes "private_store st" and "set (events st') \<subseteq> set (events st)" and "owners st' = owners st"
    and "set (projections st') \<subseteq> set (projections st)"
  shows "private_store st'"
  using assms unfolding private_store_def by (metis subsetD)

lemma private_posts:
  assumes priv: "private_store st" and wf: "wf_store st" and p: "posts e r st st'"
    and ok: "case r of None \<Rightarrow> \<not> ephemeral_id (e_monitor e) | Some s \<Rightarrow> (e_monitor e, s) \<in> set (owners st)"
  shows "private_store st'"
proof -
  obtain rows where ev: "events st' = events st @ [e]" and own: "owners st' = owners st"
    and pr: "projections st' = projections st @ rows"
    and rows: "\<forall>q \<in> set rows. p_event q = e_id e \<and> p_session q \<in> s_id ` set (projection_targets st e r)"
    and new: "e_id e \<notin> e_id ` set (events st)"
    using p by (auto simp: posts_def owners_def)
  have "\<exists>s. (e_monitor x, s) \<in> set (owners st) \<and> (\<forall>q \<in> set (projections st @ rows). p_event q = e_id x \<longrightarrow> p_session q = s)"
    if x: "x \<in> set (events st @ [e])" "ephemeral_id (e_monitor x)" for x
  proof (cases "x \<in> set (events st)")
    case True
    then obtain s where "(e_monitor x, s) \<in> set (owners st)" "\<forall>q \<in> set (projections st). p_event q = e_id x \<longrightarrow> p_session q = s"
      using priv x(2) by (auto simp: private_store_def)
    moreover have "e_id e \<noteq> e_id x" using new True by auto
    ultimately show ?thesis using rows by auto
  next
    case False
    then have x: "x = e" "ephemeral_id (e_monitor e)" using x by auto
    then obtain s where r: "r = Some s" "(e_monitor e, s) \<in> set (owners st)" using ok by (auto split: option.splits)
    have "p_session q = s" if "q \<in> set rows" for q
      using that rows targets_restricted [of _ st e s] r(1) by auto
    moreover have "p_event q \<noteq> e_id e" if "q \<in> set (projections st)" for q
      using wf_storeD(6) [OF wf that] new by auto
    ultimately show ?thesis using r(2) x(1) by auto
  qed
  then show ?thesis using priv by (auto simp: private_store_def ev own pr)
qed

lemma typed_state: "rows_typed st \<Longrightarrow> of_monitor mon (held (rs_notify (get_monitor_state st mon ws)))"
  by (auto simp: get_monitor_state_def rows_typed_def held_def empty_notify_def monitor_state_key_def
      split: option.splits dest!: find_Some_set)

lemma typed_set:
  assumes "rows_typed st" and "of_monitor mon (held n)"
  shows "rows_typed (set_monitor_state st now mon ws src n t)"
proof (cases "find (monitor_state_key mon ws) (monitor_rows st)")
  case None
  with assms show ?thesis by (auto simp: set_monitor_state_def rows_typed_def Let_def)
next
  case (Some r)
  with assms show ?thesis
    by (auto simp: set_monitor_state_def rows_typed_def Let_def set_update_where monitor_state_key_def)
qed

end
