(* ===== verification/AM_Protocol.thy ===== *)
theory AM_Protocol
  imports AM_Mail
begin

text \<open>
  The runtime as a transition system: every operation the daemon serves, in any order, with
  any clock reading, over the state \<open>runtime\<close>. Its invariant, the refinement of the mailbox
  specification and what follows for every execution.
\<close>

section \<open>The laws hold for the model\<close>

text \<open>What is tracked along an execution: soundness, the owners, and the mailbox since the start.\<close>

definition tracked :: "ident set \<Rightarrow> (ident \<times> ident) list \<Rightarrow> mail \<Rightarrow> store \<Rightarrow> bool" where
  "tracked D own m st = (sound st \<and> owners st = own \<and> mail_run D m (mailbox st))"

definition may_post :: "(ident \<times> ident) list \<Rightarrow> ident \<Rightarrow> ident option \<Rightarrow> bool" where
  "may_post own mon r = (case r of None \<Rightarrow> \<not> ephemeral_id mon | Some s \<Rightarrow> (mon, s) \<in> set own)"

definition draws_outside :: "ident set \<Rightarrow> env \<Rightarrow> bool" where
  "draws_outside D env = (draws_fresh env \<and> (\<forall>st. fst (ev_ids env st) \<notin> D))"

lemma wf_store_tables:
  assumes "wf_store st" and "sessions st' = sessions st" and "events st' = events st"
    and "projections st' = projections st" and "cursors st' = cursors st"
  shows "wf_store st'"
  using assms by (simp add: wf_store_def)

text \<open>An operation that leaves events and projections alone.\<close>

lemma tracked_same:
  assumes "tracked D own m st" and "wf_store st'" and "events st' = events st" and "projections st' = projections st"
    and "owners st' = owners st" and "rows_typed st'" and "scratch_suppressions st'"
  shows "tracked D own m st'"
  using assms private_rows [of st st'] mailbox_same [of st' st] by (simp add: tracked_def sound_def)

lemma tracked_delete:
  assumes "tracked D own m st"
  shows "tracked D own m (fst (delete_resolved st removed ws mon obj))"
proof -
  let ?st' = "fst (delete_resolved st removed ws mon obj)"
  have t: "owners ?st' = owners st" "monitor_rows ?st' = monitor_rows st \<and> suppressions ?st' = suppressions st"
    "set (events ?st') \<subseteq> set (events st)" "set (projections ?st') \<subseteq> set (projections st)"
    by (auto simp: delete_resolved_def Let_def owners_def)
  have s: "sound st" and r: "mail_run D m (mailbox st)" and o: "owners st = own" using assms by (simp_all add: tracked_def)
  have "sound ?st'"
    using s wf_delete_resolved [of st removed ws mon obj] private_fewer [OF _ t(3,1,4)]
    by (simp add: sound_def rows_typed_def scratch_suppressions_def t(2))
  then show ?thesis using o mail_run.Step [OF r mailbox_delete] by (simp add: tracked_def t(1))
qed

lemma tracked_posts:
  assumes "tracked D own m st" and "posts e r st st'" and "wf_store st'" and "e_id e \<notin> D" and "may_post own (e_monitor e) r"
  shows "tracked D own m st'"
proof -
  have s: "wf_store st" "private_store st" "rows_typed st" "scratch_suppressions st" and r: "mail_run D m (mailbox st)" and o: "owners st = own"
    using assms(1) by (simp_all add: tracked_def sound_def)
  have "private_store st'"
    by (rule private_posts [OF s(2,1) assms(2)]) (use assms(5) o in \<open>simp add: may_post_def split: option.splits\<close>)
  moreover have "owners st' = owners st" "rows_typed st'" "scratch_suppressions st'"
    using assms(2) s(3,4) by (auto simp: posts_def owners_def rows_typed_def scratch_suppressions_def)
  ultimately show ?thesis
    using assms(3) o mail_run.Step [OF r mailbox_posts [OF assms(2) s(1) assms(3,4)]] by (simp add: tracked_def sound_def)
qed

lemma tracked_process:
  assumes t: "tracked D own m st" and d: "draws_outside D env" and p: "may_post own (m_id (v_monitor v)) r"
    and res: "process_observation env st now v ws r = Inr (Some (st', e))"
  shows "tracked D own m st'"
proof -
  have wf: "wf_store st" using t by (simp add: tracked_def sound_def)
  have fr: "draws_fresh env" using d by (simp add: draws_outside_def)
  have f: "fate env v = Inr True"
    using process_other [where env = env and v = v and st = st and now = now and ws = ws and r = r] res
    by (cases "fate env v"; cases "projr (fate env v)") auto
  obtain st1 e1 where p1: "process_observation env st now v ws r = Inr (Some (st1, e1))" "wf_store st1"
    "header e1 = envelope_header ws v" "posts e1 r st st1" "e_id e1 = fst (ev_ids env st)"
    by (rule process_step [OF wf fr f])
  then have e: "st1 = st'" "e1 = e" using res by simp_all
  have "e_monitor e = m_id (v_monitor v)" using p1(3) by (simp add: e header_def envelope_header_def Let_def)
  then show ?thesis using tracked_posts [OF t p1(4,2)] p1(5) d p by (simp add: e draws_outside_def)
qed

lemma owners_same [simp]:
  "owners (record_history st now mon ws src res d) = owners st"
  "owners (set_monitor_state st now mon ws s n t) = owners st" "owners (close_session st now i) = owners st"
  "owners (fst (reap_ephemerals_for_session st now i)) = owners st" "owners (reap_ephemeral st now i) = owners st"
  "owners (touch_session st now i) = owners st"
  by (auto simp: owners_def close_session_def touch_session_def reap_ephemerals_for_session_def reap_ephemeral_def
      Let_def update_where_def)

lemma rows_same [simp]:
  "rows_typed (record_history st now mon ws src res d) = rows_typed st" "rows_typed (close_session st now i) = rows_typed st"
  "rows_typed (fst (reap_ephemerals_for_session st now i)) = rows_typed st" "rows_typed (reap_ephemeral st now i) = rows_typed st"
  "rows_typed (touch_session st now i) = rows_typed st"
  "scratch_suppressions (record_history st now mon ws src res d) = scratch_suppressions st"
  "scratch_suppressions (set_monitor_state st now mon ws s n t) = scratch_suppressions st"
  "scratch_suppressions (close_session st now i) = scratch_suppressions st"
  "scratch_suppressions (fst (reap_ephemerals_for_session st now i)) = scratch_suppressions st"
  "scratch_suppressions (reap_ephemeral st now i) = scratch_suppressions st"
  "scratch_suppressions (touch_session st now i) = scratch_suppressions st"
  by (simp_all add: rows_typed_def scratch_suppressions_def close_session_def touch_session_def
      reap_ephemerals_for_session_def reap_ephemeral_def Let_def)

lemma reap_frame [frame, simp]:
  "events (fst (reap_ephemerals_for_session st now i)) = events st" "sessions (fst (reap_ephemerals_for_session st now i)) = sessions st"
  "projections (fst (reap_ephemerals_for_session st now i)) = projections st" "cursors (fst (reap_ephemerals_for_session st now i)) = cursors st"
  "events (reap_ephemeral st now i) = events st" "sessions (reap_ephemeral st now i) = sessions st"
  "projections (reap_ephemeral st now i) = projections st" "cursors (reap_ephemeral st now i) = cursors st"
  by (simp_all add: reap_ephemerals_for_session_def reap_ephemeral_def Let_def)

lemma suppression_frame [frame, simp]:
  "events (upsert_suppression st mon obj ws reason c x) = events st" "sessions (upsert_suppression st mon obj ws reason c x) = sessions st"
  "projections (upsert_suppression st mon obj ws reason c x) = projections st" "cursors (upsert_suppression st mon obj ws reason c x) = cursors st"
  "owners (upsert_suppression st mon obj ws reason c x) = owners st" "rows_typed (upsert_suppression st mon obj ws reason c x) = rows_typed st"
  "events (purge_suppressions st now) = events st" "sessions (purge_suppressions st now) = sessions st"
  "projections (purge_suppressions st now) = projections st" "cursors (purge_suppressions st now) = cursors st"
  "owners (purge_suppressions st now) = owners st" "rows_typed (purge_suppressions st now) = rows_typed st"
  "scratch_suppressions st \<Longrightarrow> scratch_suppressions (purge_suppressions st now)"
  "scratch_suppressions st \<Longrightarrow> is_verify_scratch_key obj \<Longrightarrow> scratch_suppressions (upsert_suppression st mon obj ws reason c x)"
  by (auto simp: scratch_suppressions_def upsert_suppression_def purge_suppressions_def owners_def rows_typed_def)

lemma tracked_parts: "tracked D own m st \<Longrightarrow> wf_store st \<and> rows_typed st \<and> scratch_suppressions st"
  by (simp add: tracked_def sound_def)

interpretation upkeep: store_ops "tracked D own m" for D own m
proof unfold_locales
  fix st :: store
  assume t: "tracked D own m st"
  note p = tracked_parts [OF t]
  show "tracked D own m (record_history st now mon ws src res d)" for now mon ws src res d
    by (rule tracked_same [OF t]) (use p in \<open>auto intro: wf_bookkeeping\<close>)
  show "of_monitor mon (held n) \<Longrightarrow> tracked D own m (set_monitor_state st now mon ws s n t')" for mon n now ws s t'
    by (rule tracked_same [OF t]) (use p in \<open>auto intro: wf_bookkeeping typed_set\<close>)
  show "of_monitor mon (held (rs_notify (get_monitor_state st mon ws)))" for mon ws
    using p by (simp add: typed_state)
  show "tracked D own m (close_session st now i)" for now i
    by (rule tracked_same [OF t]) (use p in \<open>auto intro: wf_session_ops\<close>)
  show "tracked D own m (fst (reap_ephemerals_for_session st now i))" for now i
    by (rule tracked_same [OF t]) (use p in \<open>auto intro: wf_store_tables\<close>)
  show "tracked D own m (fst (retract_object_events_by_key st ws' mon obj))" for ws' mon obj
    unfolding retract_object_events_by_key_def by (rule tracked_delete [OF t])
  show "is_verify_scratch_key (x_object x)" if "x \<in> set (suppressions st)" for x
    using that p by (simp add: scratch_suppressions_def)
  show "is_verify_scratch_key obj \<Longrightarrow> tracked D own m (upsert_suppression st mon obj ws reason created expires)" for mon obj ws reason created expires
    by (rule tracked_same [OF t]) (use p in \<open>auto intro: wf_store_tables\<close>)
  show "tracked D own m (purge_suppressions st now)" for now
    by (rule tracked_same [OF t]) (use p in \<open>auto intro: wf_store_tables\<close>)
qed

interpretation ticking: ingest_ops "\<lambda>st. draws_outside D env \<and> tracked D own m st" "may_post own" env for D own m env
proof unfold_locales
  show "draws_outside D env \<and> tracked D own m st'"
    if "draws_outside D env \<and> tracked D own m st" "may_post own (m_id (v_monitor v)) r"
      "process_observation env st now v ws r = Inr (Some (st', e))" for st v r now ws st' e
    using that tracked_process by blast
  show "may_post own (t_id x) (Some (t_session x))"
    if "draws_outside D env \<and> tracked D own m st" "x \<in> set (ephemerals st)" for st x
    using that by (auto simp: may_post_def tracked_def owners_def)
qed (auto intro: upkeep.keeps_history upkeep.keeps_monitor_state upkeep.state_typed upkeep.keeps_close upkeep.keeps_reap
    upkeep.keeps_by_key upkeep.scratch_only upkeep.keeps_suppression upkeep.keeps_purge)

section \<open>Every operation of the daemon\<close>

text \<open>
  \<open>D\<close> holds identifiers drawn before: a ULID is not drawn twice. A directory-derived monitor
  identifier is one path segment.
\<close>

inductive runtime_step :: "ident set \<Rightarrow> runtime \<Rightarrow> runtime \<Rightarrow> bool" for D where
  Open: "new_id \<notin> s_id ` set (sessions (rt_store rt)) \<Longrightarrow> runtime_step D rt (fst (open_runtime_session rt now new_id inp))"
| Close: "runtime_step D rt (fst (close_runtime_session rt now i))"
| Declare: "declare_ephemeral sources scope_errors (rt_store rt) now u d = Inr (st', i) \<Longrightarrow>
     i \<notin> t_id ` set (ephemerals (rt_store rt)) \<Longrightarrow> runtime_step D rt (rt\<lparr>rt_store := st'\<rparr>)"
| Cancel: "cancel_ephemeral (rt_store rt) now s i = Inr (st', t) \<Longrightarrow> runtime_step D rt (rt\<lparr>rt_store := st'\<rparr>)"
| Tick: "draws_outside D env \<Longrightarrow> \<forall>m \<in> set monitors. CHR ''/'' \<notin> set (m_id m) \<Longrightarrow>
     runtime_step D rt (fst (tick env host rt now monitors dups ws))"
| Checkpoint: "runtime_step D rt (rt\<lparr>rt_store := write_checkpoint (rt_store rt) now mon ws' v\<rparr>)"
| Claim: "runtime_step D rt (fst (claim_delivery bd rt now s l mx))"
| Reserve: "runtime_step D rt (fst (reserve_delivery rt now rid s l mx))"
| Commit: "runtime_step D rt (fst (commit_delivery bd rt now rid))"
| Release: "runtime_step D rt (fst (release_delivery rt now rid))"
| Acknowledge: "runtime_step D rt (fst (acknowledge_session rt now s ids))"
| Retract: "runtime_step D rt (fst (retract_runtime_events rt now ws'' mon obj ids'))"
| Suppress: "runtime_step D rt (fst (suppress_object_events rt now mon obj ws' ttl))"

inductive runtime_run :: "ident set \<Rightarrow> runtime \<Rightarrow> runtime \<Rightarrow> bool" for D where
  Start: "runtime_run D rt rt"
| More: "runtime_run D rt rt1 \<Longrightarrow> runtime_step D rt1 rt2 \<Longrightarrow> runtime_run D rt rt2"

text \<open>A step is sound and refines the mailbox: the statement proved for each operation.\<close>

definition refines :: "ident set \<Rightarrow> store \<Rightarrow> store \<Rightarrow> bool" where
  "refines D st st' = (sound st \<longrightarrow> sound st' \<and> mail_run D (mailbox st) (mailbox st'))"

lemma refinesI: "(sound st \<Longrightarrow> sound st' \<and> mail_run D (mailbox st) (mailbox st')) \<Longrightarrow> refines D st st'"
  by (simp add: refines_def)

lemma refines_tracked:
  assumes "\<And>own. tracked D own (mailbox st) st \<Longrightarrow> tracked D own (mailbox st) st'"
  shows "refines D st st'"
  using assms [of "owners st"] by (simp add: refines_def tracked_def mail_run.Done)

lemma refines_same:
  assumes "events st' = events st" and "projections st' = projections st" and "owners st' = owners st"
    and "wf_store st \<Longrightarrow> wf_store st'" and "rows_typed st \<Longrightarrow> rows_typed st'" and "scratch_suppressions st \<Longrightarrow> scratch_suppressions st'"
  shows "refines D st st'"
proof (rule refines_tracked)
  fix own assume t: "tracked D own (mailbox st) st"
  with assms show "tracked D own (mailbox st) st'"
    using tracked_same [OF t, of st'] tracked_parts [OF t] by blast
qed

lemma refines_step:
  assumes "mail_step D (mailbox st) (mailbox st')" and "events st' = events st" and "owners st' = owners st"
    and "map row_key (projections st') = map row_key (projections st)"
    and "wf_store st \<Longrightarrow> wf_store st'" and "rows_typed st \<Longrightarrow> rows_typed st'" and "scratch_suppressions st \<Longrightarrow> scratch_suppressions st'"
  shows "refines D st st'"
  using assms private_rows [of st st'] mail_run_one [OF assms(1)] by (simp add: refines_def sound_def)

lemma delivered_other [simp]:
  "owners (delivered_store bd st now s cands recap l) = owners st"
  "rows_typed (delivered_store bd st now s cands recap l) = rows_typed st"
  "scratch_suppressions (delivered_store bd st now s cands recap l) = scratch_suppressions st"
  "map row_key (projections (delivered_store bd st now s cands recap l)) = map row_key (projections st)"
proof -
  have a: "ephemerals (advance_cursors_for_claimed x t i ids) = ephemerals x \<and> monitor_rows (advance_cursors_for_claimed x t i ids) = monitor_rows x \<and> suppressions (advance_cursors_for_claimed x t i ids) = suppressions x" for x t i ids
    unfolding advance_cursors_for_claimed_def Let_def
    by (intro conjI; rule foldl_keeps; auto simp: advance_cursor_def split: option.splits)
  have r: "ephemerals (foldl (reanchor bd now s v) x es) = ephemerals x \<and> monitor_rows (foldl (reanchor bd now s v) x es) = monitor_rows x \<and> suppressions (foldl (reanchor bd now s v) x es) = suppressions x" for v x es
    by (intro conjI; rule foldl_keeps; auto simp: reanchor_def set_per_recipient_diff_def Let_def split: option.splits bool.splits)
  have c: "ephemerals (fst (collapse_net_for_claim bd st now s cands)) = ephemerals st \<and>
      monitor_rows (fst (collapse_net_for_claim bd st now s cands)) = monitor_rows st \<and>
      suppressions (fst (collapse_net_for_claim bd st now s cands)) = suppressions st"
    using r by (auto simp: collapse_net_for_claim_def mark_net_suppressed_def Let_def)
  have m: "ephemerals (mark_claimed x now s ids l) = ephemerals x \<and> monitor_rows (mark_claimed x now s ids l) = monitor_rows x \<and>
      suppressions (mark_claimed x now s ids l) = suppressions x" for x ids
    using a by (auto simp: mark_claimed_def Let_def)
  show "owners (delivered_store bd st now s cands recap l) = owners st"
    "rows_typed (delivered_store bd st now s cands recap l) = rows_typed st"
    "scratch_suppressions (delivered_store bd st now s cands recap l) = scratch_suppressions st"
    using c m by (simp_all add: delivered_store_def owners_def rows_typed_def scratch_suppressions_def update_session_recap_def Let_def)
  show "map row_key (projections (delivered_store bd st now s cands recap l)) = map row_key (projections st)"
    by (simp add: delivered_store_def Let_def)
qed

lemma refines_delivered: "refines D st (delivered_store bd st now s cands recap l)"
  by (rule refines_step [OF mailbox_claims [OF delivered_claims]]) (simp_all add: wf_delivered)

lemma refines_trans: "refines D a b \<Longrightarrow> refines D b c \<Longrightarrow> refines D a c"
  by (auto simp: refines_def intro: mail_run_trans)

lemma refines_touch: "refines D st (touch_session st now s)"
  by (rule refines_same) (simp_all add: wf_session_ops)

lemma refines_acknowledge: "refines D st (acknowledge_events st now s ids)"
  by (rule refines_step [OF mailbox_acknowledge])
    (simp_all add: wf_marks, simp_all add: acknowledge_events_def owners_def rows_typed_def scratch_suppressions_def)

lemma refines_open:
  assumes "new_id \<notin> s_id ` set (sessions st)"
  shows "refines D st (fst (open_session st now new_id inp))"
  by (rule refines_same)
    (use assms wf_open_session [of st new_id now inp] in \<open>auto simp: open_session_frame owners_def rows_typed_def scratch_suppressions_def open_session_def split: option.splits\<close>)

lemma declare_ok:
  assumes d: "declare_ephemeral sources scope_errors st now u d = Inr (st', i)"
  shows "\<exists>(s :: session) t. find_session st (dl_session d) = Some s \<and> s_status s = Active \<and> s_role s = Lead \<and>
     i = ephemeral_prefix @ s_id s @ ''/'' @ u \<and> t_id t = i \<and> t_session t = s_id s \<and>
     st' = touch_session (insert_ephemeral st now t) now (s_id s)"
proof -
  obtain s where s: "find_session st (dl_session d) = Some s"
    using d by (auto simp: declare_ephemeral_def split: option.splits)
  have g: "s_status s = Active" "s_role s = Lead" "sources (dl_source d)" "scope_errors (dl_source d) (dl_scope d) = []"
    "kebab_type (dl_source d)"
    using d s by (auto simp: declare_ephemeral_def split: if_splits)
  obtain lo hi where b: "parse_urgency_band (default (dl_urgency d) ''normal'') = Inr (lo, hi)"
    using d s g by (auto simp: declare_ephemeral_def split: sum.splits)
  have n: "\<not> (case dl_display d of None \<Rightarrow> False | Some n \<Rightarrow> trim n = [])"
    using d s g b by (auto simp: declare_ephemeral_def)
  show ?thesis
    using d unfolding declare_ephemeral_def s option.case b sum.case prod.case Let_def if_not_P [OF n]
    by (simp add: g s) (metis ephemeral.select_convs(1,2))
qed

lemma private_declared:
  assumes "private_store st" and "owners st' = owners st @ [(i, s)]" and "events st' = events st"
    and "projections st' = projections st" and "ephemeral_id i" and "i \<notin> fst ` set (owners st)"
  shows "private_store st'"
  unfolding private_store_def assms(2,3,4)
proof (intro conjI)
  show "distinct (map fst (owners st @ [(i, s)]))" "\<forall>(i, s) \<in> set (owners st @ [(i, s)]). ephemeral_id i"
    using assms(1,5,6) by (auto simp: private_store_def)
  show "\<forall>e \<in> set (events st). ephemeral_id (e_monitor e) \<longrightarrow>
     (\<exists>x. (e_monitor e, x) \<in> set (owners st @ [(i, s)]) \<and> (\<forall>p \<in> set (projections st). p_event p = e_id e \<longrightarrow> p_session p = x))"
  proof (intro ballI impI)
    fix e assume "e \<in> set (events st)" "ephemeral_id (e_monitor e)"
    then obtain x where "(e_monitor e, x) \<in> set (owners st)" "\<forall>p \<in> set (projections st). p_event p = e_id e \<longrightarrow> p_session p = x"
      using assms(1) unfolding private_store_def by blast
    then show "\<exists>x. (e_monitor e, x) \<in> set (owners st @ [(i, s)]) \<and> (\<forall>p \<in> set (projections st). p_event p = e_id e \<longrightarrow> p_session p = x)"
      by (intro exI [of _ x]) simp
  qed
qed

lemma refines_declare:
  assumes d: "declare_ephemeral sources scope_errors st now u d = Inr (st', i)" and i: "i \<notin> t_id ` set (ephemerals st)"
  shows "refines D st st'"
proof -
  obtain s :: session and t where t: "t_id t = i" "i = ephemeral_prefix @ s_id s @ ''/'' @ u"
    and st': "st' = touch_session (insert_ephemeral st now t) now (s_id s)"
    using declare_ok [OF d] by blast
  have o: "owners st' = owners st @ [(i, t_session t)]"
    by (simp add: st' owners_def insert_ephemeral_def touch_session_def t(1))
  have f: "events st' = events st" "projections st' = projections st" "monitor_rows st' = monitor_rows st" "suppressions st' = suppressions st"
    by (simp_all add: st' insert_ephemeral_def touch_session_def)
  have e: "ephemeral_id i" by (simp add: t(2) ephemeral_id_def)
  have new: "i \<notin> fst ` set (owners st)" using i by (force simp: owners_def)
  show ?thesis
  proof (rule refinesI)
    assume s: "sound st"
    have "wf_store (insert_ephemeral st now t)"
      using s by - (rule wf_store_tables [of st], simp_all add: sound_def insert_ephemeral_def)
    then have w: "wf_store st'" unfolding st' by (rule wf_session_ops)
    have "private_store st'"
      by (rule private_declared [OF _ o f(1,2) e new]) (use s in \<open>simp add: sound_def\<close>)
    moreover have "mailbox st' = mailbox st" by (rule mailbox_same) (simp_all add: f)
    ultimately show "sound st' \<and> mail_run D (mailbox st) (mailbox st')"
      using s w by (simp add: sound_def rows_typed_def scratch_suppressions_def f mail_run.Done)
  qed
qed

lemma refines_cancel:
  assumes "cancel_ephemeral st now s i = Inr (st', t)"
  shows "refines D st st'"
proof -
  have "st' = reap_ephemeral st now i"
    using assms by (auto simp: cancel_ephemeral_def Let_def split: option.splits if_splits sum.splits)
  then show ?thesis by (intro refines_same) (auto intro: wf_store_tables)
qed

lemma refines_checkpoint: "refines D st (write_checkpoint st now mon ws v)"
proof (rule refines_tracked)
  fix own assume t: "tracked D own (mailbox st) st"
  show "tracked D own (mailbox st) (write_checkpoint st now mon ws v)"
    unfolding write_checkpoint_def Let_def by (intro upkeep.keeps_monitor_state t upkeep.state_typed [OF t])
qed

lemma refines_tick:
  assumes "draws_outside D env" and "\<forall>m \<in> set monitors. CHR ''/'' \<notin> set (m_id m)"
  shows "refines D (rt_store rt) (rt_store (fst (tick env host rt now monitors dups ws)))"
proof (rule refines_tracked)
  fix own assume t: "tracked D own (mailbox (rt_store rt)) (rt_store rt)"
  have "\<forall>m \<in> set monitors. may_post own (m_id m) None"
    using assms(2) by (simp add: may_post_def ephemeral_id_def)
  with t show "tracked D own (mailbox (rt_store rt)) (rt_store (fst (tick env host rt now monitors dups ws)))"
    using ticking.keeps_tick [of D env own "mailbox (rt_store rt)" rt monitors host now dups ws] assms(1) by blast
qed

lemma reserve_store: "rt_store (fst (reserve_delivery rt now rid s l mx)) = touch_session (rt_store rt) now s"
proof (cases "decide_delivery (rt_store rt) (rt_reg rt) now s l mx")
  case (Some d)
  define rt1 where "rt1 = rt\<lparr>rt_store := touch_session (rt_store rt) now s,
    rt_reg := reservation_add (reservation_prune (rt_reg rt) now) now rid (plan_of d)\<rparr>"
  have "fst (reserve_delivery rt now rid s l mx) = fst (refresh_hook_state rt1 now (dc_session d))"
    by (simp add: reserve_delivery_def Some Let_def rt1_def plan_of_def split: prod.splits sum.splits)
  then show ?thesis by (simp add: rt1_def)
qed (simp add: reserve_delivery_def)

lemma refines_commit: "refines D (rt_store rt) (rt_store (fst (commit_delivery bd rt now rid)))"
proof -
  obtain reg x where r: "reservation_take (rt_reg rt) now rid = (reg, x)" by fastforce
  show ?thesis
  proof (cases x)
    case None
    then show ?thesis by (simp add: commit_delivery_def r refines_same)
  next
    case (Some p)
    let ?a = "apply_delivery bd (rt\<lparr>rt_reg := reg\<rparr>) now (rv_session p) (rv_candidates p) (rv_recap p) (rv_claim p)"
    have "fst (commit_delivery bd rt now rid) = fst ?a"
      by (simp add: commit_delivery_def r Some split: prod.splits sum.splits)
    then show ?thesis by (simp add: refines_delivered)
  qed
qed

lemma release_store: "rt_store (fst (release_delivery rt now rid)) = rt_store rt"
proof -
  obtain reg x where r: "reservation_remove (rt_reg rt) rid = (reg, x)" by fastforce
  show ?thesis
  proof (cases x)
    case (Some p)
    then show ?thesis using release_frame(1) r by simp
  qed (simp add: release_delivery_def r)
qed

lemma refines_retract: "refines D (rt_store rt) (rt_store (fst (retract_runtime_events rt now ws mon obj ids)))"
proof -
  obtain st removed affected where d: "retract_object_events (rt_store rt) ws mon obj ids = (st, removed, affected)"
    by (cases "retract_object_events (rt_store rt) ws mon obj ids")
  obtain rt' x where r: "refresh_all (rt\<lparr>rt_store := st\<rparr>) now affected = (rt', x)" by fastforce
  have "rt_store (fst (retract_runtime_events rt now ws mon obj ids)) = st"
    using refresh_all_store [of "rt\<lparr>rt_store := st\<rparr>" now affected]
    by (simp add: retract_runtime_events_def d r split: sum.splits)
  moreover have "refines D (rt_store rt) (fst (retract_object_events (rt_store rt) ws mon obj ids))"
    by (auto simp: retract_object_events_def intro!: refines_tracked tracked_delete)
  ultimately show ?thesis by (simp add: d)
qed

lemma open_runtime_store: "rt_store (fst (open_runtime_session rt now new_id inp)) = fst (open_session (rt_store rt) now new_id inp)"
proof -
  obtain st i where o: "open_session (rt_store rt) now new_id inp = (st, i)" by fastforce
  obtain rt' x where r: "refresh_hook_state (rt\<lparr>rt_store := st\<rparr>) now i = (rt', x)" by fastforce
  show ?thesis using refresh_frame(1) [of "rt\<lparr>rt_store := st\<rparr>" now i]
    by (simp add: open_runtime_session_def o r split: sum.splits)
qed

lemma acknowledge_store:
  "\<exists>ids'. rt_store (fst (acknowledge_session rt now s ids)) = acknowledge_events (rt_store rt) now s ids'"
  by (auto simp: acknowledge_session_def Let_def)

lemma step_refines: "runtime_step D rt rt' \<Longrightarrow> refines D (rt_store rt) (rt_store rt')"
proof (induction rule: runtime_step.induct)
  case (Open new_id rt now inp)
  then show ?case by (simp add: open_runtime_store refines_open)
next
  case (Close rt now i)
  show ?case by (rule refines_tracked) (rule upkeep.keeps_close_runtime)
next
  case (Declare sources scope_errors rt now u d st' i)
  then show ?case by (simp add: refines_declare)
next
  case (Cancel rt now s i st' t)
  then show ?case by (simp add: refines_cancel)
next
  case (Tick env monitors rt host now dups ws)
  then show ?case by (rule refines_tick)
next
  case (Checkpoint rt now mon ws' v)
  show ?case by (simp add: refines_checkpoint)
next
  case (Claim bd rt now s l mx)
  show ?case
    by (auto simp: claim_frame claimed_store_def refines_touch split: option.splits intro: refines_trans [OF refines_touch refines_delivered])
next
  case (Reserve rt now rid s l mx)
  show ?case by (simp add: reserve_store refines_touch)
next
  case (Commit bd rt now rid)
  show ?case by (rule refines_commit)
next
  case (Release rt now rid)
  show ?case by (simp add: release_store refines_same)
next
  case (Acknowledge rt now s ids)
  then show ?case using acknowledge_store [of rt now s ids] refines_acknowledge by metis
next
  case (Retract rt now ws'' mon obj ids')
  show ?case by (rule refines_retract)
next
  case (Suppress rt now mon obj ws' ttl)
  show ?case by (rule refines_tracked) (rule upkeep.keeps_suppress_events)
qed

lemma run_refines: "runtime_run D rt rt' \<Longrightarrow> refines D (rt_store rt) (rt_store rt')"
  by (induction rule: runtime_run.induct) (auto intro: refines_same refines_trans [OF _ step_refines])

section \<open>Properties of every execution\<close>

lemma in_mailbox: "e \<in> set (pending_events st s u) \<Longrightarrow> e_id e \<in> mailbox st s"
  using pending_any by (auto simp: mailbox_def)

text \<open>
  C14: the runtime refines the mailbox specification. Whatever operations the daemon serves, in
  any order and at any clock readings, errors included, the store stays sound and its pending
  events change only as the specification allows: an event is posted under an identifier not
  drawn before, or events are taken from one recipient, or an object's events are withdrawn.
\<close>

theorem runtime_refines_mailbox:
  assumes "runtime_run D rt rt'" and "sound (rt_store rt)"
  shows "sound (rt_store rt') \<and> mail_run D (mailbox (rt_store rt)) (mailbox (rt_store rt'))"
  using run_refines [OF assms(1)] assms(2) by (simp add: refines_def)

lemma demo_sound: "sound (rt_store demo_rt)"
  using demo_wf
  by (simp add: sound_def demo_rt_def, simp add: private_store_def owners_def rows_typed_def scratch_suppressions_def demo_store_def demo_event_def
      empty_store_def ephemeral_id_def ephemeral_prefix_def)

theorem runtime_refines_mailbox_witness:
  "\<exists>rt'. runtime_run {''e1''} demo_rt rt' \<and> sound (rt_store rt') \<and> mailbox (rt_store rt') ''L'' \<noteq> mailbox (rt_store demo_rt) ''L''"
proof -
  let ?rt = "fst (claim_delivery text_bd demo_rt 20000 ''L'' TurnInterruptible None)"
  have r: "runtime_run {''e1''} demo_rt ?rt" by (rule runtime_run.More [OF runtime_run.Start runtime_step.Claim])
  have "mailbox (rt_store ?rt) ''L'' \<noteq> mailbox (rt_store demo_rt) ''L''" by code_simp
  with runtime_refines_mailbox [OF r demo_sound] r show ?thesis by blast
qed



text \<open>
  C16: an ephemeral monitor is private to the session that declared it. In every state the
  daemon can reach from an empty store, an event of an ephemeral monitor is unread only for
  the session on record as its owner.
\<close>

theorem ephemeral_events_stay_private:
  assumes "runtime_run D rt rt'" and "rt_store rt = empty_store"
    and "e \<in> set (unread_events (rt_store rt') s u)" and "ephemeral_id (e_monitor e)"
  shows "\<exists>t \<in> set (ephemerals (rt_store rt')). t_id t = e_monitor e \<and> t_session t = s"
proof -
  have "sound empty_store"
    by (simp add: sound_def wf_store_empty) (simp add: private_store_def rows_typed_def owners_def scratch_suppressions_def empty_store_def)
  then have "sound (rt_store rt')" using run_refines [OF assms(1)] assms(2) by (simp add: refines_def)
  then have "private_store (rt_store rt')" by (simp add: sound_def)
  moreover obtain p where "e \<in> set (events (rt_store rt'))" "p \<in> set (projections (rt_store rt'))" "p_event p = e_id e" "p_session p = s"
    using assms(3) by (auto simp: in_unread unread_row_def)
  ultimately have "(e_monitor e, s) \<in> set (owners (rt_store rt'))"
    using assms(4) unfolding private_store_def by blast
  then show ?thesis by (auto simp: owners_def)
qed

definition demo_start :: runtime where
  "demo_start = \<lparr>rt_store = empty_store, rt_reg = empty_registry None, rt_adapters = [''claude''], rt_files = Map.empty\<rparr>"

definition demo_open :: "ident \<Rightarrow> open_session_input" where
  "demo_open h = \<lparr>oi_adapter = ''claude'', oi_host = h, oi_ws = Some ''W'', oi_role = None, oi_agent = ''a'', oi_hook_path = ''hook''\<rparr>"

definition demo_watch :: watch_decl where
  "demo_watch = \<lparr>dl_session = ''L'', dl_source = ''file'', dl_scope = [(''interval'', JStr ''1s'')], dl_urgency = None,
     dl_instruction = Some ''look'', dl_display = None\<rparr>"

definition demo_host :: host where
  "demo_host = \<lparr>ho_sources = (\<lambda>s. s = ''file''),
     ho_observe = (\<lambda>i cfg s t w. Inr \<lparr>ob_observations = [demo_observation ''a'' None], ob_next = None, ob_outcome = None\<rparr>),
     ho_watched = (\<lambda>i. False), ho_dormancy = session_dormancy_ms\<rparr>"

definition demo_opened :: runtime where
  "demo_opened = fst (open_runtime_session demo_start 1000 ''L'' (demo_open ''h''))"

definition demo_declared :: "declare_error + store \<times> ident" where
  "demo_declared = declare_ephemeral (\<lambda>s. s = ''file'') (\<lambda>s c. []) (rt_store demo_opened) 2000 ''U'' demo_watch"

definition demo_ticked :: "store \<Rightarrow> runtime" where
  "demo_ticked st = fst (tick demo_env demo_host (demo_opened\<lparr>rt_store := st\<rparr>) 100000 [] [] ''W'')"

theorem ephemeral_events_stay_private_witness:
  "\<exists>rt' e t. runtime_run {} demo_start rt' \<and> e \<in> set (unread_events (rt_store rt') ''L'' None) \<and>
     ephemeral_id (e_monitor e) \<and> t \<in> set (ephemerals (rt_store rt')) \<and> t_id t = e_monitor e \<and> t_session t = ''L''"
proof -
  have "case demo_declared of Inr (st, i) \<Rightarrow> i \<notin> t_id ` set (ephemerals (rt_store demo_opened)) | Inl _ \<Rightarrow> False" by code_simp
  then obtain st i where d: "demo_declared = Inr (st, i)" "i \<notin> t_id ` set (ephemerals (rt_store demo_opened))"
    by (auto split: sum.splits)
  let ?rt = "fst (tick demo_env demo_host (demo_opened\<lparr>rt_store := st\<rparr>) 100000 [] [] ''W'')"
  have s1: "runtime_step {} demo_start demo_opened"
    unfolding demo_opened_def by (rule runtime_step.Open) (simp add: demo_start_def empty_store_def)
  have s2: "runtime_step {} demo_opened (demo_opened\<lparr>rt_store := st\<rparr>)"
    by (rule runtime_step.Declare [OF d(1) [unfolded demo_declared_def] d(2)])
  have s3: "runtime_step {} (demo_opened\<lparr>rt_store := st\<rparr>) ?rt"
    by (rule runtime_step.Tick) (simp_all add: draws_outside_def demo_env_fresh)
  have r: "runtime_run {} demo_start ?rt"
    by (rule runtime_run.More [OF runtime_run.More [OF runtime_run.More [OF runtime_run.Start s1] s2] s3])
  have "case demo_declared of Inr (x, i) \<Rightarrow> (case unread_events (rt_store (demo_ticked x)) ''L'' None of
      e # es \<Rightarrow> ephemeral_id (e_monitor e) | [] \<Rightarrow> False) | Inl _ \<Rightarrow> False" by code_simp
  then obtain e where e: "e \<in> set (unread_events (rt_store ?rt) ''L'' None)" "ephemeral_id (e_monitor e)"
    by (auto simp: d(1) demo_ticked_def split: list.splits)
  have "rt_store demo_start = empty_store" by (simp add: demo_start_def)
  from ephemeral_events_stay_private [OF r this e] r e show ?thesis by blast
qed

end
