(* ===== verification/AM_LifecycleProps.thy ===== *)
theory AM_LifecycleProps
  imports AM_TickProps
begin

text \<open>
  The errors and boundaries of the lifecycle: a failing monitor keeps its state and is retried,
  polls are spaced by the interval, a declared urgency band is parsed as it is printed, and a
  closed session's monitors never run again.
\<close>

section \<open>A failing monitor\<close>

text \<open>What a poll interval asks of a monitor that is not cron-driven.\<close>

definition poll_interval :: "monitor \<Rightarrow> (duration_error + ms) option" where
  "poll_interval m =
     (if m_type m = ''schedule'' then None
      else Some (case map_of (m_config m) ''interval'' of
          Some (JStr text) \<Rightarrow> parse_duration text
        | _ \<Rightarrow> Inr (if m_type m = ''api-poll'' then api_poll_ms else file_fingerprint_poll_ms)))"

lemma schedule_interval:
  assumes "poll_interval m = Some (Inr ms)"
  shows "schedule_for_monitor env st now m ws = Inr \<lparr>pg_due =
     ms \<le> now - default (rs_last_observation (get_monitor_state st (m_id m) ws)) 0, pg_next = ms, pg_error = None\<rparr>"
  using assms by (auto simp: poll_interval_def schedule_for_monitor_def Let_def split: if_splits option.splits json.splits sum.splits)

definition observation_fails :: "env \<Rightarrow> host \<Rightarrow> store \<Rightarrow> ms \<Rightarrow> monitor \<Rightarrow> string option \<Rightarrow> ident option \<Rightarrow> ingest_error \<Rightarrow> bool" where
  "observation_fails env host st now m ws r e =
     (case ho_observe host (m_id m) (m_config m) (rs_source_state (get_monitor_state st (m_id m) ws)) now ws of
        Inl msg \<Rightarrow> e = ObserveFailed msg
      | Inr res \<Rightarrow> ingest env st now m (ob_observations res) ws (ob_next res) (ob_outcome res) r = Inl e)"

lemma monitor_state_history:
  "get_monitor_state (st\<lparr>history := h\<rparr>) mon ws = get_monitor_state st mon ws"
  by (simp add: get_monitor_state_def)


definition broken_host :: host where
  "broken_host = demo_host\<lparr>ho_observe := (\<lambda>i cfg s t w. Inl ''ENOENT'')\<rparr>"


section \<open>Polls are spaced\<close>

lemma state_after_set: "get_monitor_state (set_monitor_state st now mon ws s n t) mon ws =
    \<lparr>rs_last_observation = map_option db_time t, rs_source_state = Some (json_or_empty s), rs_notify = n\<rparr>"
proof (cases "find (monitor_state_key mon ws) (monitor_rows st)")
  case None
  then show ?thesis
    by (simp add: set_monitor_state_def get_monitor_state_def Let_def find_append monitor_state_key_def ws_is_def)
next
  case (Some x)
  let ?w = "\<lambda>r. r\<lparr>r_last_observation := map_option db_time t, r_source_state := json_or_empty s, r_notify := n, r_updated := db_time now\<rparr>"
  have "find (monitor_state_key mon ws) (update_where (monitor_state_key mon ws) ?w rows) = map_option ?w (find (monitor_state_key mon ws) rows)" for rows
    by (induction rows) (auto simp: update_where_def monitor_state_key_def)
  with Some show ?thesis by (simp add: set_monitor_state_def get_monitor_state_def Let_def)
qed

lemma loop_monitor_rows:
  assumes "wf_store st" and "draws_fresh env"
  shows "monitor_rows (fst (materialize_loop env now m ws r vs (st, ids))) = monitor_rows st"
  using assms
proof (induction vs arbitrary: st ids)
  case (Cons v vs)
  show ?case
  proof (cases "process_observation env st now v ws r")
    case (Inl e)
    have "monitor_rows (errored_row env st now m ws e) = monitor_rows st" by (simp add: errored_row_def)
    with Cons Inl wf_bookkeeping(2) [OF Cons.prems(1)] show ?thesis by simp
  next
    case (Inr x)
    show ?thesis
    proof (cases x)
      case (Some y)
      obtain st1 e where y: "y = (st1, e)" by (cases y)
      have p: "process_observation env st now v ws r = Inr (Some (st1, e))" by (simp add: Inr Some y)
      have t: "posts e r st st1" by (rule process_posts [OF Cons.prems p])
      have "wf_store st1"
      proof -
        have f: "fate env v = Inr True"
          using process_other [where env = env and v = v and st = st and now = now and ws = ws and r = r] p
          by (cases "fate env v"; cases "projr (fate env v)") auto
        show ?thesis using p by (rule_tac process_step [OF Cons.prems f, of now ws r]) simp
      qed
      from Cons.IH [OF this Cons.prems(2)] t show ?thesis by (simp add: p posts_def)
    qed (use Cons Inr in simp)
  qed
qed simp

text \<open>
  Polls are spaced by the interval. After a successful observation at an instant, a monitor
  with an interval is not due again before the interval has passed, less at most the second the
  stored timestamp drops, and is due at every instant from the interval on.
\<close>

lemma polls_are_spaced:
  assumes wf: "wf_store st" and fr: "draws_fresh env" and i: "poll_interval m = Some (Inr ms)"
    and ing: "ingest env st now m obs ws next src r = Inr (st', ids)"
  shows "\<exists>p. schedule_for_monitor env st' later m ws = Inr p \<and> (now + ms \<le> later \<longrightarrow> pg_due p) \<and>
     (pg_due p \<longrightarrow> now + ms - 1000 < later)"
proof -
  obtain passed em n where
    s: "materialize_span env (set_monitor_state st now (m_id m) ws
          (case next of Some v \<Rightarrow> Some v | None \<Rightarrow> rs_source_state (get_monitor_state st (m_id m) ws)) n (Some now))
        now m em (length obs) ws src r = (st', ids)"
    using ing by (auto simp: ingest_def Let_def split: sum.splits)
  define st1 where "st1 = set_monitor_state st now (m_id m) ws
      (case next of Some v \<Rightarrow> Some v | None \<Rightarrow> rs_source_state (get_monitor_state st (m_id m) ws)) n (Some now)"
  define d where "d = JObj [(''observed'', JNum (show_nat (length obs))), (''emitted'', JNum (show_nat (length em)))]"
  define st2 where "st2 = record_history st1 now (m_id m) ws (m_type m) (span_outcome (length obs) (length em) src) d"
  have w: "wf_store st2" unfolding st2_def st1_def by (intro wf_bookkeeping wf)
  have "fst (materialize_loop env now m ws r em (st2, [])) = st'"
    using s by (simp add: materialize_span_def st1_def [symmetric] d_def [symmetric] st2_def [symmetric])
  then have "monitor_rows st' = monitor_rows st2" using loop_monitor_rows [OF w fr] by metis
  then have "get_monitor_state st' (m_id m) ws = get_monitor_state st1 (m_id m) ws"
    by (simp add: get_monitor_state_def st2_def)
  then have g: "rs_last_observation (get_monitor_state st' (m_id m) ws) = Some (db_time now)"
    by (simp add: st1_def state_after_set)
  show ?thesis
    using db_time_le [of now] db_time_gt [of now] by (simp add: schedule_interval [OF i] g)
qed

lemma polls_are_spaced_witness:
  "\<exists>st' ids p. ingest demo_env demo_store 6500 (demo_monitor None) [demo_observation ''a'' None] (Some ''W'') None None None =
     Inr (st', ids) \<and> schedule_for_monitor demo_env st' 36500 (demo_monitor None) (Some ''W'') = Inr p \<and> pg_due p"
proof -
  let ?r = "ingest demo_env demo_store 6500 (demo_monitor None) [demo_observation ''a'' None] (Some ''W'') None None None"
  have "case ?r of Inr _ \<Rightarrow> True | Inl _ \<Rightarrow> False" by code_simp
  then obtain st' ids where r: "?r = Inr (st', ids)" by (cases ?r) auto
  have p: "poll_interval (demo_monitor None) = Some (Inr file_fingerprint_poll_ms)" by code_simp
  from polls_are_spaced [OF demo_wf demo_env_fresh p r, of 36500] r show ?thesis
    by (auto simp: file_fingerprint_poll_ms_def)
qed

section \<open>The urgency band\<close>

lemma split_dots_ne: "split_dots s \<noteq> []"
  by (induction s rule: split_dots.induct) (auto split: list.splits)

lemma join_split_dots: "join ''..'' (split_dots s) = s"
proof (induction s rule: split_dots.induct)
  case (3 c d r)
  show ?case
  proof (cases "c = CHR ''.'' \<and> d = CHR ''.''")
    case True
    then show ?thesis using 3(1) split_dots_ne [of r] by (cases "split_dots r") auto
  next
    case False
    then show ?thesis using 3(2) split_dots_ne [of "d # r"] by (cases "split_dots (d # r)"; cases "tl (split_dots (d # r))") auto
  qed
qed simp_all

lemma urgency_level_iff: "urgency_level s = Some u \<longleftrightarrow> s = urgency_text u"
  by (cases u) (auto simp: urgency_level_def)

text \<open>
  An urgency band is parsed as it is printed. A level parses to itself as a scalar band;
  \<open>lo..hi\<close> parses to its two bounds exactly when they are in order and is refused as inverted
  otherwise; and whatever parses is such a text up to blanks, with its bounds in order.
\<close>

lemma urgency_band_round_trip:
  "parse_urgency_band (urgency_text u) = Inr (u, u) \<and>
   parse_urgency_band (urgency_text lo @ ''..'' @ urgency_text hi) = (if lo \<le> hi then Inr (lo, hi) else Inl InvertedBand) \<and>
   (parse_urgency_band raw = Inr (lo', hi') \<longrightarrow> lo' \<le> hi' \<and>
      (trim raw = urgency_text lo' \<and> lo' = hi' \<or>
       (\<exists>a b. trim raw = a @ ''..'' @ b \<and> trim a = urgency_text lo' \<and> trim b = urgency_text hi')))"
proof (intro conjI impI)
  show "parse_urgency_band (urgency_text u) = Inr (u, u)" by (cases u; hypsubst; code_simp)
  show "parse_urgency_band (urgency_text lo @ ''..'' @ urgency_text hi) = (if lo \<le> hi then Inr (lo, hi) else Inl InvertedBand)"
    by (cases lo; cases hi; hypsubst; code_simp)
next
  assume p: "parse_urgency_band raw = Inr (lo', hi')"
  then show "lo' \<le> hi'"
    by (auto simp: parse_urgency_band_def Let_def less_eq_urgency_def split: list.splits option.splits if_splits)
  have ne: "split_dots (trim raw) \<noteq> []" by (rule split_dots_ne)
  show "trim raw = urgency_text lo' \<and> lo' = hi' \<or>
       (\<exists>a b. trim raw = a @ ''..'' @ b \<and> trim a = urgency_text lo' \<and> trim b = urgency_text hi')"
  proof (cases "1 < length (split_dots (trim raw))")
    case True
    then obtain a b where s: "split_dots (trim raw) = [a, b]" and l: "urgency_level (trim a) = Some lo'" "urgency_level (trim b) = Some hi'"
      using p by (auto simp: parse_urgency_band_def Let_def split: list.splits option.splits if_splits)
    have "trim raw = a @ ''..'' @ b" using join_split_dots [of "trim raw"] s by simp
    with l show ?thesis by (auto simp: urgency_level_iff)
  next
    case False
    with p have "urgency_level (trim raw) = Some lo'" "urgency_level (trim raw) = Some hi'"
      by (auto simp: parse_urgency_band_def Let_def split: list.splits option.splits if_splits)
    then show ?thesis by (auto simp: urgency_level_iff)
  qed
qed

definition demo_band :: string where
  "demo_band = '' normal .. high ''"

lemma urgency_band_round_trip_witness:
  "parse_urgency_band demo_band = Inr (Normal, High) \<and> Normal \<le> High"
proof -
  have "parse_urgency_band demo_band = Inr (Normal, High)" by code_simp
  with urgency_band_round_trip [of Low Low Low demo_band Normal High] show ?thesis by blast
qed

section \<open>A closed session\<close>

text \<open>
  Closing a session silences its ephemeral monitors for good. After a successful close the
  session is dormant and none of its ephemeral monitors is active; and even when the session (or any other)
  is opened afterwards, no tick of any workspace runs one of them.
\<close>

lemma closed_session_is_silent:
  assumes "close_runtime_session rt now i = (rt', Inr ())"
  shows "(\<exists>s. find_session (rt_store rt') i = Some s \<and> s_status s = Dormant) \<and>
     list_ephemerals_for_session (rt_store rt') i = [] \<and>
     (\<forall>ws. \<forall>t \<in> set (list_active_ephemerals (fst (open_session (rt_store rt') later new_id inp)) ws). t_session t \<noteq> i)"
proof -
  define st1 where "st1 = close_session (rt_store rt) now i"
  define st2 where "st2 = fst (reap_ephemerals_for_session st1 now i)"
  obtain s where g: "get_session st1 i = Inr s"
    using assms by (auto simp: close_runtime_session_def st1_def [symmetric] Let_def split: sum.splits prod.splits)
  obtain rt1 y where r: "refresh_hook_state (rt\<lparr>rt_store := st2\<rparr>) now i = (rt1, y)" by fastforce
  have "rt_store rt1 = st2" using refresh_frame(1) [of "rt\<lparr>rt_store := st2\<rparr>" now i] r by simp
  then have st: "rt_store rt' = st2"
    using assms g r by (auto simp: close_runtime_session_def st1_def [symmetric] st2_def [symmetric] Let_def split: sum.splits)
  have f: "find (\<lambda>s. s_id s = i) (sessions st1) = Some s" using g by (auto simp: get_session_def split: option.splits)
  have s: "s \<in> set (sessions st1)" "s_id s = i" using find_Some_set [OF f] by simp_all
  let ?close = "\<lambda>s :: session. s\<lparr>s_status := Dormant, s_dormant := Some (db_time now), s_last_active := db_time now, s_updated := db_time now\<rparr>"
  have "s \<in> (\<lambda>x. if s_id x = i then ?close x else x) ` set (sessions (rt_store rt))"
    using s(1) by (simp add: st1_def close_session_def set_update_where)
  then obtain x where x: "s = (if s_id x = i then ?close x else x)" by blast
  have dorm: "s_status s = Dormant" using s(2) by (cases "s_id x = i") (simp_all add: x)
  have none: "\<forall>t \<in> set (ephemerals st2). t_session t = i \<longrightarrow> t_status t \<noteq> EActive"
    by (auto simp: st2_def reap_ephemerals_for_session_def list_ephemerals_for_session_def Let_def set_update_where filter_empty_conv)
  have "ephemerals (fst (open_session st2 later new_id inp)) = ephemerals st2"
    by (simp add: open_session_def split: option.splits)
  then have "\<forall>ws. \<forall>t \<in> set (list_active_ephemerals (fst (open_session st2 later new_id inp)) ws). t_session t \<noteq> i"
    using none by (simp add: list_active_ephemerals_def, blast)
  moreover have "list_ephemerals_for_session st2 i = []"
    using none by (simp add: list_ephemerals_for_session_def filter_empty_conv)
  moreover have "find_session st2 i = Some s" using f by (simp add: find_session_def st2_def)
  ultimately show ?thesis unfolding st using dorm by blast
qed

lemma closed_session_is_silent_witness:
  "\<exists>rt'. close_runtime_session demo_rt 5000 ''L'' = (rt', Inr ()) \<and> list_ephemerals_for_session (rt_store rt') ''L'' = []"
proof -
  let ?r = "close_runtime_session demo_rt 5000 ''L''"
  have "case snd ?r of Inr _ \<Rightarrow> True | Inl _ \<Rightarrow> False" by code_simp
  then obtain rt' where r: "?r = (rt', Inr ())" by (cases ?r) (auto split: sum.splits)
  from closed_session_is_silent [OF r, of 0 "''X''" "demo_open ''h''"] r show ?thesis by blast
qed

end
