(* ===== verification/AM_Utf16.thy ===== *)
theory AM_Utf16
  imports AM_Prelude "HOL-Library.Word" "HOL-Library.Sublist"
begin

unbundle bit_operations_syntax

text \<open>
  JavaScript strings as the command-line transports measure them: lists of UTF-16 code units,
  iterated by code point. With \<open>truncate-at-code-point-boundary.ts\<close>, the UTF-8 bytes of a
  string and the shell quoting \<open>escapeShellPath\<close> of \<open>delivery-event-render.ts\<close>.
\<close>

type_synonym text16 = "16 word list"

text \<open>An ASCII literal of the source.\<close>

definition ascii :: "string \<Rightarrow> text16" where
  "ascii s = map (\<lambda>c. of_nat (of_char c)) s"

lemma length_ascii [simp]: "length (ascii s) = length s"
  by (simp add: ascii_def)

section \<open>Code points\<close>

definition high_surrogate :: "16 word \<Rightarrow> bool" where
  "high_surrogate u = (0xD800 \<le> u \<and> u \<le> 0xDBFF)"

definition low_surrogate :: "16 word \<Rightarrow> bool" where
  "low_surrogate u = (0xDC00 \<le> u \<and> u \<le> 0xDFFF)"

text \<open>\<open>for (const ch of value)\<close>: a surrogate pair is one character, anything else one unit.\<close>

fun code_points :: "text16 \<Rightarrow> text16 list" where
  "code_points [] = []"
| "code_points [u] = [[u]]"
| "code_points (u # v # r) =
     (if high_surrogate u \<and> low_surrogate v then [u, v] # code_points r else [u] # code_points (v # r))"

lemma concat_code_points [simp]: "concat (code_points s) = s"
  by (induction s rule: code_points.induct) auto

lemma code_points_shape: "ch \<in> set (code_points s) \<Longrightarrow>
    (\<exists>u. ch = [u]) \<or> (\<exists>u v. ch = [u, v] \<and> high_surrogate u \<and> low_surrogate v)"
  by (induction s rule: code_points.induct) (auto split: if_splits)

text \<open>\<open>ch.codePointAt(0)\<close>.\<close>

definition code_point_value :: "text16 \<Rightarrow> nat" where
  "code_point_value ch = (case ch of
       [u, v] \<Rightarrow> 0x10000 + (unat u - 0xD800) * 0x400 + (unat v - 0xDC00)
     | u # _ \<Rightarrow> unat u
     | [] \<Rightarrow> 0)"

section \<open>Truncation at a code-point boundary\<close>

fun truncate_loop :: "int \<Rightarrow> text16 \<Rightarrow> text16 list \<Rightarrow> text16" where
  "truncate_loop budget out [] = out"
| "truncate_loop budget out (ch # chs) =
     (if budget < int (length out + length ch) then out else truncate_loop budget (out @ ch) chs)"

definition truncate_at_code_point_boundary :: "text16 \<Rightarrow> int \<Rightarrow> text16" where
  "truncate_at_code_point_boundary s budget = truncate_loop budget [] (code_points s)"

lemma truncate_loop_spec:
  "\<exists>n. truncate_loop b out chs = out @ concat (take n chs) \<and>
     (int (length out) \<le> b \<longrightarrow> int (length (truncate_loop b out chs)) \<le> b) \<and>
     (n < length chs \<longrightarrow> b < int (length (out @ concat (take (Suc n) chs)))) \<and> n \<le> length chs"
proof (induction chs arbitrary: out)
  case (Cons ch chs)
  show ?case
  proof (cases "b < int (length out + length ch)")
    case True
    then show ?thesis by (intro exI [of _ 0]) simp
  next
    case False
    from Cons.IH [of "out @ ch"] obtain n where n: "truncate_loop b (out @ ch) chs = (out @ ch) @ concat (take n chs)"
      "int (length (out @ ch)) \<le> b \<longrightarrow> int (length (truncate_loop b (out @ ch) chs)) \<le> b"
      "n < length chs \<longrightarrow> b < int (length ((out @ ch) @ concat (take (Suc n) chs)))" "n \<le> length chs" by blast
    show ?thesis using False n by (intro exI [of _ "Suc n"]) auto
  qed
qed simp

text \<open>The cut is the longest prefix of whole characters within the budget.\<close>

lemma truncate_spec:
  "\<exists>n \<le> length (code_points s). truncate_at_code_point_boundary s b = concat (take n (code_points s)) \<and>
     (0 \<le> b \<longrightarrow> int (length (truncate_at_code_point_boundary s b)) \<le> b) \<and>
     (n < length (code_points s) \<longrightarrow> b < int (length (concat (take (Suc n) (code_points s)))))"
proof -
  obtain n where "truncate_loop b [] (code_points s) = [] @ concat (take n (code_points s))"
    "int (length ([] :: text16)) \<le> b \<longrightarrow> int (length (truncate_loop b [] (code_points s))) \<le> b"
    "n < length (code_points s) \<longrightarrow> b < int (length ([] @ concat (take (Suc n) (code_points s))))" "n \<le> length (code_points s)"
    using truncate_loop_spec [of b "[]" "code_points s"] by blast
  then show ?thesis unfolding truncate_at_code_point_boundary_def by (intro exI [of _ n]) simp
qed

lemma truncate_length: "int (length (truncate_at_code_point_boundary s b)) \<le> max 0 b"
proof (cases "0 \<le> b")
  case True
  then show ?thesis using truncate_spec [of s b] by auto
next
  case False
  have "truncate_loop b [] chs = []" for chs using False by (cases chs) auto
  then show ?thesis by (simp add: truncate_at_code_point_boundary_def)
qed

lemma concat_take_code_points: "concat (take n (code_points s)) @ concat (drop n (code_points s)) = s"
  by (simp only: concat_append [symmetric] append_take_drop_id concat_code_points)

lemma truncate_prefix: "prefix (truncate_at_code_point_boundary s b) s"
  using truncate_spec [of s b] concat_take_code_points [of _ s] by (metis prefixI)

lemma truncate_whole:
  assumes "int (length s) \<le> b" shows "truncate_at_code_point_boundary s b = s"
proof -
  obtain n where n: "n \<le> length (code_points s)" "truncate_at_code_point_boundary s b = concat (take n (code_points s))"
    "n < length (code_points s) \<longrightarrow> b < int (length (concat (take (Suc n) (code_points s))))"
    using truncate_spec [of s b] by blast
  have "length (concat (take (Suc n) (code_points s))) \<le> length s"
    by (subst (2) concat_take_code_points [of "Suc n" s, symmetric]) (simp only: length_append le_add1)
  with assms n(3) have "\<not> n < length (code_points s)" by auto
  with n show ?thesis by simp
qed

definition truncate_with_marker :: "text16 \<Rightarrow> int \<Rightarrow> text16 \<Rightarrow> text16" where
  "truncate_with_marker s cap marker =
     (if int (length s) \<le> cap then s
      else truncate_at_code_point_boundary s (max 0 (cap - int (length marker))) @ marker)"

definition append_marker_within_cap :: "text16 \<Rightarrow> int \<Rightarrow> text16 \<Rightarrow> text16" where
  "append_marker_within_cap body cap marker =
     (let budget = max 0 (cap - int (length marker)) in
      if int (length body) \<le> budget then body @ marker
      else truncate_at_code_point_boundary body budget @ marker)"

lemma truncate_with_marker_length: "int (length marker) \<le> cap \<Longrightarrow> int (length (truncate_with_marker s cap marker)) \<le> cap"
  using truncate_length [of s "cap - int (length marker)"] by (auto simp: truncate_with_marker_def)

lemma append_marker_length: "int (length marker) \<le> cap \<Longrightarrow> int (length (append_marker_within_cap body cap marker)) \<le> cap"
  using truncate_length [of body "cap - int (length marker)"] by (auto simp: append_marker_within_cap_def Let_def)

section \<open>White space and control characters\<close>

definition js_space :: "16 word \<Rightarrow> bool" where
  "js_space u = (u \<in> {0x09, 0x0A, 0x0B, 0x0C, 0x0D, 0x20, 0xA0, 0x1680, 0x2028, 0x2029, 0x202F, 0x205F, 0x3000, 0xFEFF} \<or>
     (0x2000 \<le> u \<and> u \<le> 0x200A))"

definition trim16 :: "text16 \<Rightarrow> text16" where
  "trim16 s = rev (dropWhile js_space (rev (dropWhile js_space s)))"

end
