(* ===== verification/AM_EventRender.thy ===== *)
theory AM_EventRender
  imports AM_Utf16 AM_Text
begin

text \<open>
  The rendering that the two injecting transports share, \<open>delivery-event-render.ts\<close>: the quoting
  of a socket path, the block of one event and the greedy packing of whole blocks under a cap.
  A string is a list of UTF-16 code units, so every cap is measured as the code measures it.
\<close>

section \<open>Quoting a path for the shell\<close>

definition path_safe :: "16 word \<Rightarrow> bool" where
  "path_safe u = ((0x41 \<le> u \<and> u \<le> 0x5A) \<or> (0x61 \<le> u \<and> u \<le> 0x7A) \<or> (0x30 \<le> u \<and> u \<le> 0x39) \<or>
     u \<in> {0x2F, 0x2E, 0x5F, 0x2D})"

definition path_safe_char :: "text16 \<Rightarrow> bool" where
  "path_safe_char ch = (case ch of [u] \<Rightarrow> path_safe u | _ \<Rightarrow> False)"

text \<open>\<open>Buffer.from(ch, 'utf8')\<close>; an unpaired surrogate becomes the replacement character.\<close>

definition utf8_bytes :: "nat \<Rightarrow> nat list" where
  "utf8_bytes c =
     (if c < 0x80 then [c]
      else if c < 0x800 then [0xC0 + c div 0x40, 0x80 + c mod 0x40]
      else if 0xD800 \<le> c \<and> c \<le> 0xDFFF then [0xEF, 0xBF, 0xBD]
      else if c < 0x10000 then [0xE0 + c div 0x1000, 0x80 + c div 0x40 mod 0x40, 0x80 + c mod 0x40]
      else [0xF0 + c div 0x40000, 0x80 + c div 0x1000 mod 0x40, 0x80 + c div 0x40 mod 0x40, 0x80 + c mod 0x40])"

definition hex_unit :: "nat \<Rightarrow> 16 word" where
  "hex_unit d = (if d < 10 then of_nat (0x30 + d) else of_nat (0x57 + d))"

definition hex_escape :: "nat \<Rightarrow> text16" where
  "hex_escape b = [0x5C, 0x78, hex_unit (b div 16), hex_unit (b mod 16)]"

definition escape_char_16 :: "text16 \<Rightarrow> text16" where
  "escape_char_16 ch =
     (if path_safe_char ch then ch else concat (map hex_escape (utf8_bytes (code_point_value ch))))"

definition escape_shell_path :: "text16 \<Rightarrow> text16" where
  "escape_shell_path s =
     (if list_all path_safe_char (code_points s) then [0x27] @ s @ [0x27]
      else [0x24, 0x27] @ concat (map escape_char_16 (code_points s)) @ [0x27])"

text \<open>What a POSIX shell with ANSI-C quoting reads from such a word: its bytes.\<close>

definition unhex :: "16 word \<Rightarrow> nat option" where
  "unhex u = (let n = unat u in
     if 0x30 \<le> n \<and> n \<le> 0x39 then Some (n - 0x30) else if 0x61 \<le> n \<and> n \<le> 0x66 then Some (n - 0x57) else None)"

fun ansi_c_body :: "text16 \<Rightarrow> nat list option" where
  "ansi_c_body [] = None"
| "ansi_c_body (u # r) =
     (if u = 0x27 then (if r = [] then Some [] else None)
      else if u = 0x5C then
        (case r of
           x # a # b # r' \<Rightarrow>
             (case (unhex a, unhex b) of
                (Some m, Some n) \<Rightarrow> if x = 0x78 then map_option ((#) (16 * m + n)) (ansi_c_body r') else None
              | _ \<Rightarrow> None)
         | _ \<Rightarrow> None)
      else if u < 0x80 then map_option ((#) (unat u)) (ansi_c_body r)
      else None)"

fun single_quoted_body :: "text16 \<Rightarrow> nat list option" where
  "single_quoted_body [] = None"
| "single_quoted_body (u # r) =
     (if u = 0x27 then (if r = [] then Some [] else None)
      else if u < 0x80 then map_option ((#) (unat u)) (single_quoted_body r) else None)"

definition shell_word :: "text16 \<Rightarrow> nat list option" where
  "shell_word w = (case w of
       u # v # r \<Rightarrow> if u = 0x24 \<and> v = 0x27 then ansi_c_body r else if u = 0x27 then single_quoted_body (v # r) else None
     | _ \<Rightarrow> None)"

definition text_bytes :: "text16 \<Rightarrow> nat list" where
  "text_bytes s = concat (map (\<lambda>ch. utf8_bytes (code_point_value ch)) (code_points s))"

lemma utf8_range: "c < 0x110000 \<Longrightarrow> b \<in> set (utf8_bytes c) \<Longrightarrow> b < 256"
  by (auto simp: utf8_bytes_def split: if_splits)

lemma code_point_range: "ch \<in> set (code_points s) \<Longrightarrow> code_point_value ch < 0x110000"
proof -
  assume "ch \<in> set (code_points s)"
  then consider u where "ch = [u]" | u v where "ch = [u, v]" "high_surrogate u" "low_surrogate v"
    using code_points_shape by blast
  then show ?thesis
  proof cases
    case (1 u)
    have "unat u < 2 ^ 16" using unsigned_less [of u] by simp
    with 1 show ?thesis by (simp add: code_point_value_def)
  next
    case (2 u v)
    then have "unat u \<le> 0xDBFF" "unat v \<le> 0xDFFF"
      by (simp_all add: high_surrogate_def low_surrogate_def word_le_nat_alt)
    with 2(1) show ?thesis by (simp add: code_point_value_def)
  qed
qed

lemma path_safe_ascii: "path_safe u \<Longrightarrow> u < 0x80 \<and> u \<noteq> 0x27 \<and> u \<noteq> 0x5C"
  by (auto simp: path_safe_def word_le_nat_alt word_less_nat_alt)

lemma unat_hex_unit: "d < 16 \<Longrightarrow> unat (hex_unit d) = (if d < 10 then 0x30 + d else 0x57 + d)"
proof -
  assume d: "d < 16"
  have "unat (of_nat k :: 16 word) = k" if "k < 200" for k
    using that by (simp add: unat_of_nat take_bit_nat_eq_self)
  from this [of "0x30 + d"] this [of "0x57 + d"] d show ?thesis
    unfolding hex_unit_def by (auto simp del: of_nat_add)
qed

lemma unhex_hex_unit: "d < 16 \<Longrightarrow> unhex (hex_unit d) = Some d"
  by (auto simp: unhex_def Let_def unat_hex_unit)

lemma ansi_c_hex: "b < 256 \<Longrightarrow> ansi_c_body (hex_escape b @ r) = map_option ((#) b) (ansi_c_body r)"
  by (simp add: hex_escape_def unhex_hex_unit less_mult_imp_div_less)

lemma ansi_c_bytes: "list_all (\<lambda>b. b < 256) bs \<Longrightarrow>
    ansi_c_body (concat (map hex_escape bs) @ r) = map_option ((@) bs) (ansi_c_body r)"
  by (induction bs; cases "ansi_c_body r") (simp_all add: ansi_c_hex)

lemma ansi_c_char:
  assumes "ch \<in> set (code_points s)"
  shows "ansi_c_body (escape_char_16 ch @ r) = map_option ((@) (utf8_bytes (code_point_value ch))) (ansi_c_body r)"
proof (cases "path_safe_char ch")
  case True
  then obtain u where u: "ch = [u]" "path_safe u" by (auto simp: path_safe_char_def split: list.splits)
  note a = path_safe_ascii [OF u(2)]
  then have "unat u < 0x80" by (simp add: word_less_nat_alt)
  with True u a show ?thesis
    by (cases "ansi_c_body r") (simp_all add: escape_char_16_def code_point_value_def utf8_bytes_def)
next
  case False
  have "list_all (\<lambda>b. b < 256) (utf8_bytes (code_point_value ch))"
    using utf8_range [OF code_point_range [OF assms]] by (simp add: list_all_iff)
  with False show ?thesis by (simp add: escape_char_16_def ansi_c_bytes)
qed

lemma ansi_c_chars:
  "set chs \<subseteq> set (code_points s) \<Longrightarrow> ansi_c_body (concat (map escape_char_16 chs) @ [0x27]) =
     Some (concat (map (\<lambda>ch. utf8_bytes (code_point_value ch)) chs))"
  by (induction chs) (simp_all add: ansi_c_char [of _ s])

lemma single_quoted_chars:
  "list_all path_safe_char chs \<Longrightarrow> single_quoted_body (concat chs @ [0x27]) =
     Some (concat (map (\<lambda>ch. utf8_bytes (code_point_value ch)) chs))"
proof (induction chs)
  case (Cons ch chs)
  then obtain u where u: "ch = [u]" "path_safe u" by (auto simp: path_safe_char_def split: list.splits)
  note a = path_safe_ascii [OF u(2)]
  then have "unat u < 0x80" by (simp add: word_less_nat_alt)
  with Cons u a show ?case by (simp add: code_point_value_def utf8_bytes_def)
qed simp

definition tag_breakers :: "16 word set" where
  "tag_breakers = {0x3C, 0x3E, 0x5B, 0x5D, 0x3B, 0x60, 0x0A, 0x0D}"

lemma hex_unit_safe: "d < 16 \<Longrightarrow> hex_unit d \<notin> tag_breakers"
proof
  assume d: "d < 16" and "hex_unit d \<in> tag_breakers"
  moreover have "unat (hex_unit d) \<in> {0x30..0x39} \<union> {0x61..0x66}" using d by (simp add: unat_hex_unit)
  ultimately show False by (auto simp: tag_breakers_def)
qed

lemma path_safe_unbreaking: "path_safe_char ch \<Longrightarrow> set ch \<inter> tag_breakers = {}"
  by (auto simp: path_safe_char_def path_safe_def tag_breakers_def word_le_nat_alt split: list.splits)

lemma escape_char_unbreaking:
  assumes "ch \<in> set (code_points s)"
  shows "set (escape_char_16 ch) \<inter> tag_breakers = {}"
proof (cases "path_safe_char ch")
  case False
  have "set (hex_escape b) \<inter> tag_breakers = {}" if "b < 256" for b
    using hex_unit_safe [of "b div 16"] hex_unit_safe [of "b mod 16"] that
    by (auto simp: hex_escape_def less_mult_imp_div_less tag_breakers_def)
  then show ?thesis
    using False utf8_range [OF code_point_range [OF assms]] by (fastforce simp: escape_char_16_def)
qed (simp add: escape_char_16_def path_safe_unbreaking)

lemma escape_shell_path_unbreaking: "set (escape_shell_path s) \<inter> tag_breakers = {}"
proof (cases "list_all path_safe_char (code_points s)")
  case True
  have "set s = \<Union> (set ` set (code_points s))" by (metis concat_code_points set_concat)
  then have "set s \<inter> tag_breakers = {}" using True path_safe_unbreaking by (auto simp: list_all_iff)
  with True show ?thesis by (simp add: escape_shell_path_def tag_breakers_def)
next
  case False
  have "set (concat (map escape_char_16 (code_points s))) \<inter> tag_breakers = {}" using escape_char_unbreaking by fastforce
  with False show ?thesis by (simp add: escape_shell_path_def tag_breakers_def)
qed

text \<open>
  C24: a quoted path round-trips and cannot break out. The shell reads from the quoted word
  exactly the bytes of the path, whatever characters it holds, and the word holds none of the
  characters that could leave a \<open>channel\<close> tag or a code span.
\<close>

theorem escape_shell_path_round_trip:
  "shell_word (escape_shell_path s) = Some (text_bytes s) \<and>
   set (escape_shell_path s) \<inter> {0x3C, 0x3E, 0x5B, 0x5D, 0x3B, 0x60, 0x0A, 0x0D} = {}"
proof
  show "shell_word (escape_shell_path s) = Some (text_bytes s)"
  proof (cases "list_all path_safe_char (code_points s)")
    case True
    have "shell_word ([0x27] @ s @ [0x27]) = single_quoted_body (s @ [0x27])"
      by (cases s) (simp_all add: shell_word_def)
    with True single_quoted_chars [OF True] show ?thesis by (simp add: escape_shell_path_def text_bytes_def)
  next
    case False
    have "shell_word ([0x24, 0x27] @ r) = ansi_c_body r" for r by (simp add: shell_word_def)
    with False ansi_c_chars [OF subset_refl] show ?thesis by (simp add: escape_shell_path_def text_bytes_def)
  qed
qed (use escape_shell_path_unbreaking [of s] in \<open>simp only: tag_breakers_def\<close>)

section \<open>The block of one event\<close>

record event_view =
  ev_event :: text16
  ev_monitor :: text16
  ev_urgency :: text16
  ev_title :: text16
  ev_body :: text16
  ev_summary :: text16
  ev_detail :: "text16 option"
  ev_diff :: "text16 option"

definition max_event_diff :: int where
  "max_event_diff = 800"

definition diff_elision_marker :: text16 where
  "diff_elision_marker = [0x0A, 0x2026] @ ascii '' (change summary truncated)''"

definition bound_diff :: "text16 \<Rightarrow> text16" where
  "bound_diff d = truncate_with_marker d max_event_diff diff_elision_marker"

definition detail_lines :: "text16 \<Rightarrow> text16 \<Rightarrow> text16 \<Rightarrow> text16 \<Rightarrow> text16 list" where
  "detail_lines title body detail digest =
     (if detail \<noteq> [] \<and> detail \<noteq> title \<and> detail \<noteq> body then [detail] else []) @
     (if digest \<noteq> [] \<and> digest \<noteq> title \<and> digest \<noteq> body \<and> digest \<noteq> detail then [digest] else [])"

definition block_head :: "event_view \<Rightarrow> (text16 \<Rightarrow> text16) \<Rightarrow> text16" where
  "block_head e sanitize =
     (let title = sanitize (ev_title e);
          body = sanitize (ev_body e);
          lines = detail_lines title body (sanitize (default (ev_detail e) (ev_summary e))) (sanitize (ev_summary e)) in
      ascii ''### '' @ sanitize (ev_monitor e) @ ascii '' ('' @ sanitize (ev_urgency e) @ ascii '')'' @ [0x0A] @
      title @ (if lines = [] then [] else [0x0A] @ join [0x0A] lines) @ [0x0A, 0x0A] @ body)"

definition build_event_block :: "event_view \<Rightarrow> (text16 \<Rightarrow> text16) \<Rightarrow> text16" where
  "build_event_block e sanitize =
     block_head e sanitize @
     (case ev_diff e of
        None \<Rightarrow> []
      | Some d \<Rightarrow> if d \<noteq> [] \<and> trim16 d \<noteq> [] then [0x0A, 0x0A] @ ascii ''Changes:'' @ [0x0A] @ sanitize (bound_diff d)
                 else [])"

lemma build_event_block_not_Nil [simp]: "build_event_block e f \<noteq> []"
  by (simp add: build_event_block_def block_head_def Let_def ascii_def)

lemma bound_diff_length: "length (bound_diff d) \<le> 800"
proof -
  have "int (length diff_elision_marker) \<le> max_event_diff"
    by (simp add: diff_elision_marker_def max_event_diff_def)
  from truncate_with_marker_length [OF this, of d] show ?thesis
    unfolding bound_diff_def by (simp add: max_event_diff_def)
qed

section \<open>Packing whole blocks\<close>

fun pack_loop :: "text16 \<Rightarrow> text16 \<Rightarrow> int \<Rightarrow> text16 list \<Rightarrow> text16 \<Rightarrow> nat \<Rightarrow> text16 \<times> nat" where
  "pack_loop header joiner cap [] body n = (body, n)"
| "pack_loop header joiner cap (b # bs) body n =
     (let candidate = (if body = [] then b else body @ joiner @ b) in
      if cap < int (length (header @ candidate)) then (body, n)
      else pack_loop header joiner cap bs candidate (Suc n))"

definition pack_whole_blocks :: "text16 \<Rightarrow> text16 \<Rightarrow> text16 list \<Rightarrow> int \<Rightarrow> text16 \<times> nat" where
  "pack_whole_blocks header joiner blocks cap =
     (let (body, n) = pack_loop header joiner cap blocks [] 0 in (header @ body, n))"

definition pack_events_under_cap :: "(text16 \<Rightarrow> text16) \<Rightarrow> text16 \<Rightarrow> text16 \<Rightarrow> int \<Rightarrow> event_view list \<Rightarrow> int \<Rightarrow> nat" where
  "pack_events_under_cap sanitize header joiner marker_length es cap =
     (if es = [] then 0
      else let blocks = map (\<lambda>e. build_event_block e sanitize) es in
        if snd (pack_whole_blocks header joiner blocks cap) = length blocks then length blocks
        else max 1 (snd (pack_whole_blocks header joiner blocks (cap - marker_length))))"

lemma join_snoc: "xs \<noteq> [] \<Longrightarrow> join s (xs @ [x]) = join s xs @ s @ x"
  by (induction s xs rule: join.induct) auto

lemma join_not_Nil: "xs \<noteq> [] \<Longrightarrow> [] \<notin> set xs \<Longrightarrow> join s xs \<noteq> []"
  by (induction s xs rule: join.induct) auto

text \<open>The loop has packed a prefix of the blocks, the longest one whose joined text fits.\<close>

definition packs :: "text16 \<Rightarrow> text16 \<Rightarrow> text16 list \<Rightarrow> int \<Rightarrow> nat \<Rightarrow> bool" where
  "packs header joiner blocks cap n =
     (n \<le> length blocks \<and>
      (0 < n \<longrightarrow> int (length (header @ join joiner (take n blocks))) \<le> cap) \<and>
      (n < length blocks \<longrightarrow> cap < int (length (header @ join joiner (take (Suc n) blocks)))))"

lemma pack_loop_spec:
  assumes "[] \<notin> set blocks" "k \<le> length blocks"
    "0 < k \<longrightarrow> int (length (header @ join joiner (take k blocks))) \<le> cap"
  shows "\<exists>n \<ge> k. pack_loop header joiner cap (drop k blocks) (join joiner (take k blocks)) k = (join joiner (take n blocks), n) \<and>
     packs header joiner blocks cap n"
  using assms(2,3)
proof (induction "length blocks - k" arbitrary: k)
  case 0
  then show ?case by (intro exI [of _ k]) (simp add: packs_def)
next
  case (Suc m)
  then have k: "k < length blocks" by simp
  define candidate where "candidate = join joiner (take (Suc k) blocks)"
  have c: "(if join joiner (take k blocks) = [] then blocks ! k else join joiner (take k blocks) @ joiner @ blocks ! k) = candidate"
  proof (cases "k = 0")
    case False
    with k assms(1) have "join joiner (take k blocks) \<noteq> []"
      by (intro join_not_Nil) (auto dest: in_set_takeD)
    moreover have "take k blocks \<noteq> []" using False k by auto
    ultimately show ?thesis using k by (simp add: candidate_def take_Suc_conv_app_nth join_snoc)
  qed (use k in \<open>simp add: candidate_def take_Suc_conv_app_nth\<close>)
  have step: "pack_loop header joiner cap (drop k blocks) (join joiner (take k blocks)) k =
      (if cap < int (length (header @ candidate)) then (join joiner (take k blocks), k)
       else pack_loop header joiner cap (drop (Suc k) blocks) candidate (Suc k))"
    using k by (simp add: Cons_nth_drop_Suc [symmetric] c Let_def del: length_append)
  show ?case
  proof (cases "cap < int (length (header @ candidate))")
    case True
    with Suc.prems k show ?thesis unfolding step candidate_def [symmetric]
      by (intro exI [of _ k]) (simp add: packs_def candidate_def)
  next
    case False
    have "\<exists>n \<ge> Suc k. pack_loop header joiner cap (drop (Suc k) blocks) (join joiner (take (Suc k) blocks)) (Suc k) =
        (join joiner (take n blocks), n) \<and> packs header joiner blocks cap n"
      using Suc.hyps(2) k False by (intro Suc.hyps(1)) (simp_all add: candidate_def)
    with False show ?thesis unfolding step candidate_def [symmetric] by (auto intro: Suc_leD)
  qed
qed

lemma pack_whole_blocks_spec:
  assumes "[] \<notin> set blocks"
  shows "fst (pack_whole_blocks header joiner blocks cap) =
      header @ join joiner (take (snd (pack_whole_blocks header joiner blocks cap)) blocks) \<and>
    packs header joiner blocks cap (snd (pack_whole_blocks header joiner blocks cap))"
  using pack_loop_spec [of blocks 0 header joiner cap] assms
  by (auto simp: pack_whole_blocks_def split: prod.splits)

lemma length_join_append: "length (join s xs) \<le> length (join s (xs @ ys))"
proof (induction s xs rule: join.induct)
  case (2 sep w)
  then show ?case by (cases ys) simp_all
qed simp_all

lemma length_join_take: "m \<le> n \<Longrightarrow> length (join s (take m xs)) \<le> length (join s (take n xs))"
  using length_join_append [of s "take m xs" "take (n - m) (drop m xs)"] by (simp add: take_add [symmetric])

lemma pack_whole_blocks_whole:
  assumes "[] \<notin> set blocks"
  shows "snd (pack_whole_blocks header joiner blocks cap) = length blocks \<longleftrightarrow>
    blocks = [] \<or> int (length (header @ join joiner blocks)) \<le> cap"
proof -
  let ?n = "snd (pack_whole_blocks header joiner blocks cap)"
  have p: "packs header joiner blocks cap ?n" using pack_whole_blocks_spec [OF assms] by blast
  have "length (join joiner (take (Suc ?n) blocks)) \<le> length (join joiner blocks)" if "?n < length blocks"
    using that length_join_take [of "Suc ?n" "length blocks" joiner blocks] by simp
  with p show ?thesis by (cases "?n = length blocks") (auto simp: packs_def)
qed

lemma pack_whole_blocks_one:
  assumes "b \<noteq> []" "snd (pack_whole_blocks header joiner [b] cap) = 0"
  shows "cap < int (length (header @ b))"
  using pack_whole_blocks_spec [of "[b]" header joiner cap] assms by (auto simp: packs_def)

end
