(* ===== verification/AM_HookRender.thy ===== *)
theory AM_HookRender
  imports AM_EventRender AM_Types
begin

text \<open>
  The hook transport's rendering, \<open>hook-deliver-render.ts\<close>: the header that names the rendered
  events in its acknowledgment command, the fit of a claim under the cap of
  \<open>additionalContext\<close>, and the payload of one hook invocation.
\<close>

record claim_view =
  cv_session :: text16
  cv_lifecycle :: lifecycle
  cv_message :: text16
  cv_events :: "event_view list"
  cv_reminder :: "text16 option"

definition max_additional_context :: int where
  "max_additional_context = 4000"

section \<open>Sanitizing\<close>

definition control_char :: "text16 \<Rightarrow> bool" where
  "control_char ch = (let code = code_point_value ch in
     (code < 0x20 \<and> ch \<noteq> [0x0A] \<and> ch \<noteq> [0x09]) \<or> (0x7F \<le> code \<and> code \<le> 0x9F))"

definition sanitize_context :: "text16 \<Rightarrow> text16" where
  "sanitize_context s = concat (filter (\<lambda>ch. \<not> control_char ch) (code_points s))"

lemma sanitize_length: "length (sanitize_context s) \<le> length s"
proof -
  have "length (concat (filter P chs)) \<le> length (concat chs)" for P and chs :: "text16 list"
    by (induction chs) (auto intro: le_trans)
  from this [of "\<lambda>ch. \<not> control_char ch" "code_points s"] show ?thesis by (simp add: sanitize_context_def)
qed

section \<open>Markers and header\<close>

definition hook_prefix :: text16 where
  "hook_prefix = ascii ''AgentMon: ''"

definition lead_line :: text16 where
  "lead_line = hook_prefix @ ascii ''monitored changes are pending '' @ [0x2014] @
     ascii '' consider handling them before continuing.''"

definition socket_clause :: "text16 option \<Rightarrow> text16" where
  "socket_clause sock = (case sock of
       None \<Rightarrow> []
     | Some p \<Rightarrow> if p = [] then [] else ascii '' --socket '' @ escape_shell_path p)"

definition hook_reminder_action_step :: "text16 \<Rightarrow> text16 option \<Rightarrow> text16" where
  "hook_reminder_action_step s sock =
     (let safe = sanitize_context s; socket = socket_clause sock in
      ascii '' Run `agentmonitors events list --session '' @ safe @ socket @ ascii '' --unread` '' @
      ascii ''to see them, then `agentmonitors events ack --session '' @ safe @ socket @ ascii ''` once handled.'')"

definition hook_deferred_marker :: "text16 \<Rightarrow> text16 option \<Rightarrow> text16" where
  "hook_deferred_marker s sock =
     [0x0A, 0x0A] @ ascii ''[truncated '' @ [0x2014] @
     ascii '' more monitor updates are pending; run `agentmonitors events list --session '' @ sanitize_context s @
     socket_clause sock @ ascii '' --unread` to see the rest]''"

definition hook_claimed_unread_marker :: "text16 \<Rightarrow> text16 option \<Rightarrow> text16" where
  "hook_claimed_unread_marker s sock =
     [0x0A, 0x0A] @ ascii ''[truncated '' @ [0x2014] @
     ascii '' this update was too large to show in full; the full copy stays unread '' @ [0x2014] @
     ascii '' run `agentmonitors events list --session '' @ sanitize_context s @
     socket_clause sock @ ascii '' --unread` to see it now]''"

definition hook_recap_marker :: "text16 \<Rightarrow> text16 option \<Rightarrow> text16" where
  "hook_recap_marker s sock =
     [0x0A, 0x0A] @ ascii ''[truncated '' @ [0x2014] @
     ascii '' not everything fit in this recap; the omitted content stays unread and will reappear '' @
     ascii ''on future recaps until acknowledged '' @ [0x2014] @
     ascii '' run `agentmonitors events list --session '' @ sanitize_context s @
     socket_clause sock @ ascii '' --unread` to see it now]''"

definition hook_ack_instruction :: "text16 \<Rightarrow> text16 list \<Rightarrow> text16 option \<Rightarrow> text16" where
  "hook_ack_instruction s ids sock =
     (let ids_clause = (if ids \<noteq> [] then ascii '' --event-ids '' @ sanitize_context (join [0x2C] ids) else []) in
      ascii ''When handled, acknowledge: agentmonitors events ack --session '' @ sanitize_context s @
      socket_clause sock @ ids_clause)"

definition hook_header :: "text16 \<Rightarrow> text16 list \<Rightarrow> text16 option \<Rightarrow> text16" where
  "hook_header s ids sock = lead_line @ [0x0A] @ hook_ack_instruction s ids sock @ [0x0A, 0x0A]"

definition hook_event_block :: "event_view \<Rightarrow> text16" where
  "hook_event_block e = build_event_block e sanitize_context"

section \<open>The fit of a claim\<close>

record header_packed =
  hp_text :: text16
  hp_count :: nat
  hp_header :: text16

text \<open>
  \<open>resolveHookHeaderPacking\<close>: the number of named events descends until the header that names
  them leaves room for their blocks. Falling out of the loop is the code's \<open>throw\<close>.
\<close>

fun header_packing_loop :: "event_view list \<Rightarrow> text16 list \<Rightarrow> text16 \<Rightarrow> int \<Rightarrow> text16 option \<Rightarrow> nat \<Rightarrow>
    string + header_packed" where
  "header_packing_loop es blocks s cap sock k =
     (let header = hook_header s (map ev_event (take k es)) sock;
          packed = pack_whole_blocks header [0x0A] (take k blocks) cap in
      if snd packed = k then Inr \<lparr>hp_text = fst packed, hp_count = k, hp_header = header\<rparr>
      else (case k of
              0 \<Rightarrow> Inl ''unreachable: resolveHookHeaderPacking did not converge at k=0''
            | Suc j \<Rightarrow> header_packing_loop es blocks s cap sock j))"

declare header_packing_loop.simps [simp del]

definition resolve_hook_header_packing :: "event_view list \<Rightarrow> text16 list \<Rightarrow> text16 \<Rightarrow> int \<Rightarrow> text16 option \<Rightarrow>
    string + header_packed" where
  "resolve_hook_header_packing es blocks s cap sock = header_packing_loop es blocks s cap sock (length es)"

definition hook_events_under_cap :: "event_view list \<Rightarrow> text16 \<Rightarrow> int \<Rightarrow> text16 option \<Rightarrow> string + nat" where
  "hook_events_under_cap es s cap sock =
     (if es = [] then Inr 0
      else let blocks = map hook_event_block es in
        (case resolve_hook_header_packing es blocks s cap sock of
           Inl err \<Rightarrow> Inl err
         | Inr whole \<Rightarrow>
             if hp_count whole = length blocks then Inr (length blocks)
             else (case resolve_hook_header_packing es blocks s (cap - int (length (hook_deferred_marker s sock))) sock of
                     Inl err \<Rightarrow> Inl err
                   | Inr reserved \<Rightarrow> Inr (max 1 (hp_count reserved)))))"

record hook_fit =
  hf_fits :: bool
  hf_count :: nat
  hf_whole :: header_packed
  hf_reserved :: header_packed

definition resolve_hook_claim_fit :: "event_view list \<Rightarrow> text16 \<Rightarrow> text16 option \<Rightarrow> bool \<Rightarrow> int \<Rightarrow> text16 \<Rightarrow>
    string + hook_fit" where
  "resolve_hook_claim_fit es s sock md cap marker =
     (let blocks = map hook_event_block es in
      case resolve_hook_header_packing es blocks s cap sock of
        Inl err \<Rightarrow> Inl err
      | Inr whole \<Rightarrow>
          if hp_count whole = length blocks \<and> \<not> md then
            Inr \<lparr>hf_fits = True, hf_count = length blocks, hf_whole = whole, hf_reserved = whole\<rparr>
          else (case resolve_hook_header_packing es blocks s (cap - int (length marker)) sock of
                  Inl err \<Rightarrow> Inl err
                | Inr reserved \<Rightarrow>
                    let n = max 1 (hp_count reserved) in
                    Inr \<lparr>hf_fits = (n = length blocks), hf_count = n, hf_whole = whole, hf_reserved = reserved\<rparr>))"

text \<open>Whether the first \<open>n\<close> events fit whole under a header that names exactly them.\<close>

definition hook_fits_at :: "event_view list \<Rightarrow> text16 \<Rightarrow> int \<Rightarrow> text16 option \<Rightarrow> nat \<Rightarrow> bool" where
  "hook_fits_at es s cap sock n =
     (n = 0 \<or> int (length (hook_header s (map ev_event (take n es)) sock @
        join [0x0A] (take n (map hook_event_block es)))) \<le> cap)"

definition hook_packing :: "event_view list \<Rightarrow> text16 \<Rightarrow> text16 option \<Rightarrow> nat \<Rightarrow> header_packed" where
  "hook_packing es s sock n =
     (let header = hook_header s (map ev_event (take n es)) sock in
      \<lparr>hp_text = header @ join [0x0A] (take n (map hook_event_block es)), hp_count = n, hp_header = header\<rparr>)"

definition hook_room :: "event_view list \<Rightarrow> text16 \<Rightarrow> int \<Rightarrow> text16 option \<Rightarrow> nat" where
  "hook_room es s cap sock = (GREATEST n. n \<le> length es \<and> hook_fits_at es s cap sock n)"

lemma hook_room:
  shows hook_room_le: "hook_room es s cap sock \<le> length es"
    and hook_room_fits: "hook_fits_at es s cap sock (hook_room es s cap sock)"
    and hook_room_greatest: "n \<le> length es \<Longrightarrow> hook_fits_at es s cap sock n \<Longrightarrow> n \<le> hook_room es s cap sock"
proof -
  let ?P = "\<lambda>n. n \<le> length es \<and> hook_fits_at es s cap sock n"
  have "?P 0" by (simp add: hook_fits_at_def)
  then have "?P (hook_room es s cap sock)" unfolding hook_room_def by (rule GreatestI_nat [where b = "length es"]) simp
  then show "hook_room es s cap sock \<le> length es" "hook_fits_at es s cap sock (hook_room es s cap sock)" by simp_all
  assume "n \<le> length es" "hook_fits_at es s cap sock n"
  then show "n \<le> hook_room es s cap sock" unfolding hook_room_def by (intro Greatest_le_nat [where b = "length es"]) auto
qed

lemma hook_room_whole: "hook_room es s cap sock = length es \<longleftrightarrow> hook_fits_at es s cap sock (length es)"
  using hook_room_fits [of es s cap sock] hook_room_le [of es s cap sock] hook_room_greatest [of "length es" es s cap sock]
  by auto

lemma hook_blocks_not_Nil: "[] \<notin> set (map hook_event_block es)"
  by (auto simp: hook_event_block_def build_event_block_not_Nil [symmetric])

lemma header_packing_loop_room:
  assumes "k \<le> length es" "\<And>n. n \<le> length es \<Longrightarrow> hook_fits_at es s cap sock n \<Longrightarrow> n \<le> k"
  shows "header_packing_loop es (map hook_event_block es) s cap sock k = Inr (hook_packing es s sock (hook_room es s cap sock))"
  using assms
proof (induction k)
  case 0
  then have "hook_room es s cap sock = 0" using hook_room_fits hook_room_le by blast
  then show ?case
    by (simp add: header_packing_loop.simps pack_whole_blocks_def hook_packing_def Let_def)
next
  case (Suc k)
  let ?blocks = "map hook_event_block es" and ?header = "hook_header s (map ev_event (take (Suc k) es)) sock"
  have ne: "[] \<notin> set (take (Suc k) ?blocks)" using hook_blocks_not_Nil [of es] by (blast dest: in_set_takeD)
  have len: "length (take (Suc k) ?blocks) = Suc k" using Suc.prems(1) by simp
  have whole: "snd (pack_whole_blocks ?header [0x0A] (take (Suc k) ?blocks) cap) = Suc k \<longleftrightarrow>
      hook_fits_at es s cap sock (Suc k)"
    using pack_whole_blocks_whole [OF ne, of ?header "[0x0A]" cap] len Suc.prems(1)
    by (cases es) (simp_all add: hook_fits_at_def)
  show ?case
  proof (cases "hook_fits_at es s cap sock (Suc k)")
    case True
    then have "hook_room es s cap sock = Suc k"
      using Suc.prems hook_room_fits hook_room_le hook_room_greatest by (metis le_antisym)
    with True whole pack_whole_blocks_spec [OF ne, of ?header "[0x0A]" cap] show ?thesis
      by (simp add: header_packing_loop.simps [of _ _ _ _ _ "Suc k"] hook_packing_def Let_def)
  next
    case False
    have "n \<le> k" if "n \<le> length es" "hook_fits_at es s cap sock n" for n
      using Suc.prems(2) [OF that] that False by (cases "n = Suc k") auto
    then have "header_packing_loop es ?blocks s cap sock k = Inr (hook_packing es s sock (hook_room es s cap sock))"
      using Suc.prems(1) by (intro Suc.IH) simp_all
    with False whole show ?thesis by (simp add: header_packing_loop.simps [of _ _ _ _ _ "Suc k"] Let_def)
  qed
qed

lemma resolve_hook_header_packing_room:
  "resolve_hook_header_packing es (map hook_event_block es) s cap sock = Inr (hook_packing es s sock (hook_room es s cap sock))"
  unfolding resolve_hook_header_packing_def by (rule header_packing_loop_room) simp_all

lemma hp_hook_packing [simp]:
  "hp_count (hook_packing es s sock n) = n"
  "hp_text (hook_packing es s sock n) =
     hook_header s (map ev_event (take n es)) sock @ join [0x0A] (take n (map hook_event_block es))"
  by (simp_all add: hook_packing_def Let_def)

lemma hook_packing_length:
  "0 < hook_room es s cap sock \<Longrightarrow> int (length (hp_text (hook_packing es s sock (hook_room es s cap sock)))) \<le> cap"
  using hook_room_fits [of es s cap sock] by (simp add: hook_fits_at_def)

section \<open>The payload\<close>

record hook_output =
  ho_event_name :: text16
  ho_context :: text16

definition hook_reminder_footer :: "claim_view \<Rightarrow> text16 option \<Rightarrow> text16" where
  "hook_reminder_footer c sock = (case cv_reminder c of
       None \<Rightarrow> []
     | Some r \<Rightarrow> if r = [] then []
         else [0x0A, 0x0A] @ sanitize_context r @ hook_reminder_action_step (cv_session c) sock)"

definition hook_deferred_slot :: "claim_view \<Rightarrow> text16 option \<Rightarrow> text16" where
  "hook_deferred_slot c sock =
     (if cv_lifecycle c = PostCompact then hook_recap_marker (cv_session c) sock
      else hook_deferred_marker (cv_session c) sock)"

definition hook_claimed_slot :: "claim_view \<Rightarrow> text16 option \<Rightarrow> text16" where
  "hook_claimed_slot c sock =
     (if cv_lifecycle c = PostCompact then hook_deferred_slot c sock
      else hook_claimed_unread_marker (cv_session c) sock)"

definition hook_reminder_context :: "claim_view \<Rightarrow> text16 option \<Rightarrow> text16 option" where
  "hook_reminder_context c sock =
     (let reminder = sanitize_context (cv_message c) in
      if trim16 reminder = [] then None
      else Some (truncate_with_marker
        (hook_prefix @ reminder @ hook_reminder_action_step (cv_session c) sock)
        max_additional_context (hook_claimed_slot c sock)))"

definition hook_sole_marker :: "claim_view \<Rightarrow> bool \<Rightarrow> text16 option \<Rightarrow> text16" where
  "hook_sole_marker c md sock =
     (if md \<and> hook_claimed_slot c sock \<noteq> hook_deferred_slot c sock
      then hook_claimed_slot c sock @ hook_deferred_slot c sock else hook_claimed_slot c sock)"

definition hook_body_context :: "claim_view \<Rightarrow> bool \<Rightarrow> text16 option \<Rightarrow> string + text16" where
  "hook_body_context c md sock =
     (let es = cv_events c;
          deferred = hook_deferred_slot c sock;
          footer = hook_reminder_footer c sock;
          cap = max_additional_context - int (length footer) in
      case resolve_hook_claim_fit es (cv_session c) sock md cap deferred of
        Inl err \<Rightarrow> Inl err
      | Inr fit \<Rightarrow>
          if hp_count (hf_whole fit) = length es \<and> \<not> md then Inr (hp_text (hf_whole fit) @ footer)
          else if 1 \<le> hp_count (hf_reserved fit) then Inr (hp_text (hf_reserved fit) @ deferred @ footer)
          else
            let first_block = (case es of e # _ \<Rightarrow> hook_event_block e | [] \<Rightarrow> []);
                header = hook_header (cv_session c) (case es of e # _ \<Rightarrow> [ev_event e] | [] \<Rightarrow> []) sock in
            Inr (append_marker_within_cap (header @ first_block) cap (hook_sole_marker c md sock) @ footer))"

definition render_hook_delivery :: "claim_view option \<Rightarrow> text16 \<Rightarrow> bool \<Rightarrow> text16 option \<Rightarrow> string + hook_output option" where
  "render_hook_delivery claim name md sock =
     (case claim of
        None \<Rightarrow> Inr None
      | Some c \<Rightarrow>
          if cv_events c = [] then
            Inr (map_option (\<lambda>ctx. \<lparr>ho_event_name = name, ho_context = ctx\<rparr>) (hook_reminder_context c sock))
          else (case hook_body_context c md sock of
                  Inl err \<Rightarrow> Inl err
                | Inr ctx \<Rightarrow> Inr (Some \<lparr>ho_event_name = name, ho_context = ctx\<rparr>)))"

section \<open>What a payload holds\<close>

lemma resolve_hook_claim_fit_room:
  "resolve_hook_claim_fit es s sock md cap marker =
     (let room = hook_room es s cap sock; less_room = hook_room es s (cap - int (length marker)) sock in
      Inr (if room = length es \<and> \<not> md
           then \<lparr>hf_fits = True, hf_count = length es, hf_whole = hook_packing es s sock room,
                  hf_reserved = hook_packing es s sock room\<rparr>
           else \<lparr>hf_fits = (max 1 less_room = length es), hf_count = max 1 less_room,
                  hf_whole = hook_packing es s sock room, hf_reserved = hook_packing es s sock less_room\<rparr>))"
  by (simp add: resolve_hook_claim_fit_def resolve_hook_header_packing_room Let_def)

definition hook_cap :: "claim_view \<Rightarrow> text16 option \<Rightarrow> int" where
  "hook_cap c sock = max_additional_context - int (length (hook_reminder_footer c sock))"

definition hook_deferred_cap :: "claim_view \<Rightarrow> text16 option \<Rightarrow> int" where
  "hook_deferred_cap c sock = hook_cap c sock - int (length (hook_deferred_slot c sock))"

definition shown_whole :: "claim_view \<Rightarrow> text16 option \<Rightarrow> nat \<Rightarrow> text16" where
  "shown_whole c sock n =
     hook_header (cv_session c) (map ev_event (take n (cv_events c))) sock @
     join [0x0A] (take n (map hook_event_block (cv_events c)))"

lemma hook_body_context_cases:
  assumes "cv_events c = e # es"
  shows "hook_body_context c md sock = Inr
    (let room = hook_room (cv_events c) (cv_session c) (hook_cap c sock) sock;
         less_room = hook_room (cv_events c) (cv_session c) (hook_deferred_cap c sock) sock in
     if room = length (cv_events c) \<and> \<not> md then shown_whole c sock room @ hook_reminder_footer c sock
     else if 1 \<le> less_room then shown_whole c sock less_room @ hook_deferred_slot c sock @ hook_reminder_footer c sock
     else append_marker_within_cap (hook_header (cv_session c) [ev_event e] sock @ hook_event_block e) (hook_cap c sock)
       (hook_sole_marker c md sock) @ hook_reminder_footer c sock)"
  using assms
  by (simp add: hook_body_context_def resolve_hook_claim_fit_room Let_def hook_cap_def hook_deferred_cap_def shown_whole_def)

text \<open>
  Rendering always ends with a payload. The packing loop of the header never reaches its
  \<open>throw\<close>, whatever the cap, and it answers the largest number of events whose blocks fit
  whole under the header that names exactly those events.
\<close>

lemma hook_header_packing_converges:
  "resolve_hook_header_packing es (map hook_event_block es) s cap sock =
     Inr (hook_packing es s sock (GREATEST n. n \<le> length es \<and> hook_fits_at es s cap sock n))"
  unfolding hook_room_def [symmetric] by (rule resolve_hook_header_packing_room)

definition hook_context_length :: "string + hook_output option \<Rightarrow> int" where
  "hook_context_length r = (case r of Inr (Some out) \<Rightarrow> int (length (ho_context out)) | _ \<Rightarrow> 0)"

text \<open>
  The injected context is bounded. For every claim, deferred or not, the rendering answers a
  payload or nothing, and the payload's context stays within 4000 code units as long as the
  fixed suffixes (markers and reminder footer) leave room for themselves.
\<close>

lemma hook_context_bounded:
  assumes "int (length (hook_sole_marker c md sock) + length (hook_reminder_footer c sock)) \<le> max_additional_context"
    and "int (length (hook_claimed_slot c sock)) \<le> max_additional_context"
  shows "(\<exists>out. render_hook_delivery (Some c) name md sock = Inr out) \<and>
    hook_context_length (render_hook_delivery (Some c) name md sock) \<le> max_additional_context"
proof (cases "cv_events c")
  case Nil
  then show ?thesis
    using truncate_with_marker_length [OF assms(2)]
    by (auto simp: render_hook_delivery_def hook_context_length_def hook_reminder_context_def Let_def max_additional_context_def)
next
  case (Cons e es)
  let ?r = "hook_room (cv_events c) (cv_session c) (hook_cap c sock) sock"
  let ?l = "hook_room (cv_events c) (cv_session c) (hook_deferred_cap c sock) sock"
  have whole: "int (length (shown_whole c sock ?r)) \<le> hook_cap c sock" if "0 < ?r"
    using hook_packing_length [OF that] by (simp add: shown_whole_def)
  have part: "int (length (shown_whole c sock ?l)) \<le> hook_deferred_cap c sock" if "0 < ?l"
    using hook_packing_length [OF that] by (simp add: shown_whole_def)
  have sole: "int (length (append_marker_within_cap b (hook_cap c sock) (hook_sole_marker c md sock))) \<le> hook_cap c sock" for b
    using assms(1) by (intro append_marker_length) (simp add: hook_cap_def)
  have "\<exists>ctx. hook_body_context c md sock = Inr ctx \<and> int (length ctx) \<le> max_additional_context"
    using whole part sole [of "hook_header (cv_session c) [ev_event e] sock @ hook_event_block e"] Cons
    by (auto simp: hook_body_context_cases [OF Cons] Let_def hook_cap_def hook_deferred_cap_def)
  with Cons show ?thesis by (auto simp: render_hook_delivery_def hook_context_length_def)
qed

definition demo_view :: event_view where
  "demo_view = \<lparr>ev_event = ascii ''e1'', ev_monitor = ascii ''docs'', ev_urgency = ascii ''high'', ev_title = ascii ''Docs moved'',
     ev_body = ascii ''Read the change.'', ev_summary = ascii ''a.md (modified)'', ev_detail = Some (ascii ''a.md (modified)''),
     ev_diff = Some (ascii ''-x'')\<rparr>"

definition demo_claim :: claim_view where
  "demo_claim = \<lparr>cv_session = ascii ''S'', cv_lifecycle = TurnInterruptible, cv_message = ascii ''m'',
     cv_events = [demo_view], cv_reminder = Some (ascii ''Monitored changes are pending.'')\<rparr>"

lemma hook_context_bounded_witness:
  "hook_context_length (render_hook_delivery (Some demo_claim) (ascii ''PostToolUse'') True None) \<le> max_additional_context"
proof -
  note lengths = sanitize_length [of "cv_session demo_claim"] sanitize_length [of "ascii ''Monitored changes are pending.''"]
  note slots = hook_claimed_slot_def hook_deferred_slot_def hook_claimed_unread_marker_def hook_deferred_marker_def
    socket_clause_def demo_claim_def max_additional_context_def
  have claimed: "length (hook_claimed_slot demo_claim None) \<le> 300" and deferred: "length (hook_deferred_slot demo_claim None) \<le> 300"
    using lengths by (simp_all add: slots)
  have footer: "length (hook_reminder_footer demo_claim None) \<le> 300"
    using lengths by (simp add: hook_reminder_footer_def hook_reminder_action_step_def Let_def slots)
  have "length (hook_sole_marker demo_claim True None) \<le> 600"
    using claimed deferred by (simp add: hook_sole_marker_def)
  then have "int (length (hook_sole_marker demo_claim True None) + length (hook_reminder_footer demo_claim None)) \<le> max_additional_context"
    "int (length (hook_claimed_slot demo_claim None)) \<le> max_additional_context"
    using footer claimed by (simp_all add: max_additional_context_def)
  from hook_context_bounded [OF this] show ?thesis by blast
qed

end
