(* ===== verification/AM_HookFlow.thy ===== *)
theory AM_HookFlow
  imports AM_HookRender AM_TwoPhase
begin

text \<open>
  One invocation of \<open>hook deliver\<close>, \<open>commands/hook.ts\<close>: the reservation is sized by two previews,
  checked against what was really reserved, rendered, written, and only then committed. The daemon
  is reached by calls that can fail on the way there or on the way back, and other clients act
  between any two calls.
\<close>

section \<open>The daemon's client\<close>

datatype flow_error = Daemon rt_error | Unreachable | ConnectionLost | WriteFailed | Thrown string

type_synonym ('s, 'a) rpc = "'s \<Rightarrow> 's \<times> (flow_error + 'a)"

definition rpc_return :: "'a \<Rightarrow> ('s, 'a) rpc" where
  "rpc_return a s = (s, Inr a)"

definition rpc_throw :: "flow_error \<Rightarrow> ('s, 'a) rpc" where
  "rpc_throw e s = (s, Inl e)"

definition rpc_bind :: "('s, 'a) rpc \<Rightarrow> ('a \<Rightarrow> ('s, 'b) rpc) \<Rightarrow> ('s, 'b) rpc" where
  "rpc_bind m f s = (case m s of (s', Inl e) \<Rightarrow> (s', Inl e) | (s', Inr a) \<Rightarrow> f a s')"

text \<open>\<open>try { \<dots> } catch (error) { await cleanup(); throw error; }\<close>\<close>

definition rpc_cleanup :: "('s, 'a) rpc \<Rightarrow> ('s, unit) rpc \<Rightarrow> ('s, 'a) rpc" where
  "rpc_cleanup m cleanup s =
     (case m s of
        (s', Inr a) \<Rightarrow> (s', Inr a)
      | (s', Inl e) \<Rightarrow> (case cleanup s' of (s'', Inl e') \<Rightarrow> (s'', Inl e') | (s'', Inr _) \<Rightarrow> (s'', Inl e)))"

record 's daemon =
  dm_preview :: "ident \<Rightarrow> ('s, event_summary list) rpc"
  dm_reminder :: "ident \<Rightarrow> ('s, string option) rpc"
  dm_reserve :: "ident \<Rightarrow> lifecycle \<Rightarrow> int option \<Rightarrow> ('s, (ident \<times> claim) option) rpc"
  dm_commit :: "ident \<Rightarrow> ('s, claim option) rpc"
  dm_release :: "ident \<Rightarrow> ('s, unit) rpc"

section \<open>Strings on the wire\<close>

fun urgency16 :: "urgency \<Rightarrow> text16" where
  "urgency16 Low = ascii ''low''"
| "urgency16 Normal = ascii ''normal''"
| "urgency16 High = ascii ''high''"

definition wire_event :: "event_summary \<Rightarrow> event_view" where
  "wire_event e =
     \<lparr>ev_event = ascii (es_event e), ev_monitor = ascii (es_monitor e), ev_urgency = urgency16 (es_urgency e),
       ev_title = ascii (es_title e), ev_body = ascii (es_body e), ev_summary = ascii (es_summary e),
       ev_detail = Some (ascii (es_detail e)), ev_diff = map_option ascii (es_diff e)\<rparr>"

definition wire_claim :: "claim \<Rightarrow> claim_view" where
  "wire_claim c =
     \<lparr>cv_session = ascii (cl_session c), cv_lifecycle = cl_lifecycle c, cv_message = ascii (cl_message c),
       cv_events = map wire_event (cl_events c), cv_reminder = map_option ascii (cl_reminder c)\<rparr>"

section \<open>Sizing and judging a reservation\<close>

text \<open>
  The two transports run the same loop over their own measures: how many of the previewed events
  to ask for next to a coalesced reminder, and whether a reserved claim fits as a whole (with the
  number of events that do).
\<close>

record fitter =
  ft_pack :: "event_summary list \<Rightarrow> string option \<Rightarrow> string + nat"
  ft_fit :: "claim \<Rightarrow> bool \<Rightarrow> string + (bool \<times> nat)"

definition max_reserve_attempts :: nat where
  "max_reserve_attempts = 3"

definition reminder_footer_length :: "string option \<Rightarrow> int" where
  "reminder_footer_length r = (case r of None \<Rightarrow> 0 | Some t \<Rightarrow> if t = [] then 0 else int (length t) + 2)"

text \<open>The size to ask for, whether more is deferred, and the number of previewed events.\<close>

definition delivery_sizing :: "'s daemon \<Rightarrow> fitter \<Rightarrow> ident \<Rightarrow> lifecycle \<Rightarrow> bool \<Rightarrow> int option \<Rightarrow>
    ('s, int option \<times> bool \<times> nat option) rpc" where
  "delivery_sizing D F sid l final_try forced =
     (if l = TurnInterruptible then
        rpc_bind (dm_preview D sid) (\<lambda>high.
        rpc_bind (dm_reminder D sid) (\<lambda>reminder.
          if final_try then rpc_return (Some 1, 1 < length high, Some (length high))
          else if high \<noteq> [] then
            (case ft_pack F high reminder of
               Inl err \<Rightarrow> rpc_throw (Thrown err)
             | Inr n \<Rightarrow>
                 let fit = max 1 (case forced of None \<Rightarrow> int n | Some f \<Rightarrow> min (int n) f) in
                 rpc_return (Some fit, fit < int (length high), Some (length high)))
          else rpc_return (forced, False, Some 0)))
      else rpc_return (None, False, None))"

definition settled_work_remains :: "'s daemon \<Rightarrow> ident \<Rightarrow> event_summary list \<Rightarrow> ('s, bool) rpc" where
  "settled_work_remains D sid reserved =
     rpc_bind (dm_preview D sid) (\<lambda>still.
       rpc_return (list_ex (\<lambda>e. es_event e \<notin> es_event ` set reserved) still))"

datatype verdict = Accept bool | Shrink int

definition judge_reservation :: "'s daemon \<Rightarrow> fitter \<Rightarrow> ident \<Rightarrow> ident \<Rightarrow> claim \<Rightarrow> bool \<Rightarrow> ('s, verdict) rpc" where
  "judge_reservation D F sid rid cl md =
     (case ft_fit F cl md of
        Inl err \<Rightarrow> rpc_throw (Thrown err)
      | Inr (fits, n) \<Rightarrow>
          if \<not> fits then rpc_return (Shrink (max 1 (int n)))
          else
            rpc_bind (if md then rpc_return True
                      else rpc_cleanup (settled_work_remains D sid (cl_events cl)) (dm_release D rid)) (\<lambda>md'.
            if \<not> md' then rpc_return (Accept md)
            else (case ft_fit F cl True of
                    Inl err \<Rightarrow> rpc_throw (Thrown err)
                  | Inr (fits', n') \<Rightarrow> if fits' then rpc_return (Accept True) else rpc_return (Shrink (max 1 (int n'))))))"

record sized =
  sz_id :: ident
  sz_claim :: claim
  sz_more :: bool
  sz_preview :: "nat option"

datatype attempt = Done "sized option" | Again int

text \<open>One turn of the loop: it answers, or it has released what it reserved and asks for a smaller claim.\<close>

definition reserve_attempt :: "'s daemon \<Rightarrow> fitter \<Rightarrow> ident \<Rightarrow> lifecycle \<Rightarrow> bool \<Rightarrow> int option \<Rightarrow> ('s, attempt) rpc" where
  "reserve_attempt D F sid l final_try forced =
     rpc_bind (delivery_sizing D F sid l final_try forced) (\<lambda>(max_events, md, preview).
     rpc_bind (dm_reserve D sid l max_events) (\<lambda>res.
       case res of
         None \<Rightarrow> rpc_return (Done None)
       | Some (rid, cl) \<Rightarrow>
           if cl_events cl = [] then
             rpc_return (Done (Some \<lparr>sz_id = rid, sz_claim = cl, sz_more = False, sz_preview = preview\<rparr>))
           else if l \<noteq> TurnInterruptible then
             rpc_return (Done (Some \<lparr>sz_id = rid, sz_claim = cl, sz_more = md, sz_preview = preview\<rparr>))
           else rpc_bind (judge_reservation D F sid rid cl md) (\<lambda>v.
             case v of
               Accept md' \<Rightarrow> rpc_return (Done (Some \<lparr>sz_id = rid, sz_claim = cl, sz_more = md', sz_preview = preview\<rparr>))
             | Shrink f \<Rightarrow> rpc_bind (dm_release D rid) (\<lambda>_. rpc_return (Again f)))))"

text \<open>The attempts, counted down; the last of them asks for a single event.\<close>

fun reserve_attempts :: "'s daemon \<Rightarrow> fitter \<Rightarrow> ident \<Rightarrow> lifecycle \<Rightarrow> nat \<Rightarrow> int option \<Rightarrow> ('s, sized option) rpc" where
  "reserve_attempts D F sid l 0 forced = rpc_return None"
| "reserve_attempts D F sid l (Suc n) forced =
     rpc_bind (reserve_attempt D F sid l (n = 0) forced) (\<lambda>a.
       case a of Done z \<Rightarrow> rpc_return z | Again f \<Rightarrow> reserve_attempts D F sid l n (Some f))"

definition reserve_sized :: "'s daemon \<Rightarrow> fitter \<Rightarrow> ident \<Rightarrow> lifecycle \<Rightarrow> ('s, sized option) rpc" where
  "reserve_sized D F sid l = reserve_attempts D F sid l max_reserve_attempts None"

section \<open>The hook's measures\<close>

definition claim_fit :: "ident \<Rightarrow> text16 option \<Rightarrow> claim \<Rightarrow> bool \<Rightarrow> string + hook_fit" where
  "claim_fit sid sock cl md =
     resolve_hook_claim_fit (map wire_event (cl_events cl)) (ascii sid) sock md
       (max_additional_context - reminder_footer_length (cl_reminder cl)) (hook_deferred_marker (ascii sid) sock)"

definition hook_fitter :: "ident \<Rightarrow> text16 option \<Rightarrow> fitter" where
  "hook_fitter sid sock =
     \<lparr>ft_pack = (\<lambda>high reminder. hook_events_under_cap (map wire_event high) (ascii sid)
         (max_additional_context - reminder_footer_length reminder) sock),
       ft_fit = (\<lambda>cl md. map_sum id (\<lambda>f. (hf_fits f, hf_count f)) (claim_fit sid sock cl md))\<rparr>"

definition reserve_sized_hook_delivery :: "'s daemon \<Rightarrow> ident \<Rightarrow> lifecycle \<Rightarrow> text16 option \<Rightarrow> ('s, sized option) rpc" where
  "reserve_sized_hook_delivery D sid l sock = reserve_sized D (hook_fitter sid sock) sid l"

section \<open>Render, write, commit\<close>

text \<open>The payloads written to standard output come back with the answer.\<close>

definition write_and_commit :: "'s daemon \<Rightarrow> (hook_output \<Rightarrow> bool) \<Rightarrow> ident \<Rightarrow> hook_output option \<Rightarrow> 's \<Rightarrow>
    's \<times> hook_output list \<times> (flow_error + claim option)" where
  "write_and_commit D write_ok rid out s =
     (case out of
        None \<Rightarrow> (case dm_commit D rid s of (s', r) \<Rightarrow> (s', [], r))
      | Some p \<Rightarrow>
          if write_ok p then (case dm_commit D rid s of (s', r) \<Rightarrow> (s', [p], r))
          else (case dm_release D rid s of
                  (s', Inl e) \<Rightarrow> (s', [], Inl e)
                | (s', Inr _) \<Rightarrow> (s', [], Inl WriteFailed)))"

definition hook_deliver :: "'s daemon \<Rightarrow> (hook_output \<Rightarrow> bool) \<Rightarrow> ident \<Rightarrow> lifecycle \<Rightarrow> text16 option \<Rightarrow> text16 \<Rightarrow> 's \<Rightarrow>
    's \<times> hook_output list \<times> (flow_error + claim option)" where
  "hook_deliver D write_ok sid l sock name s =
     (case reserve_sized_hook_delivery D sid l sock s of
        (s', Inl e) \<Rightarrow> (s', [], Inl e)
      | (s', Inr None) \<Rightarrow> (s', [], Inr None)
      | (s', Inr (Some z)) \<Rightarrow>
          (case render_hook_delivery (Some (wire_claim (sz_claim z))) name (sz_more z) sock of
             Inl err \<Rightarrow> (s', [], Inl (Thrown err))
           | Inr out \<Rightarrow> write_and_commit D write_ok (sz_id z) out s'))"

section \<open>The runtime behind the socket\<close>

datatype fate = Answered | RequestLost | ResponseLost

record world =
  w_rt :: runtime
  w_calls :: nat

text \<open>What surrounds the calls: the acts of others before the \<open>n\<close>th call, its time, its fate, a fresh identifier.\<close>

record net =
  net_others :: "nat \<Rightarrow> runtime \<Rightarrow> runtime"
  net_clock :: "nat \<Rightarrow> ms"
  net_fate :: "nat \<Rightarrow> fate"
  net_uuid :: "nat \<Rightarrow> ident"

definition ipc :: "net \<Rightarrow> (ms \<Rightarrow> ident \<Rightarrow> runtime \<Rightarrow> runtime \<times> (rt_error + 'a)) \<Rightarrow> (world, 'a) rpc" where
  "ipc net f w =
     (let n = w_calls w; rt = net_others net n (w_rt w); r = f (net_clock net n) (net_uuid net n) rt in
      case net_fate net n of
        RequestLost \<Rightarrow> (\<lparr>w_rt = rt, w_calls = Suc n\<rparr>, Inl Unreachable)
      | ResponseLost \<Rightarrow> (\<lparr>w_rt = fst r, w_calls = Suc n\<rparr>, Inl ConnectionLost)
      | Answered \<Rightarrow> (\<lparr>w_rt = fst r, w_calls = Suc n\<rparr>, map_sum Daemon id (snd r)))"

definition pruned :: "ms \<Rightarrow> runtime \<Rightarrow> runtime" where
  "pruned now rt = rt\<lparr>rt_reg := reservation_prune (rt_reg rt) now\<rparr>"

definition runtime_daemon :: "net \<Rightarrow> (string \<Rightarrow> string \<Rightarrow> string option \<Rightarrow> string) \<Rightarrow> world daemon" where
  "runtime_daemon net bd =
     \<lparr>dm_preview = (\<lambda>sid. ipc net (\<lambda>now _ rt. (pruned now rt, Inr (preview_settled_high (rt_store rt) (rt_reg rt) now sid)))),
       dm_reminder = (\<lambda>sid. ipc net (\<lambda>now _ rt. (pruned now rt, Inr (preview_coalesced_reminder (rt_store rt) (rt_reg rt) now sid)))),
       dm_reserve = (\<lambda>sid l m. ipc net (\<lambda>now i rt. reserve_delivery rt now i sid l m)),
       dm_commit = (\<lambda>rid. ipc net (\<lambda>now _ rt. commit_delivery bd rt now rid)),
       dm_release = (\<lambda>rid. ipc net (\<lambda>now _ rt. release_delivery rt now rid))\<rparr>"

section \<open>The client's contract and its laws\<close>

lemma rpc_bindE:
  assumes "rpc_bind m f s = (s', Inr b)"
  obtains s1 a where "m s = (s1, Inr a)" "f a s1 = (s', Inr b)"
  using assms by (auto simp: rpc_bind_def split: prod.splits sum.splits)

lemma rpc_return_eq [simp]: "rpc_return a s = (s', r) \<longleftrightarrow> s' = s \<and> r = Inr a"
  by (auto simp: rpc_return_def)

lemma rpc_throw_eq [simp]: "rpc_throw e s = (s', r) \<longleftrightarrow> s' = s \<and> r = Inl e"
  by (auto simp: rpc_throw_def)

lemma fst_rpc [simp]: "fst (rpc_return a s) = s" "fst (rpc_throw e s) = s"
  by (simp_all add: rpc_return_def rpc_throw_def)

lemma claim_fit_room:
  "claim_fit sid sock cl md = Inr fit \<Longrightarrow> hf_count fit = length (cl_events cl) \<or> \<not> hf_fits fit"
  by (auto simp: claim_fit_def resolve_hook_claim_fit_room Let_def split: if_splits)

lemma claim_fit_total: "\<exists>fit. claim_fit sid sock cl md = Inr fit"
  by (simp add: claim_fit_def resolve_hook_claim_fit_room Let_def)

lemma claim_fit_single:
  assumes "length (cl_events cl) = 1" "claim_fit sid sock cl md = Inr fit"
  shows "hf_fits fit"
proof -
  have "max 1 (hook_room (map wire_event (cl_events cl)) s cap sock) = 1" for s cap
    using hook_room_le [of "map wire_event (cl_events cl)" s cap sock] assms(1) by simp
  with assms show ?thesis by (auto simp: claim_fit_def resolve_hook_claim_fit_room Let_def)
qed

locale delivery_daemon =
  fixes D :: "'s daemon" and sound :: "'s \<Rightarrow> bool" and keeps :: "'s \<Rightarrow> 's \<Rightarrow> bool"
  assumes keeps_refl: "keeps s s"
    and keeps_trans: "keeps s s1 \<Longrightarrow> keeps s1 s2 \<Longrightarrow> keeps s s2"
    and keeps_sound: "keeps s s1 \<Longrightarrow> sound s \<Longrightarrow> sound s1"
    and preview_keeps: "keeps s (fst (dm_preview D sid s))"
    and reminder_keeps: "keeps s (fst (dm_reminder D sid s))"
    and reserve_keeps: "keeps s (fst (dm_reserve D sid l m s))"
    and release_keeps: "keeps s (fst (dm_release D rid s))"
    and reserve_one: "sound s \<Longrightarrow> dm_reserve D sid TurnInterruptible (Some 1) s = (s', Inr (Some (rid, cl))) \<Longrightarrow> length (cl_events cl) \<le> 1"
    and reserve_own: "dm_reserve D sid l m s = (s', Inr (Some (rid, cl))) \<Longrightarrow> cl_session cl = sid \<and> cl_lifecycle cl = l"
    and reserve_speaks: "sound s \<Longrightarrow> dm_reserve D sid l m s = (s', Inr (Some (rid, cl))) \<Longrightarrow> cl_events cl = [] \<Longrightarrow>
        trim16 (sanitize_context (ascii (cl_message cl))) \<noteq> []"
begin

lemma keeps_bind:
  assumes "keeps s (fst (m s))" "\<And>a s1. m s = (s1, Inr a) \<Longrightarrow> keeps s1 (fst (f a s1))"
  shows "keeps s (fst (rpc_bind m f s))"
  using assms by (auto simp: rpc_bind_def split: prod.splits sum.splits intro: keeps_trans)

lemma delivery_speaks:
  assumes "sound s" "dm_reserve D sid l m s = (s', Inr (Some (rid, cl)))"
  shows "\<exists>out. render_hook_delivery (Some (wire_claim cl)) name md sock = Inr (Some out)"
proof (cases "cl_events cl")
  case Nil
  with reserve_speaks [OF assms Nil] show ?thesis
    by (simp add: render_hook_delivery_def hook_reminder_context_def wire_claim_def Let_def)
next
  case (Cons e es)
  have "\<exists>ctx. hook_body_context (wire_claim cl) md sock = Inr ctx"
    using hook_body_context_cases [of "wire_claim cl" "wire_event e" "map wire_event es"] Cons
    by (simp add: wire_claim_def)
  with Cons show ?thesis by (auto simp: render_hook_delivery_def wire_claim_def)
qed

end

locale sized_delivery = delivery_daemon D sound keeps for D :: "'s daemon" and sound :: "'s \<Rightarrow> bool" and keeps :: "'s \<Rightarrow> 's \<Rightarrow> bool" +
  fixes F :: fitter
  assumes one_fits: "length (cl_events cl) = 1 \<Longrightarrow> ft_fit F cl md = Inr (b, n) \<Longrightarrow> b"
begin

lemma sizing_keeps: "keeps s (fst (delivery_sizing D F sid l final_try forced s))"
  unfolding delivery_sizing_def
  by (auto simp: Let_def keeps_refl preview_keeps reminder_keeps intro!: keeps_bind split: sum.split)

lemma remains_keeps: "keeps s (fst (settled_work_remains D sid es s))"
  unfolding settled_work_remains_def by (auto simp: keeps_refl preview_keeps intro!: keeps_bind)

lemma cleanup_keeps: "keeps s (fst (m s)) \<Longrightarrow> keeps s (fst (rpc_cleanup m (dm_release D rid) s))"
  using release_keeps [of "fst (m s)" rid] keeps_trans
  by (cases "m s"; cases "dm_release D rid (fst (m s))") (auto simp: rpc_cleanup_def split: sum.split)

lemma judge_keeps: "keeps s (fst (judge_reservation D F sid rid cl md s))"
  unfolding judge_reservation_def
  by (auto simp: keeps_refl remains_keeps intro!: keeps_bind cleanup_keeps split: sum.split)

lemma attempt_keeps: "keeps s (fst (reserve_attempt D F sid l final_try forced s))"
  unfolding reserve_attempt_def
  by (auto simp: keeps_refl sizing_keeps reserve_keeps release_keeps judge_keeps
      intro!: keeps_bind split: option.split verdict.split)

lemma attempts_keep: "keeps s (fst (reserve_attempts D F sid l n forced s))"
proof (induction n arbitrary: s forced)
  case (Suc n)
  then show ?case by (auto simp: keeps_refl attempt_keeps intro!: keeps_bind split: attempt.split)
qed (simp add: keeps_refl)

lemma last_sizing: "delivery_sizing D F sid TurnInterruptible True forced s = (s', Inr (m, md, pc)) \<Longrightarrow> m = Some 1"
  unfolding delivery_sizing_def by (auto elim!: rpc_bindE)

lemma judge_accepts:
  "judge_reservation D F sid rid cl md s = (s', Inr (Accept md')) \<Longrightarrow>
     \<exists>n. ft_fit F cl md' = Inr (True, n)"
  unfolding judge_reservation_def by (auto split: sum.splits if_splits elim!: rpc_bindE)

lemma judge_single:
  assumes "length (cl_events cl) = 1"
  shows "judge_reservation D F sid rid cl md s \<noteq> (s', Inr (Shrink f))"
  using one_fits [OF assms] unfolding judge_reservation_def
  by (auto split: sum.splits if_splits elim!: rpc_bindE)

lemma sizing_sound: "sound s \<Longrightarrow> delivery_sizing D F sid l final_try forced s = (s1, r) \<Longrightarrow> sound s1"
  using keeps_sound [OF sizing_keeps] by (metis fst_conv)

lemma attempt_done:
  assumes "sound s" "reserve_attempt D F sid l final_try forced s = (s', Inr (Done z))"
  shows "case z of
      None \<Rightarrow> \<exists>m s1. dm_reserve D sid l m s1 = (s', Inr None)
    | Some z \<Rightarrow> (\<exists>m s1 s2. sound s1 \<and> dm_reserve D sid l m s1 = (s2, Inr (Some (sz_id z, sz_claim z)))) \<and>
        (cl_events (sz_claim z) \<noteq> [] \<and> l = TurnInterruptible \<longrightarrow>
          (\<exists>n. ft_fit F (sz_claim z) (sz_more z) = Inr (True, n)))"
  using assms unfolding reserve_attempt_def
  by (fastforce split: option.splits if_splits verdict.splits elim!: rpc_bindE dest: judge_accepts sizing_sound)

lemma last_attempt:
  assumes sound: "sound s"
  shows "reserve_attempt D F sid l True forced s \<noteq> (s', Inr (Again f))"
proof
  assume "reserve_attempt D F sid l True forced s = (s', Inr (Again f))"
  then obtain m md pc s1 s2 rid cl s3 where sz: "delivery_sizing D F sid l True forced s = (s1, Inr (m, md, pc))"
    and rs: "dm_reserve D sid l m s1 = (s2, Inr (Some (rid, cl)))"
    and l: "l = TurnInterruptible" and ne: "cl_events cl \<noteq> []"
    and j: "judge_reservation D F sid rid cl md s2 = (s3, Inr (Shrink f))"
    unfolding reserve_attempt_def
    by (auto split: option.splits if_splits verdict.splits elim!: rpc_bindE)
  have "m = Some 1" using last_sizing sz l by blast
  moreover have "sound s1" using sound sz by (rule sizing_sound)
  ultimately have "length (cl_events cl) \<le> 1" using reserve_one rs l by blast
  then have "length (cl_events cl) = 1" using ne by (cases "cl_events cl") auto
  with j judge_single show False by blast
qed

lemma attempts_none:
  "sound s \<Longrightarrow> reserve_attempts D F sid l (Suc n) forced s = (s', Inr None) \<Longrightarrow>
     \<exists>m s1. dm_reserve D sid l m s1 = (s', Inr None)"
proof (induction n arbitrary: s forced)
  case 0
  then have "reserve_attempt D F sid l True forced s = (s', Inr (Done None))"
    by (auto elim!: rpc_bindE split: attempt.splits simp: last_attempt)
  from attempt_done [OF 0(1) this] show ?case by simp
next
  case (Suc n)
  from Suc.prems(2) obtain s1 a where a: "reserve_attempt D F sid l False forced s = (s1, Inr a)"
    and r: "(case a of Done z \<Rightarrow> rpc_return z | Again f \<Rightarrow> reserve_attempts D F sid l (Suc n) (Some f)) s1 = (s', Inr None)"
    unfolding reserve_attempts.simps(2) [of _ _ _ _ "Suc n"] by (auto elim!: rpc_bindE simp del: reserve_attempts.simps)
  show ?case
  proof (cases a)
    case (Done z)
    with r have "z = None" "s1 = s'" by auto
    with attempt_done [OF Suc.prems(1) a [unfolded Done]] show ?thesis by simp
  next
    case (Again f)
    have "sound s1" using keeps_sound [OF attempt_keeps Suc.prems(1)] a by (metis fst_conv)
    moreover from r Again have "reserve_attempts D F sid l (Suc n) (Some f) s1 = (s', Inr None)" by simp
    ultimately show ?thesis by (rule Suc.IH)
  qed
qed

lemma attempts_some:
  "sound s \<Longrightarrow> reserve_attempts D F sid l n forced s = (s', Inr (Some z)) \<Longrightarrow>
     (\<exists>m s1 s2. sound s1 \<and> dm_reserve D sid l m s1 = (s2, Inr (Some (sz_id z, sz_claim z)))) \<and>
     (cl_events (sz_claim z) \<noteq> [] \<and> l = TurnInterruptible \<longrightarrow>
        (\<exists>n. ft_fit F (sz_claim z) (sz_more z) = Inr (True, n)))"
proof (induction n arbitrary: s forced)
  case (Suc n)
  from Suc.prems obtain s1 a where a: "reserve_attempt D F sid l (n = 0) forced s = (s1, Inr a)"
    and r: "(case a of Done z \<Rightarrow> rpc_return z | Again f \<Rightarrow> reserve_attempts D F sid l n (Some f)) s1 = (s', Inr (Some z))"
    by (auto elim!: rpc_bindE)
  show ?case
  proof (cases a)
    case (Done z')
    with r have "z' = Some z" by simp
    with attempt_done [OF Suc.prems(1) a [unfolded Done]] show ?thesis by simp
  next
    case (Again f)
    have "sound s1" using keeps_sound [OF attempt_keeps Suc.prems(1)] a by (metis fst_conv)
    moreover from r Again have "reserve_attempts D F sid l n (Some f) s1 = (s', Inr (Some z))" by simp
    ultimately show ?thesis by (rule Suc.IH)
  qed
qed simp

end

section \<open>The model's runtime keeps the contract\<close>

definition claimed_rows :: "runtime \<Rightarrow> (ident \<times> ident) set" where
  "claimed_rows rt = {(p_session p, p_event p) | p. p \<in> set (projections (rt_store rt)) \<and> p_first_notified p \<noteq> None}"

text \<open>What others may do to the store, and what of the claimed rows a world keeps under them.\<close>

definition others_sound :: "net \<Rightarrow> bool" where
  "others_sound net = (\<forall>n rt. wf_store (rt_store rt) \<longrightarrow> wf_store (rt_store (net_others net n rt)))"

definition world_sound :: "net \<Rightarrow> world \<Rightarrow> bool" where
  "world_sound net w = (others_sound net \<and> wf_store (rt_store (w_rt w)))"

definition others_respect :: "net \<Rightarrow> ((ident \<times> ident) set \<Rightarrow> bool) \<Rightarrow> bool" where
  "others_respect net P = (\<forall>n rt. P (claimed_rows rt) \<longrightarrow> P (claimed_rows (net_others net n rt)))"

definition world_keeps :: "net \<Rightarrow> world \<Rightarrow> world \<Rightarrow> bool" where
  "world_keeps net w w' =
     ((world_sound net w \<longrightarrow> world_sound net w') \<and>
      (\<forall>P. others_respect net P \<longrightarrow> P (claimed_rows (w_rt w)) \<longrightarrow> P (claimed_rows (w_rt w'))))"

lemma claimed_rows_cong: "projections (rt_store a) = projections (rt_store b) \<Longrightarrow> claimed_rows a = claimed_rows b"
  by (simp add: claimed_rows_def)

lemma ipc_keeps:
  assumes "\<And>now i rt. projections (rt_store (fst (f now i rt))) = projections (rt_store rt)"
    and "\<And>now i rt. wf_store (rt_store rt) \<Longrightarrow> wf_store (rt_store (fst (f now i rt)))"
  shows "world_keeps net w (fst (ipc net f w))"
proof -
  let ?n = "w_calls w"
  let ?rt = "net_others net ?n (w_rt w)"
  have "w_rt (fst (ipc net f w)) = ?rt \<or> w_rt (fst (ipc net f w)) = fst (f (net_clock net ?n) (net_uuid net ?n) ?rt)"
    by (simp add: ipc_def Let_def split: fate.split)
  moreover have "claimed_rows (fst (f (net_clock net ?n) (net_uuid net ?n) ?rt)) = claimed_rows ?rt"
    by (rule claimed_rows_cong) (rule assms(1))
  moreover have "others_respect net P \<Longrightarrow> P (claimed_rows (w_rt w)) \<Longrightarrow> P (claimed_rows ?rt)" for P
    by (simp add: others_respect_def)
  moreover have "world_sound net w \<Longrightarrow> wf_store (rt_store ?rt)"
    by (simp add: world_sound_def others_sound_def)
  ultimately show ?thesis using assms(2) unfolding world_keeps_def by (auto simp: world_sound_def)
qed

lemma ipc_answer:
  assumes "ipc net f w = (w', Inr a)"
  shows "snd (f (net_clock net (w_calls w)) (net_uuid net (w_calls w)) (net_others net (w_calls w) (w_rt w))) = Inr a"
  using assms by (auto simp: ipc_def Let_def map_sum_def split: fate.splits sum.splits)

lemma fst_pass: "fst (case X of (r, Inl e) \<Rightarrow> (r, Inl e) | (r, Inr y) \<Rightarrow> (r, Inr (f y))) = fst X"
  by (simp split: prod.split sum.split)

lemma reserve_frame:
  "projections (rt_store (fst (reserve_delivery rt now i s l m))) = projections (rt_store rt)"
  "wf_store (rt_store rt) \<Longrightarrow> wf_store (rt_store (fst (reserve_delivery rt now i s l m)))"
proof -
  have "rt_store (fst (reserve_delivery rt now i s l m)) = touch_session (rt_store rt) now s"
    unfolding reserve_delivery_def Let_def
    by (cases "decide_delivery (touch_session (rt_store rt) now s) (rt_reg rt) now s l m") (simp_all add: fst_pass del: decide_touch_prune)
  then show "projections (rt_store (fst (reserve_delivery rt now i s l m))) = projections (rt_store rt)"
    "wf_store (rt_store rt) \<Longrightarrow> wf_store (rt_store (fst (reserve_delivery rt now i s l m)))"
    by (simp_all add: wf_session_ops)
qed

lemma released_store: "rt_store (fst (release_delivery rt now rid)) = rt_store rt"
proof (cases "reservation_remove (rt_reg rt) rid")
  case (Pair reg p)
  then show ?thesis by (cases p) (simp_all add: release_delivery_def fst_pass)
qed

lemma reserve_decision:
  assumes "snd (reserve_delivery rt now i s l m) = Inr (Some (rid, cl))"
  shows "\<exists>d. decide_delivery (rt_store rt) (rt_reg rt) now s l m = Some d \<and> cl = dc_claim d"
  using assms by (auto simp: reserve_delivery_def Let_def split: option.splits prod.splits sum.splits)

lemma decide_one:
  assumes "wf_store st" "decide_delivery st reg now s TurnInterruptible (Some 1) = Some d"
  shows "length (cl_events (dc_claim d)) \<le> 1"
proof (cases "settled_high st reg now s = []")
  case True
  with assms(2) show ?thesis by (auto simp: decide_interruptible decide_reminder_def split: if_splits)
next
  case False
  with assms(2) have "d = decide_high st s (settled_high st reg now s) (pending_for_claim st reg now s (Some Normal))
      (reminder_due st reg now s Normal) (Some 1)" by (simp add: decide_interruptible)
  from arg_cong [OF decide_high_events [OF assms(1), of s reg now _ _ "Some 1"], of length] this
  show ?thesis by (simp add: surface_limit_def)
qed

lemma trim_speaks:
  assumes "u \<in> set s" "\<not> js_space u"
  shows "trim16 s \<noteq> []"
proof
  assume "trim16 s = []"
  then have "\<forall>x \<in> set (dropWhile js_space s). js_space x" by (simp add: trim16_def)
  moreover have "\<forall>x \<in> set (takeWhile js_space s). js_space x" by (blast dest: set_takeWhileD)
  ultimately have "\<forall>x \<in> set (takeWhile js_space s @ dropWhile js_space s). js_space x" unfolding set_append by blast
  with assms show False by (simp only: takeWhile_dropWhile_id) blast
qed

lemma sanitize_printable: "0x20 \<le> u \<Longrightarrow> u < 0x7F \<Longrightarrow> sanitize_context (u # r) = u # sanitize_context r"
proof -
  assume u: "0x20 \<le> u" "u < 0x7F"
  then have "\<not> high_surrogate u" by (simp add: high_surrogate_def word_le_nat_alt word_less_nat_alt)
  then have "code_points (u # r) = [u] # code_points r" by (cases r) simp_all
  moreover have "\<not> control_char [u]"
    using u by (simp add: control_char_def code_point_value_def word_le_nat_alt word_less_nat_alt)
  ultimately show ?thesis by (simp add: sanitize_context_def)
qed

lemma message_speaks: "trim16 (sanitize_context (ascii (CHR ''M'' # r))) \<noteq> []" "trim16 (sanitize_context (ascii (CHR ''R'' # r))) \<noteq> []"
  by (rule trim_speaks [of "0x4D"], simp_all add: ascii_def sanitize_printable js_space_def)
    (rule trim_speaks [of "0x52"], simp_all add: ascii_def sanitize_printable js_space_def)

lemma decide_speaks:
  assumes "wf_store st" "decide_delivery st reg now s l m = Some d" "cl_events (dc_claim d) = []"
  shows "\<exists>r. cl_message (dc_claim d) = CHR ''M'' # r \<or> cl_message (dc_claim d) = CHR ''R'' # r"
proof (cases "l = TurnInterruptible \<and> settled_high st reg now s \<noteq> []")
  case True
  with assms(2) have d: "d = decide_high st s (settled_high st reg now s) (pending_for_claim st reg now s (Some Normal))
      (reminder_due st reg now s Normal) m" by (simp add: decide_interruptible)
  have "0 < length (shown_high st reg now s)" using True assms(1) by (simp add: shown_high_empty)
  then have "0 < length (cl_events (dc_claim d))"
    using arg_cong [OF decide_high_events [OF assms(1), of s reg now _ _ m], of length] surface_limit_pos unfolding d by simp
  with assms(3) show ?thesis by simp
next
  case False
  note defs = decide_reminder_def decide_recap_def reminder_message_def Let_def
  show ?thesis
  proof (cases "l = TurnInterruptible")
    case True
    with False assms(2) show ?thesis by (auto simp: decide_interruptible defs split: if_splits)
  qed (use assms(2) in \<open>auto simp: decide_delivery_def defs split: if_splits\<close>)
qed

interpretation hook_ipc: delivery_daemon "runtime_daemon net bd" "world_sound net" "world_keeps net"
proof
  fix w w1 w2 :: world
  show "world_keeps net w w" by (simp add: world_keeps_def)
  show "world_keeps net w w1 \<Longrightarrow> world_keeps net w1 w2 \<Longrightarrow> world_keeps net w w2" unfolding world_keeps_def by blast
  show "world_keeps net w w1 \<Longrightarrow> world_sound net w \<Longrightarrow> world_sound net w1" by (simp add: world_keeps_def)
  fix sid rid l m
  show "world_keeps net w (fst (dm_preview (runtime_daemon net bd) sid w))"
    "world_keeps net w (fst (dm_reminder (runtime_daemon net bd) sid w))"
    by (simp_all add: runtime_daemon_def pruned_def ipc_keeps)
  show "world_keeps net w (fst (dm_reserve (runtime_daemon net bd) sid l m w))"
    by (simp add: runtime_daemon_def ipc_keeps reserve_frame)
  show "world_keeps net w (fst (dm_release (runtime_daemon net bd) rid w))"
    by (simp add: runtime_daemon_def ipc_keeps released_store)
next
  fix w w' :: world and sid rid l m cl
  assume r: "dm_reserve (runtime_daemon net bd) sid l m w = (w', Inr (Some (rid, cl)))"
  then obtain d where d: "decide_delivery (rt_store (net_others net (w_calls w) (w_rt w))) (rt_reg (net_others net (w_calls w) (w_rt w)))
      (net_clock net (w_calls w)) sid l m = Some d" "cl = dc_claim d"
    by (auto simp: runtime_daemon_def dest!: ipc_answer reserve_decision)
  show "cl_session cl = sid \<and> cl_lifecycle cl = l" using decide_fields [OF d(1)] d(2) by simp
  assume "world_sound net w" "cl_events cl = []"
  then have "wf_store (rt_store (net_others net (w_calls w) (w_rt w)))" by (simp add: world_sound_def others_sound_def)
  from decide_speaks [OF this d(1)] d(2) \<open>cl_events cl = []\<close>
  show "trim16 (sanitize_context (ascii (cl_message cl))) \<noteq> []" by (auto simp: message_speaks)
next
  fix w w' :: world and sid rid cl
  assume s: "world_sound net w" and r: "dm_reserve (runtime_daemon net bd) sid TurnInterruptible (Some 1) w = (w', Inr (Some (rid, cl)))"
  then obtain d where "decide_delivery (rt_store (net_others net (w_calls w) (w_rt w))) (rt_reg (net_others net (w_calls w) (w_rt w)))
      (net_clock net (w_calls w)) sid TurnInterruptible (Some 1) = Some d" "cl = dc_claim d"
    by (auto simp: runtime_daemon_def dest!: ipc_answer reserve_decision)
  moreover have "wf_store (rt_store (net_others net (w_calls w) (w_rt w)))"
    using s by (simp add: world_sound_def others_sound_def)
  ultimately show "length (cl_events cl) \<le> 1" using decide_one by blast
qed

lemma hook_one_fits: "length (cl_events cl) = 1 \<Longrightarrow> ft_fit (hook_fitter sid sock) cl md = Inr (b, n) \<Longrightarrow> b"
  using claim_fit_single [of cl sid sock md] by (auto simp: hook_fitter_def map_sum_def split: sum.splits)

interpretation hook_sized: sized_delivery "runtime_daemon net bd" "world_sound net" "world_keeps net" "hook_fitter sid sock"
  by unfold_locales (rule hook_one_fits)

section \<open>An invocation that writes nothing\<close>

lemma hook_deliver_unwritten:
  assumes "world_sound net w" "hook_deliver (runtime_daemon net bd) write_ok sid l sock name w = (w', [], r)"
  shows "world_keeps net w w'"
proof -
  let ?D = "runtime_daemon net bd"
  obtain w1 res where res: "reserve_sized_hook_delivery ?D sid l sock w = (w1, res)"
    by (cases "reserve_sized_hook_delivery ?D sid l sock w")
  note defs = reserve_sized_hook_delivery_def reserve_sized_def
  have k: "world_keeps net w w1"
    using hook_sized.attempts_keep [of net w bd sid sock sid l max_reserve_attempts None] res by (simp add: defs)
  show ?thesis
  proof (cases "\<exists>z. res = Inr (Some z)")
    case True
    then obtain z where z: "res = Inr (Some z)" by blast
    with hook_sized.attempts_some [OF assms(1), of bd sid sock sid l max_reserve_attempts None w1 z] res
    obtain m w2 w3 where "world_sound net w2" "dm_reserve ?D sid l m w2 = (w3, Inr (Some (sz_id z, sz_claim z)))"
      by (auto simp: defs)
    from hook_ipc.delivery_speaks [OF this] obtain out where
      out: "render_hook_delivery (Some (wire_claim (sz_claim z))) name (sz_more z) sock = Inr (Some out)" by blast
    then have "w' = fst (dm_release ?D (sz_id z) w1)"
      using assms(2) res z by (auto simp: hook_deliver_def write_and_commit_def split: if_splits prod.splits sum.splits)
    with k show ?thesis using hook_ipc.release_keeps hook_ipc.keeps_trans by blast
  next
    case False
    then have "w' = w1" using assms(2) res by (auto simp: hook_deliver_def split: sum.splits option.splits)
    with k show ?thesis by simp
  qed
qed

section \<open>A delivery of one event on a quiet net\<close>

lemma one_event_accepted:
  assumes "dm_preview D sid s = (s1, Inr [x])" "dm_reminder D sid s1 = (s2, Inr rem)"
    and "dm_reserve D sid TurnInterruptible (Some 1) s2 = (s3, Inr (Some (rid, cl)))"
    and "length (cl_events cl) = 1" "dm_preview D sid s3 = (s4, Inr [])"
    and "ft_pack F [x] rem = Inr 1" "ft_fit F cl False = Inr (True, n)"
  shows "reserve_sized D F sid TurnInterruptible s =
    (s4, Inr (Some \<lparr>sz_id = rid, sz_claim = cl, sz_more = False, sz_preview = Some 1\<rparr>))"
proof -
  have sizing: "delivery_sizing D F sid TurnInterruptible False None s = (s2, Inr (Some 1, False, Some 1))"
    using assms(1,2,6) by (simp add: delivery_sizing_def rpc_bind_def rpc_return_def)
  have "settled_work_remains D sid (cl_events cl) s3 = (s4, Inr False)"
    using assms(5) by (simp add: settled_work_remains_def rpc_bind_def rpc_return_def)
  then have judge: "judge_reservation D F sid rid cl False s3 = (s4, Inr (Accept False))"
    using assms(7) by (simp add: judge_reservation_def rpc_bind_def rpc_cleanup_def rpc_return_def)
  have "cl_events cl \<noteq> []" using assms(4) by auto
  then have "reserve_attempt D F sid TurnInterruptible False None s =
      (s4, Inr (Done (Some \<lparr>sz_id = rid, sz_claim = cl, sz_more = False, sz_preview = Some 1\<rparr>)))"
    using sizing assms(3) judge by (simp add: reserve_attempt_def rpc_bind_def rpc_return_def)
  then show ?thesis
    by (simp add: reserve_sized_def max_reserve_attempts_def numeral_eq_Suc rpc_bind_def rpc_return_def)
qed

definition one_bare_event :: "'s \<times> (flow_error + (ident \<times> claim) option) \<Rightarrow> bool" where
  "one_bare_event r = (case snd r of
       Inr (Some (_, cl)) \<Rightarrow> length (cl_events cl) = 1 \<and> cl_reminder cl = None
     | _ \<Rightarrow> False)"

definition quiet_net :: "ms \<Rightarrow> (nat \<Rightarrow> fate) \<Rightarrow> net" where
  "quiet_net now f = \<lparr>net_others = (\<lambda>n rt. rt), net_clock = (\<lambda>n. now), net_fate = f, net_uuid = (\<lambda>n. ''r'' @ show_nat n)\<rparr>"

lemma quiet_sound: "others_sound (quiet_net now f)"
  by (simp add: others_sound_def quiet_net_def)

definition demo_world :: world where
  "demo_world = \<lparr>w_rt = demo_rt, w_calls = 0\<rparr>"

lemma demo_world_wf: "wf_store (rt_store (w_rt demo_world))"
  using demo_wf by (simp add: demo_world_def demo_rt_def)

lemma demo_one_event:
  assumes "\<And>x r. ft_pack F [x] r = Inr 1" "\<And>cl. length (cl_events cl) = 1 \<Longrightarrow> \<exists>n. ft_fit F cl False = Inr (True, n)"
  shows "\<exists>w' z. reserve_sized (runtime_daemon (quiet_net 20000 (\<lambda>_. Answered)) text_bd) F ''K'' TurnInterruptible demo_world =
      (w', Inr (Some z)) \<and> length (cl_events (sz_claim z)) = 1 \<and> cl_reminder (sz_claim z) = None"
proof -
  let ?D = "runtime_daemon (quiet_net 20000 (\<lambda>_. Answered)) text_bd"
  let ?p = "dm_preview ?D ''K'' demo_world"
  let ?q = "dm_reminder ?D ''K'' (fst ?p)"
  let ?r = "dm_reserve ?D ''K'' TurnInterruptible (Some 1) (fst ?q)"
  let ?s = "dm_preview ?D ''K'' (fst ?r)"
  have "(case snd ?p of Inr [x] \<Rightarrow> True | _ \<Rightarrow> False)" by code_simp
  then obtain x where p: "?p = (fst ?p, Inr [x])" by (cases ?p) (auto split: sum.splits list.splits)
  have "snd ?q = Inr None" by code_simp
  then have q: "?q = (fst ?q, Inr None)" by (cases ?q) simp
  have "one_bare_event ?r" by code_simp
  then obtain rid cl where r: "?r = (fst ?r, Inr (Some (rid, cl)))" and cl: "length (cl_events cl) = 1" "cl_reminder cl = None"
    by (cases ?r) (auto simp: one_bare_event_def split: sum.splits option.splits)
  have "snd ?s = Inr []" by code_simp
  then have s: "?s = (fst ?s, Inr [])" by (cases ?s) simp
  from one_event_accepted [OF p q r cl(1) s assms(1)] assms(2) [OF cl(1)] cl show ?thesis by fastforce
qed

end
