(* ===== verification/AM_HookProps.thy ===== *)
theory AM_HookProps
  imports AM_HookFlow
begin

text \<open>
  What one invocation of \<open>hook deliver\<close> guarantees, whatever other clients do between its calls
  and whichever of its calls are lost, and the one claim whose room is measured too small.
\<close>

section \<open>The loop of attempts\<close>

definition reserve_answers_nothing :: "net \<Rightarrow> (string \<Rightarrow> string \<Rightarrow> string option \<Rightarrow> string) \<Rightarrow> ident \<Rightarrow> lifecycle \<Rightarrow> world \<Rightarrow> bool" where
  "reserve_answers_nothing net bd sid l w' = (\<exists>m w. dm_reserve (runtime_daemon net bd) sid l m w = (w', Inr None))"

text \<open>
  C21: the loop of attempts always decides. It ends with nothing only where a reservation itself
  answered nothing: the code after the last attempt is never reached, because the last attempt
  asks for one event and one event always fits its own check.
\<close>

theorem hook_attempts_always_decide:
  assumes "others_sound net" and "wf_store (rt_store (w_rt w))"
    and "reserve_sized_hook_delivery (runtime_daemon net bd) sid l sock w = (w', Inr None)"
  shows "reserve_answers_nothing net bd sid l w'"
  using hook_sized.attempts_none [of net w bd sid sock sid l 2 None w'] assms
  by (simp add: reserve_answers_nothing_def reserve_sized_hook_delivery_def reserve_sized_def max_reserve_attempts_def world_sound_def
      numeral_eq_Suc del: reserve_attempts.simps)

lemma unsized_delivery:
  "l \<noteq> TurnInterruptible \<Longrightarrow> dm_reserve D sid l None s = (s', Inr None) \<Longrightarrow>
     reserve_sized_hook_delivery D sid l sock s = (s', Inr None)"
  "l \<noteq> TurnInterruptible \<Longrightarrow> dm_reserve D sid l None s = (s', Inl e) \<Longrightarrow>
     reserve_sized_hook_delivery D sid l sock s = (s', Inl e)"
  by (simp_all add: reserve_sized_hook_delivery_def reserve_sized_def max_reserve_attempts_def numeral_eq_Suc reserve_attempt_def
      delivery_sizing_def rpc_bind_def rpc_return_def)

definition answers_none :: "'s \<times> ('e + 'a option) \<Rightarrow> bool" where
  "answers_none r = (case snd r of Inr None \<Rightarrow> True | _ \<Rightarrow> False)"

lemma answers_noneE:
  assumes "answers_none r"
  obtains a where "r = (a, Inr None)"
  using assms by (cases r) (auto simp: answers_none_def split: sum.splits option.splits)

theorem hook_attempts_always_decide_witness:
  "\<exists>w'. reserve_sized_hook_delivery (runtime_daemon (quiet_net 20000 (\<lambda>_. Answered)) text_bd) ''N'' TurnIdle None demo_world = (w', Inr None) \<and>
     reserve_answers_nothing (quiet_net 20000 (\<lambda>_. Answered)) text_bd ''N'' TurnIdle w'"
proof -
  let ?D = "runtime_daemon (quiet_net 20000 (\<lambda>_. Answered)) text_bd"
  have "answers_none (dm_reserve ?D ''N'' TurnIdle None demo_world)" by code_simp
  then obtain w' where "dm_reserve ?D ''N'' TurnIdle None demo_world = (w', Inr None)" by (rule answers_noneE)
  from unsized_delivery(1) [OF _ this] have r: "reserve_sized_hook_delivery ?D ''N'' TurnIdle None demo_world = (w', Inr None)" by simp
  with hook_attempts_always_decide [OF quiet_sound demo_world_wf r] show ?thesis by blast
qed

section \<open>Nothing is claimed before it is written\<close>

text \<open>
  C19: an invocation that wrote nothing claimed nothing. Whatever call was lost, whichever step
  failed and however often it retried, a row is claimed afterwards only if it was claimed before
  or if another client claimed it.
\<close>

theorem unwritten_delivery_claims_nothing:
  assumes "others_sound net" and "wf_store (rt_store (w_rt w))"
    and "hook_deliver (runtime_daemon net bd) write_ok sid l sock name w = (w', [], r)"
    and "(s, e) \<notin> claimed_rows (w_rt w)"
    and "\<forall>n rt. (s, e) \<notin> claimed_rows rt \<longrightarrow> (s, e) \<notin> claimed_rows (net_others net n rt)"
  shows "(s, e) \<notin> claimed_rows (w_rt w')"
proof -
  have "world_keeps net w w'" using assms(1-3) by (intro hook_deliver_unwritten) (simp_all add: world_sound_def)
  moreover have "others_respect net (\<lambda>C. (s, e) \<notin> C)" using assms(5) by (simp add: others_respect_def)
  ultimately show ?thesis using assms(4) by (auto simp: world_keeps_def)
qed

theorem unwritten_delivery_claims_nothing_witness:
  "\<exists>w'. hook_deliver (runtime_daemon (quiet_net 20000 (\<lambda>_. ResponseLost)) text_bd) (\<lambda>_. True) ''L'' PostCompact None
      (ascii ''SessionStart'') demo_world = (w', [], Inl ConnectionLost) \<and> (''L'', ''e3'') \<notin> claimed_rows (w_rt w')"
proof -
  let ?net = "quiet_net 20000 (\<lambda>_. ResponseLost)"
  let ?r = "hook_deliver (runtime_daemon ?net text_bd) (\<lambda>_. True) ''L'' PostCompact None (ascii ''SessionStart'') demo_world"
  let ?q = "dm_reserve (runtime_daemon ?net text_bd) ''L'' PostCompact None demo_world"
  have "(case snd ?q of Inl ConnectionLost \<Rightarrow> True | _ \<Rightarrow> False)" by code_simp
  then obtain w' where "?q = (w', Inl ConnectionLost)" by (cases ?q) (auto split: sum.splits flow_error.splits)
  from unsized_delivery(2) [OF _ this] have r: "?r = (w', [], Inl ConnectionLost)" by (simp add: hook_deliver_def)
  have "list_all (\<lambda>p. p_first_notified p = None) (projections (rt_store (w_rt demo_world)))" by code_simp
  then have "(''L'', ''e3'') \<notin> claimed_rows (w_rt demo_world)" by (auto simp: claimed_rows_def list_all_iff)
  from unwritten_delivery_claims_nothing [OF quiet_sound demo_world_wf r this] r show ?thesis
    by (simp add: quiet_net_def)
qed

section \<open>What an accepted claim shows\<close>

definition shown_complete :: "claim_view \<Rightarrow> bool \<Rightarrow> text16 option \<Rightarrow> text16" where
  "shown_complete c md sock =
     shown_whole c sock (length (cv_events c)) @ (if md then hook_deferred_slot c sock else [])"

definition shown_sole :: "claim_view \<Rightarrow> bool \<Rightarrow> text16 option \<Rightarrow> text16" where
  "shown_sole c md sock =
     append_marker_within_cap (shown_whole c sock 1) max_additional_context (hook_sole_marker c md sock)"

lemma accepted_claim_shown:
  assumes fit: "claim_fit sid sock cl md = Inr fit" "hf_fits fit"
    and cl: "cl_events cl \<noteq> []" "cl_reminder cl = None" "cl_session cl = sid" "cl_lifecycle cl \<noteq> PostCompact"
  shows "\<exists>ctx. hook_body_context (wire_claim cl) md sock = Inr ctx \<and>
    (ctx = shown_complete (wire_claim cl) md sock \<or> (length (cl_events cl) = 1 \<and> ctx = shown_sole (wire_claim cl) md sock))"
proof -
  let ?c = "wire_claim cl"
  obtain e es where e: "cl_events cl = e # es" using cl(1) by (cases "cl_events cl") auto
  then have ev: "cv_events ?c = wire_event e # map wire_event es" by (simp add: wire_claim_def)
  have footer: "hook_reminder_footer ?c sock = []" using cl(2) by (simp add: hook_reminder_footer_def wire_claim_def)
  have slot: "hook_deferred_slot ?c sock = hook_deferred_marker (ascii sid) sock"
    using cl(3,4) by (simp add: hook_deferred_slot_def wire_claim_def)
  let ?room = "hook_room (cv_events ?c) (cv_session ?c) (hook_cap ?c sock) sock"
  let ?less = "hook_room (cv_events ?c) (cv_session ?c) (hook_deferred_cap ?c sock) sock"
  have cap: "hook_cap ?c sock = max_additional_context"
    "hook_deferred_cap ?c sock = max_additional_context - int (length (hook_deferred_marker (ascii sid) sock))"
    by (simp_all add: hook_deferred_cap_def hook_cap_def footer slot)
  have fits: "(?room = length (cv_events ?c) \<and> \<not> md) \<or> max 1 ?less = length (cv_events ?c)"
    using fit cl unfolding cap
    by (auto simp: claim_fit_def resolve_hook_claim_fit_room Let_def reminder_footer_length_def wire_claim_def split: if_splits)
  have le: "?less \<le> ?room"
    by (rule hook_room_greatest) (use hook_room_le hook_room_fits [of "cv_events ?c" "cv_session ?c" "hook_deferred_cap ?c sock" sock]
        in \<open>auto simp: hook_fits_at_def cap\<close>)
  have len: "length (cv_events ?c) = length (cl_events cl)" by (simp add: wire_claim_def)
  have more: "?room \<le> length (cv_events ?c)" by (rule hook_room_le)
  have one: "shown_whole ?c sock 1 = hook_header (cv_session ?c) [ev_event (wire_event e)] sock @ hook_event_block (wire_event e)"
    by (simp add: shown_whole_def ev)
  show ?thesis
    unfolding hook_body_context_cases [OF ev] Let_def footer append_Nil2
    using fits le more len
    by (auto simp: shown_complete_def shown_sole_def cap(1) one [symmetric] footer max_def split: if_splits)
qed


lemma hook_events_under_cap_one: "hook_events_under_cap [e] s cap sock = Inr 1"
proof -
  have "hook_room [e] s c sock \<le> 1" for c using hook_room_le [of "[e]" s c sock] by simp
  then show ?thesis
    using resolve_hook_header_packing_room [of "[e]" s _ sock]
    by (auto simp: hook_events_under_cap_def Let_def max_def intro: le_antisym)
qed

lemma hook_one_event:
  "ft_pack (hook_fitter sid sock) [x] r = Inr 1"
  "length (cl_events cl) = 1 \<Longrightarrow> \<exists>n. ft_fit (hook_fitter sid sock) cl False = Inr (True, n)"
proof -
  show "ft_pack (hook_fitter sid sock) [x] r = Inr 1" by (simp add: hook_fitter_def hook_events_under_cap_one)
  assume len: "length (cl_events cl) = 1"
  obtain fit where fit: "claim_fit sid sock cl False = Inr fit" using claim_fit_total by blast
  with claim_fit_single [OF len fit] show "\<exists>n. ft_fit (hook_fitter sid sock) cl False = Inr (True, n)"
    by (simp add: hook_fitter_def)
qed


section \<open>The room of a coalesced reminder\<close>

definition crowded_event :: "ident \<Rightarrow> nat \<Rightarrow> event_summary" where
  "crowded_event i n = \<lparr>es_event = i, es_monitor = ''m'', es_title = ''t'', es_summary = ''t'', es_detail = ''t'',
     es_urgency = High, es_created = 0, es_body = replicate n CHR ''b'', es_diff = None\<rparr>"

definition crowded_claim :: "nat \<Rightarrow> claim" where
  "crowded_claim n = \<lparr>cl_session = ''S'', cl_mode = MDelivery, cl_urgency = Some High, cl_lifecycle = TurnInterruptible,
     cl_message = ''m'', cl_counts = \<lparr>uc_low = 0, uc_normal = 1, uc_high = 2, uc_total = 3\<rparr>,
     cl_events = [crowded_event ''e1'' 1, crowded_event ''e2'' n], cl_reminder = Some reminder_message, cl_normal_count = Some 1\<rparr>"

lemma sanitize_Nil [simp]: "sanitize_context [] = []"
  by (simp add: sanitize_context_def)

lemma sanitize_body: "sanitize_context (replicate n 98) = replicate n 98"
  by (induction n) (simp_all add: sanitize_printable)

lemma crowded_block: "length (hook_event_block (wire_event (crowded_event i n))) = 16 + n"
  by (simp add: hook_event_block_def build_event_block_def block_head_def crowded_event_def wire_event_def Let_def detail_lines_def
      sanitize_body sanitize_printable ascii_def)

lemma crowded_header:
  "length (hook_header (ascii ''S'') [ascii ''e1''] None) = 164"
  "length (hook_header (ascii ''S'') [ascii ''e1'', ascii ''e2''] None) = 167"
  by (simp_all add: hook_header_def lead_line_def hook_prefix_def hook_ack_instruction_def socket_clause_def
      sanitize_printable ascii_def)

lemma crowded_events: "cv_events (wire_claim (crowded_claim n)) = [wire_event (crowded_event ''e1'' 1), wire_event (crowded_event ''e2'' n)]"
  "cv_session (wire_claim (crowded_claim n)) = ascii ''S''" "ev_event (wire_event (crowded_event i k)) = ascii i"
  by (simp_all add: wire_claim_def crowded_claim_def wire_event_def crowded_event_def)

lemma crowded_footer: "length (hook_reminder_footer (wire_claim (crowded_claim n)) None) = 156"
  by (simp add: hook_reminder_footer_def wire_claim_def crowded_claim_def reminder_message_def hook_reminder_action_step_def
      socket_clause_def Let_def sanitize_printable ascii_def)

lemma crowded_marker: "length (hook_deferred_slot (wire_claim (crowded_claim n)) None) = 118"
  by (simp add: hook_deferred_slot_def wire_claim_def crowded_claim_def hook_deferred_marker_def
      socket_clause_def sanitize_printable ascii_def)

lemma crowded_fits:
  "hook_fits_at (cv_events (wire_claim (crowded_claim n))) (ascii ''S'') cap None 1 \<longleftrightarrow> 181 \<le> cap"
  "hook_fits_at (cv_events (wire_claim (crowded_claim n))) (ascii ''S'') cap None 2 \<longleftrightarrow> 201 + int n \<le> cap"
  by (simp_all add: hook_fits_at_def crowded_events crowded_block crowded_header numeral_2_eq_2)

lemma crowded_room:
  "201 + int n \<le> cap \<Longrightarrow> hook_room (cv_events (wire_claim (crowded_claim n))) (ascii ''S'') cap None = 2"
  "181 \<le> cap \<Longrightarrow> cap < 201 + int n \<Longrightarrow> hook_room (cv_events (wire_claim (crowded_claim n))) (ascii ''S'') cap None = 1"
proof -
  let ?r = "hook_room (cv_events (wire_claim (crowded_claim n))) (ascii ''S'') cap None"
  have len: "length (cv_events (wire_claim (crowded_claim n))) = 2" by (simp add: crowded_events)
  have le: "?r \<le> 2" using hook_room_le [of "cv_events (wire_claim (crowded_claim n))" "ascii ''S''" cap None] len by simp
  note ge = hook_room_greatest [of _ "cv_events (wire_claim (crowded_claim n))" "ascii ''S''" cap None]
  show "201 + int n \<le> cap \<Longrightarrow> ?r = 2" using le ge [of 2] by (simp add: crowded_fits len)
  assume c: "181 \<le> cap" "cap < 201 + int n"
  then have "1 \<le> ?r" using ge [of 1] by (simp add: crowded_fits [unfolded One_nat_def] len)
  moreover have "?r \<noteq> 2" using hook_room_fits [of "cv_events (wire_claim (crowded_claim n))" "ascii ''S''" cap None] c
    by (auto simp: crowded_fits)
  ultimately show "?r = 1" using le by linarith
qed

text \<open>
  C25: a claim with a coalesced reminder can be accepted and then shown in part. The sizing sets
  aside the reminder's own length, the rendering also appends the acknowledgment command, so of
  this claim of two events, accepted as fitting, only the first is rendered.
\<close>

theorem coalesced_claim_shows_part:
  "(\<exists>fit. claim_fit ''S'' None (crowded_claim 3767) False = Inr fit \<and> hf_fits fit \<and> hf_count fit = 2) \<and>
   render_hook_delivery (Some (wire_claim (crowded_claim 3767))) name False None =
     Inr (Some \<lparr>ho_event_name = name,
       ho_context = shown_whole (wire_claim (crowded_claim 3767)) None 1 @
         hook_deferred_slot (wire_claim (crowded_claim 3767)) None @ hook_reminder_footer (wire_claim (crowded_claim 3767)) None\<rparr>)"
proof
  let ?c = "wire_claim (crowded_claim 3767)"
  have ev: "map wire_event (cl_events (crowded_claim 3767)) = cv_events ?c" by (simp add: wire_claim_def)
  have cap: "max_additional_context - reminder_footer_length (cl_reminder (crowded_claim 3767)) = 3968"
    by (simp add: max_additional_context_def crowded_claim_def reminder_footer_length_def reminder_message_def)
  have len: "length (cv_events ?c) = 2" by (simp add: crowded_events)
  show "\<exists>fit. claim_fit ''S'' None (crowded_claim 3767) False = Inr fit \<and> hf_fits fit \<and> hf_count fit = 2"
    unfolding claim_fit_def ev cap resolve_hook_claim_fit_room Let_def len
    by (simp add: crowded_room(1))
  have "hook_cap ?c None = 3844" "hook_deferred_cap ?c None = 3726"
    by (simp_all add: hook_deferred_cap_def hook_cap_def max_additional_context_def crowded_footer crowded_marker)
  then have "hook_body_context ?c False None = Inr (shown_whole ?c None 1 @ hook_deferred_slot ?c None @ hook_reminder_footer ?c None)"
    unfolding hook_body_context_cases [OF crowded_events(1)] Let_def crowded_events(2) len
    by (simp add: crowded_room(2))
  then show "render_hook_delivery (Some ?c) name False None =
     Inr (Some \<lparr>ho_event_name = name, ho_context = shown_whole ?c None 1 @ hook_deferred_slot ?c None @ hook_reminder_footer ?c None\<rparr>)"
    by (simp add: render_hook_delivery_def crowded_events)
qed

end
