(* ===== verification/AM_Channel.thy ===== *)
theory AM_Channel
  imports AM_HookFlow
begin

text \<open>
  The channel transport, \<open>channel-render.ts\<close> and \<open>commands/channel.ts\<close>: one pushed event per
  delivery, its content and the attributes of its tag made safe against breaking out of the tag,
  packed under the cap of a push, and one cycle of reserve, push and commit.
\<close>

section \<open>Sanitizing\<close>

definition tag_unit :: "16 word \<Rightarrow> bool" where
  "tag_unit u = (u \<in> {0x3C, 0x3E, 0x5B, 0x5D, 0x0D})"

definition meta_unit :: "16 word \<Rightarrow> bool" where
  "meta_unit u = (u \<in> {0x3C, 0x3E, 0x5B, 0x5D, 0x0D, 0x0A, 0x3B})"

definition content_value :: "text16 \<Rightarrow> text16" where
  "content_value s = map (\<lambda>u. if tag_unit u then 0x20 else u) s"

definition meta_value :: "text16 \<Rightarrow> text16" where
  "meta_value s = trim16 (map (\<lambda>u. if meta_unit u then 0x20 else u) s)"

section \<open>The pushed event\<close>

record channel_claim = claim_view +
  cc_mode :: delivery_mode
  cc_urgency :: "urgency option"
  cc_total :: nat
  cc_normal_count :: "nat option"

definition max_channel_content :: int where
  "max_channel_content = 20000"

definition channel_deferred_marker :: text16 where
  "channel_deferred_marker = [0x0A, 0x0A] @ ascii ''(more monitor updates are pending; they will surface on a later poll)''"

definition channel_socket_clause :: "text16 option \<Rightarrow> text16" where
  "channel_socket_clause sock = (case sock of
       None \<Rightarrow> []
     | Some p \<Rightarrow> if p = [] then [] else ascii '' --socket '' @ escape_shell_path p)"

definition channel_truncated_marker :: "text16 \<Rightarrow> text16 option \<Rightarrow> text16" where
  "channel_truncated_marker s sock =
     [0x0A, 0x0A] @ ascii ''(this update was too large to show in full; run `agentmonitors events list --session '' @
     meta_value s @ channel_socket_clause sock @ ascii '' --unread` to see the full copy)''"

definition channel_reminder_action_step :: "text16 \<Rightarrow> text16 option \<Rightarrow> text16" where
  "channel_reminder_action_step s sock =
     ascii '' Run `agentmonitors events list --session '' @ meta_value s @ channel_socket_clause sock @ ascii '' --unread` '' @
     ascii ''to see them, then call the agentmon_ack tool with the event_id values of the ones you handled.''"

definition channel_block :: "event_view \<Rightarrow> text16" where
  "channel_block e = build_event_block e content_value"

definition channel_joiner :: text16 where
  "channel_joiner = [0x0A, 0x0A]"

definition pack_channel_events :: "event_view list \<Rightarrow> int \<Rightarrow> nat" where
  "pack_channel_events es cap =
     pack_events_under_cap content_value [] channel_joiner (int (length channel_deferred_marker)) es cap"

record channel_fit =
  cf_fits :: bool
  cf_count :: nat
  cf_whole :: "text16 \<times> nat"
  cf_reserved :: "text16 \<times> nat"

definition resolve_channel_claim_fit :: "event_view list \<Rightarrow> bool \<Rightarrow> int \<Rightarrow> channel_fit" where
  "resolve_channel_claim_fit es md cap =
     (let blocks = map channel_block es;
          whole = pack_whole_blocks [] channel_joiner blocks cap;
          reserved = pack_whole_blocks [] channel_joiner blocks (cap - int (length channel_deferred_marker)) in
      if snd whole = length blocks \<and> \<not> md then
        \<lparr>cf_fits = True, cf_count = length blocks, cf_whole = whole, cf_reserved = reserved\<rparr>
      else
        let n = max 1 (snd reserved) in
        \<lparr>cf_fits = (n = length blocks), cf_count = n, cf_whole = whole, cf_reserved = reserved\<rparr>)"

definition channel_reminder_footer :: "'a claim_view_scheme \<Rightarrow> text16 option \<Rightarrow> text16" where
  "channel_reminder_footer c sock = (case cv_reminder c of
       None \<Rightarrow> []
     | Some r \<Rightarrow> if r = [] then []
         else [0x0A, 0x0A] @ content_value r @ channel_reminder_action_step (cv_session c) sock)"

definition channel_body :: "'a claim_view_scheme \<Rightarrow> bool \<Rightarrow> text16 option \<Rightarrow> text16" where
  "channel_body c md sock =
     (let blocks = map channel_block (cv_events c);
          footer = channel_reminder_footer c sock;
          cap = max_channel_content - int (length footer);
          fit = resolve_channel_claim_fit (cv_events c) md cap in
      if snd (cf_whole fit) = length blocks \<and> \<not> md then fst (cf_whole fit) @ footer
      else if 1 \<le> snd (cf_reserved fit) then fst (cf_reserved fit) @ channel_deferred_marker @ footer
      else
        let first_block = (case blocks of b # _ \<Rightarrow> b | [] \<Rightarrow> []);
            truncated = channel_truncated_marker (cv_session c) sock;
            marker = (if md then truncated @ channel_deferred_marker else truncated) in
        append_marker_within_cap first_block cap marker @ footer)"

definition channel_content :: "'a claim_view_scheme \<Rightarrow> bool \<Rightarrow> text16 option \<Rightarrow> text16" where
  "channel_content c md sock =
     (if cv_events c \<noteq> [] then channel_body c md sock
      else truncate_with_marker
        (content_value (cv_message c) @ channel_reminder_action_step (cv_session c) sock)
        max_channel_content (channel_truncated_marker (cv_session c) sock))"

fun lifecycle16 :: "lifecycle \<Rightarrow> text16" where
  "lifecycle16 TurnInterruptible = ascii ''turn-interruptible''"
| "lifecycle16 TurnIdle = ascii ''turn-idle''"
| "lifecycle16 PostCompact = ascii ''post-compact''"

fun mode16 :: "delivery_mode \<Rightarrow> text16" where
  "mode16 MDelivery = ascii ''delivery''"
| "mode16 MRecap = ascii ''recap''"

definition coalesced :: "'a claim_view_scheme \<Rightarrow> bool" where
  "coalesced c = (case cv_reminder c of None \<Rightarrow> False | Some r \<Rightarrow> r \<noteq> [])"

definition channel_event_count :: "channel_claim \<Rightarrow> nat" where
  "channel_event_count c =
     (if coalesced c then length (cv_events c) + default (cc_normal_count c) 0
      else if cv_events c \<noteq> [] then length (cv_events c)
      else cc_total c)"

definition channel_meta :: "channel_claim \<Rightarrow> (string \<times> text16) list" where
  "channel_meta c =
     map (\<lambda>(k, v). (k, meta_value v))
       ([(''lifecycle'', lifecycle16 (cv_lifecycle c)), (''mode'', mode16 (cc_mode c)),
         (''event_count'', ascii (show_nat (channel_event_count c)))] @
        (case cc_urgency c of None \<Rightarrow> [] | Some u \<Rightarrow> [(''urgency'', urgency16 u)]) @
        (case cv_events c of
           [e] \<Rightarrow> if coalesced c then [] else [(''monitor_id'', ev_monitor e), (''event_id'', ev_event e)]
         | _ \<Rightarrow> []))"

definition render_channel_event :: "channel_claim \<Rightarrow> bool \<Rightarrow> text16 option \<Rightarrow> text16 \<times> (string \<times> text16) list" where
  "render_channel_event c md sock = (channel_content c md sock, channel_meta c)"

section \<open>Nothing leaves the tag\<close>

definition tag_safe :: "text16 \<Rightarrow> bool" where
  "tag_safe s = list_all (\<lambda>u. \<not> tag_unit u) s"

lemma tag_safe_simps [simp]:
  "tag_safe []" "tag_safe (s @ t) \<longleftrightarrow> tag_safe s \<and> tag_safe t" "tag_safe (u # s) \<longleftrightarrow> \<not> tag_unit u \<and> tag_safe s"
  by (simp_all add: tag_safe_def)

lemma tag_unit_newline [simp]: "\<not> tag_unit 0x0A"
  by (simp add: tag_unit_def)

lemma tag_safe_subset: "tag_safe s \<Longrightarrow> set t \<subseteq> set s \<Longrightarrow> tag_safe t"
  by (auto simp: tag_safe_def list_all_iff)

lemma tag_safe_content [simp]: "tag_safe (content_value s)"
  by (auto simp: tag_safe_def content_value_def list_all_iff tag_unit_def)

lemma set_trim16: "set (trim16 s) \<subseteq> set s"
proof -
  have "set (trim16 s) \<subseteq> set (dropWhile js_space s)"
    unfolding trim16_def set_rev by (metis set_dropWhileD set_rev subsetI)
  then show ?thesis by (auto dest: set_dropWhileD)
qed

lemma tag_safe_meta [simp]: "tag_safe (meta_value s)"
  unfolding meta_value_def
  by (rule tag_safe_subset [OF _ set_trim16]) (auto simp: tag_safe_def list_all_iff tag_unit_def meta_unit_def)

lemma tag_safe_join: "tag_safe sep \<Longrightarrow> list_all tag_safe ws \<Longrightarrow> tag_safe (join sep ws)"
  by (induction sep ws rule: join.induct) auto

lemma tag_safe_truncate: "tag_safe s \<Longrightarrow> tag_safe (truncate_at_code_point_boundary s b)"
  by (rule tag_safe_subset) (auto dest: set_mono_prefix [OF truncate_prefix, THEN subsetD])

lemma tag_safe_truncations:
  "tag_safe s \<Longrightarrow> tag_safe m \<Longrightarrow> tag_safe (truncate_with_marker s cap m)"
  "tag_safe s \<Longrightarrow> tag_safe m \<Longrightarrow> tag_safe (append_marker_within_cap s cap m)"
  by (simp_all add: truncate_with_marker_def append_marker_within_cap_def Let_def tag_safe_truncate)

lemma tag_safe_socket [simp]: "tag_safe (channel_socket_clause sock)"
proof -
  have "tag_safe (escape_shell_path p)" for p
    using escape_shell_path_unbreaking [of p] by (auto simp: tag_safe_def list_all_iff tag_unit_def tag_breakers_def)
  then show ?thesis by (auto simp: channel_socket_clause_def tag_safe_def ascii_def tag_unit_def split: option.split)
qed

lemma tag_safe_fixed [simp]:
  "tag_safe channel_deferred_marker" "tag_safe (channel_truncated_marker s sock)" "tag_safe (channel_reminder_action_step s sock)"
proof -
  have "tag_safe (ascii ''(more monitor updates are pending; they will surface on a later poll)'')"
    "tag_safe (ascii ''(this update was too large to show in full; run `agentmonitors events list --session '')"
    "tag_safe (ascii '' --unread` to see the full copy)'')" "tag_safe (ascii '' Run `agentmonitors events list --session '')"
    "tag_safe (ascii '' --unread` '')"
    "tag_safe (ascii ''to see them, then call the agentmon_ack tool with the event_id values of the ones you handled.'')"
    by (simp_all add: ascii_def tag_unit_def)
  then show "tag_safe channel_deferred_marker" "tag_safe (channel_truncated_marker s sock)" "tag_safe (channel_reminder_action_step s sock)"
    by (simp_all add: channel_deferred_marker_def channel_truncated_marker_def channel_reminder_action_step_def)
qed

lemma tag_safe_block [simp]: "tag_safe (channel_block e)"
proof -
  have fixed: "tag_safe (ascii ''### '')" "tag_safe (ascii '' ('')" "tag_safe (ascii '')'')" "tag_safe (ascii ''Changes:'')"
    by (simp_all add: ascii_def tag_unit_def)
  have "tag_safe (join [0x0A] (detail_lines (content_value a) (content_value b) (content_value c) (content_value d)))" for a b c d
    by (rule tag_safe_join) (simp_all add: detail_lines_def)
  with fixed show ?thesis
    by (simp add: channel_block_def build_event_block_def block_head_def Let_def split: option.split)
qed

text \<open>How many blocks of a list of events a cap holds, and what the packing makes of them.\<close>

definition channel_room :: "event_view list \<Rightarrow> int \<Rightarrow> nat" where
  "channel_room es cap = snd (pack_whole_blocks [] channel_joiner (map channel_block es) cap)"

lemma channel_packs:
  shows channel_pack: "pack_whole_blocks [] channel_joiner (map channel_block es) cap =
      (join channel_joiner (take (channel_room es cap) (map channel_block es)), channel_room es cap)"
    and channel_room: "packs [] channel_joiner (map channel_block es) cap (channel_room es cap)"
proof -
  have ne: "[] \<notin> set (map channel_block es)" by (auto simp: channel_block_def build_event_block_not_Nil [symmetric])
  show "pack_whole_blocks [] channel_joiner (map channel_block es) cap =
      (join channel_joiner (take (channel_room es cap) (map channel_block es)), channel_room es cap)"
    "packs [] channel_joiner (map channel_block es) cap (channel_room es cap)"
    using pack_whole_blocks_spec [OF ne, of "[]" channel_joiner cap] unfolding channel_room_def
    by (simp_all add: prod_eq_iff)
qed

lemma channel_room_le: "channel_room es cap \<le> length es"
  using channel_room [of es cap] by (simp add: packs_def)

lemma channel_room_mono: "c \<le> d \<Longrightarrow> channel_room es c \<le> channel_room es d"
proof (rule ccontr)
  assume c: "c \<le> d" and "\<not> channel_room es c \<le> channel_room es d"
  then have lt: "Suc (channel_room es d) \<le> channel_room es c" by simp
  note length_join_take [OF lt, of channel_joiner "map channel_block es"]
  with channel_room [of es c] channel_room [of es d] lt c show False by (auto simp: packs_def)
qed

lemma tag_safe_packed [simp]: "tag_safe (join channel_joiner (take n (map channel_block es)))"
  by (rule tag_safe_join) (auto simp: channel_joiner_def list_all_iff dest!: in_set_takeD)

lemma tag_safe_all [simp]: "tag_safe (join channel_joiner (map channel_block es))"
  using tag_safe_packed [of "length es" es] by simp

lemma tag_safe_first [simp]: "tag_safe (case map channel_block es of b # _ \<Rightarrow> b | [] \<Rightarrow> [])"
  by (cases es) simp_all

lemma resolve_channel_claim_fit_room:
  "resolve_channel_claim_fit es md cap =
     (let room = channel_room es cap; less_room = channel_room es (cap - int (length channel_deferred_marker));
          text = (\<lambda>n. (join channel_joiner (take n (map channel_block es)), n)) in
      if room = length es \<and> \<not> md then
        \<lparr>cf_fits = True, cf_count = length es, cf_whole = text room, cf_reserved = text less_room\<rparr>
      else \<lparr>cf_fits = (max 1 less_room = length es), cf_count = max 1 less_room, cf_whole = text room, cf_reserved = text less_room\<rparr>)"
  by (simp add: resolve_channel_claim_fit_def channel_pack Let_def)

text \<open>
  C22: nothing pushed can leave its tag. For every delivery, whatever its monitors, bodies, diffs,
  session or socket path hold, the pushed content has no angle or square bracket and no carriage
  return, and no attribute has one of these, a line break or a semicolon.
\<close>

theorem channel_push_is_tag_safe:
  "set (fst (render_channel_event c md sock)) \<inter> {0x3C, 0x3E, 0x5B, 0x5D, 0x0D} = {} \<and>
   (\<Union>(k, v) \<in> set (snd (render_channel_event c md sock)). set v) \<inter> {0x3C, 0x3E, 0x5B, 0x5D, 0x0D, 0x0A, 0x3B} = {}"
proof
  have "tag_safe (channel_reminder_footer c sock)"
    by (simp add: channel_reminder_footer_def split: option.split)
  then have "tag_safe (channel_body c md sock)"
    unfolding channel_body_def Let_def resolve_channel_claim_fit_room
    by (simp add: tag_safe_truncations)
  then have "tag_safe (channel_content c md sock)"
    by (simp add: channel_content_def tag_safe_truncations)
  then show "set (fst (render_channel_event c md sock)) \<inter> {0x3C, 0x3E, 0x5B, 0x5D, 0x0D} = {}"
    by (auto simp: render_channel_event_def tag_safe_def list_all_iff tag_unit_def)
  have "set (meta_value v) \<inter> {0x3C, 0x3E, 0x5B, 0x5D, 0x0D, 0x0A, 0x3B} = {}" for v
    using set_trim16 [of "map (\<lambda>u. if meta_unit u then 0x20 else u) v"]
    by (auto simp: meta_value_def meta_unit_def split: if_splits)
  then show "(\<Union>(k, v) \<in> set (snd (render_channel_event c md sock)). set v) \<inter> {0x3C, 0x3E, 0x5B, 0x5D, 0x0D, 0x0A, 0x3B} = {}"
    by (fastforce simp: render_channel_event_def channel_meta_def)
qed

section \<open>One cycle\<close>

definition wire_channel :: "claim \<Rightarrow> channel_claim" where
  "wire_channel c =
     \<lparr>cv_session = ascii (cl_session c), cv_lifecycle = cl_lifecycle c, cv_message = ascii (cl_message c),
       cv_events = map wire_event (cl_events c), cv_reminder = map_option ascii (cl_reminder c),
       cc_mode = cl_mode c, cc_urgency = cl_urgency c, cc_total = uc_total (cl_counts c), cc_normal_count = cl_normal_count c\<rparr>"

definition channel_fitter :: fitter where
  "channel_fitter =
     \<lparr>ft_pack = (\<lambda>high reminder. Inr (pack_channel_events (map wire_event high)
         (max_channel_content - reminder_footer_length reminder))),
       ft_fit = (\<lambda>cl md. let f = resolve_channel_claim_fit (map wire_event (cl_events cl)) md
           (max_channel_content - reminder_footer_length (cl_reminder cl)) in Inr (cf_fits f, cf_count f))\<rparr>"

definition reserve_sized_channel_delivery :: "'s daemon \<Rightarrow> ident \<Rightarrow> ('s, sized option) rpc" where
  "reserve_sized_channel_delivery D sid = reserve_sized D channel_fitter sid TurnInterruptible"

datatype channel_outcome = Idle | Surfaced | PushFailed | SurfacedUncommitted

type_synonym push = "text16 \<times> (string \<times> text16) list"

text \<open>The pushed events come back with the outcome; a failing release after a failed push is ignored.\<close>

definition run_channel_cycle :: "'s daemon \<Rightarrow> (push \<Rightarrow> bool) \<Rightarrow> ident \<Rightarrow> text16 option \<Rightarrow> 's \<Rightarrow>
    's \<times> push list \<times> (flow_error + channel_outcome)" where
  "run_channel_cycle D push_ok sid sock s =
     (case reserve_sized_channel_delivery D sid s of
        (s', Inl e) \<Rightarrow> (s', [], Inl e)
      | (s', Inr None) \<Rightarrow> (s', [], Inr Idle)
      | (s', Inr (Some z)) \<Rightarrow>
          let pushed = render_channel_event (wire_channel (sz_claim z)) (sz_more z) sock in
          if push_ok pushed then
            (case dm_commit D (sz_id z) s' of
               (s'', Inl e) \<Rightarrow> (s'', [pushed], Inl e)
             | (s'', Inr None) \<Rightarrow> (s'', [pushed], Inr SurfacedUncommitted)
             | (s'', Inr (Some _)) \<Rightarrow> (s'', [pushed], Inr Surfaced))
          else (fst (dm_release D (sz_id z) s'), [], Inr PushFailed))"

lemma channel_one_fits: "length (cl_events cl) = 1 \<Longrightarrow> ft_fit channel_fitter cl md = Inr (b, n) \<Longrightarrow> b"
proof -
  assume len: "length (cl_events cl) = 1" and f: "ft_fit channel_fitter cl md = Inr (b, n)"
  have "max 1 (channel_room (map wire_event (cl_events cl)) cap) = 1" for cap
    using channel_room_le [of "map wire_event (cl_events cl)" cap] len by simp
  with f len show b by (auto simp: channel_fitter_def resolve_channel_claim_fit_room Let_def split: if_splits)
qed

interpretation channel_sized: sized_delivery "runtime_daemon net bd" "world_sound net" "world_keeps net" channel_fitter
  by unfold_locales (rule channel_one_fits)

definition channel_complete :: "channel_claim \<Rightarrow> bool \<Rightarrow> text16" where
  "channel_complete c md = join channel_joiner (map channel_block (cv_events c)) @ (if md then channel_deferred_marker else [])"

definition channel_sole :: "channel_claim \<Rightarrow> bool \<Rightarrow> text16 option \<Rightarrow> text16" where
  "channel_sole c md sock =
     append_marker_within_cap (join channel_joiner (map channel_block (cv_events c))) max_channel_content
       (channel_truncated_marker (cv_session c) sock @ (if md then channel_deferred_marker else []))"

lemma accepted_channel_claim_shown:
  assumes fit: "ft_fit channel_fitter cl md = Inr (True, n)" and cl: "cl_events cl \<noteq> []" "cl_reminder cl = None"
  shows "channel_content (wire_channel cl) md sock = channel_complete (wire_channel cl) md \<or>
    (length (cl_events cl) = 1 \<and> channel_content (wire_channel cl) md sock = channel_sole (wire_channel cl) md sock)"
proof -
  let ?c = "wire_channel cl"
  obtain e es where e: "cl_events cl = e # es" using cl(1) by (cases "cl_events cl") auto
  then have ev: "cv_events ?c = wire_event e # map wire_event es" by (simp add: wire_channel_def)
  have footer: "channel_reminder_footer ?c sock = []" using cl(2) by (simp add: channel_reminder_footer_def wire_channel_def)
  let ?room = "channel_room (cv_events ?c) max_channel_content"
  let ?less = "channel_room (cv_events ?c) (max_channel_content - int (length channel_deferred_marker))"
  have fits: "(?room = length (cv_events ?c) \<and> \<not> md) \<or> max 1 ?less = length (cv_events ?c)"
    using fit cl by (auto simp: channel_fitter_def resolve_channel_claim_fit_room Let_def reminder_footer_length_def
        wire_channel_def split: if_splits)
  have le: "?less \<le> ?room" by (rule channel_room_mono) simp
  have more: "?room \<le> length (cv_events ?c)" by (rule channel_room_le)
  have len: "length (cv_events ?c) = length (cl_events cl)" by (simp add: wire_channel_def)
  have pos: "Suc 0 \<le> length (cv_events ?c)" using ev by simp
  have body: "channel_content ?c md sock =
      (if ?room = length (cv_events ?c) \<and> \<not> md then join channel_joiner (take ?room (map channel_block (cv_events ?c)))
       else if 1 \<le> ?less then join channel_joiner (take ?less (map channel_block (cv_events ?c))) @ channel_deferred_marker
       else append_marker_within_cap (channel_block (wire_event e)) max_channel_content
         (channel_truncated_marker (cv_session ?c) sock @ (if md then channel_deferred_marker else [])))"
    using ev by (simp add: channel_content_def channel_body_def resolve_channel_claim_fit_room Let_def footer)
  show ?thesis
  proof (cases "1 \<le> ?less \<or> (?room = length (cv_events ?c) \<and> \<not> md)")
    case True
    with fits le more have "?room = length (cv_events ?c) \<and> \<not> md \<or> md \<and> ?less = length (cv_events ?c)"
      by (auto simp: max_def split: if_splits)
    then show ?thesis unfolding body using pos by (auto simp: channel_complete_def)
  next
    case False
    with fits have "length (cl_events cl) = 1" unfolding len by (auto simp: max_def split: if_splits)
    with False e show ?thesis unfolding body by (auto simp: channel_sole_def wire_channel_def)
  qed
qed

definition push_shows :: "push \<Rightarrow> claim \<Rightarrow> bool \<Rightarrow> text16 option \<Rightarrow> bool" where
  "push_shows p cl md sock =
     (p = render_channel_event (wire_channel cl) md sock \<and>
      (cl_events cl = [] \<or> cl_reminder cl \<noteq> None \<or> fst p = channel_complete (wire_channel cl) md \<or>
       length (cl_events cl) = 1 \<and> fst p = channel_sole (wire_channel cl) md sock))"


lemma channel_one_event:
  "ft_pack channel_fitter [x] r = Inr 1"
  "length (cl_events cl) = 1 \<Longrightarrow> \<exists>n. ft_fit channel_fitter cl False = Inr (True, n)"
proof -
  have "channel_room [wire_event x] cap \<le> 1" for cap using channel_room_le [of "[wire_event x]" cap] by simp
  then have "max 1 (channel_room [wire_event x] cap) = 1" for cap by (simp add: max_def le_antisym)
  then show "ft_pack channel_fitter [x] r = Inr 1"
    by (simp add: channel_fitter_def pack_channel_events_def pack_events_under_cap_def Let_def channel_room_def channel_block_def)
  assume len: "length (cl_events cl) = 1"
  obtain b n where "ft_fit channel_fitter cl False = Inr (b, n)" by (simp add: channel_fitter_def Let_def)
  with channel_one_fits [OF len this] show "\<exists>n. ft_fit channel_fitter cl False = Inr (True, n)" by simp
qed


end
