(* ===== verification/AM_Diagnosis.thy ===== *)
theory AM_Diagnosis
  imports AM_TwoPhase
begin

text \<open>
  Why a hook delivered nothing, \<open>runtime/hook-delivery-diagnosis.ts\<close>,
  \<open>runtime/reminder-diagnosis.ts\<close> and \<open>diagnoseHookDelivery\<close> of \<open>runtime/service.ts\<close>: the reasons
  that hold a band of urgency back, read off the queries the decision itself reads, and that they
  say exactly what the decision does.
\<close>

section \<open>Reasons\<close>

datatype hold_reason = SettleWindow | NoNewWork | ReservedInFlight

record hold =
  hd_urgency :: urgency
  hd_reason :: hold_reason
  hd_unread :: nat
  hd_pending :: nat
  hd_leased :: "nat option"
  hd_remaining :: "ms option"
  hd_claimed :: "ident list option"

record diagnosis =
  dg_session :: ident
  dg_lifecycle :: lifecycle
  dg_unread :: unread_counts
  dg_holds :: "hold list"

definition classify_reminder_hold :: "urgency \<Rightarrow> nat \<Rightarrow> nat \<Rightarrow> ident list \<Rightarrow> nat \<Rightarrow> hold option" where
  "classify_reminder_hold u unread pending claimed leased_n =
     (if unread = 0 \<or> (0 < pending \<and> leased_n = 0) then None
      else if 0 < leased_n then
        Some \<lparr>hd_urgency = u, hd_reason = ReservedInFlight, hd_unread = unread, hd_pending = pending,
          hd_leased = Some leased_n, hd_remaining = None, hd_claimed = None\<rparr>
      else
        Some \<lparr>hd_urgency = u, hd_reason = NoNewWork, hd_unread = unread, hd_pending = pending,
          hd_leased = Some leased_n, hd_remaining = None, hd_claimed = Some claimed\<rparr>)"

definition classify_settle_window_hold :: "ms list \<Rightarrow> nat \<Rightarrow> ms \<Rightarrow> ms \<Rightarrow> hold option" where
  "classify_settle_window_hold created unread now settle =
     (if created = [] then None
      else
        let ages = map (\<lambda>c. now - c) created in
        if list_ex (\<lambda>age. settle \<le> age) ages then None
        else
          let remaining = max 0 (settle - Max (set ages)) in
          Some \<lparr>hd_urgency = High, hd_reason = SettleWindow, hd_unread = unread, hd_pending = length created,
            hd_leased = None, hd_remaining = Some remaining, hd_claimed = Some []\<rparr>)"

definition classify_coalescing_withheld_hold :: "nat \<Rightarrow> nat \<Rightarrow> nat \<Rightarrow> nat \<Rightarrow> nat \<Rightarrow> hold option" where
  "classify_coalescing_withheld_hold unread pending pending_high settled_n leased_n =
     (if \<not> (0 < pending \<and> leased_n = 0) then None
      else if pending_high = 0 \<or> 0 < settled_n then None
      else Some \<lparr>hd_urgency = Normal, hd_reason = SettleWindow, hd_unread = unread, hd_pending = pending,
        hd_leased = None, hd_remaining = None, hd_claimed = None\<rparr>)"

section \<open>The diagnosis\<close>

definition claimed_ids :: "event list \<Rightarrow> event list \<Rightarrow> ident list" where
  "claimed_ids unread pending = map e_id (filter (\<lambda>e. e_id e \<notin> e_id ` set pending) unread)"

definition normal_hold :: "store \<Rightarrow> registry \<Rightarrow> ms \<Rightarrow> ident \<Rightarrow> hold option" where
  "normal_hold st reg now s =
     (let pending_high = pending_for_claim st reg now s (Some High);
          unread = unread_events st s (Some Normal);
          pending = pending_for_claim st reg now s (Some Normal);
          leased_n = leased_pending_count st reg now s (Some Normal) in
      or_else
        (classify_coalescing_withheld_hold (length unread) (length pending) (length pending_high)
          (length (filter (\<lambda>e. high_settle_ms \<le> now - e_created e) pending_high)) leased_n)
        (classify_reminder_hold Normal (length unread) (length pending)
          (claimed_ids unread (pending_events st s (Some Normal))) leased_n))"

definition low_hold :: "store \<Rightarrow> registry \<Rightarrow> ms \<Rightarrow> ident \<Rightarrow> hold option" where
  "low_hold st reg now s =
     (let unread = unread_events st s (Some Low) in
      classify_reminder_hold Low (length unread) (length (pending_for_claim st reg now s (Some Low)))
        (claimed_ids unread (pending_events st s (Some Low))) (leased_pending_count st reg now s (Some Low)))"

definition high_hold :: "store \<Rightarrow> registry \<Rightarrow> ms \<Rightarrow> ident \<Rightarrow> hold option" where
  "high_hold st reg now s =
     classify_settle_window_hold (map e_created (pending_for_claim st reg now s (Some High)))
       (length (unread_events st s (Some High))) now high_settle_ms"

definition option_list :: "'a option \<Rightarrow> 'a list" where
  "option_list x = (case x of None \<Rightarrow> [] | Some a \<Rightarrow> [a])"

definition diagnose_hook_delivery :: "store \<Rightarrow> registry \<Rightarrow> ms \<Rightarrow> ident \<Rightarrow> lifecycle \<Rightarrow> diagnosis" where
  "diagnose_hook_delivery st reg now s l =
     \<lparr>dg_session = s, dg_lifecycle = l, dg_unread = session_unread_counts st s,
       dg_holds =
         (if l = TurnInterruptible then option_list (high_hold st reg now s) @ option_list (normal_hold st reg now s)
          else if l = TurnIdle then option_list (low_hold st reg now s)
          else [])\<rparr>"

section \<open>What a hold says of the decision\<close>

lemma or_else_None [simp]: "or_else x y = None \<longleftrightarrow> x = None \<and> y = None"
  by (cases x) (simp_all add: or_else_def)

lemma high_hold_iff:
  "high_hold st reg now s \<noteq> None \<longleftrightarrow>
     pending_for_claim st reg now s (Some High) \<noteq> [] \<and> settled_high st reg now s = []"
  by (auto simp: high_hold_def classify_settle_window_hold_def Let_def settled_high_def settled_def filter_empty_conv
      list_ex_iff)

lemma reminder_due_iff:
  "reminder_due st reg now s u \<longleftrightarrow>
     0 < length (pending_for_claim st reg now s (Some u)) \<and> leased_pending_count st reg now s (Some u) = 0"
  by (simp add: reminder_due_def)

lemma normal_hold_iff:
  "normal_hold st reg now s \<noteq> None \<longleftrightarrow>
     (unread_events st s (Some Normal) \<noteq> [] \<and> \<not> reminder_due st reg now s Normal) \<or>
     (reminder_due st reg now s Normal \<and> pending_for_claim st reg now s (Some High) \<noteq> [] \<and> settled_high st reg now s = [])"
  by (auto simp: normal_hold_def Let_def classify_coalescing_withheld_hold_def classify_reminder_hold_def reminder_due_iff
      settled_high_def settled_def filter_empty_conv)

lemma low_hold_iff:
  "low_hold st reg now s \<noteq> None \<longleftrightarrow> unread_events st s (Some Low) \<noteq> [] \<and> \<not> reminder_due st reg now s Low"
  by (auto simp: low_hold_def Let_def classify_reminder_hold_def reminder_due_iff)

lemma pending_for_claim_unread:
  "unread_events st s u = [] \<Longrightarrow> pending_for_claim st reg now s u = []"
  using pending_sub_unread [of _ st s u] by (auto simp: pending_for_claim_def filter_empty_conv)

text \<open>
  The diagnosis is the decision's own account. A hook that delivers nothing at a turn boundary
  while high events wait or normal events are unread, or nothing at idle while low events are
  unread, has a reason named for it; and where a reason is named and nothing settled is waiting,
  the decision delivers nothing.
\<close>

lemma diagnosis_explains_silence:
  "(dg_holds (diagnose_hook_delivery st reg now s TurnInterruptible) \<noteq> [] \<and> settled_high st reg now s = [] \<longleftrightarrow>
      decide_delivery st reg now s TurnInterruptible m = None \<and>
      (pending_for_claim st reg now s (Some High), unread_events st s (Some Normal)) \<noteq> ([], [])) \<and>
   (dg_holds (diagnose_hook_delivery st reg now s TurnIdle) \<noteq> [] \<longleftrightarrow>
      decide_delivery st reg now s TurnIdle m = None \<and> unread_events st s (Some Low) \<noteq> [])"
proof
  have idle: "decide_delivery st reg now s TurnIdle m = None \<longleftrightarrow> \<not> reminder_due st reg now s Low"
    by (simp add: decide_delivery_def)
  show "dg_holds (diagnose_hook_delivery st reg now s TurnIdle) \<noteq> [] \<longleftrightarrow>
      decide_delivery st reg now s TurnIdle m = None \<and> unread_events st s (Some Low) \<noteq> []"
    using low_hold_iff [of st reg now s] unfolding idle
    by (auto simp: diagnose_hook_delivery_def option_list_def split: option.splits)
  have holds: "dg_holds (diagnose_hook_delivery st reg now s TurnInterruptible) \<noteq> [] \<longleftrightarrow>
      high_hold st reg now s \<noteq> None \<or> normal_hold st reg now s \<noteq> None"
    by (auto simp: diagnose_hook_delivery_def option_list_def split: option.splits)
  show "dg_holds (diagnose_hook_delivery st reg now s TurnInterruptible) \<noteq> [] \<and> settled_high st reg now s = [] \<longleftrightarrow>
      decide_delivery st reg now s TurnInterruptible m = None \<and>
      (pending_for_claim st reg now s (Some High), unread_events st s (Some Normal)) \<noteq> ([], [])"
    unfolding holds high_hold_iff normal_hold_iff
    using pending_for_claim_unread [of st s "Some Normal" reg now]
    by (auto simp: decide_interruptible)
qed

lemma settled_later:
  "leased reg t s = leased reg now s \<Longrightarrow>
     settled_high st reg t s = filter (settled t) (pending_for_claim st reg now s (Some High))"
  by (simp add: settled_high_def pending_for_claim_def)

text \<open>
  The remaining time of a settle window is exact. As long as the leases stay as they are, the
  decision delivers nothing before that time has passed and delivers from then on.
\<close>

lemma settle_remaining_is_exact:
  assumes "high_hold st reg now s = Some h" and "hd_remaining h = Some r"
    and "now \<le> t" and "leased reg t s = leased reg now s"
  shows "decide_delivery st reg t s TurnInterruptible m = None \<longleftrightarrow> t < now + r"
proof -
  let ?high = "pending_for_claim st reg now s (Some High)"
  let ?ages = "(\<lambda>e. now - e_created e) ` set ?high"
  from assms(1) have ne: "?high \<noteq> []" and young: "\<forall>e \<in> set ?high. now - e_created e < high_settle_ms"
    and h: "hd_remaining h = Some (max 0 (high_settle_ms - Max ?ages))"
    by (auto simp: high_hold_def classify_settle_window_hold_def Let_def list_ex_iff image_image comp_def not_le split: if_splits)
  have max: "Max ?ages \<in> ?ages" using ne by (intro Max_in) auto
  then have "Max ?ages < high_settle_ms" using young by auto
  with h assms(2) have r: "r = high_settle_ms - Max ?ages" by simp
  have "filter (settled t) ?high \<noteq> [] \<longleftrightarrow> now + r \<le> t"
  proof
    assume "filter (settled t) ?high \<noteq> []"
    then obtain e where e: "e \<in> set ?high" "high_settle_ms \<le> t - e_created e" by (auto simp: filter_empty_conv settled_def)
    then have "now - e_created e \<le> Max ?ages" by (intro Max_ge) auto
    with e(2) r show "now + r \<le> t" by linarith
  next
    assume t: "now + r \<le> t"
    from max obtain e where "e \<in> set ?high" "Max ?ages = now - e_created e" by auto
    with t r have "e \<in> set (filter (settled t) ?high)" by (simp add: settled_def)
    then show "filter (settled t) ?high \<noteq> []" by (metis empty_iff empty_set)
  qed
  moreover have "pending_for_claim st reg t s (Some High) = ?high" using assms(4) by (simp add: pending_for_claim_def)
  ultimately show ?thesis using ne settled_later [OF assms(4), of st] by (auto simp: decide_interruptible)
qed

lemma settle_remaining_is_exact_witness:
  "\<exists>h r. high_hold demo_store (empty_registry None) 10000 ''K'' = Some h \<and> hd_remaining h = Some r \<and>
     decide_delivery demo_store (empty_registry None) 15999 ''K'' TurnInterruptible None = None \<and>
     decide_delivery demo_store (empty_registry None) 16000 ''K'' TurnInterruptible None \<noteq> None"
proof -
  let ?r = "empty_registry None"
  have "map_option hd_remaining (high_hold demo_store ?r 10000 ''K'') = Some (Some 6000)" by code_simp
  then obtain h where h: "high_hold demo_store ?r 10000 ''K'' = Some h" "hd_remaining h = Some 6000" by auto
  have "leased ?r t ''K'' = leased ?r 10000 ''K''" for t by (simp add: leased_def empty_registry_def)
  note exact = settle_remaining_is_exact [OF h _ this, of _ None]
  show ?thesis using h exact [of 15999] exact [of 16000] by auto
qed

text \<open>
  The events a hold names as claimed have been surfaced. What a suppressed reminder offers to
  acknowledge is exactly the unread events of the band already surfaced to this session, never one
  that is still to be delivered, leased ones included.
\<close>

lemma named_claims_are_surfaced:
  assumes "wf_store st"
  shows "set (claimed_ids (unread_events st s u) (pending_events st s u)) =
    {e_id e | e. e \<in> set (unread_events st s u) \<and>
       (\<exists>p \<in> set (projections st). unread_row s p \<and> p_event p = e_id e \<and> p_first_notified p \<noteq> None)}"
proof (intro set_eqI iffI)
  fix i
  assume "i \<in> set (claimed_ids (unread_events st s u) (pending_events st s u))"
  then obtain e where e: "e \<in> set (unread_events st s u)" "i = e_id e" "e_id e \<notin> e_id ` set (pending_events st s u)"
    by (auto simp: claimed_ids_def)
  then obtain p where p: "p \<in> set (projections st)" "unread_row s p" "p_event p = e_id e" by (auto simp: in_unread)
  have "p_first_notified p \<noteq> None"
  proof
    assume "p_first_notified p = None"
    with p(2) have "pending_row s p" by (simp add: pending_row_def unread_row_def)
    with e(1) p(1,3) have "e \<in> set (pending_events st s u)" by (auto simp: in_pending in_unread)
    with e(3) show False by simp
  qed
  with e p show "i \<in> {e_id e | e. e \<in> set (unread_events st s u) \<and>
       (\<exists>p \<in> set (projections st). unread_row s p \<and> p_event p = e_id e \<and> p_first_notified p \<noteq> None)}" by blast
next
  fix i
  assume "i \<in> {e_id e | e. e \<in> set (unread_events st s u) \<and>
       (\<exists>p \<in> set (projections st). unread_row s p \<and> p_event p = e_id e \<and> p_first_notified p \<noteq> None)}"
  then obtain e p where e: "e \<in> set (unread_events st s u)" "i = e_id e"
    and p: "p \<in> set (projections st)" "unread_row s p" "p_event p = e_id e" "p_first_notified p \<noteq> None" by blast
  have "e_id e \<notin> e_id ` set (pending_events st s u)"
  proof
    assume "e_id e \<in> e_id ` set (pending_events st s u)"
    then obtain q where q: "q \<in> set (projections st)" "pending_row s q" "p_event q = e_id e"
      by (auto simp: in_pending)
    have "p = q" using row_by_key [OF assms p(1) q(1)] p(2,3) q(2,3) by (simp add: pending_row_def unread_row_def)
    with p(4) q(2) show False by (simp add: pending_row_def)
  qed
  with e show "i \<in> set (claimed_ids (unread_events st s u) (pending_events st s u))" by (auto simp: claimed_ids_def)
qed

lemma named_claims_are_surfaced_witness:
  "set (claimed_ids (unread_events demo_store ''L'' (Some High)) (pending_events demo_store ''L'' (Some High))) =
    {e_id e | e. e \<in> set (unread_events demo_store ''L'' (Some High)) \<and>
       (\<exists>p \<in> set (projections demo_store). unread_row ''L'' p \<and> p_event p = e_id e \<and> p_first_notified p \<noteq> None)}"
  by (rule named_claims_are_surfaced [OF demo_wf])

end
