(* ===== verification/AM_Outbox.thy ===== *)
theory AM_Outbox
  imports AM_Store
begin

text \<open>
  The outbox of failed materializations, \<open>runtime/store.ts\<close> (\<open>enqueueMaterializationRetries\<close> and
  its queries) with \<open>runtime/retry-envelope.ts\<close>: a batch is written whole or not at all, under a
  bound on the records and the bytes of each route. The JSON text of an envelope is an argument.
\<close>

section \<open>Records\<close>

datatype retry_status = RPending | RTerminal

record retry =
  y_id :: ident
  y_ws :: "string option"
  y_monitor :: ident
  y_source :: string
  y_envelope :: string
  y_bytes :: int
  y_attempts :: nat
  y_status :: retry_status
  y_next :: "ms option"
  y_error :: string
  y_created :: ms
  y_updated :: ms

record retry_input =
  yi_ws :: "string option"
  yi_monitor :: ident
  yi_source :: string
  yi_envelope :: envelope
  yi_error :: string

record retry_query =
  yq_ws :: "string option option"
  yq_monitor :: "ident option"
  yq_status :: "retry_status option"
  yq_limit :: "int option"

datatype outbox_error =
    Unserializable string
  | MonitorMismatch
  | SourceMismatch
  | CapacityExhausted ident
  | RetryNotFound ident

definition retry_max_records :: int where
  "retry_max_records = 256"

definition retry_max_bytes :: int where
  "retry_max_bytes = 8 * 1024 * 1024"

definition retry_delays_ms :: "ms list" where
  "retry_delays_ms = [1000, 5000, 30000, 120000, 300000]"

definition utf8_length :: "string \<Rightarrow> int" where
  "utf8_length s = sum_list (map (\<lambda>c. if (of_char c :: nat) < 0x80 then 1 else 2) s)"

definition retry_control :: "char \<Rightarrow> bool" where
  "retry_control c = (let n = (of_char c :: nat) in n \<le> 0x1F \<or> (0x7F \<le> n \<and> n \<le> 0x9F))"

definition safe_retry_error :: "string \<Rightarrow> string" where
  "safe_retry_error s = take 1024 (map (\<lambda>c. if retry_control c then CHR '' '' else c) s)"

section \<open>Enqueueing\<close>

definition retry_route :: "'a retry_scheme \<Rightarrow> string option \<times> ident" where
  "retry_route r = (y_ws r, y_monitor r)"

type_synonym serializer = "envelope \<Rightarrow> string + string"

definition prepare_retry :: "serializer \<Rightarrow> ms \<Rightarrow> ident \<Rightarrow> retry_input \<Rightarrow> outbox_error + retry" where
  "prepare_retry ser now i inp =
     (case ser (yi_envelope inp) of
        Inl path \<Rightarrow> Inl (Unserializable path)
      | Inr text \<Rightarrow>
          if m_id (v_monitor (yi_envelope inp)) \<noteq> yi_monitor inp then Inl MonitorMismatch
          else if m_type (v_monitor (yi_envelope inp)) \<noteq> yi_source inp then Inl SourceMismatch
          else Inr \<lparr>y_id = i, y_ws = yi_ws inp, y_monitor = yi_monitor inp, y_source = yi_source inp,
            y_envelope = text, y_bytes = utf8_length text, y_attempts = 0, y_status = RPending,
            y_next = Some (db_time (now + retry_delays_ms ! 0)), y_error = safe_retry_error (yi_error inp),
            y_created = db_time now, y_updated = db_time now\<rparr>)"

fun prepare_retries :: "serializer \<Rightarrow> ms \<Rightarrow> ident list \<Rightarrow> retry_input list \<Rightarrow> outbox_error + retry list" where
  "prepare_retries ser now ids [] = Inr []"
| "prepare_retries ser now ids (inp # inps) =
     (case prepare_retry ser now (hd ids) inp of
        Inl e \<Rightarrow> Inl e
      | Inr r \<Rightarrow>
          (case prepare_retries ser now (tl ids) inps of Inl e \<Rightarrow> Inl e | Inr rs \<Rightarrow> Inr (r # rs)))"

definition route_usage :: "retry list \<Rightarrow> string option \<times> ident \<Rightarrow> int \<times> int" where
  "route_usage box k = (let rs = filter (\<lambda>r. retry_route r = k) box in (int (length rs), sum_list (map y_bytes rs)))"

definition over_capacity :: "retry list \<Rightarrow> retry list \<Rightarrow> string option \<times> ident \<Rightarrow> bool" where
  "over_capacity box new k =
     (retry_max_records < fst (route_usage box k) + fst (route_usage new k) \<or>
      retry_max_bytes < snd (route_usage box k) + snd (route_usage new k))"

text \<open>The drawn identifiers are new, so the records read back after the writes are the written ones.\<close>

definition enqueue_retries :: "serializer \<Rightarrow> retry list \<Rightarrow> ms \<Rightarrow> ident list \<Rightarrow> retry_input list \<Rightarrow>
    retry list \<times> (outbox_error + retry list)" where
  "enqueue_retries ser box now ids inps =
     (if inps = [] then (box, Inr [])
      else case prepare_retries ser now ids inps of
        Inl e \<Rightarrow> (box, Inl e)
      | Inr new \<Rightarrow>
          (case find (over_capacity box new) (rev (remdups (rev (map retry_route new)))) of
             Some k \<Rightarrow> (box, Inl (CapacityExhausted (snd k)))
           | None \<Rightarrow> (box @ new, Inr new)))"

definition get_retry :: "retry list \<Rightarrow> ident \<Rightarrow> outbox_error + retry" where
  "get_retry box i = (case find (\<lambda>r. y_id r = i) box of None \<Rightarrow> Inl (RetryNotFound i) | Some r \<Rightarrow> Inr r)"

definition retry_matches :: "retry_query \<Rightarrow> retry \<Rightarrow> bool" where
  "retry_matches q r =
     ((case yq_monitor q of None \<Rightarrow> True | Some m \<Rightarrow> m = [] \<or> y_monitor r = m) \<and>
      (case yq_ws q of None \<Rightarrow> True | Some w \<Rightarrow> y_ws r = w) \<and>
      (case yq_status q of None \<Rightarrow> True | Some s \<Rightarrow> y_status r = s))"

definition sql_limit :: "int \<Rightarrow> 'a list \<Rightarrow> 'a list" where
  "sql_limit n rows = (if n < 0 then rows else take (nat n) rows)"

definition list_retries :: "retry list \<Rightarrow> retry_query \<Rightarrow> retry list" where
  "list_retries box q =
     sql_limit (default (yq_limit q) retry_max_records)
       (ordered_by (\<lambda>r. (y_created r, y_id r)) (filter (retry_matches q) box))"

section \<open>The bound\<close>

definition outbox_bounded :: "retry list \<Rightarrow> bool" where
  "outbox_bounded box = (\<forall>k. fst (route_usage box k) \<le> retry_max_records \<and> snd (route_usage box k) \<le> retry_max_bytes)"

lemma route_usage_append: "route_usage (a @ b) k = (fst (route_usage a k) + fst (route_usage b k), snd (route_usage a k) + snd (route_usage b k))"
  by (simp add: route_usage_def Let_def)

lemma route_usage_absent: "k \<notin> set (map retry_route rs) \<Longrightarrow> route_usage rs k = (0, 0)"
  by (induction rs) (auto simp: route_usage_def Let_def)

lemma prepare_retries_length: "prepare_retries ser now ids inps = Inr new \<Longrightarrow> map y_monitor new = map yi_monitor inps \<and>
    list_all (\<lambda>r. y_status r = RPending \<and> y_attempts r = 0 \<and> y_next r = Some (db_time (now + 1000)) \<and> y_created r = db_time now \<and>
      length (y_error r) \<le> 1024) new"
  by (induction ser now ids inps arbitrary: new rule: prepare_retries.induct)
    (auto simp: prepare_retry_def safe_retry_error_def retry_delays_ms_def split: sum.splits if_splits)

inductive outbox_reachable :: "retry list \<Rightarrow> bool" where
  Empty: "outbox_reachable []"
| Enqueue: "outbox_reachable box \<Longrightarrow> outbox_reachable (fst (enqueue_retries ser box now ids inps))"

lemma enqueue_bounded:
  assumes "outbox_bounded box"
  shows "outbox_bounded (fst (enqueue_retries ser box now ids inps))"
proof (cases "inps = [] \<or> (\<exists>e. prepare_retries ser now ids inps = Inl e)")
  case True
  with assms show ?thesis by (auto simp: enqueue_retries_def)
next
  case False
  then obtain new where new: "prepare_retries ser now ids inps = Inr new" "inps \<noteq> []"
    by (cases "prepare_retries ser now ids inps") auto
  show ?thesis
  proof (cases "find (over_capacity box new) (rev (remdups (rev (map retry_route new))))")
    case None
    then have fits: "\<not> over_capacity box new k" if "k \<in> set (map retry_route new)" for k
      using that by (auto simp: find_None_iff)
    have "outbox_bounded (box @ new)"
      unfolding outbox_bounded_def
    proof
      fix k
      show "fst (route_usage (box @ new) k) \<le> retry_max_records \<and> snd (route_usage (box @ new) k) \<le> retry_max_bytes"
        using fits [of k] assms [unfolded outbox_bounded_def, rule_format, of k] route_usage_absent [of k new]
        by (cases "k \<in> set (map retry_route new)") (simp_all add: over_capacity_def route_usage_append)
    qed
    with None new show ?thesis by (simp add: enqueue_retries_def)
  qed (use assms new in \<open>simp add: enqueue_retries_def\<close>)
qed

text \<open>
  The outbox stays within its bounds and a batch is atomic. In every reachable outbox no route
  holds more than 256 records or 8 MiB; a batch that is refused, for whichever of its inputs,
  leaves the outbox as it was, and one that is accepted appends one pending record per input in
  order, due after the first delay.
\<close>

lemma outbox_stays_within_bounds:
  assumes "outbox_reachable box"
  shows "outbox_bounded box \<and>
    (case enqueue_retries ser box now ids inps of
       (box', Inl e) \<Rightarrow> box' = box
     | (box', Inr new) \<Rightarrow> box' = box @ new \<and> map y_monitor new = map yi_monitor inps \<and>
         list_all (\<lambda>r. y_status r = RPending \<and> y_next r = Some (db_time (now + 1000)) \<and> length (y_error r) \<le> 1024) new)"
proof
  from assms show "outbox_bounded box"
  proof induction
    case Empty
    show ?case by (simp add: outbox_bounded_def route_usage_def retry_max_records_def retry_max_bytes_def)
  qed (rule enqueue_bounded)
  show "case enqueue_retries ser box now ids inps of
       (box', Inl e) \<Rightarrow> box' = box
     | (box', Inr new) \<Rightarrow> box' = box @ new \<and> map y_monitor new = map yi_monitor inps \<and>
         list_all (\<lambda>r. y_status r = RPending \<and> y_next r = Some (db_time (now + 1000)) \<and> length (y_error r) \<le> 1024) new"
    using prepare_retries_length [of ser now ids inps]
    by (auto simp: enqueue_retries_def list_all_iff split: sum.splits option.splits)
qed

definition demo_retry :: "ident \<Rightarrow> retry_input" where
  "demo_retry m = \<lparr>yi_ws = Some ''W'', yi_monitor = m, yi_source = ''file'',
     yi_envelope = \<lparr>v_monitor = \<lparr>m_id = ''m'', m_display = ''m'', m_name = None, m_type = ''file'', m_config = [],
         m_urgency = Normal, m_urgency_max = None, m_notify = None, m_baseline = Incremental, m_tags = None, m_shape = None,
         m_payload = None, m_instructions = [], m_file = ''f''\<rparr>,
       v_observation = \<lparr>o_title = ''t'', o_body = None, o_summary = None, o_payload = None, o_snapshot_text = None,
         o_object_key = None, o_scope = None, o_change = None, o_salience = None, o_snapshot = None\<rparr>,
       v_observed_at = 0, v_urgency = None\<rparr>, yi_error = ''boom''\<rparr>"

lemma outbox_stays_within_bounds_witness:
  "\<exists>box new. enqueue_retries (\<lambda>_. Inr ''{}'') [] 5000 [''1'', ''2''] [demo_retry ''m'', demo_retry ''m''] = (box, Inr new) \<and>
     length new = 2 \<and> outbox_bounded box \<and>
     enqueue_retries (\<lambda>_. Inr ''{}'') box 6000 [''3''] [demo_retry ''other''] = (box, Inl MonitorMismatch)"
proof -
  let ?ser = "\<lambda>_. Inr ''{}''"
  have two: "list_all (\<lambda>r. r) (case snd (enqueue_retries ?ser [] 5000 [''1'', ''2''] [demo_retry ''m'', demo_retry ''m'']) of
      Inr new \<Rightarrow> [length new = 2] | Inl _ \<Rightarrow> [False])" by code_simp
  then obtain box new where r: "enqueue_retries ?ser [] 5000 [''1'', ''2''] [demo_retry ''m'', demo_retry ''m''] = (box, Inr new)" "length new = 2"
    by (cases "enqueue_retries ?ser [] 5000 [''1'', ''2''] [demo_retry ''m'', demo_retry ''m'']") (auto split: sum.splits)
  have reach: "outbox_reachable box" using outbox_reachable.Enqueue [OF outbox_reachable.Empty] r by (metis fst_conv)
  have "enqueue_retries ?ser box 6000 [''3''] [demo_retry ''other''] = (box, Inl MonitorMismatch)"
    by (simp add: enqueue_retries_def prepare_retry_def demo_retry_def)
  with outbox_stays_within_bounds [OF reach, where ser = ?ser and now = 6000] r show ?thesis by auto
qed

end
