(* ===== verification/AM_Path.thy ===== *)
theory AM_Path
  imports AM_Text
begin

text \<open>
  The operations of Node's \<open>path\<close> module the code uses, on a POSIX system: \<open>isAbsolute\<close>,
  \<open>resolve\<close> of a base and a relative path, and \<open>join\<close>. The lemmas say that a resolved path is
  absolute and has no segment that is empty, \<open>.\<close> or \<open>..\<close>.
\<close>

definition slash :: char where
  "slash = CHR 0x2F"

definition is_absolute :: "string \<Rightarrow> bool" where
  "is_absolute p = (p \<noteq> [] \<and> hd p = slash)"

text \<open>\<open>normalizeString\<close>: the stack holds the kept segments, the last one first.\<close>

definition push_segment :: "bool \<Rightarrow> string list \<Rightarrow> string \<Rightarrow> string list" where
  "push_segment deep stack seg =
     (if seg = [] \<or> seg = ''.'' then stack
      else if seg \<noteq> ''..'' then seg # stack
      else (case stack of
          [] \<Rightarrow> if deep then [seg] else []
        | t # ts \<Rightarrow> if t \<noteq> ''..'' then ts else if deep then seg # stack else stack))"

definition normal_segments :: "bool \<Rightarrow> string \<Rightarrow> string list" where
  "normal_segments deep p = rev (foldl (push_segment deep) [] (split_on slash p))"

text \<open>\<open>resolve(base, p)\<close> in a process whose working directory is \<open>here\<close>.\<close>

definition path_resolve :: "string \<Rightarrow> string \<Rightarrow> string \<Rightarrow> string" where
  "path_resolve here base p =
     slash # join [slash] (normal_segments False
       (if is_absolute p then p
        else if is_absolute base then base @ slash # p
        else here @ slash # base @ slash # p))"

text \<open>\<open>join(\<dots>)\<close>: the non-empty parts with slashes, normalized; a trailing slash is kept.\<close>

definition path_normalize :: "string \<Rightarrow> string" where
  "path_normalize p =
     (if p = [] then ''.''
      else (let body = join [slash] (normal_segments (\<not> is_absolute p) p);
                trailing = (last p = slash) in
        if is_absolute p then slash # body @ (if body \<noteq> [] \<and> trailing then [slash] else [])
        else if body = [] then (if trailing then ''./'' else ''.'')
        else body @ (if trailing then [slash] else [])))"

definition path_join :: "string list \<Rightarrow> string" where
  "path_join ps = (let parts = filter (\<lambda>p. p \<noteq> []) ps in
     if parts = [] then ''.'' else path_normalize (join [slash] parts))"

section \<open>Resolved paths\<close>

definition plain_segment :: "string \<Rightarrow> bool" where
  "plain_segment seg = (seg \<noteq> [] \<and> seg \<noteq> ''.'' \<and> seg \<noteq> ''..'' \<and> slash \<notin> set seg)"

lemma push_segment_plain:
  assumes "list_all plain_segment stack" "slash \<notin> set seg"
  shows "list_all plain_segment (push_segment False stack seg)"
proof (cases stack)
  case Nil
  with assms(2) show ?thesis by (auto simp: push_segment_def plain_segment_def)
next
  case (Cons t ts)
  with assms have "plain_segment t" "list_all plain_segment ts" by simp_all
  then have "t \<noteq> ''..''" by (simp add: plain_segment_def)
  with assms Cons \<open>list_all plain_segment ts\<close> show ?thesis
    by (cases "seg = [] \<or> seg = ''.''"; cases "seg = ''..''")
      (simp_all add: push_segment_def plain_segment_def [of seg])
qed

lemma fold_segments_plain:
  "list_all plain_segment stack \<Longrightarrow> list_all (\<lambda>seg. slash \<notin> set seg) segs \<Longrightarrow>
     list_all plain_segment (foldl (push_segment False) stack segs)"
  by (induction segs arbitrary: stack) (simp_all add: push_segment_plain)

lemma normal_segments_plain: "list_all plain_segment (normal_segments False p)"
  unfolding normal_segments_def list_all_rev
  by (rule fold_segments_plain) (auto simp: list_all_iff dest: split_on_no_sep)

lemma path_resolve_absolute [simp]: "is_absolute (path_resolve here base p)"
  by (simp add: path_resolve_def is_absolute_def)

text \<open>Plain segments are kept, so a resolved path resolves to itself.\<close>

lemma fold_segments_id:
  "list_all plain_segment segs \<Longrightarrow> foldl (push_segment deep) stack segs = rev segs @ stack"
  by (induction segs arbitrary: stack) (auto simp: plain_segment_def push_segment_def)

lemma normal_segments_slash:
  "list_all plain_segment segs \<Longrightarrow> normal_segments deep (slash # join [slash] segs) = segs"
proof (cases segs)
  case (Cons s ss)
  assume p: "list_all plain_segment segs"
  then have "split_on slash (join [slash] segs) = segs"
    using Cons by (intro split_on_join) (auto simp: list_all_iff plain_segment_def)
  with p show ?thesis
    by (simp add: normal_segments_def push_segment_def [of deep "[]" "[]"] fold_segments_id)
qed (simp add: normal_segments_def push_segment_def)

lemma path_resolve_idem: "path_resolve here' base' (path_resolve here base p) = path_resolve here base p"
  using normal_segments_slash [OF normal_segments_plain]
  by (simp add: path_resolve_def [of here' base'])
    (simp add: path_resolve_def)

end
