(* ===== verification/AM_FileSource.thy ===== *)
theory AM_FileSource
  imports AM_Path AM_Tick AM_KeyedCollection
begin

text \<open>
  The file source, \<open>plugins/source-file-fingerprint/src/index.ts\<close>: its configuration, the
  collection of the matched files and their digests, and one observation. The file system is
  not still while it is read: every call of \<open>glob\<close>, \<open>stat\<close> and \<open>readFile\<close> happens at an instant
  of its own and \<open>fx_files\<close> tells what the disk answers then. The matcher (\<open>globSync\<close>), the digest
  and the decoding of UTF-8 are arguments.

  The property is that what is reported is exactly the difference of two fingerprint tables,
  whatever the disk does between the calls, and that a deletion is reported only for a path the
  disk denied.
\<close>

section \<open>The disk\<close>

record disk =
  dk_stat :: "string \<Rightarrow> string + bool"
  dk_read :: "string \<Rightarrow> string + string"

record file_env =
  fx_glob :: "nat \<Rightarrow> string option \<Rightarrow> string \<Rightarrow> string list"
  fx_files :: "nat \<Rightarrow> disk"
  fx_digest :: "string \<Rightarrow> string"
  fx_decode :: "string \<Rightarrow> string"
  fx_here :: string

datatype file_error =
    GlobsRequired
  | GlobsNotStrings
  | GlobsEmpty
  | IgnoreNotStrings
  | IgnoreEmpty
  | IoFailed string string

fun file_error_text :: "file_error \<Rightarrow> string" where
  "file_error_text GlobsRequired = ''scope.globs is required''"
| "file_error_text GlobsNotStrings = ''scope.globs must be a string or an array of strings''"
| "file_error_text GlobsEmpty = ''scope.globs must not contain empty patterns''"
| "file_error_text IgnoreNotStrings = ''scope.ignore must be a string or an array of strings''"
| "file_error_text IgnoreEmpty = ''scope.ignore must not contain empty patterns''"
| "file_error_text (IoFailed code p) = code @ '': '' @ p"

section \<open>Configuration\<close>

record file_scope =
  fc_globs :: "string list"
  fc_ignore :: "string list"
  fc_cwd :: "string option"

definition one_or_many :: "json \<Rightarrow> string list option" where
  "one_or_many v = (case v of JStr s \<Rightarrow> Some [s] | JArr vs \<Rightarrow> all_strings vs | _ \<Rightarrow> None)"

definition blank_pattern :: "string \<Rightarrow> bool" where
  "blank_pattern g = (trim g = [])"

definition parse_file_ignore :: "json option \<Rightarrow> file_error + string list" where
  "parse_file_ignore raw =
     (case raw of
        None \<Rightarrow> Inr []
      | Some v \<Rightarrow>
          (case one_or_many v of
             None \<Rightarrow> Inl IgnoreNotStrings
           | Some gs \<Rightarrow> if list_ex blank_pattern gs then Inl IgnoreEmpty else Inr gs))"

definition string_field :: "(string \<times> json) list \<Rightarrow> string \<Rightarrow> string option" where
  "string_field kvs k = (case map_of kvs k of Some (JStr s) \<Rightarrow> Some s | _ \<Rightarrow> None)"

definition parse_file_scope :: "(string \<times> json) list \<Rightarrow> file_error + file_scope" where
  "parse_file_scope config =
     (case map_of config ''globs'' of
        None \<Rightarrow> Inl GlobsRequired
      | Some raw \<Rightarrow>
          (case one_or_many raw of
             None \<Rightarrow> Inl GlobsNotStrings
           | Some globs \<Rightarrow>
               if globs = [] \<or> list_ex blank_pattern globs then Inl GlobsEmpty
               else (case parse_file_ignore (map_of config ''ignore'') of
                   Inl e \<Rightarrow> Inl e
                 | Inr ignore \<Rightarrow>
                     Inr \<lparr>fc_globs = globs, fc_ignore = ignore, fc_cwd = string_field config ''cwd''\<rparr>)))"

definition resolve_glob_cwd :: "string \<Rightarrow> string option \<Rightarrow> string option \<Rightarrow> string option" where
  "resolve_glob_cwd here cwd workspace =
     (case cwd of
        None \<Rightarrow> workspace
      | Some c \<Rightarrow>
          if is_absolute c then Some c
          else (case workspace of None \<Rightarrow> Some c | Some w \<Rightarrow> Some (path_resolve here w c)))"

section \<open>Reading the disk\<close>

definition is_not_found_error :: "string \<Rightarrow> bool" where
  "is_not_found_error code = (code = ''ENOENT'' \<or> code = ''ENOTDIR'')"

definition file_exists :: "disk \<Rightarrow> string \<Rightarrow> file_error + bool" where
  "file_exists d p =
     (case dk_stat d p of
        Inr _ \<Rightarrow> Inr True
      | Inl code \<Rightarrow> if is_not_found_error code then Inr False else Inl (IoFailed code p))"

definition is_directory :: "disk \<Rightarrow> string \<Rightarrow> file_error + bool" where
  "is_directory d p =
     (case dk_stat d p of
        Inr dir \<Rightarrow> Inr dir
      | Inl code \<Rightarrow> if is_not_found_error code then Inr False else Inl (IoFailed code p))"

definition read_file :: "disk \<Rightarrow> string \<Rightarrow> file_error + string" where
  "read_file d p = (case dk_read d p of Inr bytes \<Rightarrow> Inr bytes | Inl code \<Rightarrow> Inl (IoFailed code p))"

definition hash_file :: "file_env \<Rightarrow> nat \<Rightarrow> string \<Rightarrow> file_error + string" where
  "hash_file env t p =
     (case read_file (fx_files env t) p of Inl e \<Rightarrow> Inl e | Inr bytes \<Rightarrow> Inr (fx_digest env bytes))"

definition expand_glob :: "file_env \<Rightarrow> nat \<Rightarrow> string \<Rightarrow> string option \<Rightarrow> string list" where
  "expand_glob env t pattern cwd = fx_glob env t (if is_absolute pattern then None else cwd) pattern"

section \<open>Observations\<close>

fun change_title :: "change_kind \<Rightarrow> string" where
  "change_title Created = ''File created''"
| "change_title Modified = ''File changed''"
| "change_title Deleted = ''File deleted''"
| "change_title Descoped = ''File no longer matched by globs''"

definition file_observation :: "string \<Rightarrow> change_kind \<Rightarrow> json \<Rightarrow> observation" where
  "file_observation p kind hashes =
     (let summary = change_title kind @ '': '' @ p in
      \<lparr>o_title = summary, o_body = None, o_summary = Some summary, o_payload = Some hashes,
        o_snapshot_text = None, o_object_key = Some p, o_scope = Some [(''filePath'', SOne p)],
        o_change = Some kind, o_salience = None, o_snapshot = Some hashes\<rparr>)"

definition build_present_observation :: "file_env \<Rightarrow> nat \<Rightarrow> string \<Rightarrow> change_kind \<Rightarrow> string \<Rightarrow> json option \<Rightarrow>
    file_error + observation" where
  "build_present_observation env t p kind current previous =
     (case read_file (fx_files env t) p of
        Inl e \<Rightarrow> Inl e
      | Inr content \<Rightarrow>
          (let hashes = (case previous of
               None \<Rightarrow> JObj [(''filePath'', JStr p), (''currentHash'', JStr current)]
             | Some h \<Rightarrow> JObj [(''filePath'', JStr p), (''previousHash'', h), (''currentHash'', JStr current)]);
               obs = file_observation p kind hashes in
           Inr (if CHR 0x00 \<in> set content then obs
                else obs\<lparr>o_snapshot_text := Some (fx_decode env content)\<rparr>)))"

definition build_absent_observation :: "string \<Rightarrow> change_kind \<Rightarrow> json \<Rightarrow> observation" where
  "build_absent_observation p kind previous =
     (let obs = file_observation p kind (JObj [(''filePath'', JStr p), (''previousHash'', previous)]) in
      if kind = Deleted then obs\<lparr>o_salience := Some High\<rparr> else obs)"

section \<open>One observation\<close>

text \<open>
  The two loops over the patterns. Each threads the instant; \<open>hash_matches\<close> is the inner loop over
  the files of one pattern, and the accumulator is the code's \<open>Map\<close> in insertion order.
\<close>

fun ignored_files :: "file_env \<Rightarrow> string option \<Rightarrow> string list \<Rightarrow> nat \<Rightarrow> string list \<times> nat" where
  "ignored_files env cwd [] t = ([], t)"
| "ignored_files env cwd (g # gs) t =
     (let (fs, t') = ignored_files env cwd gs (Suc t) in (expand_glob env t g cwd @ fs, t'))"

type_synonym hashes = "(string \<times> string) list"

fun hash_matches :: "file_env \<Rightarrow> string list \<Rightarrow> string list \<Rightarrow> hashes \<times> nat \<Rightarrow> file_error + hashes \<times> nat" where
  "hash_matches env ignored [] (acc, t) = Inr (acc, t)"
| "hash_matches env ignored (p # ps) (acc, t) =
     (if p \<in> set ignored \<or> p \<in> fst ` set acc then hash_matches env ignored ps (acc, t)
      else (case is_directory (fx_files env t) p of
          Inl e \<Rightarrow> Inl e
        | Inr True \<Rightarrow> hash_matches env ignored ps (acc, Suc t)
        | Inr False \<Rightarrow>
            (case hash_file env (Suc t) p of
               Inl e \<Rightarrow> Inl e
             | Inr h \<Rightarrow> hash_matches env ignored ps (acc @ [(p, h)], Suc (Suc t)))))"

fun current_hashes :: "file_env \<Rightarrow> string option \<Rightarrow> string list \<Rightarrow> string list \<Rightarrow> hashes \<times> nat \<Rightarrow>
    file_error + hashes \<times> nat" where
  "current_hashes env cwd ignored [] acc = Inr acc"
| "current_hashes env cwd ignored (g # gs) (acc, t) =
     (case hash_matches env ignored (expand_glob env t g cwd) (acc, Suc t) of
        Inl e \<Rightarrow> Inl e
      | Inr acc' \<Rightarrow> current_hashes env cwd ignored gs acc')"

fun present_observations :: "file_env \<Rightarrow> (string \<times> json) list \<Rightarrow> hashes \<Rightarrow> nat \<Rightarrow>
    file_error + observation list \<times> nat" where
  "present_observations env previous [] t = Inr ([], t)"
| "present_observations env previous ((p, h) # cur) t =
     (case map_of previous p of
        None \<Rightarrow>
          (case build_present_observation env t p Created h None of
             Inl e \<Rightarrow> Inl e
           | Inr ob \<Rightarrow>
               (case present_observations env previous cur (Suc t) of
                  Inl e \<Rightarrow> Inl e | Inr (obs, t') \<Rightarrow> Inr (ob # obs, t')))
      | Some old \<Rightarrow>
          if old = JStr h then present_observations env previous cur t
          else (case build_present_observation env t p Modified h (Some old) of
             Inl e \<Rightarrow> Inl e
           | Inr ob \<Rightarrow>
               (case present_observations env previous cur (Suc t) of
                  Inl e \<Rightarrow> Inl e | Inr (obs, t') \<Rightarrow> Inr (ob # obs, t'))))"

fun absent_observations :: "file_env \<Rightarrow> hashes \<Rightarrow> (string \<times> json) list \<Rightarrow> nat \<Rightarrow> file_error + observation list" where
  "absent_observations env cur [] t = Inr []"
| "absent_observations env cur ((p, old) # previous) t =
     (if p \<in> fst ` set cur then absent_observations env cur previous t
      else (case file_exists (fx_files env t) p of
          Inl e \<Rightarrow> Inl e
        | Inr exists \<Rightarrow>
            (case absent_observations env cur previous (Suc t) of
               Inl e \<Rightarrow> Inl e
             | Inr obs \<Rightarrow>
                 Inr (build_absent_observation p (if exists then Descoped else Deleted) old # obs))))"

definition next_fingerprints :: "hashes \<Rightarrow> (string \<times> json) list" where
  "next_fingerprints cur = obj_of (map (\<lambda>(p, h). (p, JStr h)) cur)"

definition fingerprint_state :: "(string \<times> json) list \<Rightarrow> json" where
  "fingerprint_state fps = JObj [(''fingerprints'', JObj fps)]"

definition previous_fingerprints :: "json option \<Rightarrow> (string \<times> json) list option" where
  "previous_fingerprints state =
     (case state of
        Some (JObj kvs) \<Rightarrow> (case map_of kvs ''fingerprints'' of Some (JObj fps) \<Rightarrow> Some fps | _ \<Rightarrow> None)
      | _ \<Rightarrow> None)"

definition file_result :: "hashes \<Rightarrow> observation list \<Rightarrow> observed" where
  "file_result cur obs =
     \<lparr>ob_observations = obs, ob_next = Some (fingerprint_state (next_fingerprints cur)),
       ob_outcome = (if cur = [] \<and> obs = [] then Some NoFilesMatched else None)\<rparr>"

definition collect_hashes :: "file_env \<Rightarrow> file_scope \<Rightarrow> string option \<Rightarrow> file_error + hashes \<times> nat" where
  "collect_hashes env scope workspace =
     (let cwd = resolve_glob_cwd (fx_here env) (fc_cwd scope) workspace;
          (ignored, t) = ignored_files env cwd (fc_ignore scope) 0 in
      current_hashes env cwd ignored (fc_globs scope) ([], t))"

definition file_observe :: "file_env \<Rightarrow> (string \<times> json) list \<Rightarrow> json option \<Rightarrow> string option \<Rightarrow>
    file_error + observed" where
  "file_observe env config state workspace =
     (case parse_file_scope config of
        Inl e \<Rightarrow> Inl e
      | Inr scope \<Rightarrow>
          (case collect_hashes env scope workspace of
             Inl e \<Rightarrow> Inl e
           | Inr (cur, t) \<Rightarrow>
               (case previous_fingerprints state of
                  None \<Rightarrow> Inr (file_result cur [])
                | Some previous \<Rightarrow>
                    (case present_observations env previous cur t of
                       Inl e \<Rightarrow> Inl e
                     | Inr (present, t') \<Rightarrow>
                         (case absent_observations env cur previous t' of
                            Inl e \<Rightarrow> Inl e
                          | Inr absent \<Rightarrow> Inr (file_result cur (present @ absent)))))))"

section \<open>What an observation reports\<close>

text \<open>\<open>globSync\<close> is called with \<open>absolute: true\<close>: what it returns are absolute paths.\<close>

definition absolute_matches :: "file_env \<Rightarrow> bool" where
  "absolute_matches env = (\<forall>t cwd g. list_all is_absolute (fx_glob env t cwd g))"

lemma absolute_matchesD: "absolute_matches env \<Longrightarrow> p \<in> set (fx_glob env t cwd g) \<Longrightarrow> is_absolute p"
  by (auto simp: absolute_matches_def list_all_iff)

text \<open>The kinds reported about one path.\<close>

definition kinds_about :: "string \<Rightarrow> observation list \<Rightarrow> change_kind list" where
  "kinds_about p obs = map (\<lambda>ob. the (o_change ob)) (filter (\<lambda>ob. o_object_key ob = Some p) obs)"

lemma kinds_about_simps [simp]:
  "kinds_about p [] = []"
  "kinds_about p (ob # obs) =
     (if o_object_key ob = Some p then the (o_change ob) # kinds_about p obs else kinds_about p obs)"
  "kinds_about p (obs @ obs') = kinds_about p obs @ kinds_about p obs'"
  by (simp_all add: kinds_about_def)

text \<open>The reference: what two fingerprints of one path amount to.\<close>

definition fingerprint_change :: "json option \<Rightarrow> json option \<Rightarrow> change_kind list set" where
  "fingerprint_change old new =
     (case (old, new) of
        (None, None) \<Rightarrow> {[]}
      | (None, Some _) \<Rightarrow> {[Created]}
      | (Some h, Some h') \<Rightarrow> if h = h' then {[]} else {[Modified]}
      | (Some _, None) \<Rightarrow> {[Deleted], [Descoped]})"

definition denied :: "file_env \<Rightarrow> string \<Rightarrow> bool" where
  "denied env p = (\<exists>t code. dk_stat (fx_files env t) p = Inl code \<and> is_not_found_error code)"

definition digest_of :: "file_env \<Rightarrow> string \<Rightarrow> string \<Rightarrow> bool" where
  "digest_of env p h = (\<exists>t bytes. dk_read (fx_files env t) p = Inr bytes \<and> h = fx_digest env bytes)"

lemma hash_file_digest: "hash_file env t p = Inr h \<Longrightarrow> digest_of env p h"
  by (auto simp: hash_file_def read_file_def digest_of_def split: sum.splits)

definition good_hashes :: "file_env \<Rightarrow> string list \<Rightarrow> (string \<Rightarrow> bool) \<Rightarrow> hashes \<Rightarrow> bool" where
  "good_hashes env ignored P acc =
     (distinct (map fst acc) \<and> (\<forall>(p, h) \<in> set acc. p \<notin> set ignored \<and> P p \<and> digest_of env p h))"

lemma good_hashes_Nil [simp]: "good_hashes env ignored P []"
  by (simp add: good_hashes_def)

lemma good_hashes_snoc:
  "good_hashes env ignored P acc \<Longrightarrow> p \<notin> set ignored \<Longrightarrow> p \<notin> fst ` set acc \<Longrightarrow> P p \<Longrightarrow> digest_of env p h \<Longrightarrow>
     good_hashes env ignored P (acc @ [(p, h)])"
  by (auto simp: good_hashes_def)

lemma hash_matches_props:
  "hash_matches env ignored ps (acc, t) = Inr (acc', t') \<Longrightarrow> good_hashes env ignored P acc \<Longrightarrow> list_all P ps \<Longrightarrow>
     good_hashes env ignored P acc'"
proof (induction ps arbitrary: acc t)
  case (Cons p ps)
  show ?case
  proof (cases "p \<in> set ignored \<or> p \<in> fst ` set acc")
    case True
    with Cons.prems Cons.IH [of acc t] show ?thesis by auto
  next
    case False
    then obtain dir where dir: "is_directory (fx_files env t) p = Inr dir"
      using Cons.prems(1) by (auto split: sum.splits)
    show ?thesis
    proof (cases dir)
      case True
      with False dir Cons.prems Cons.IH [of acc "Suc t"] show ?thesis by auto
    next
      case nodir: False
      with False dir Cons.prems(1) obtain h where h: "hash_file env (Suc t) p = Inr h"
        and rest: "hash_matches env ignored ps (acc @ [(p, h)], Suc (Suc t)) = Inr (acc', t')"
        by (auto split: sum.splits)
      have "good_hashes env ignored P (acc @ [(p, h)])"
        using False Cons.prems(2,3) hash_file_digest [OF h] by (intro good_hashes_snoc) auto
      with Cons.IH [OF rest] Cons.prems(3) show ?thesis by auto
    qed
  qed
qed simp

lemma current_hashes_props:
  assumes "current_hashes env cwd ignored gs (acc, t) = Inr (acc', t')" and "good_hashes env ignored P acc"
    and "\<And>t cwd g p. p \<in> set (fx_glob env t cwd g) \<Longrightarrow> P p"
  shows "good_hashes env ignored P acc'"
  using assms(1,2)
proof (induction gs arbitrary: acc t)
  case (Cons g gs)
  then obtain a u where m: "hash_matches env ignored (expand_glob env t g cwd) (acc, Suc t) = Inr (a, u)"
    and rest: "current_hashes env cwd ignored gs (a, u) = Inr (acc', t')"
    by (auto split: sum.splits)
  have "list_all P (expand_glob env t g cwd)"
    using assms(3) by (auto simp: expand_glob_def list_all_iff)
  from Cons.IH [OF rest hash_matches_props [OF m Cons.prems(2) this]] show ?case .
qed simp

lemma present_kinds:
  "present_observations env previous cur t = Inr (obs, t') \<Longrightarrow> distinct (map fst cur) \<Longrightarrow>
     kinds_about p obs =
       (case map_of cur p of None \<Rightarrow> []
        | Some h \<Rightarrow> (case map_of previous p of None \<Rightarrow> [Created]
            | Some old \<Rightarrow> if old = JStr h then [] else [Modified]))"
proof (induction cur arbitrary: t obs)
  case (Cons qh cur)
  obtain q h where qh: "qh = (q, h)" by fastforce
  have built: "o_object_key ob = Some q \<and> o_change ob = Some k"
    if "build_present_observation env t q k h old = Inr ob" for k old ob
    using that by (auto simp: build_present_observation_def file_observation_def Let_def split: sum.splits)
  have q: "q \<notin> fst ` set cur" using Cons.prems(2) qh by auto
  then have none: "map_of cur q = None" by (metis map_of_eq_None_iff)
  from Cons.prems qh none show ?case
    by (auto split: option.splits sum.splits if_splits dest!: Cons.IH built)
qed simp

lemma absent_kinds:
  "absent_observations env cur previous t = Inr obs \<Longrightarrow> distinct (map fst previous) \<Longrightarrow>
     kinds_about p obs \<in> (if map_of previous p = None \<or> p \<in> fst ` set cur then {[]} else {[Deleted], [Descoped]}) \<and>
     (kinds_about p obs = [Deleted] \<longrightarrow> denied env p)"
proof (induction previous arbitrary: t obs)
  case (Cons qo previous)
  obtain q old where qo: "qo = (q, old)" by fastforce
  have none: "map_of previous q = None" using Cons.prems(2) qo by (auto simp: map_of_eq_None_iff)
  show ?case
  proof (cases "q \<in> fst ` set cur")
    case True
    then have c: "q \<in> fst ` set cur" .
    with Cons.prems qo have rest: "absent_observations env cur previous t = Inr obs" "distinct (map fst previous)" by auto
    show ?thesis using Cons.IH [OF rest] c none qo by (cases "p = q") auto
  next
    case False
    then obtain x obs' where x: "file_exists (fx_files env t) q = Inr x"
      and rest: "absent_observations env cur previous (Suc t) = Inr obs'"
      and obs: "obs = build_absent_observation q (if x then Descoped else Deleted) old # obs'"
      using Cons.prems(1) qo by (auto split: sum.splits)
    have "denied env q" if "\<not> x"
      using x that by (auto simp: file_exists_def denied_def split: sum.splits if_splits)
    moreover have "kinds_about p obs =
        (if p = q then (if x then Descoped else Deleted) # kinds_about p obs' else kinds_about p obs')"
      by (auto simp: obs build_absent_observation_def file_observation_def Let_def)
    moreover note Cons.IH [OF rest]
    ultimately show ?thesis using Cons.prems(2) qo none False by (auto split: if_splits)
  qed
qed simp

lemma next_fingerprints_map:
  assumes "distinct (map fst cur)" "\<forall>p \<in> fst ` set cur. is_absolute p"
  shows "map_of (next_fingerprints cur) p = map_option JStr (map_of cur p)"
proof -
  have "\<not> is_absolute proto_key" by (simp add: is_absolute_def proto_key_def slash_def)
  then have "proto_key \<notin> fst ` set cur" using assms(2) by blast
  then have "map_of (next_fingerprints cur) = map_of (map (\<lambda>(p, h). (p, JStr h)) cur)"
    unfolding next_fingerprints_def
    by (intro map_of_obj_of) (simp_all add: assms(1) comp_def case_prod_unfold image_image)
  then show ?thesis by (simp add: map_of_map)
qed

lemma distinct_obj_of: "distinct (map fst (obj_of L))"
proof -
  have "distinct (map fst m) \<Longrightarrow> distinct (map fst (foldl (\<lambda>m (k, v). obj_set m k v) m L))" for m
    by (induction L arbitrary: m) (auto simp: distinct_obj_set)
  from this [of "[]"] show ?thesis by (simp add: obj_of_def)
qed

text \<open>
  C26: One observation of the file source, given the fingerprints it stored, reports exactly the
  difference between them and the fingerprints it stores next: each path once, as created, modified,
  or gone. This holds whatever the disk does between any two of its calls. Every stored fingerprint
  is the digest of bytes that were read from that path, and a path is reported as deleted only when
  the disk said that it does not exist.
\<close>

theorem file_source_reports_the_difference:
  assumes "file_observe env config (Some (fingerprint_state previous)) workspace = Inr r"
    and "distinct (map fst previous)"
    and "absolute_matches env"
  shows "\<exists>fps. ob_next r = Some (fingerprint_state fps) \<and> distinct (map fst fps) \<and>
     (\<forall>p. kinds_about p (ob_observations r) \<in> fingerprint_change (map_of previous p) (map_of fps p) \<and>
       (kinds_about p (ob_observations r) = [Deleted] \<longrightarrow> denied env p) \<and>
       (\<forall>v. map_of fps p = Some v \<longrightarrow> (\<exists>h. v = JStr h \<and> digest_of env p h)))"
proof -
  obtain scope cur t present t' absent where
    col: "collect_hashes env scope workspace = Inr (cur, t)"
    and present: "present_observations env previous cur t = Inr (present, t')"
    and absent: "absent_observations env cur previous t' = Inr absent"
    and r: "r = file_result cur (present @ absent)"
    using assms(1) by (auto simp: file_observe_def fingerprint_state_def previous_fingerprints_def split: sum.splits)
  have cur: "distinct (map fst cur)" "\<forall>(p, h) \<in> set cur. is_absolute p \<and> digest_of env p h"
    using current_hashes_props [where P = is_absolute and acc = "[]", OF _ good_hashes_Nil absolute_matchesD [OF assms(3)]] col
    by (fastforce simp: collect_hashes_def Let_def good_hashes_def split: prod.splits)+
  then have fps: "map_of (next_fingerprints cur) p = map_option JStr (map_of cur p)" for p
    by (intro next_fingerprints_map) auto
  have d: "distinct (map fst (next_fingerprints cur))"
    unfolding next_fingerprints_def by (rule distinct_obj_of)
  have tracked: "p \<in> fst ` set cur \<longleftrightarrow> map_of cur p \<noteq> None" for p
    by (simp add: map_of_eq_None_iff)
  have about: "kinds_about p (ob_observations r) = kinds_about p present @ kinds_about p absent" for p
    by (simp add: r file_result_def)
  have "kinds_about p (ob_observations r) \<in> fingerprint_change (map_of previous p) (map_of (next_fingerprints cur) p) \<and>
      (kinds_about p (ob_observations r) = [Deleted] \<longrightarrow> denied env p)" for p
    using present_kinds [OF present cur(1), of p] absent_kinds [OF absent assms(2), of p]
    unfolding about fps tracked
    by (auto simp: fingerprint_change_def simp del: map_of_eq_None_iff split: option.splits if_splits)
  moreover have "\<exists>h. v = JStr h \<and> digest_of env p h" if "map_of (next_fingerprints cur) p = Some v" for p v
    using that cur(2) by (auto simp: fps dest!: map_of_SomeD)
  ultimately show ?thesis using d by (auto simp: r file_result_def)
qed

section \<open>A still disk\<close>

text \<open>Where nothing changes while the source looks, the stored table is what the patterns select.\<close>

definition still :: "file_env \<Rightarrow> disk \<Rightarrow> (string option \<Rightarrow> string \<Rightarrow> string list) \<Rightarrow> bool" where
  "still env d matcher = (\<forall>t. fx_files env t = d \<and> fx_glob env t = matcher)"

definition matched :: "(string option \<Rightarrow> string \<Rightarrow> string list) \<Rightarrow> string option \<Rightarrow> string list \<Rightarrow> string set" where
  "matched matcher cwd globs = (\<Union>g \<in> set globs. set (matcher (if is_absolute g then None else cwd) g))"

definition content_digest :: "file_env \<Rightarrow> disk \<Rightarrow> string \<Rightarrow> string option" where
  "content_digest env d p =
     (if dk_stat d p = Inr True then None
      else (case dk_read d p of Inl _ \<Rightarrow> None | Inr bytes \<Rightarrow> Some (fx_digest env bytes)))"

definition selects :: "file_env \<Rightarrow> disk \<Rightarrow> string set \<Rightarrow> string set \<Rightarrow> hashes \<Rightarrow> bool" where
  "selects env d S ignored acc =
     (\<forall>p. map_of acc p = (if p \<in> S \<and> p \<notin> ignored then content_digest env d p else None))"

lemma ignored_files_still:
  "still env d matcher \<Longrightarrow> set (fst (ignored_files env cwd gs t)) = matched matcher cwd gs"
  by (induction gs arbitrary: t)
    (auto simp: matched_def expand_glob_def still_def case_prod_unfold Let_def)

lemma selects_skip:
  "selects env d S ignored acc \<Longrightarrow> p \<in> ignored \<or> p \<in> S \<or> content_digest env d p = None \<Longrightarrow>
     selects env d (insert p S) ignored acc"
  by (auto simp: selects_def)

lemma selects_snoc:
  "selects env d S ignored acc \<Longrightarrow> p \<notin> ignored \<Longrightarrow> p \<notin> fst ` set acc \<Longrightarrow> content_digest env d p = Some h \<Longrightarrow>
     selects env d (insert p S) ignored (acc @ [(p, h)])"
  by (auto simp: selects_def map_add_def map_of_eq_None_iff split: option.splits)

lemma selected_member: "selects env d S ignored acc \<Longrightarrow> p \<in> fst ` set acc \<Longrightarrow> p \<in> S"
  by (metis map_of_eq_None_iff selects_def)

lemma hash_matches_still:
  "hash_matches env ignored ps (acc, t) = Inr (acc', t') \<Longrightarrow> still env d matcher \<Longrightarrow>
     selects env d S (set ignored) acc \<Longrightarrow> selects env d (S \<union> set ps) (set ignored) acc'"
proof (induction ps arbitrary: acc t S)
  case (Cons p ps)
  have d: "fx_files env t = d" for t using Cons.prems(2) by (simp add: still_def)
  have S: "S \<union> set (p # ps) = insert p S \<union> set ps" by auto
  show ?case
  proof (cases "p \<in> set ignored \<or> p \<in> fst ` set acc")
    case True
    then have "selects env d (insert p S) (set ignored) acc"
      using Cons.prems(3) selected_member [OF Cons.prems(3)] by (intro selects_skip) blast+
    with True Cons.prems Cons.IH [of acc t "insert p S"] show ?thesis by (auto simp: S)
  next
    case False
    then obtain dir where dir: "is_directory d p = Inr dir"
      using Cons.prems(1) by (auto simp: d split: sum.splits)
    show ?thesis
    proof (cases dir)
      case True
      with dir have "content_digest env d p = None"
        by (auto simp: content_digest_def is_directory_def split: sum.splits if_splits)
      with Cons.prems(3) have "selects env d (insert p S) (set ignored) acc" by (intro selects_skip) auto
      with True False dir Cons.prems Cons.IH [of acc "Suc t" "insert p S"] show ?thesis by (auto simp: d S)
    next
      case nodir: False
      with False dir Cons.prems(1) obtain h where h: "hash_file env (Suc t) p = Inr h"
        and rest: "hash_matches env ignored ps (acc @ [(p, h)], Suc (Suc t)) = Inr (acc', t')"
        by (auto simp: d split: sum.splits)
      have "content_digest env d p = Some h"
        using h dir nodir by (auto simp: content_digest_def hash_file_def read_file_def d is_directory_def split: sum.splits)
      with False Cons.prems(3) have "selects env d (insert p S) (set ignored) (acc @ [(p, h)])"
        by (intro selects_snoc) auto
      from Cons.IH [OF rest Cons.prems(2) this] show ?thesis by (simp only: S)
    qed
  qed
qed simp

lemma current_hashes_still:
  "current_hashes env cwd ignored gs (acc, t) = Inr (acc', t') \<Longrightarrow> still env d matcher \<Longrightarrow>
     selects env d S (set ignored) acc \<Longrightarrow> selects env d (S \<union> matched matcher cwd gs) (set ignored) acc'"
proof (induction gs arbitrary: acc t S)
  case (Cons g gs)
  then obtain a u where m: "hash_matches env ignored (expand_glob env t g cwd) (acc, Suc t) = Inr (a, u)"
    and rest: "current_hashes env cwd ignored gs (a, u) = Inr (acc', t')"
    by (auto split: sum.splits)
  have "S \<union> matched matcher cwd (g # gs) = (S \<union> set (expand_glob env t g cwd)) \<union> matched matcher cwd gs"
    using Cons.prems(2) by (auto simp: matched_def expand_glob_def still_def)
  then show ?case
    using Cons.IH [OF rest Cons.prems(2) hash_matches_still [OF m Cons.prems(2,3)]] by simp
qed (simp add: matched_def)

text \<open>
  On a disk that is still while the source looks, the source tracks exactly the files its
  patterns select: those matched by a glob and by no ignore pattern that are not directories, each
  under the digest of its content. A first observation stores this table and reports nothing.
\<close>

lemma file_source_tracks_selected_files:
  assumes "file_observe env config state workspace = Inr r" and "parse_file_scope config = Inr scope"
    and "still env d matcher" and "absolute_matches env"
  shows "\<exists>fps. ob_next r = Some (fingerprint_state fps) \<and>
     (let cwd = resolve_glob_cwd (fx_here env) (fc_cwd scope) workspace in
      \<forall>p. map_of fps p =
        (if p \<in> matched matcher cwd (fc_globs scope) - matched matcher cwd (fc_ignore scope)
         then map_option JStr (content_digest env d p) else None)) \<and>
     (previous_fingerprints state = None \<longrightarrow> ob_observations r = [])"
proof -
  obtain cur t obs where col: "collect_hashes env scope workspace = Inr (cur, t)"
    and r: "r = file_result cur obs" and first: "previous_fingerprints state = None \<longrightarrow> obs = []"
    using assms(1,2) by (auto simp: file_observe_def split: sum.splits option.splits)
  let ?cwd = "resolve_glob_cwd (fx_here env) (fc_cwd scope) workspace"
  obtain ign u where ign: "ignored_files env ?cwd (fc_ignore scope) 0 = (ign, u)" by fastforce
  have run: "current_hashes env ?cwd ign (fc_globs scope) ([], u) = Inr (cur, t)"
    using col ign by (simp add: collect_hashes_def Let_def)
  have "set ign = matched matcher ?cwd (fc_ignore scope)"
    using ignored_files_still [OF assms(3), of ?cwd "fc_ignore scope" 0] ign by simp
  moreover have "selects env d ({} \<union> matched matcher ?cwd (fc_globs scope)) (set ign) cur"
    by (rule current_hashes_still [OF run assms(3)]) (simp add: selects_def)
  moreover have "good_hashes env ign is_absolute cur"
    using absolute_matchesD [OF assms(4)] by (intro current_hashes_props [OF run]) auto
  then have "map_of (next_fingerprints cur) p = map_option JStr (map_of cur p)" for p
    by (intro next_fingerprints_map) (auto simp: good_hashes_def)
  ultimately show ?thesis
    using first by (auto simp: r file_result_def selects_def Let_def)
qed

section \<open>A small disk\<close>

definition demo_disk :: disk where
  "demo_disk = \<lparr>dk_stat = (\<lambda>p. if p = ''/w/a'' \<or> p = ''/w/b'' then Inr False else Inl ''ENOENT''),
     dk_read = (\<lambda>p. if p = ''/w/a'' then Inr ''x'' else if p = ''/w/b'' then Inr ''y'' else Inl ''ENOENT'')\<rparr>"

definition demo_file_env :: file_env where
  "demo_file_env = \<lparr>fx_glob = (\<lambda>t cwd g. if g = ''b'' then [''/w/b''] else [''/w/a'', ''/w/b'']),
     fx_files = (\<lambda>t. demo_disk), fx_digest = (\<lambda>s. s @ ''!''), fx_decode = (\<lambda>s. s), fx_here = ''/''\<rparr>"

definition demo_fingerprints :: "(string \<times> json) list" where
  "demo_fingerprints = [(''/w/a'', JStr ''old!''), (''/w/c'', JStr ''z!'')]"

lemma demo_glob_absolute: "absolute_matches demo_file_env"
  by (simp add: absolute_matches_def demo_file_env_def is_absolute_def slash_def)

lemma demo_observed:
  "(case file_observe demo_file_env [(''globs'', JStr ''*'')] (Some (fingerprint_state demo_fingerprints)) (Some ''/w'') of
      Inr r \<Rightarrow> (kinds_about ''/w/a'' (ob_observations r), kinds_about ''/w/b'' (ob_observations r),
        kinds_about ''/w/c'' (ob_observations r))
    | Inl _ \<Rightarrow> ([], [], [])) = ([Modified], [Created], [Deleted])"
  by code_simp

lemma file_source_reports_the_difference_witness:
  "\<exists>r fps. file_observe demo_file_env [(''globs'', JStr ''*'')] (Some (fingerprint_state demo_fingerprints)) (Some ''/w'') = Inr r \<and>
     ob_next r = Some (fingerprint_state fps) \<and> denied demo_file_env ''/w/c''"
proof -
  obtain r where r: "file_observe demo_file_env [(''globs'', JStr ''*'')]
      (Some (fingerprint_state demo_fingerprints)) (Some ''/w'') = Inr r"
    and del: "kinds_about ''/w/c'' (ob_observations r) = [Deleted]"
    using demo_observed by (auto split: sum.splits)
  have "distinct (map fst demo_fingerprints)" by code_simp
  from file_source_reports_the_difference [OF r this demo_glob_absolute] del r show ?thesis by blast
qed

lemma file_source_tracks_selected_files_witness:
  "\<exists>r fps. file_observe demo_file_env [(''globs'', JStr ''*''), (''ignore'', JStr ''b'')] None (Some ''/w'') = Inr r \<and>
     ob_next r = Some (fingerprint_state fps) \<and> map_of fps ''/w/a'' = Some (JStr ''x!'') \<and> map_of fps ''/w/b'' = None"
proof -
  let ?c = "[(''globs'', JStr ''*''), (''ignore'', JStr ''b'')]"
  have "\<not> (case file_observe demo_file_env ?c None (Some ''/w'') of Inl _ \<Rightarrow> True | Inr _ \<Rightarrow> False)"
    by code_simp
  then obtain r where r: "file_observe demo_file_env ?c None (Some ''/w'') = Inr r"
    by (auto split: sum.splits)
  have scope: "parse_file_scope ?c = Inr \<lparr>fc_globs = [''*''], fc_ignore = [''b''], fc_cwd = None\<rparr>"
    by code_simp
  have still: "still demo_file_env demo_disk (fx_glob demo_file_env 0)"
    by (simp add: still_def demo_file_env_def)
  from file_source_tracks_selected_files [OF r scope still demo_glob_absolute] obtain fps
    where n: "ob_next r = Some (fingerprint_state fps)"
      and m: "\<And>p. map_of fps p =
        (if p \<in> matched (fx_glob demo_file_env 0) (Some ''/w'') [''*''] - matched (fx_glob demo_file_env 0) (Some ''/w'') [''b'']
         then map_option JStr (content_digest demo_file_env demo_disk p) else None)"
    by (simp add: resolve_glob_cwd_def Let_def) blast
  have "map_of fps ''/w/a'' = Some (JStr ''x!'')" "map_of fps ''/w/b'' = None"
    unfolding m by (simp_all add: matched_def demo_file_env_def content_digest_def demo_disk_def)
  with r n show ?thesis by blast
qed

end
