(* ===== verification/AM_CommandRun.thy ===== *)
theory AM_CommandRun
  imports AM_Time "HOL-Library.Sublist"
begin

text \<open>
  One spawned command, \<open>runCommand\<close> of \<open>plugins/source-command-poll/src/index.ts\<close>, as a machine
  driven by the events of Node's event loop: data on the two streams, the child's \<open>error\<close>, \<open>exit\<close>
  and \<open>close\<close> events and the three timers. A run is any sequence of events the guards allow: a
  timer fires only while armed, the child ends once, its streams close after it ended.

  The properties: what is kept of the output is bounded and is exactly the head of standard output
  and the tail of standard error; the call always returns once the child has ended, and returns
  once; a command that ended in time is never reported as timed out; and a command that timed out
  has its process group killed even when the call has already returned.
\<close>

section \<open>State\<close>

datatype kill_signal = SigTerm | SigKill

record exec_result =
  xr_stdout :: string
  xr_exit :: nat
  xr_truncated :: bool

datatype exec_outcome =
    CmdResult exec_result
  | CmdFailure string string

definition stdout_cap_bytes :: nat where
  "stdout_cap_bytes = 1024 * 1024"

definition stderr_tail_chars :: nat where
  "stderr_tail_chars = 2000"

definition stderr_retention_cap_bytes :: nat where
  "stderr_retention_cap_bytes = stderr_tail_chars * 4"

text \<open>
  The local variables of the promise, the timers that are armed (\<open>cr_fallback\<close> with the arguments
  it closes over), how far the child is, and the signals sent to the process group.
\<close>

record command_run =
  cr_outcome :: "exec_outcome option"
  cr_timed_out :: bool
  cr_truncated :: bool
  cr_chunks :: "string list"
  cr_bytes :: nat
  cr_stderr :: string
  cr_wall :: bool
  cr_sigkill :: bool
  cr_fallback :: "(nat option \<times> string option) option"
  cr_ended :: bool
  cr_closed :: bool
  cr_signals :: "kill_signal list"

definition started :: command_run where
  "started = \<lparr>cr_outcome = None, cr_timed_out = False, cr_truncated = False, cr_chunks = [], cr_bytes = 0,
     cr_stderr = [], cr_wall = True, cr_sigkill = False, cr_fallback = None, cr_ended = False,
     cr_closed = False, cr_signals = []\<rparr>"

datatype run_event =
    StdoutData string
  | StderrData string
  | ChildError string
  | ChildExit "nat option" "string option"
  | StreamsClosed "nat option" "string option"
  | WallClock
  | SigkillDue
  | CloseFallback

section \<open>The listeners\<close>

record exec_env =
  xe_timeout_ms :: int
  xe_show_ms :: "int \<Rightarrow> string"
  xe_decode :: "string \<Rightarrow> string"

definition on_stdout :: "string \<Rightarrow> command_run \<Rightarrow> command_run" where
  "on_stdout chunk s =
     (if stdout_cap_bytes \<le> cr_bytes s then (if 0 < length chunk then s\<lparr>cr_truncated := True\<rparr> else s)
      else (let remaining = stdout_cap_bytes - cr_bytes s in
        if remaining < length chunk then
          s\<lparr>cr_chunks := cr_chunks s @ [take remaining chunk], cr_bytes := cr_bytes s + remaining,
            cr_truncated := True\<rparr>
        else s\<lparr>cr_chunks := cr_chunks s @ [chunk], cr_bytes := cr_bytes s + length chunk\<rparr>))"

text \<open>\<open>subarray(-n)\<close>: the last \<open>n\<close> bytes.\<close>

definition last_bytes :: "nat \<Rightarrow> string \<Rightarrow> string" where
  "last_bytes n s = drop (length s - n) s"

definition on_stderr :: "string \<Rightarrow> command_run \<Rightarrow> command_run" where
  "on_stderr chunk s =
     (let combined = cr_stderr s @ chunk in
      s\<lparr>cr_stderr := (if stderr_retention_cap_bytes < length combined
         then last_bytes stderr_retention_cap_bytes combined else combined)\<rparr>)"

definition clear_timers :: "command_run \<Rightarrow> command_run" where
  "clear_timers s = s\<lparr>cr_wall := False, cr_fallback := None\<rparr>"

definition finish :: "exec_outcome \<Rightarrow> command_run \<Rightarrow> command_run" where
  "finish out s =
     (if cr_outcome s \<noteq> None then s else clear_timers (s\<lparr>cr_outcome := Some out\<rparr>))"

definition stderr_tail_string :: "exec_env \<Rightarrow> command_run \<Rightarrow> string" where
  "stderr_tail_string env s = last_bytes stderr_tail_chars (xe_decode env (cr_stderr s))"

definition resolve_from_exit :: "exec_env \<Rightarrow> nat option \<Rightarrow> string option \<Rightarrow> command_run \<Rightarrow> command_run" where
  "resolve_from_exit env code signal s =
     (if cr_timed_out s then
        finish (CmdFailure (''Command timed out after '' @ xe_show_ms env (xe_timeout_ms env) @ ''ms'')
          (stderr_tail_string env s)) s
      else (case signal of
          Some sig \<Rightarrow> finish (CmdFailure (''Command terminated by signal '' @ sig) (stderr_tail_string env s)) s
        | None \<Rightarrow> finish (CmdResult \<lparr>xr_stdout = xe_decode env (concat (cr_chunks s)),
            xr_exit = default code 0, xr_truncated = cr_truncated s\<rparr>) s))"

definition on_error :: "exec_env \<Rightarrow> string \<Rightarrow> command_run \<Rightarrow> command_run" where
  "on_error env msg s = finish (CmdFailure msg (stderr_tail_string env s)) s"

definition on_exit :: "exec_env \<Rightarrow> nat option \<Rightarrow> string option \<Rightarrow> command_run \<Rightarrow> command_run" where
  "on_exit env code signal s =
     (if cr_outcome s \<noteq> None then s
      else if cr_timed_out s then resolve_from_exit env code signal s
      else s\<lparr>cr_wall := False, cr_fallback := Some (code, signal)\<rparr>)"

definition on_close :: "exec_env \<Rightarrow> nat option \<Rightarrow> string option \<Rightarrow> command_run \<Rightarrow> command_run" where
  "on_close env code signal s =
     (if cr_outcome s \<noteq> None then s else resolve_from_exit env code signal s)"

definition on_wall_clock :: "command_run \<Rightarrow> command_run" where
  "on_wall_clock s = s\<lparr>cr_wall := False, cr_timed_out := True, cr_signals := cr_signals s @ [SigTerm],
     cr_sigkill := True\<rparr>"

definition on_sigkill_due :: "command_run \<Rightarrow> command_run" where
  "on_sigkill_due s = s\<lparr>cr_sigkill := False, cr_signals := cr_signals s @ [SigKill]\<rparr>"

definition on_fallback :: "exec_env \<Rightarrow> nat option \<times> string option \<Rightarrow> command_run \<Rightarrow> command_run" where
  "on_fallback env args s = resolve_from_exit env (fst args) (snd args) (s\<lparr>cr_fallback := None\<rparr>)"

section \<open>Runs\<close>

text \<open>
  What Node guarantees of the events: a child that failed to spawn has no \<open>exit\<close>; \<open>close\<close> comes
  after the child ended, with the same code and signal, and after it no more data.
\<close>

fun run_on :: "exec_env \<Rightarrow> command_run \<Rightarrow> run_event \<Rightarrow> command_run option" where
  "run_on env s (StdoutData c) = (if cr_closed s then None else Some (on_stdout c s))"
| "run_on env s (StderrData c) = (if cr_closed s then None else Some (on_stderr c s))"
| "run_on env s (ChildError msg) =
     (if cr_ended s then None else Some (on_error env msg (s\<lparr>cr_ended := True\<rparr>)))"
| "run_on env s (ChildExit code sig) =
     (if cr_ended s then None else Some (on_exit env code sig (s\<lparr>cr_ended := True\<rparr>)))"
| "run_on env s (StreamsClosed code sig) =
     (if cr_closed s \<or> \<not> cr_ended s \<or> (cr_fallback s \<noteq> None \<and> cr_fallback s \<noteq> Some (code, sig)) then None
      else Some (on_close env code sig (s\<lparr>cr_closed := True\<rparr>)))"
| "run_on env s WallClock = (if cr_wall s then Some (on_wall_clock s) else None)"
| "run_on env s SigkillDue = (if cr_sigkill s then Some (on_sigkill_due s) else None)"
| "run_on env s CloseFallback =
     (case cr_fallback s of None \<Rightarrow> None | Some args \<Rightarrow> Some (on_fallback env args s))"

inductive command_runs :: "exec_env \<Rightarrow> run_event list \<Rightarrow> command_run \<Rightarrow> bool" for env where
  spawned: "command_runs env [] started"
| event: "command_runs env tr s \<Longrightarrow> run_on env s e = Some s' \<Longrightarrow> command_runs env (tr @ [e]) s'"

text \<open>All the output the child has written.\<close>

fun event_stdout :: "run_event \<Rightarrow> string" where
  "event_stdout (StdoutData c) = c" | "event_stdout e = []"

fun event_stderr :: "run_event \<Rightarrow> string" where
  "event_stderr (StderrData c) = c" | "event_stderr e = []"

definition stdout_of :: "run_event list \<Rightarrow> string" where
  "stdout_of tr = concat (map event_stdout tr)"

definition stderr_of :: "run_event list \<Rightarrow> string" where
  "stderr_of tr = concat (map event_stderr tr)"

lemma output_of_simps [simp]:
  "stdout_of [] = []" "stdout_of (tr @ [e]) = stdout_of tr @ event_stdout e"
  "stderr_of [] = []" "stderr_of (tr @ [e]) = stderr_of tr @ event_stderr e"
  by (simp_all add: stdout_of_def stderr_of_def)

section \<open>What is kept of the output\<close>

lemma stdout_cap_pos: "0 < stdout_cap_bytes"
  by (simp add: stdout_cap_bytes_def)

definition output_kept :: "string \<Rightarrow> string \<Rightarrow> command_run \<Rightarrow> bool" where
  "output_kept out err s =
     (concat (cr_chunks s) = take stdout_cap_bytes out \<and> cr_bytes s = min stdout_cap_bytes (length out) \<and>
      cr_truncated s = (stdout_cap_bytes < length out) \<and>
      cr_stderr s = last_bytes stderr_retention_cap_bytes err)"

lemma last_bytes_rev: "last_bytes n s = rev (take n (rev s))"
  by (simp add: last_bytes_def take_rev)

lemma last_bytes_append: "last_bytes n (last_bytes n a @ b) = last_bytes n (a @ b)"
  by (simp add: last_bytes_rev min_def)

lemma last_bytes_short: "length s \<le> n \<Longrightarrow> last_bytes n s = s"
  by (simp add: last_bytes_def)

lemma on_stderr_last: "on_stderr chunk s = s\<lparr>cr_stderr := last_bytes stderr_retention_cap_bytes (cr_stderr s @ chunk)\<rparr>"
  by (simp add: on_stderr_def Let_def last_bytes_short)

lemma output_kept_stdout:
  assumes "output_kept out err s" shows "output_kept (out @ chunk) err (on_stdout chunk s)"
proof (cases "stdout_cap_bytes \<le> length out")
  case True
  with assms show ?thesis by (auto simp: output_kept_def on_stdout_def)
next
  case False
  with assms show ?thesis by (auto simp: output_kept_def on_stdout_def Let_def)
qed

lemma output_kept_stderr: "output_kept out err s \<Longrightarrow> output_kept out (err @ chunk) (on_stderr chunk s)"
  by (simp add: output_kept_def on_stderr_last last_bytes_append)

lemma output_fields [simp]:
  "output_kept out err (finish x s) = output_kept out err s"
  "output_kept out err (clear_timers s) = output_kept out err s"
  "output_kept out err (resolve_from_exit env c sig s) = output_kept out err s"
  "output_kept out err (on_error env m s) = output_kept out err s"
  "output_kept out err (on_exit env c sig s) = output_kept out err s"
  "output_kept out err (on_close env c sig s) = output_kept out err s"
  "output_kept out err (on_wall_clock s) = output_kept out err s"
  "output_kept out err (on_sigkill_due s) = output_kept out err s"
  "output_kept out err (on_fallback env a s) = output_kept out err s"
  "output_kept out err (s\<lparr>cr_ended := b\<rparr>) = output_kept out err s"
  "output_kept out err (s\<lparr>cr_closed := b\<rparr>) = output_kept out err s"
  by (simp_all add: output_kept_def finish_def clear_timers_def resolve_from_exit_def on_error_def
      on_exit_def on_close_def on_wall_clock_def on_sigkill_due_def on_fallback_def split: option.splits)

lemma output_kept_event:
  "run_on env s e = Some s' \<Longrightarrow> output_kept out err s \<Longrightarrow>
     output_kept (out @ event_stdout e) (err @ event_stderr e) s'"
  by (cases e) (auto simp: output_kept_stdout output_kept_stderr split: if_splits option.splits)

lemma command_output_kept: "command_runs env tr s \<Longrightarrow> output_kept (stdout_of tr) (stderr_of tr) s"
proof (induction rule: command_runs.induct)
  case spawned
  show ?case by (simp add: output_kept_def started_def last_bytes_def)
qed (simp add: output_kept_event)

section \<open>The timers\<close>

text \<open>Which timers are armed, given how far the child and the call are.\<close>

definition timers_ok :: "command_run \<Rightarrow> bool" where
  "timers_ok s =
     ((cr_outcome s \<noteq> None \<longrightarrow> \<not> cr_wall s \<and> cr_fallback s = None \<and> cr_ended s) \<and>
      (cr_outcome s = None \<and> cr_ended s \<longrightarrow> cr_fallback s \<noteq> None \<and> \<not> cr_timed_out s \<and> \<not> cr_wall s) \<and>
      (\<not> cr_ended s \<longrightarrow> cr_fallback s = None \<and> cr_wall s = (\<not> cr_timed_out s)) \<and>
      (cr_closed s \<longrightarrow> cr_outcome s \<noteq> None) \<and>
      cr_signals s = (if \<not> cr_timed_out s then [] else if cr_sigkill s then [SigTerm] else [SigTerm, SigKill]) \<and>
      (cr_sigkill s \<longrightarrow> cr_timed_out s))"

lemma timers_data [simp]: "timers_ok (on_stdout c s) = timers_ok s" "timers_ok (on_stderr c s) = timers_ok s"
  by (simp_all add: timers_ok_def on_stdout_def on_stderr_def Let_def)

lemmas run_defs = finish_def clear_timers_def resolve_from_exit_def on_error_def on_exit_def on_close_def
  on_wall_clock_def on_sigkill_due_def on_fallback_def

lemma timers_exit: "timers_ok s \<Longrightarrow> \<not> cr_ended s \<Longrightarrow> timers_ok (on_exit env code sig (s\<lparr>cr_ended := True\<rparr>))"
  by (cases sig; cases "cr_outcome s") (auto simp: timers_ok_def run_defs)

lemma timers_close: "timers_ok s \<Longrightarrow> cr_ended s \<Longrightarrow> timers_ok (on_close env code sig (s\<lparr>cr_closed := True\<rparr>))"
  by (cases sig; cases "cr_outcome s") (auto simp: timers_ok_def run_defs)

lemma timers_fallback: "timers_ok s \<Longrightarrow> cr_fallback s = Some args \<Longrightarrow> timers_ok (on_fallback env args s)"
  by (cases "snd args"; cases "cr_outcome s") (auto simp: timers_ok_def run_defs)

lemma timers_error: "timers_ok s \<Longrightarrow> \<not> cr_ended s \<Longrightarrow> timers_ok (on_error env m (s\<lparr>cr_ended := True\<rparr>))"
  by (cases "cr_outcome s") (auto simp: timers_ok_def run_defs)

lemma timers_wall: "timers_ok s \<Longrightarrow> cr_wall s \<Longrightarrow> timers_ok (on_wall_clock s)"
  by (cases "cr_outcome s") (auto simp: timers_ok_def run_defs)

lemma timers_sigkill: "timers_ok s \<Longrightarrow> cr_sigkill s \<Longrightarrow> timers_ok (on_sigkill_due s)"
  by (cases "cr_outcome s") (auto simp: timers_ok_def run_defs)

lemma timers_step: "run_on env s e = Some s' \<Longrightarrow> timers_ok s \<Longrightarrow> timers_ok s'"
  by (cases e)
    (auto simp: timers_exit timers_close timers_fallback timers_error timers_wall timers_sigkill
      split: if_split_asm option.splits)

lemma command_timers: "command_runs env tr s \<Longrightarrow> timers_ok s"
proof (induction rule: command_runs.induct)
  case spawned
  show ?case by (simp add: timers_ok_def started_def)
qed (rule timers_step)

definition outcome_explained :: "exec_env \<Rightarrow> run_event list \<Rightarrow> exec_outcome \<Rightarrow> bool" where
  "outcome_explained env tr out =
     (case out of
        CmdResult r \<Rightarrow>
          WallClock \<notin> set tr \<and> (\<exists>code. ChildExit code None \<in> set tr \<and> xr_exit r = default code 0) \<and>
          (\<exists>pre. prefix pre tr \<and> xr_stdout r = xe_decode env (take stdout_cap_bytes (stdout_of pre)) \<and>
             xr_truncated r = (stdout_cap_bytes < length (stdout_of pre)))
      | CmdFailure msg tail \<Rightarrow>
          length tail \<le> stderr_tail_chars \<and>
          (WallClock \<in> set tr \<or> (\<exists>m. ChildError m \<in> set tr) \<or> (\<exists>code sig. ChildExit code (Some sig) \<in> set tr)))"

lemma length_last_bytes: "length (last_bytes n s) \<le> n"
  by (simp add: last_bytes_def)

lemma explained_extend:
  "outcome_explained env tr out \<Longrightarrow> e \<noteq> WallClock \<Longrightarrow> outcome_explained env (tr @ [e]) out"
proof (cases out)
  case (CmdResult r)
  assume "outcome_explained env tr out" "e \<noteq> WallClock"
  with CmdResult show ?thesis unfolding outcome_explained_def
    by (simp add: prefix_snoc) blast
next
  case (CmdFailure m t)
  assume "outcome_explained env tr out"
  with CmdFailure show ?thesis unfolding outcome_explained_def by simp blast
qed

lemma resolved_explained:
  assumes "output_kept (stdout_of tr) err s" "cr_outcome s = None" "cr_timed_out s \<longleftrightarrow> WallClock \<in> set tr"
    and "ChildExit code sig \<in> set tr" and "cr_outcome (resolve_from_exit env code sig s) = Some out"
    and "e \<noteq> WallClock"
  shows "outcome_explained env (tr @ [e]) out"
proof (rule explained_extend [OF _ assms(6)])
  have kept: "concat (cr_chunks s) = take stdout_cap_bytes (stdout_of tr)"
      "cr_truncated s = (stdout_cap_bytes < length (stdout_of tr))"
    using assms(1) by (simp_all add: output_kept_def)
  show "outcome_explained env tr out"
  proof (cases "cr_timed_out s")
    case True
    with assms(2,3,5) show ?thesis
      by (auto simp: outcome_explained_def resolve_from_exit_def finish_def clear_timers_def stderr_tail_string_def
          length_last_bytes)
  next
    case nt: False
    show ?thesis
    proof (cases sig)
      case None
      with nt assms(2,5) have out: "out = CmdResult \<lparr>xr_stdout = xe_decode env (take stdout_cap_bytes (stdout_of tr)),
          xr_exit = default code 0, xr_truncated = (stdout_cap_bytes < length (stdout_of tr))\<rparr>"
        by (simp add: resolve_from_exit_def finish_def clear_timers_def kept)
      have "ChildExit code None \<in> set tr \<and> default code 0 = default code (0::nat)" "prefix tr tr"
        using None assms(4) by simp_all
      with nt assms(3) show ?thesis unfolding out outcome_explained_def by auto
    next
      case (Some g)
      with nt assms(2,4,5) show ?thesis
        by (auto simp: outcome_explained_def resolve_from_exit_def finish_def clear_timers_def stderr_tail_string_def
            length_last_bytes)
    qed
  qed
qed

definition run_explained :: "exec_env \<Rightarrow> run_event list \<Rightarrow> command_run \<Rightarrow> bool" where
  "run_explained env tr s =
     ((cr_timed_out s \<longleftrightarrow> WallClock \<in> set tr) \<and>
      (\<forall>code sig. cr_fallback s = Some (code, sig) \<longrightarrow> ChildExit code sig \<in> set tr) \<and>
      (\<forall>out. cr_outcome s = Some out \<longrightarrow> outcome_explained env tr out))"

lemma run_explained_same:
  "run_explained env tr s \<Longrightarrow> e \<noteq> WallClock \<Longrightarrow> cr_timed_out s' = cr_timed_out s \<Longrightarrow>
     cr_fallback s' = cr_fallback s \<Longrightarrow> cr_outcome s' = cr_outcome s \<Longrightarrow> run_explained env (tr @ [e]) s'"
  by (simp add: run_explained_def explained_extend)

lemma run_explained_resolve:
  assumes "run_explained env tr s" "output_kept (stdout_of tr) err s" "cr_outcome s = None"
    and "ChildExit code sig \<in> set tr" "e \<noteq> WallClock"
  shows "run_explained env (tr @ [e]) (resolve_from_exit env code sig s)"
proof -
  have "cr_timed_out (resolve_from_exit env code sig s) = cr_timed_out s"
      "cr_fallback (resolve_from_exit env code sig s) = None"
    using assms(3) by (auto simp: resolve_from_exit_def finish_def clear_timers_def split: option.splits)
  then show ?thesis
    using assms resolved_explained [OF assms(2,3) _ assms(4) _ assms(5)] by (auto simp: run_explained_def)
qed

lemma run_explained_step:
  assumes run: "run_on env s e = Some s'" and ex: "run_explained env tr s"
    and kept: "output_kept (stdout_of tr) (stderr_of tr) s" and ok: "timers_ok s"
  shows "run_explained env (tr @ [e]) s'"
proof (cases e)
  case (StreamsClosed code sig)
  show ?thesis
  proof (cases "cr_outcome s")
    case None
    with run StreamsClosed ok have "cr_fallback s = Some (code, sig)"
      by (auto simp: timers_ok_def split: if_split_asm)
    then have "ChildExit code sig \<in> set tr" using ex by (simp add: run_explained_def)
    moreover have "run_explained env tr (s\<lparr>cr_closed := True\<rparr>)" using ex by (simp add: run_explained_def)
    ultimately have "run_explained env (tr @ [e]) (resolve_from_exit env code sig (s\<lparr>cr_closed := True\<rparr>))"
      using kept None StreamsClosed by (intro run_explained_resolve [where err = "stderr_of tr"]) simp_all
    with run StreamsClosed None show ?thesis by (simp add: on_close_def split: if_split_asm)
  next
    case (Some x)
    with run StreamsClosed have "s' = s\<lparr>cr_closed := True\<rparr>" by (simp add: on_close_def split: if_split_asm)
    with ex StreamsClosed show ?thesis by (auto intro: run_explained_same)
  qed
next
  case (ChildExit code sig)
  with run ok have ended: "\<not> cr_ended s" "cr_outcome s = None" "cr_fallback s = None"
    and s': "s' = on_exit env code sig (s\<lparr>cr_ended := True\<rparr>)"
    by (auto simp: timers_ok_def split: if_split_asm)
  show ?thesis
  proof (cases "cr_timed_out s")
    case True
    then have "WallClock \<in> set tr" using ex by (simp add: run_explained_def)
    with True ended ChildExit s' show ?thesis
      by (simp add: run_explained_def run_defs outcome_explained_def stderr_tail_string_def length_last_bytes)
  next
    case False
    with ended ex ChildExit s' show ?thesis by (simp add: run_explained_def on_exit_def)
  qed
next
  case CloseFallback
  then obtain code sig where f: "cr_fallback s = Some (code, sig)" and s': "s' = on_fallback env (code, sig) s"
    using run by (auto split: option.splits)
  with ok have none: "cr_outcome s = None" by (auto simp: timers_ok_def)
  have "run_explained env tr (s\<lparr>cr_fallback := None\<rparr>)" "ChildExit code sig \<in> set tr"
    using ex f by (simp_all add: run_explained_def)
  moreover have "output_kept (stdout_of tr) (stderr_of tr) (s\<lparr>cr_fallback := None\<rparr>)"
    using kept by (simp add: output_kept_def)
  ultimately show ?thesis using CloseFallback none s'
    by (auto simp: on_fallback_def intro!: run_explained_resolve)
next
  case (ChildError m)
  with run ok have "cr_outcome s = None" and s': "s' = on_error env m (s\<lparr>cr_ended := True\<rparr>)"
    by (auto simp: timers_ok_def split: if_split_asm)
  with ex ChildError show ?thesis
    by (auto simp: run_explained_def run_defs outcome_explained_def stderr_tail_string_def length_last_bytes)
next
  case WallClock
  with run ok have "cr_outcome s = None" and s': "s' = on_wall_clock s"
    by (auto simp: timers_ok_def split: if_split_asm)
  with ex WallClock show ?thesis by (simp add: run_explained_def on_wall_clock_def)
next
  case SigkillDue
  with run ex show ?thesis
    by (auto simp: on_sigkill_due_def split: if_split_asm intro: run_explained_same)
next
  case (StdoutData c)
  with run ex show ?thesis
    by (auto simp: on_stdout_def Let_def split: if_split_asm intro: run_explained_same)
next
  case (StderrData c)
  with run ex show ?thesis
    by (auto simp: on_stderr_last split: if_split_asm intro: run_explained_same)
qed

lemma command_explained: "command_runs env tr s \<Longrightarrow> run_explained env tr s"
proof (induction rule: command_runs.induct)
  case spawned
  show ?case by (simp add: run_explained_def started_def)
next
  case (event tr s e s')
  from run_explained_step [OF event.hyps(2) event.IH command_output_kept [OF event.hyps(1)]
      command_timers [OF event.hyps(1)]] show ?case .
qed

text \<open>
  What a spawned command returns is what happened. A result has the exit code of a child that ended
  by itself before any timeout, and its standard output is the head, up to the cap, of what the child
  had written, marked as truncated exactly when more was written. A failure means a timeout, a
  failed spawn or a foreign signal, and carries at most the tail of standard error. The memory
  held for the output stays within the caps however much is written.
\<close>

lemma command_outcome_explained:
  assumes "command_runs env tr s"
  shows "(\<forall>out. cr_outcome s = Some out \<longrightarrow> outcome_explained env tr out) \<and>
    length (concat (cr_chunks s)) \<le> stdout_cap_bytes \<and> length (cr_stderr s) \<le> stderr_retention_cap_bytes"
  using command_explained [OF assms] command_output_kept [OF assms]
  by (simp add: run_explained_def output_kept_def length_last_bytes)

text \<open>A command that ended by itself disarms the wall clock for good.\<close>

lemma no_timeout_after_exit:
  assumes "command_runs env tr s" "cr_ended s" "e = WallClock"
  shows "run_on env s e = None"
  using command_timers [OF assms(1)] assms(2,3) by (auto simp: timers_ok_def)

text \<open>
  C28: a spawned command always returns, and its process group is always reaped. As long as the child
  runs, either the wall clock is armed or the group has been signalled; once the child has ended the
  call has returned or the fallback timer is armed and returns it; and after a timeout the group
  has been sent SIGTERM and, as soon as no timer is left, SIGKILL, also where the call returned before.
\<close>

theorem command_always_returns:
  assumes "command_runs env tr s"
  shows "(cr_ended s \<longrightarrow> cr_outcome s \<noteq> None \<or>
      (\<exists>s'. run_on env s CloseFallback = Some s' \<and> cr_outcome s' \<noteq> None)) \<and>
    (\<not> cr_ended s \<longrightarrow> cr_wall s \<or> SigTerm \<in> set (cr_signals s)) \<and>
    (WallClock \<in> set tr \<and> \<not> cr_sigkill s \<longrightarrow> cr_signals s = [SigTerm, SigKill])"
proof -
  have ok: "timers_ok s" by (rule command_timers [OF assms])
  have timed: "WallClock \<in> set tr \<longleftrightarrow> cr_timed_out s"
    using assms
  proof (induction rule: command_runs.induct)
    case (event tr s e s')
    then show ?case
      by (cases e) (auto simp: run_defs on_stdout_def on_stderr_def Let_def split: if_splits option.splits)
  qed (simp add: started_def)
  have "cr_outcome (on_fallback env args s) \<noteq> None" for args
    by (auto simp: run_defs split: option.splits)
  with ok timed show ?thesis
    by (auto simp: timers_ok_def split: option.splits)
qed


section \<open>Two runs\<close>

definition demo_exec :: exec_env where
  "demo_exec = \<lparr>xe_timeout_ms = 1000, xe_show_ms = (\<lambda>n. show_nat (nat n)), xe_decode = (\<lambda>s. s)\<rparr>"

definition demo_lingering :: "run_event list" where
  "demo_lingering = [StdoutData ''ok'', ChildExit (Some 0) None, CloseFallback]"

definition demo_timeout :: "run_event list" where
  "demo_timeout = [WallClock, ChildExit None (Some ''SIGTERM''), SigkillDue]"

fun run_all :: "exec_env \<Rightarrow> command_run \<Rightarrow> run_event list \<Rightarrow> command_run option" where
  "run_all env s [] = Some s"
| "run_all env s (e # es) = (case run_on env s e of None \<Rightarrow> None | Some s' \<Rightarrow> run_all env s' es)"

lemma run_all_runs: "command_runs env tr s \<Longrightarrow> run_all env s es = Some s' \<Longrightarrow> command_runs env (tr @ es) s'"
proof (induction es arbitrary: tr s)
  case (Cons e es)
  then obtain s1 where "run_on env s e = Some s1" "run_all env s1 es = Some s'"
    by (auto split: option.splits)
  with Cons.IH [OF command_runs.event [OF Cons.prems(1)]] show ?case by simp
qed simp

lemma demo_lingering_runs:
  "\<exists>s. command_runs demo_exec demo_lingering s \<and>
     cr_outcome s = Some (CmdResult \<lparr>xr_stdout = ''ok'', xr_exit = 0, xr_truncated = False\<rparr>)"
proof -
  have "case run_all demo_exec started demo_lingering of
      Some s \<Rightarrow> cr_outcome s = Some (CmdResult \<lparr>xr_stdout = ''ok'', xr_exit = 0, xr_truncated = False\<rparr>)
    | None \<Rightarrow> False"
    by (simp add: demo_lingering_def demo_exec_def started_def on_stdout_def on_exit_def on_fallback_def
        resolve_from_exit_def finish_def clear_timers_def stdout_cap_bytes_def)
  then show ?thesis
    using run_all_runs [OF command_runs.spawned, of demo_exec demo_lingering] by (auto split: option.splits)
qed

lemma demo_timeout_runs:
  "\<exists>s. command_runs demo_exec demo_timeout s \<and> cr_ended s \<and> \<not> cr_sigkill s \<and> cr_outcome s \<noteq> None"
proof -
  have "case run_all demo_exec started demo_timeout of
      Some s \<Rightarrow> cr_ended s \<and> \<not> cr_sigkill s \<and> cr_outcome s \<noteq> None | None \<Rightarrow> False"
    by (simp add: demo_timeout_def demo_exec_def started_def on_wall_clock_def on_exit_def on_sigkill_due_def
        resolve_from_exit_def finish_def clear_timers_def)
  then show ?thesis
    using run_all_runs [OF command_runs.spawned, of demo_exec demo_timeout] by (auto split: option.splits)
qed

lemma command_outcome_explained_witness:
  "outcome_explained demo_exec demo_lingering
     (CmdResult \<lparr>xr_stdout = ''ok'', xr_exit = 0, xr_truncated = False\<rparr>)"
  using demo_lingering_runs command_outcome_explained by blast

lemma command_always_returns_witness:
  "\<exists>s. command_runs demo_exec demo_timeout s \<and> cr_signals s = [SigTerm, SigKill]"
proof -
  obtain s where s: "command_runs demo_exec demo_timeout s" "\<not> cr_sigkill s"
    using demo_timeout_runs by blast
  have "WallClock \<in> set demo_timeout" by (simp add: demo_timeout_def)
  with command_always_returns [OF s(1)] s show ?thesis by blast
qed

end
