(* ===== verification/AM_CommandSource.thy ===== *)
theory AM_CommandSource
  imports AM_CommandRun AM_Path AM_Tick AM_KeyedCollection
begin

text \<open>
  The command source, \<open>plugins/source-command-poll/src/index.ts\<close>: its configuration, the comparison
  of two outputs under each strategy, the state it persists, and one observation of a command. The
  spawned command is \<open>AM_CommandRun\<close>; here an observation is given its outcome. \<open>JSON.parse\<close> and
  the grapheme segmenter are arguments.

  The property is the meaning of a whole history of runs: an observation reports an edge between
  failing and working exactly where there is one, and a change exactly where the output differs
  from the last output that was produced, however many failures lie between.
\<close>

section \<open>Configuration\<close>

datatype change_strategy = TextDiff | JsonDiff | ExitCode

datatype command_error =
    CommandNotArgv bool
  | IgnorePathsNotStrings
  | IgnorePathsNeedJsonDiff
  | CollectionRejected collection_error
  | CollectionNeedsJsonDiff
  | TimeoutRejected duration_error
  | EmptyPathSegment string
  | UnsupportedPathSegment string string
  | OutputNotJson

record command_scope =
  cs_command :: "string list"
  cs_cwd :: "string option"
  cs_env :: "(string \<times> string) list option"
  cs_timeout_ms :: ms
  cs_object_key :: string
  cs_strategy :: change_strategy
  cs_ignore_paths :: "string list"
  cs_collection :: "collection_config option"

definition parse_top_level_ignore_paths :: "json option \<Rightarrow> command_error + string list" where
  "parse_top_level_ignore_paths cd =
     (case Option.bind cd (\<lambda>v. jfield v ''ignore-paths'') of
        None \<Rightarrow> Inr []
      | Some (JArr vs) \<Rightarrow> (case all_strings vs of None \<Rightarrow> Inl IgnorePathsNotStrings | Some ps \<Rightarrow> Inr ps)
      | Some _ \<Rightarrow> Inl IgnorePathsNotStrings)"

definition strategy_of :: "json option \<Rightarrow> change_strategy" where
  "strategy_of cd =
     (case Option.bind cd (\<lambda>v. jfield v ''strategy'') of
        Some (JStr s) \<Rightarrow> if s = ''json-diff'' then JsonDiff else if s = ''exit-code'' then ExitCode else TextDiff
      | _ \<Rightarrow> TextDiff)"

definition argv_of :: "json option \<Rightarrow> command_error + string list" where
  "argv_of command =
     (case command of
        Some (JArr vs) \<Rightarrow>
          (case all_strings vs of
             Some (c # cs) \<Rightarrow> Inr (c # cs) | _ \<Rightarrow> Inl (CommandNotArgv False))
      | Some (JStr s) \<Rightarrow> Inl (CommandNotArgv True)
      | _ \<Rightarrow> Inl (CommandNotArgv False))"

fun string_values :: "(string \<times> json) list \<Rightarrow> (string \<times> string) list option" where
  "string_values [] = Some []"
| "string_values ((k, JStr s) # kvs) = map_option ((#) (k, s)) (string_values kvs)"
| "string_values ((k, v) # kvs) = None"

definition env_of :: "json option \<Rightarrow> (string \<times> string) list option" where
  "env_of raw = (case raw of Some (JObj kvs) \<Rightarrow> string_values kvs | _ \<Rightarrow> None)"

definition text_field :: "(string \<times> json) list \<Rightarrow> string \<Rightarrow> string option" where
  "text_field kvs k = (case map_of kvs k of Some (JStr s) \<Rightarrow> Some s | _ \<Rightarrow> None)"

definition parse_command_scope :: "(string \<times> json) list \<Rightarrow> command_error + command_scope" where
  "parse_command_scope config =
     (case argv_of (map_of config ''command'') of
        Inl e \<Rightarrow> Inl e
      | Inr command \<Rightarrow>
          (let cd = map_of config ''change-detection''; strategy = strategy_of cd in
           case parse_top_level_ignore_paths cd of
             Inl e \<Rightarrow> Inl e
           | Inr ignore_paths \<Rightarrow>
               if 0 < length ignore_paths \<and> strategy \<noteq> JsonDiff then Inl IgnorePathsNeedJsonDiff
               else (case parse_collection_config cd of
                   Inl e \<Rightarrow> Inl (CollectionRejected e)
                 | Inr collection \<Rightarrow>
                     if collection \<noteq> None \<and> strategy \<noteq> JsonDiff then Inl CollectionNeedsJsonDiff
                     else (case parse_operation_timeout_ms (map_of config ''timeout'') of
                         Inl e \<Rightarrow> Inl (TimeoutRejected e)
                       | Inr timeout \<Rightarrow>
                           Inr \<lparr>cs_command = command, cs_cwd = text_field config ''cwd'',
                             cs_env = env_of (map_of config ''env''), cs_timeout_ms = timeout,
                             cs_object_key = default (non_empty_string (map_of config ''key'')) (join '' '' command),
                             cs_strategy = strategy, cs_ignore_paths = ignore_paths,
                             cs_collection = collection\<rparr>))))"

definition resolve_cwd :: "string \<Rightarrow> string option \<Rightarrow> string option \<Rightarrow> string option" where
  "resolve_cwd here cwd workspace =
     (case cwd of
        None \<Rightarrow> workspace
      | Some c \<Rightarrow>
          if is_absolute c then Some c
          else (case workspace of None \<Rightarrow> Some c | Some w \<Rightarrow> Some (path_resolve here w c)))"

section \<open>Ignored paths\<close>

definition normalize_json_path :: "string \<Rightarrow> string" where
  "normalize_json_path p = (if p = ''$'' \<or> take 2 p = ''$.'' then p else ''$.'' @ p)"

definition valid_json_path_segment :: "string \<Rightarrow> string \<Rightarrow> command_error option" where
  "valid_json_path_segment p seg =
     (if seg = [] then Some (EmptyPathSegment p)
      else if list_ex (\<lambda>c. c \<in> set ''.[]*?'') seg then Some (UnsupportedPathSegment p seg)
      else None)"

text \<open>
  The own property of an object or array, its deletion and its replacement. Deleting an array's
  element leaves a hole, which prints as \<open>null\<close>.
\<close>

definition own_property :: "json \<Rightarrow> string \<Rightarrow> json option" where
  "own_property v k =
     (case v of
        JObj kvs \<Rightarrow> map_of kvs k
      | JArr vs \<Rightarrow> if is_index k \<and> digits_val k < length vs then Some (vs ! digits_val k)
          else if k = ''length'' then Some (JNum (show_nat (length vs))) else None
      | _ \<Rightarrow> None)"

definition delete_property :: "json \<Rightarrow> string \<Rightarrow> json" where
  "delete_property v k =
     (case v of
        JObj kvs \<Rightarrow> JObj (filter (\<lambda>(j, _). j \<noteq> k) kvs)
      | JArr vs \<Rightarrow> if is_index k \<and> digits_val k < length vs then JArr (vs[digits_val k := JNull]) else v
      | _ \<Rightarrow> v)"

definition replace_property :: "json \<Rightarrow> string \<Rightarrow> json \<Rightarrow> json" where
  "replace_property v k w =
     (case v of
        JObj kvs \<Rightarrow> JObj (map_set kvs k w)
      | JArr vs \<Rightarrow> if is_index k \<and> digits_val k < length vs then JArr (vs[digits_val k := w]) else v
      | _ \<Rightarrow> v)"

definition is_object :: "json \<Rightarrow> bool" where
  "is_object v = (case v of JObj _ \<Rightarrow> True | JArr _ \<Rightarrow> True | _ \<Rightarrow> False)"

fun remove_json_segments :: "string \<Rightarrow> json \<Rightarrow> string list \<Rightarrow> command_error + json" where
  "remove_json_segments p v [] = Inr v"
| "remove_json_segments p v [seg] =
     (case valid_json_path_segment p seg of Some e \<Rightarrow> Inl e | None \<Rightarrow> Inr (delete_property v seg))"
| "remove_json_segments p v (seg # segs) =
     (case valid_json_path_segment p seg of
        Some e \<Rightarrow> Inl e
      | None \<Rightarrow>
          if \<not> is_object v then Inr v
          else (case own_property v seg of
              None \<Rightarrow> Inr v
            | Some w \<Rightarrow>
                (case remove_json_segments p w segs of
                   Inl e \<Rightarrow> Inl e | Inr w' \<Rightarrow> Inr (replace_property v seg w'))))"

definition remove_json_path :: "json \<Rightarrow> string \<Rightarrow> command_error + json" where
  "remove_json_path v p =
     (let normalized = normalize_json_path p in
      if normalized = ''$'' then Inr v
      else remove_json_segments p v (split_on (CHR ''.'') (drop 2 normalized)))"

fun strip_ignored_json_paths :: "json \<Rightarrow> string list \<Rightarrow> command_error + json" where
  "strip_ignored_json_paths v [] = Inr v"
| "strip_ignored_json_paths v (p # ps) =
     (case remove_json_path v p of Inl e \<Rightarrow> Inl e | Inr w \<Rightarrow> strip_ignored_json_paths w ps)"

section \<open>Comparing two results\<close>

text \<open>\<open>cm_parse\<close> is \<open>JSON.parse\<close>, \<open>None\<close> where it throws.\<close>

record command_env =
  cm_parse :: "string \<Rightarrow> json option"
  cm_graphemes :: "string \<Rightarrow> string list"

definition comparable_text :: "json \<Rightarrow> string list \<Rightarrow> command_error + string" where
  "comparable_text v ignore =
     (case strip_ignored_json_paths v ignore of Inl e \<Rightarrow> Inl e | Inr w \<Rightarrow> Inr (json_text (sort_keys w)))"

definition has_changed :: "command_env \<Rightarrow> change_strategy \<Rightarrow> string list \<Rightarrow> string \<times> string \<Rightarrow> string \<times> string \<Rightarrow>
    command_error + bool" where
  "has_changed env strategy ignore prev cur =
     (case strategy of
        ExitCode \<Rightarrow> Inr (snd prev \<noteq> snd cur)
      | TextDiff \<Rightarrow> Inr (fst prev \<noteq> fst cur)
      | JsonDiff \<Rightarrow>
          (case (cm_parse env (fst prev), cm_parse env (fst cur)) of
             (Some p, Some c) \<Rightarrow>
               (case comparable_text p ignore of
                  Inl e \<Rightarrow> Inl e
                | Inr a \<Rightarrow> (case comparable_text c ignore of Inl e \<Rightarrow> Inl e | Inr b \<Rightarrow> Inr (a \<noteq> b)))
           | _ \<Rightarrow> Inr (fst prev \<noteq> fst cur)))"

section \<open>The persisted state\<close>

text \<open>An exit code is kept as the text of the JSON number.\<close>

record command_state =
  ks_stdout :: string
  ks_exit :: string
  ks_truncated :: bool
  ks_failing :: bool
  ks_baselined :: bool
  ks_keyed :: "(string \<times> json) list option"

definition command_state_json :: "command_state \<Rightarrow> json" where
  "command_state_json s =
     JObj ([(''stdout'', JStr (ks_stdout s)), (''exitCode'', JNum (ks_exit s)),
        (''truncated'', JBool (ks_truncated s)),
        (''health'', JStr (if ks_failing s then ''failing'' else ''ok'')),
        (''baselined'', JBool (ks_baselined s))] @
       (case ks_keyed s of None \<Rightarrow> [] | Some kvs \<Rightarrow> [(''keyedSnapshot'', JObj kvs)]))"

definition read_command_state :: "json option \<Rightarrow> command_state option" where
  "read_command_state v =
     (case v of
        Some (JObj kvs) \<Rightarrow>
          (case (map_of kvs ''stdout'', map_of kvs ''exitCode'', map_of kvs ''truncated'',
              map_of kvs ''health'', map_of kvs ''baselined'') of
             (Some (JStr out), Some (JNum code), Some (JBool t), Some (JStr health), Some (JBool b)) \<Rightarrow>
               if health = ''ok'' \<or> health = ''failing'' then
                 Some \<lparr>ks_stdout = out, ks_exit = code, ks_truncated = t, ks_failing = (health = ''failing''),
                   ks_baselined = b,
                   ks_keyed = (case map_of kvs ''keyedSnapshot'' of Some (JObj snap) \<Rightarrow> Some snap | _ \<Rightarrow> None)\<rparr>
               else None
           | _ \<Rightarrow> None)
      | _ \<Rightarrow> None)"

lemma read_command_state_json [simp]: "read_command_state (Some (command_state_json s)) = Some s"
  by (cases s) (auto simp: read_command_state_def command_state_json_def split: option.splits)

section \<open>Observations\<close>

fun strategy_text :: "change_strategy \<Rightarrow> string" where
  "strategy_text TextDiff = ''text-diff''"
| "strategy_text JsonDiff = ''json-diff''"
| "strategy_text ExitCode = ''exit-code''"

definition argv_json :: "command_scope \<Rightarrow> json" where
  "argv_json sc = JArr (map JStr (cs_command sc))"

definition command_observation :: "command_env \<Rightarrow> command_scope \<Rightarrow> string \<Rightarrow> (string \<times> json) list \<Rightarrow> observation" where
  "command_observation env sc label extra =
     (let title = label @ '': '' @ display_object_key (cm_graphemes env) (cs_object_key sc) in
      \<lparr>o_title = title, o_body = None, o_summary = Some title,
        o_payload = Some (JObj ((''command'', argv_json sc) # extra)), o_snapshot_text = None,
        o_object_key = Some (cs_object_key sc), o_scope = Some [(''command'', SOne (cs_object_key sc))],
        o_change = Some Modified, o_salience = None, o_snapshot = None\<rparr>)"

definition changed_observation :: "command_env \<Rightarrow> command_scope \<Rightarrow> exec_result \<Rightarrow> observation" where
  "changed_observation env sc r =
     (command_observation env sc ''Command output changed''
        [(''exitCode'', JNum (show_nat (xr_exit r))), (''strategy'', JStr (strategy_text (cs_strategy sc))),
         (''stdout'', JStr (xr_stdout r)), (''truncated'', JBool (xr_truncated r))])
      \<lparr>o_snapshot_text := Some (xr_stdout r),
       o_snapshot := Some (JObj [(''command'', argv_json sc), (''exitCode'', JNum (show_nat (xr_exit r))),
         (''stdoutLength'', JNum (show_nat (length (xr_stdout r)))),
         (''strategy'', JStr (strategy_text (cs_strategy sc)))])\<rparr>"

definition failing_observation :: "command_env \<Rightarrow> command_scope \<Rightarrow> string \<Rightarrow> string \<Rightarrow> observation" where
  "failing_observation env sc error tail =
     command_observation env sc ''Command failing'' [(''error'', JStr error), (''stderrTail'', JStr tail)]"

definition recovered_observation :: "command_env \<Rightarrow> command_scope \<Rightarrow> observation" where
  "recovered_observation env sc = command_observation env sc ''Command recovered'' []"

section \<open>One observation\<close>

definition command_context :: "command_env \<Rightarrow> command_scope \<Rightarrow> keyed_context" where
  "command_context env sc = \<lparr>kc_graphemes = cm_graphemes env, kc_object_key = cs_object_key sc,
     kc_display = cs_object_key sc, kc_payload = [(''command'', argv_json sc)],
     kc_scope = [(''command'', SOne (cs_object_key sc))]\<rparr>"

definition command_result :: "observation list \<Rightarrow> command_state \<Rightarrow> observed" where
  "command_result obs s = \<lparr>ob_observations = obs, ob_next = Some (command_state_json s), ob_outcome = None\<rparr>"

definition observe_failure :: "command_env \<Rightarrow> command_scope \<Rightarrow> command_state option \<Rightarrow> string \<Rightarrow> string \<Rightarrow> observed" where
  "observe_failure env sc prev error tail =
     command_result
       (if map_option ks_failing prev = Some True then [] else [failing_observation env sc error tail])
       \<lparr>ks_stdout = default (map_option ks_stdout prev) [],
        ks_exit = default (map_option ks_exit prev) ''0'',
        ks_truncated = default (map_option ks_truncated prev) False,
        ks_failing = True,
        ks_baselined = default (map_option ks_baselined prev) False,
        ks_keyed = Option.bind prev ks_keyed\<rparr>"

definition ok_state :: "exec_result \<Rightarrow> (string \<times> json) list option \<Rightarrow> command_state" where
  "ok_state r keyed = \<lparr>ks_stdout = xr_stdout r, ks_exit = show_nat (xr_exit r), ks_truncated = xr_truncated r,
     ks_failing = False, ks_baselined = True, ks_keyed = keyed\<rparr>"

definition observe_result :: "command_env \<Rightarrow> command_scope \<Rightarrow> command_state option \<Rightarrow> exec_result \<Rightarrow>
    command_error + observed" where
  "observe_result env sc prev r =
     (let recovered = (if map_option ks_failing prev = Some True then [recovered_observation env sc] else []);
          had_baseline = default (map_option ks_baselined prev) False in
      case cs_collection sc of
        Some cfg \<Rightarrow>
          (case cm_parse env (xr_stdout r) of
             None \<Rightarrow> Inl OutputNotJson
           | Some parsed \<Rightarrow>
               (case diff_keyed_collection (command_context env sc) parsed cfg
                   (if had_baseline then Option.bind prev ks_keyed else None) of
                  Inl e \<Rightarrow> Inl (CollectionRejected e)
                | Inr (obs, snap) \<Rightarrow> Inr (command_result (recovered @ obs) (ok_state r (Some snap)))))
      | None \<Rightarrow>
          (case prev of
             Some p \<Rightarrow>
               if \<not> had_baseline then Inr (command_result recovered (ok_state r None))
               else (case has_changed env (cs_strategy sc) (cs_ignore_paths sc) (ks_stdout p, ks_exit p)
                   (xr_stdout r, show_nat (xr_exit r)) of
                  Inl e \<Rightarrow> Inl e
                | Inr changed \<Rightarrow>
                    Inr (command_result (recovered @ (if changed then [changed_observation env sc r] else []))
                      (ok_state r None)))
           | None \<Rightarrow> Inr (command_result recovered (ok_state r None))))"

definition command_observe :: "command_env \<Rightarrow> (command_scope \<Rightarrow> string option \<Rightarrow> exec_outcome) \<Rightarrow> string \<Rightarrow>
    (string \<times> json) list \<Rightarrow> json option \<Rightarrow> string option \<Rightarrow> command_error + observed" where
  "command_observe env run here config state workspace =
     (case parse_command_scope config of
        Inl e \<Rightarrow> Inl e
      | Inr sc \<Rightarrow>
          (let prev = read_command_state state in
           case run sc (resolve_cwd here (cs_cwd sc) workspace) of
             CmdFailure error tail \<Rightarrow> Inr (observe_failure env sc prev error tail)
           | CmdResult r \<Rightarrow> observe_result env sc prev r))"

section \<open>The meaning of a history\<close>

text \<open>
  The reference: the whole list of outcomes so far. A state is what that list says it is, and an
  observation reports what the list and the new outcome say.
\<close>

fun last_result :: "exec_outcome list \<Rightarrow> exec_result option" where
  "last_result [] = None"
| "last_result (CmdResult r # outs) = or_else (last_result outs) (Some r)"
| "last_result (CmdFailure e t # outs) = last_result outs"

definition last_failed :: "exec_outcome list \<Rightarrow> bool" where
  "last_failed outs = (case rev outs of CmdFailure _ _ # _ \<Rightarrow> True | _ \<Rightarrow> False)"

definition snapshot_of :: "command_env \<Rightarrow> command_scope \<Rightarrow> exec_result \<Rightarrow> (string \<times> json) list option" where
  "snapshot_of env sc r =
     Option.bind (cs_collection sc) (\<lambda>cfg. Option.bind (cm_parse env (xr_stdout r)) (\<lambda>parsed.
       case diff_keyed_collection (command_context env sc) parsed cfg None of
         Inr (_, snap) \<Rightarrow> Some snap | Inl _ \<Rightarrow> None))"

definition history_state :: "command_env \<Rightarrow> command_scope \<Rightarrow> exec_outcome list \<Rightarrow> command_state option" where
  "history_state env sc outs =
     (if outs = [] then None
      else Some (case last_result outs of
          None \<Rightarrow> \<lparr>ks_stdout = [], ks_exit = ''0'', ks_truncated = False, ks_failing = last_failed outs,
            ks_baselined = False, ks_keyed = None\<rparr>
        | Some r \<Rightarrow> (ok_state r (snapshot_of env sc r))\<lparr>ks_failing := last_failed outs\<rparr>))"

definition changes_between :: "command_env \<Rightarrow> command_scope \<Rightarrow> exec_result \<Rightarrow> exec_result \<Rightarrow> observation list" where
  "changes_between env sc r0 r =
     (if cs_collection sc = None then
        (if has_changed env (cs_strategy sc) (cs_ignore_paths sc) (xr_stdout r0, show_nat (xr_exit r0))
             (xr_stdout r, show_nat (xr_exit r)) = Inr True
         then [changed_observation env sc r] else [])
      else (case (snapshot_of env sc r0, snapshot_of env sc r) of
          (Some before, Some now) \<Rightarrow> keyed_changes (command_context env sc) now before
        | _ \<Rightarrow> []))"

definition expected_report :: "command_env \<Rightarrow> command_scope \<Rightarrow> exec_outcome list \<Rightarrow> exec_outcome \<Rightarrow> observation list" where
  "expected_report env sc outs out =
     (case out of
        CmdFailure e t \<Rightarrow> if last_failed outs then [] else [failing_observation env sc e t]
      | CmdResult r \<Rightarrow>
          (if last_failed outs then [recovered_observation env sc] else []) @
          (case last_result outs of None \<Rightarrow> [] | Some r0 \<Rightarrow> changes_between env sc r0 r))"

lemma last_result_snoc [simp]:
  "last_result (outs @ [CmdResult r]) = Some r" "last_result (outs @ [CmdFailure e t]) = last_result outs"
  by (induction outs rule: last_result.induct) auto

lemma last_failed_snoc [simp]:
  "\<not> last_failed []" "last_failed [CmdFailure e t]" "\<not> last_failed (outs @ [CmdResult r])" "last_failed (outs @ [CmdFailure e t])"
  by (simp_all add: last_failed_def)

lemma diff_snapshot:
  "diff_keyed_collection ctx parsed cfg prev = Inr (obs, snap) \<Longrightarrow>
     diff_keyed_collection ctx parsed cfg None = Inr ([], snap) \<and>
     obs = (case prev of None \<Rightarrow> [] | Some p \<Rightarrow> keyed_changes ctx snap p)"
  by (auto simp: diff_keyed_collection_def split: sum.splits option.splits json.splits)

lemma history_failing: "map_option ks_failing (history_state env sc outs) = Some True \<longleftrightarrow> last_failed outs"
  by (auto simp: history_state_def ok_state_def split: option.splits)

lemma history_baselined:
  "default (map_option ks_baselined (history_state env sc outs)) False \<longleftrightarrow> last_result outs \<noteq> None"
  by (auto simp: history_state_def ok_state_def split: option.splits)

lemma history_keyed: "Option.bind (history_state env sc outs) ks_keyed = Option.bind (last_result outs) (snapshot_of env sc)"
  by (auto simp: history_state_def ok_state_def split: option.splits)

lemma observe_failure_history:
  "observe_failure env sc (history_state env sc outs) e t =
     command_result (expected_report env sc outs (CmdFailure e t)) (the (history_state env sc (outs @ [CmdFailure e t])))"
  unfolding observe_failure_def history_failing history_keyed
  by (auto simp: history_state_def expected_report_def ok_state_def split: option.splits)

lemma history_result: "the (history_state env sc (outs @ [CmdResult r])) = ok_state r (snapshot_of env sc r)"
  by (simp add: history_state_def ok_state_def)

lemma observe_result_history:
  assumes "observe_result env sc (history_state env sc outs) r = Inr res"
  shows "res = command_result (expected_report env sc outs (CmdResult r)) (the (history_state env sc (outs @ [CmdResult r])))"
proof (cases "cs_collection sc")
  case (Some cfg)
  then obtain parsed obs snap where parsed: "cm_parse env (xr_stdout r) = Some parsed"
    and d: "diff_keyed_collection (command_context env sc) parsed cfg
      (if last_result outs \<noteq> None then Option.bind (last_result outs) (snapshot_of env sc) else None) = Inr (obs, snap)"
    and res: "res = command_result ((if last_failed outs then [recovered_observation env sc] else []) @ obs) (ok_state r (Some snap))"
    using assms unfolding observe_result_def history_failing history_baselined history_keyed
    by (auto simp: Let_def split: option.splits sum.splits)
  have snap: "snapshot_of env sc r = Some snap"
    using diff_snapshot [OF d] Some parsed by (simp add: snapshot_of_def)
  have "obs = (case last_result outs of None \<Rightarrow> [] | Some r0 \<Rightarrow> changes_between env sc r0 r)"
    using diff_snapshot [OF d] snap Some by (auto simp: changes_between_def split: option.splits)
  with snap show ?thesis unfolding res history_result by (simp add: expected_report_def)
next
  case None
  then have snap: "snapshot_of env sc q = None" for q by (simp add: snapshot_of_def)
  show ?thesis
  proof (cases "last_result outs")
    case first: None
    then have nb: "\<not> default (map_option ks_baselined (history_state env sc outs)) False"
      by (simp add: history_baselined)
    have "res = command_result (if last_failed outs then [recovered_observation env sc] else []) (ok_state r None)"
      using assms nb unfolding observe_result_def history_failing None
      by (cases "history_state env sc outs") (simp_all add: Let_def)
    with first show ?thesis unfolding history_result snap by (simp add: expected_report_def)
  next
    case (Some r0)
    then have "outs \<noteq> []" by auto
    with Some have h: "history_state env sc outs = Some ((ok_state r0 None)\<lparr>ks_failing := last_failed outs\<rparr>)"
      by (simp add: history_state_def snap)
    from None Some assms show ?thesis
      unfolding history_result snap h
      by (auto simp: observe_result_def h ok_state_def expected_report_def changes_between_def Let_def
          split: sum.splits if_splits)
  qed
qed

text \<open>
  C27: What the command source reports and stores is determined by the outcomes of all its runs. A
  failure is reported only at the edge from working to failing and a recovery only at the edge
  back. A change is reported exactly where the output differs, under the configured comparison, from
  the last output the command produced, across any number of failures in between; the first output
  is a silent baseline, also where failures came before it.
\<close>

theorem command_source_reports_history:
  assumes "parse_command_scope config = Inr sc"
    and "command_observe env (\<lambda>_ _. out) here config
        (map_option command_state_json (history_state env sc outs)) workspace = Inr r"
  shows "ob_observations r = expected_report env sc outs out \<and>
    ob_next r = map_option command_state_json (history_state env sc (outs @ [out]))"
proof -
  have st: "read_command_state (map_option command_state_json (history_state env sc outs)) = history_state env sc outs"
  proof (cases "history_state env sc outs")
    case None
    then show ?thesis by (simp add: read_command_state_def)
  qed simp
  have r: "r = command_result (expected_report env sc outs out) (the (history_state env sc (outs @ [out])))"
  proof (cases out)
    case (CmdFailure e t)
    with assms st show ?thesis by (simp add: command_observe_def observe_failure_history)
  next
    case (CmdResult q)
    with assms st show ?thesis by (simp add: command_observe_def observe_result_history)
  qed
  have "history_state env sc (outs @ [out]) \<noteq> None" by (simp add: history_state_def)
  then show ?thesis by (auto simp: r command_result_def)
qed

section \<open>One history\<close>

definition demo_command_env :: command_env where
  "demo_command_env = \<lparr>cm_parse = (\<lambda>_. None), cm_graphemes = map (\<lambda>c. [c])\<rparr>"

definition demo_command_config :: "(string \<times> json) list" where
  "demo_command_config = [(''command'', JArr [JStr ''run''])]"

definition demo_command_scope :: command_scope where
  "demo_command_scope = \<lparr>cs_command = [''run''], cs_cwd = None, cs_env = None, cs_timeout_ms = 30000,
     cs_object_key = ''run'', cs_strategy = TextDiff, cs_ignore_paths = [], cs_collection = None\<rparr>"

definition demo_output :: "string \<Rightarrow> exec_result" where
  "demo_output text = \<lparr>xr_stdout = text, xr_exit = 0, xr_truncated = False\<rparr>"

definition demo_history :: "exec_outcome list" where
  "demo_history = [CmdResult (demo_output ''a''), CmdFailure ''gone'' [], CmdFailure ''gone'' []]"

lemma command_source_reports_history_witness:
  "\<exists>r. command_observe demo_command_env (\<lambda>_ _. CmdResult (demo_output ''b'')) ''/'' demo_command_config
       (map_option command_state_json (history_state demo_command_env demo_command_scope demo_history)) None = Inr r \<and>
     ob_observations r = [recovered_observation demo_command_env demo_command_scope,
       changed_observation demo_command_env demo_command_scope (demo_output ''b'')]"
proof -
  let ?st = "map_option command_state_json (history_state demo_command_env demo_command_scope demo_history)"
  let ?o = "command_observe demo_command_env (\<lambda>_ _. CmdResult (demo_output ''b'')) ''/'' demo_command_config ?st None"
  have scope: "parse_command_scope demo_command_config = Inr demo_command_scope"
    by code_simp
  have "case ?o of Inr _ \<Rightarrow> True | Inl _ \<Rightarrow> False" by code_simp
  then obtain r where r: "?o = Inr r" by (auto split: sum.splits)
  have e: "expected_report demo_command_env demo_command_scope demo_history (CmdResult (demo_output ''b'')) =
      [recovered_observation demo_command_env demo_command_scope,
       changed_observation demo_command_env demo_command_scope (demo_output ''b'')]"
    by (simp add: expected_report_def demo_history_def last_failed_def changes_between_def has_changed_def
        demo_command_scope_def demo_output_def)
  from command_source_reports_history [OF scope r] e r show ?thesis by simp
qed

end
