(* ===== verification/AM_WorkerPool.thy ===== *)
theory AM_WorkerPool
  imports AM_Prelude
begin

text \<open>
  The bounded worker pool \<open>plugins/source-api-poll/src/map-with-concurrency.ts\<close>. Up to \<open>limit\<close> workers
  share a cursor; each calls \<open>fn\<close> on the item it pulled and pulls the next one when the call
  settles. Which call settles next, and how, is the environment's choice: a run is any sequence of
  settlements of calls in flight. The property is that the pool is the sequential \<open>map\<close>: whatever
  the order, never more than \<open>limit\<close> calls are in flight, no item is called twice, the results
  come back in input order, and the first failure wins and ends the batch.
\<close>

section \<open>State\<close>

record ('r, 'e) pool =
  pl_next :: nat
  pl_flight :: "nat list"
  pl_results :: "nat \<Rightarrow> 'r option"
  pl_aborted :: bool
  pl_failure :: "'e option"

text \<open>All workers run synchronously to their first call, so the first items are in flight.\<close>

definition pool_start :: "nat \<Rightarrow> nat \<Rightarrow> ('r, 'e) pool" where
  "pool_start limit n =
     (let workers = min limit n in
      \<lparr>pl_next = workers, pl_flight = [0..<workers], pl_results = (\<lambda>_. None), pl_aborted = False,
        pl_failure = None\<rparr>)"

text \<open>One turn of the loop of a worker whose call has settled.\<close>

definition worker_next :: "nat \<Rightarrow> ('r, 'e) pool \<Rightarrow> ('r, 'e) pool" where
  "worker_next n p =
     (if pl_aborted p then p
      else if n \<le> pl_next p then p\<lparr>pl_next := pl_next p + 1\<rparr>
      else p\<lparr>pl_next := pl_next p + 1, pl_flight := pl_flight p @ [pl_next p]\<rparr>)"

definition reject_on_failure :: "'e \<Rightarrow> ('r, 'e) pool \<Rightarrow> ('r, 'e) pool" where
  "reject_on_failure e p = p\<lparr>pl_failure := or_else (pl_failure p) (Some e)\<rparr>"

definition call_settles :: "nat \<Rightarrow> nat \<Rightarrow> 'e + 'r \<Rightarrow> ('r, 'e) pool \<Rightarrow> ('r, 'e) pool" where
  "call_settles n i res p =
     (let p' = p\<lparr>pl_flight := remove1 i (pl_flight p)\<rparr> in
      case res of
        Inr r \<Rightarrow> worker_next n (p'\<lparr>pl_results := (pl_results p')(i \<mapsto> r)\<rparr>)
      | Inl e \<Rightarrow> reject_on_failure e (p'\<lparr>pl_aborted := True\<rparr>))"

text \<open>The race: the first rejection, or all workers finished.\<close>

definition pool_outcome :: "nat \<Rightarrow> ('r, 'e) pool \<Rightarrow> ('e + 'r list) option" where
  "pool_outcome n p =
     (case pl_failure p of
        Some e \<Rightarrow> Some (Inl e)
      | None \<Rightarrow> if pl_flight p = [] then Some (Inr (map (\<lambda>i. the (pl_results p i)) [0..<n])) else None)"

inductive pool_runs :: "nat \<Rightarrow> nat \<Rightarrow> (nat \<times> ('e + 'r)) list \<Rightarrow> ('r, 'e) pool \<Rightarrow> bool" for limit n where
  begun: "pool_runs limit n [] (pool_start limit n)"
| settled: "pool_runs limit n tr p \<Longrightarrow> i \<in> set (pl_flight p) \<Longrightarrow>
    pool_runs limit n (tr @ [(i, res)]) (call_settles n i res p)"

section \<open>The invariant\<close>

fun first_failure :: "(nat \<times> ('e + 'r)) list \<Rightarrow> 'e option" where
  "first_failure [] = None"
| "first_failure ((i, Inl e) # tr) = Some e"
| "first_failure ((i, Inr r) # tr) = first_failure tr"

lemma first_failure_snoc [simp]:
  "first_failure (tr @ [(i, Inr r)]) = first_failure tr"
  "first_failure (tr @ [(i, Inl e)]) = or_else (first_failure tr) (Some e)"
  by (induction tr rule: first_failure.induct) auto

lemma first_failure_None: "first_failure tr = None \<longleftrightarrow> (\<forall>(i, res) \<in> set tr. \<exists>r. res = Inr r)"
  by (induction tr rule: first_failure.induct) auto

definition pool_ok :: "nat \<Rightarrow> nat \<Rightarrow> (nat \<times> ('e + 'r)) list \<Rightarrow> ('r, 'e) pool \<Rightarrow> bool" where
  "pool_ok limit n tr p =
     (distinct (pl_flight p @ map fst tr) \<and> length (pl_flight p) \<le> limit \<and>
      set (pl_flight p) \<union> fst ` set tr = {0..<min n (pl_next p)} \<and>
      (\<forall>i r. pl_results p i = Some r \<longleftrightarrow> (i, Inr r) \<in> set tr) \<and>
      pl_failure p = first_failure tr \<and> (pl_aborted p \<longleftrightarrow> pl_failure p \<noteq> None) \<and>
      (\<not> pl_aborted p \<and> pl_next p < n \<longrightarrow> pl_flight p \<noteq> []))"

lemma pool_ok_start: "1 \<le> limit \<Longrightarrow> pool_ok limit n [] (pool_start limit n)"
  by (auto simp: pool_ok_def pool_start_def Let_def)

lemma pool_ok_settled:
  assumes ok: "pool_ok limit n tr p" and i: "i \<in> set (pl_flight p)"
  shows "pool_ok limit n (tr @ [(i, res)]) (call_settles n i res p)"
proof -
  let ?f = "remove1 i (pl_flight p)"
  have d: "distinct (pl_flight p)" "i \<notin> fst ` set tr" "set (pl_flight p) \<inter> fst ` set tr = {}" "distinct (map fst tr)"
    using ok i by (auto simp: pool_ok_def)
  have f: "set ?f = set (pl_flight p) - {i}" "distinct ?f" "length ?f = length (pl_flight p) - 1"
    using d i by (simp_all add: length_remove1)
  have cover: "set ?f \<union> fst ` set (tr @ [(i, res)]) = {0..<min n (pl_next p)}"
    using ok i f(1) by (auto simp: pool_ok_def)
  have len: "length ?f < limit"
    using length_pos_if_in_set [OF i] f(3) ok unfolding pool_ok_def by linarith
  have okD: "\<forall>j q. pl_results p j = Some q \<longleftrightarrow> (j, Inr q) \<in> set tr" "pl_failure p = first_failure tr"
      "pl_aborted p \<longleftrightarrow> pl_failure p \<noteq> None"
    using ok by (simp_all add: pool_ok_def)
  show ?thesis
  proof (cases res)
    case (Inl e)
    then have fields: "pl_flight (call_settles n i res p) = ?f" "pl_next (call_settles n i res p) = pl_next p"
        "pl_results (call_settles n i res p) = pl_results p" "pl_aborted (call_settles n i res p)"
        "pl_failure (call_settles n i res p) = or_else (pl_failure p) (Some e)"
      by (simp_all add: call_settles_def reject_on_failure_def Let_def)
    have "distinct (?f @ map fst (tr @ [(i, res)]))" using d f by auto
    moreover have "length ?f \<le> limit" using len by simp
    moreover have "or_else (pl_failure p) (Some e) \<noteq> None" by (cases "pl_failure p") simp_all
    ultimately show ?thesis
      unfolding pool_ok_def fields using cover okD Inl fields(4) by simp
  next
    case (Inr r)
    then have fields: "pl_flight (call_settles n i res p) = (if \<not> pl_aborted p \<and> pl_next p < n then ?f @ [pl_next p] else ?f)"
        "pl_next (call_settles n i res p) = (if pl_aborted p then pl_next p else Suc (pl_next p))"
        "pl_results (call_settles n i res p) = (pl_results p)(i \<mapsto> r)"
        "pl_aborted (call_settles n i res p) = pl_aborted p" "pl_failure (call_settles n i res p) = pl_failure p"
      by (simp_all add: call_settles_def worker_next_def Let_def)
    have rs: "((pl_results p)(i \<mapsto> r)) j = Some q \<longleftrightarrow> (j, Inr q) \<in> set (tr @ [(i, res)])" for j q
      using okD(1) d(2) Inr by (force simp: image_iff)
    have new: "pl_next p \<notin> set ?f" "pl_next p \<notin> fst ` set (tr @ [(i, res)])"
      using cover by auto
    have dist: "distinct (?f @ map fst (tr @ [(i, res)]))" using d f by auto
    have ff: "first_failure (tr @ [(i, res)]) = first_failure tr" using Inr by simp
    show ?thesis
    proof (cases "\<not> pl_aborted p \<and> pl_next p < n")
      case True
      have "set (?f @ [pl_next p]) \<union> fst ` set (tr @ [(i, res)]) = {0..<min n (Suc (pl_next p))}"
      proof -
        have "set (?f @ [pl_next p]) \<union> fst ` set (tr @ [(i, res)]) = insert (pl_next p) {0..<min n (pl_next p)}"
          unfolding cover [symmetric] by auto
        also have "\<dots> = {0..<min n (Suc (pl_next p))}" using True by auto
        finally show ?thesis .
      qed
      moreover have "distinct ((?f @ [pl_next p]) @ map fst (tr @ [(i, res)]))" using dist new by auto
      ultimately show ?thesis
        unfolding pool_ok_def fields using True okD(2,3) len rs ff by simp
    next
      case False
      then have fl: "pl_flight (call_settles n i res p) = ?f" unfolding fields(1) by simp
      have "{0..<min n (pl_next p)} = {0..<min n (pl_next (call_settles n i res p))}"
        using False unfolding fields(2) by auto
      with cover have cov: "set ?f \<union> fst ` set (tr @ [(i, res)]) = {0..<min n (pl_next (call_settles n i res p))}"
        by simp
      have live: "\<not> pl_aborted p \<and> pl_next (call_settles n i res p) < n \<longrightarrow> ?f \<noteq> []"
        using False unfolding fields(2) by auto
      show ?thesis
        unfolding pool_ok_def fl fields(3-5) ff
        using dist okD(2,3) len rs cov live by (intro conjI allI) (assumption | simp)+
    qed
  qed
qed

lemma pool_runs_ok: "pool_runs limit n tr p \<Longrightarrow> 1 \<le> limit \<Longrightarrow> pool_ok limit n tr p"
  by (induction rule: pool_runs.induct) (auto intro: pool_ok_start pool_ok_settled)

lemma pool_settled_below: "pool_ok limit n tr p \<Longrightarrow> fst ` set tr \<subseteq> {0..<n}"
proof -
  assume "pool_ok limit n tr p"
  then have cover: "set (pl_flight p) \<union> fst ` set tr = {0..<min n (pl_next p)}" by (simp add: pool_ok_def)
  have "fst ` set tr \<subseteq> set (pl_flight p) \<union> fst ` set tr" by (rule Un_upper2)
  also have "\<dots> \<subseteq> {0..<n}" unfolding cover by auto
  finally show ?thesis .
qed

lemma pool_outcome_failure: "pool_ok limit n tr p \<Longrightarrow>
    (pool_outcome n p = None \<longleftrightarrow> pl_flight p \<noteq> [] \<and> first_failure tr = None) \<and>
    (\<forall>e. pool_outcome n p = Some (Inl e) \<longleftrightarrow> first_failure tr = Some e)"
  by (auto simp: pool_outcome_def pool_ok_def split: option.splits)

text \<open>A batch that ended without a failure has settled every item.\<close>

lemma pool_finished:
  assumes "pool_ok limit n tr p" "pl_flight p = []" "first_failure tr = None"
  shows "fst ` set tr = {0..<n}"
proof -
  have "\<not> pl_next p < n" using assms by (auto simp: pool_ok_def)
  with assms show ?thesis by (simp add: pool_ok_def min_def)
qed

lemma pool_outcome_results:
  assumes ok: "pool_ok limit n tr p" and "pool_outcome n p = Some (Inr rs)"
  shows "pl_flight p = [] \<and> first_failure tr = None \<and> length rs = n \<and> (\<forall>i<n. (i, Inr (rs ! i)) \<in> set tr)"
proof -
  from assms have none: "first_failure tr = None" "pl_flight p = []"
    and rs: "rs = map (\<lambda>i. the (pl_results p i)) [0..<n]"
    by (auto simp: pool_outcome_def pool_ok_def split: option.splits if_splits)
  have "(i, Inr (the (pl_results p i))) \<in> set tr" if "i < n" for i
  proof -
    from that pool_finished [OF ok none(2,1)] have "i \<in> fst ` set tr" by simp
    then obtain res where res: "(i, res) \<in> set tr" by auto
    with none obtain r where r: "res = Inr r" by (auto simp: first_failure_None)
    with res ok have "pl_results p i = Some r" by (simp add: pool_ok_def)
    with res r show ?thesis by simp
  qed
  with none show ?thesis by (simp add: rs)
qed

text \<open>
  The bounded pool is the sequential map. In every schedule at most \<open>limit\<close> calls are in flight and
  no item is called twice, so there are at most as many settlements as items. The batch ends when
  nothing is in flight, and before that only by a failure: it resolves exactly when every call
  succeeded, with the results in input order, and it rejects with the failure that came first.
\<close>

lemma worker_pool_is_map:
  assumes "pool_runs limit n tr p" and "1 \<le> limit"
  shows "length (pl_flight p) \<le> limit \<and> distinct (map fst tr) \<and> length tr \<le> n \<and>
    (pool_outcome n p = None \<longleftrightarrow> pl_flight p \<noteq> [] \<and> first_failure tr = None) \<and>
    (\<forall>e. pool_outcome n p = Some (Inl e) \<longleftrightarrow> first_failure tr = Some e) \<and>
    (\<forall>rs. pool_outcome n p = Some (Inr rs) \<longrightarrow> length rs = n \<and> (\<forall>i<n. (i, Inr (rs ! i)) \<in> set tr))"
proof -
  have ok: "pool_ok limit n tr p" by (rule pool_runs_ok [OF assms])
  then have d: "distinct (map fst tr)" "length (pl_flight p) \<le> limit" by (simp_all add: pool_ok_def)
  have "card (fst ` set tr) \<le> n" using card_mono [OF _ pool_settled_below [OF ok]] by simp
  then have "length tr \<le> n" using distinct_card [OF d(1)] by simp
  with d show ?thesis using pool_outcome_failure [OF ok] pool_outcome_results [OF ok] by blast
qed

text \<open>Two workers, three items, settling out of order.\<close>

lemma demo_schedule:
  "pool_runs 2 3 [(1, Inr ''b''), (2, Inr ''c''), (0, Inr ''a'')]
     (call_settles 3 0 (Inr ''a'') (call_settles 3 2 (Inr ''c'') (call_settles 3 1 (Inr ''b'') (pool_start 2 3))) :: (string, string) pool)"
proof -
  have "pool_runs 2 3 ([] @ [(1, Inr ''b'')]) (call_settles 3 1 (Inr ''b'') (pool_start 2 3) :: (string, string) pool)"
    by (intro pool_runs.intros) (simp add: pool_start_def upt_rec)
  then have "pool_runs 2 3 (([] @ [(1, Inr ''b'')]) @ [(2, Inr ''c'')])
      (call_settles 3 2 (Inr ''c'') (call_settles 3 1 (Inr ''b'') (pool_start 2 3)) :: (string, string) pool)"
    by (rule pool_runs.settled) (simp add: pool_start_def call_settles_def worker_next_def Let_def upt_rec)
  then have "pool_runs 2 3 ((([] @ [(1, Inr ''b'')]) @ [(2, Inr ''c'')]) @ [(0, Inr ''a'')])
      (call_settles 3 0 (Inr ''a'') (call_settles 3 2 (Inr ''c'') (call_settles 3 1 (Inr ''b'') (pool_start 2 3))) :: (string, string) pool)"
    by (rule pool_runs.settled) (simp add: pool_start_def call_settles_def worker_next_def Let_def upt_rec)
  then show ?thesis by simp
qed

lemma worker_pool_is_map_witness:
  "\<exists>p :: (string, string) pool. pool_runs 2 3 [(1, Inr ''b''), (2, Inr ''c''), (0, Inr ''a'')] p \<and>
     pool_outcome 3 p \<noteq> None \<and> (\<forall>e. pool_outcome 3 p \<noteq> Some (Inl e))"
proof -
  let ?p = "call_settles 3 0 (Inr ''a'') (call_settles 3 2 (Inr ''c'') (call_settles 3 1 (Inr ''b'') (pool_start 2 3))) :: (string, string) pool"
  have "pl_flight ?p = []"
    by (simp add: pool_start_def call_settles_def worker_next_def Let_def upt_rec)
  then show ?thesis
    using worker_pool_is_map [OF demo_schedule] demo_schedule by (intro exI [of _ ?p]) simp
qed

end
