(* ===== verification/AM_ApiPoll.thy ===== *)
theory AM_ApiPoll
  imports AM_WorkerPool AM_Tick AM_KeyedCollection AM_Time
begin

text \<open>
  The endpoint source, \<open>plugins/source-api-poll/src/index.ts\<close> and \<open>composite.ts\<close>: configuration and
  authentication, the bounded read of a response, the comparison of two responses, the composite of
  many requests over the worker pool, and one observation. \<open>fetch\<close>, \<open>JSON.parse\<close>, the URL parser of
  the redaction, the byte length and the base64 of a text, and the environment are arguments.

  The properties: the snapshot of a composite and whether it succeeds do not depend on the order in
  which the requests complete; no response above the cap is ever held; and what is reported is the
  difference to the last response that was accepted, failures leaving no trace.
\<close>

section \<open>Configuration\<close>

datatype api_strategy = ApiJsonDiff | ApiTextDiff | ApiStatusCode

record composite_part =
  cp_id :: string
  cp_url :: string

record composite_config =
  co_key :: string
  co_parts :: "composite_part list"
  co_title :: "string option"

datatype api_error =
    CompositeNotObject
  | CompositeKeyMissing
  | PartsNotArray
  | TooManyParts nat
  | PartNotObject nat
  | PartIdMissing nat
  | PartIdTooLong nat
  | PartUrlMissing nat
  | UrlNotString
  | UnknownStrategy json
  | ApiCollectionRejected collection_error
  | ApiCollectionNeedsJsonDiff
  | CompositeAndCollection
  | ApiTimeoutRejected duration_error
  | BearerTokenMissing "string option"
  | TimedOut string ms
  | FetchFailed string
  | DeclaredTooLarge string int
  | StreamedTooLarge string nat
  | ReadFailed string
  | ErrorStatus nat string
  | PartErrorStatus nat string string
  | CompositeTooLarge string nat
  | RenderedTooLarge string nat
  | ResponseNotJson

definition max_composite_parts :: nat where
  "max_composite_parts = 50"

definition max_part_id_length :: nat where
  "max_part_id_length = 256"

fun count_up_to :: "nat \<Rightarrow> string \<Rightarrow> nat \<Rightarrow> nat" where
  "count_up_to limit [] n = n"
| "count_up_to limit (c # cs) n = (if limit < n + 1 then n + 1 else count_up_to limit cs (n + 1))"

definition parse_part :: "nat \<Rightarrow> json \<Rightarrow> api_error + composite_part" where
  "parse_part index part =
     (case part of
        JObj kvs \<Rightarrow>
          (case non_empty_string (map_of kvs ''id'') of
             None \<Rightarrow> Inl (PartIdMissing index)
           | Some i \<Rightarrow>
               if max_part_id_length < count_up_to max_part_id_length i 0 then Inl (PartIdTooLong index)
               else (case non_empty_string (map_of kvs ''url'') of
                   None \<Rightarrow> Inl (PartUrlMissing index)
                 | Some u \<Rightarrow> Inr \<lparr>cp_id = i, cp_url = u\<rparr>))
      | _ \<Rightarrow> Inl (PartNotObject index))"

fun parse_parts :: "nat \<Rightarrow> json list \<Rightarrow> api_error + composite_part list" where
  "parse_parts index [] = Inr []"
| "parse_parts index (v # vs) =
     (case parse_part index v of
        Inl e \<Rightarrow> Inl e
      | Inr p \<Rightarrow> (case parse_parts (Suc index) vs of Inl e \<Rightarrow> Inl e | Inr ps \<Rightarrow> Inr (p # ps)))"

definition json_string :: "json option \<Rightarrow> string option" where
  "json_string v = (case v of Some (JStr s) \<Rightarrow> Some s | _ \<Rightarrow> None)"

definition parse_composite_config :: "json option \<Rightarrow> api_error + composite_config option" where
  "parse_composite_config change_detection =
     (case Option.bind change_detection (\<lambda>v. jfield v ''composite'') of
        None \<Rightarrow> Inr None
      | Some (JObj raw) \<Rightarrow>
          (case non_empty_string (map_of raw ''object-key'') of
             None \<Rightarrow> Inl CompositeKeyMissing
           | Some key \<Rightarrow>
               (case map_of raw ''parts'' of
                  Some (JArr vs) \<Rightarrow>
                    if vs = [] then Inl PartsNotArray
                    else if max_composite_parts < length vs then Inl (TooManyParts (length vs))
                    else (case parse_parts 0 vs of
                        Inl e \<Rightarrow> Inl e
                      | Inr ps \<Rightarrow> Inr (Some \<lparr>co_key = key, co_parts = ps, co_title = json_string (map_of raw ''title'')\<rparr>))
                | _ \<Rightarrow> Inl PartsNotArray))
      | Some _ \<Rightarrow> Inl CompositeNotObject)"

record api_scope =
  as_url :: "string option"
  as_auth :: "json option"
  as_headers :: "json option"
  as_method :: "string option"
  as_timeout_ms :: ms
  as_strategy :: "api_strategy option"
  as_collection :: "collection_config option"
  as_composite :: "composite_config option"

definition explicit_strategy :: "json option \<Rightarrow> api_error + api_strategy option" where
  "explicit_strategy cd =
     (case Option.bind cd (\<lambda>v. jfield v ''strategy'') of
        None \<Rightarrow> Inr None
      | Some v \<Rightarrow>
          if v = JStr ''json-diff'' then Inr (Some ApiJsonDiff)
          else if v = JStr ''text-diff'' then Inr (Some ApiTextDiff)
          else if v = JStr ''status-code'' then Inr (Some ApiStatusCode)
          else Inl (UnknownStrategy v))"

definition parse_api_url :: "json option \<Rightarrow> composite_config option \<Rightarrow> api_error + string option" where
  "parse_api_url url whole =
     (case url of
        Some (JStr s) \<Rightarrow> Inr (Some s)
      | Some _ \<Rightarrow> Inl UrlNotString
      | None \<Rightarrow> if whole = None then Inl UrlNotString else Inr None)"

definition parse_api_scope :: "(string \<times> json) list \<Rightarrow> api_error + api_scope" where
  "parse_api_scope config =
     (let cd = map_of config ''change-detection'' in
      case parse_composite_config cd of
        Inl e \<Rightarrow> Inl e
      | Inr whole \<Rightarrow>
          (case parse_api_url (map_of config ''url'') whole of
             Inl e \<Rightarrow> Inl e
           | Inr url \<Rightarrow>
               (case explicit_strategy cd of
                  Inl e \<Rightarrow> Inl e
                | Inr strategy \<Rightarrow>
                    (case parse_collection_config cd of
                       Inl e \<Rightarrow> Inl (ApiCollectionRejected e)
                     | Inr collection \<Rightarrow>
                         if collection \<noteq> None \<and> strategy \<noteq> Some ApiJsonDiff then Inl ApiCollectionNeedsJsonDiff
                         else if whole \<noteq> None \<and> collection \<noteq> None then Inl CompositeAndCollection
                         else (case parse_operation_timeout_ms (map_of config ''timeout'') of
                             Inl e \<Rightarrow> Inl (ApiTimeoutRejected e)
                           | Inr timeout \<Rightarrow>
                               Inr \<lparr>as_url = url, as_auth = map_of config ''auth'',
                                 as_headers = map_of config ''headers'',
                                 as_method = json_string (map_of config ''method''),
                                 as_timeout_ms = timeout, as_strategy = strategy,
                                 as_collection = collection, as_composite = whole\<rparr>)))))"

section \<open>Requests\<close>

text \<open>
  What a request answers. \<open>FetchThrew\<close> and \<open>ReadThrew\<close> say whether the request was aborted by its
  own deadline or by the batch; a body is the sequence of what the stream's reader returns.
\<close>

datatype stream_read = ReadChunk string | ReadNothing | ReadThrew bool string

record response =
  rp_status :: nat
  rp_type :: "string option"
  rp_length :: "int option"
  rp_body :: "stream_read list option"
  rp_text :: string

datatype fetch_answer =
    FetchThrew bool string "string option"
  | Responded response

record api_env =
  ae_getenv :: "string \<Rightarrow> string option"
  ae_base64 :: "string \<Rightarrow> string"
  ae_decode :: "string \<Rightarrow> string"
  ae_bytes :: "string \<Rightarrow> nat"
  ae_parse :: "string \<Rightarrow> json option"
  ae_redact :: "string \<Rightarrow> string"
  ae_graphemes :: "string \<Rightarrow> string list"

definition auth_text :: "json \<Rightarrow> string \<Rightarrow> string option" where
  "auth_text auth k = json_string (jfield auth k)"

definition env_token :: "api_env \<Rightarrow> string option \<Rightarrow> string option" where
  "env_token env var = (case var of None \<Rightarrow> None | Some v \<Rightarrow> if v = [] then None else ae_getenv env v)"

definition resolve_auth :: "api_env \<Rightarrow> json option \<Rightarrow> api_error + (string \<times> string) list" where
  "resolve_auth env auth =
     (case auth of
        None \<Rightarrow> Inr []
      | Some a \<Rightarrow>
          if a = JNull then Inr []
          else if auth_text a ''type'' = Some ''bearer'' then
            (let token_env = auth_text a ''token-env'';
                 token = or_else (auth_text a ''token'') (env_token env token_env) in
             case token of
               Some t \<Rightarrow> if t = [] then Inl (BearerTokenMissing token_env) else Inr [(''Authorization'', ''Bearer '' @ t)]
             | None \<Rightarrow> Inl (BearerTokenMissing token_env))
          else Inr [(''Authorization'', ''Basic '' @ ae_base64 env
            (default (auth_text a ''username'') [] @ '':'' @ default (auth_text a ''password'') []))])"

definition max_response_bytes :: nat where
  "max_response_bytes = 10 * 1024 * 1024"

fun read_stream :: "api_env \<Rightarrow> string \<Rightarrow> ms \<Rightarrow> string list \<Rightarrow> nat \<Rightarrow> stream_read list \<Rightarrow> api_error + string" where
  "read_stream env url timeout chunks sofar [] = Inr (ae_decode env (concat chunks))"
| "read_stream env url timeout chunks sofar (ReadNothing # rs) = read_stream env url timeout chunks sofar rs"
| "read_stream env url timeout chunks sofar (ReadThrew aborted msg # rs) =
     Inl (if aborted then TimedOut url timeout else ReadFailed msg)"
| "read_stream env url timeout chunks sofar (ReadChunk c # rs) =
     (let sofar' = sofar + length c in
      if max_response_bytes < sofar' then Inl (StreamedTooLarge url sofar')
      else read_stream env url timeout (chunks @ [c]) sofar' rs)"

definition read_bounded_body :: "api_env \<Rightarrow> string \<Rightarrow> ms \<Rightarrow> response \<Rightarrow> api_error + string" where
  "read_bounded_body env url timeout r =
     (case rp_length r of
        Some declared \<Rightarrow>
          if int max_response_bytes < declared then Inl (DeclaredTooLarge url declared)
          else (case rp_body r of None \<Rightarrow> Inr (rp_text r) | Some rs \<Rightarrow> read_stream env url timeout [] 0 rs)
      | None \<Rightarrow> (case rp_body r of None \<Rightarrow> Inr (rp_text r) | Some rs \<Rightarrow> read_stream env url timeout [] 0 rs))"

record fetched =
  ft_body :: string
  ft_status :: nat
  ft_type :: "string option"

definition fetch_body :: "api_env \<Rightarrow> string \<Rightarrow> ms \<Rightarrow> bool \<Rightarrow> fetch_answer \<Rightarrow> api_error + fetched" where
  "fetch_body env url timeout read_body answer =
     (case answer of
        FetchThrew aborted msg cause \<Rightarrow>
          if aborted then Inl (TimedOut url timeout)
          else Inl (FetchFailed (case cause of Some c \<Rightarrow> if c = [] then msg else msg @ '': '' @ c | None \<Rightarrow> msg))
      | Responded r \<Rightarrow>
          if \<not> read_body then Inr \<lparr>ft_body = [], ft_status = rp_status r, ft_type = None\<rparr>
          else (case read_bounded_body env url timeout r of
              Inl e \<Rightarrow> Inl e
            | Inr body \<Rightarrow> Inr \<lparr>ft_body = body, ft_status = rp_status r, ft_type = rp_type r\<rparr>))"

definition is_success_status :: "nat \<Rightarrow> bool" where
  "is_success_status status = (200 \<le> status \<and> status < 300)"

definition ends_with :: "string \<Rightarrow> string \<Rightarrow> bool" where
  "ends_with suffix s = (length suffix \<le> length s \<and> drop (length s - length suffix) s = suffix)"

definition is_json_content_type :: "string option \<Rightarrow> bool" where
  "is_json_content_type content_type =
     (case content_type of
        None \<Rightarrow> False
      | Some t \<Rightarrow>
          (let media_type = map lower_char (trim (hd (split_on (CHR '';'') t))) in
           media_type = ''application/json'' \<or> ends_with ''+json'' media_type))"

definition resolve_strategy :: "api_strategy option \<Rightarrow> string option \<Rightarrow> api_strategy" where
  "resolve_strategy explicit content_type =
     (case explicit of Some s \<Rightarrow> s
      | None \<Rightarrow> if is_json_content_type content_type then ApiJsonDiff else ApiTextDiff)"

section \<open>One resource\<close>

text \<open>
  The persisted response. Any object is taken for one: the fields are compared as they are, and a
  body that is not a string does not parse.
\<close>

definition cached_response :: "string \<Rightarrow> nat \<Rightarrow> (string \<times> json) list option \<Rightarrow> (string \<times> json) list" where
  "cached_response body status keyed =
     [(''body'', JStr body), (''status'', JNum (show_nat status))] @
     (case keyed of None \<Rightarrow> [] | Some snap \<Rightarrow> [(''keyedSnapshot'', JObj snap)])"

definition previous_response :: "json option \<Rightarrow> (string \<times> json) list option" where
  "previous_response state = (case state of Some (JObj kvs) \<Rightarrow> Some kvs | _ \<Rightarrow> None)"

definition previous_snapshot :: "(string \<times> json) list \<Rightarrow> (string \<times> json) list option" where
  "previous_snapshot kvs = (case map_of kvs ''keyedSnapshot'' of Some (JObj snap) \<Rightarrow> Some snap | _ \<Rightarrow> None)"

definition response_changed :: "api_env \<Rightarrow> api_strategy \<Rightarrow> (string \<times> json) list \<Rightarrow> string \<Rightarrow> nat \<Rightarrow> bool" where
  "response_changed env strategy prev body status =
     (case strategy of
        ApiStatusCode \<Rightarrow> map_of prev ''status'' \<noteq> Some (JNum (show_nat status))
      | ApiTextDiff \<Rightarrow> map_of prev ''body'' \<noteq> Some (JStr body)
      | ApiJsonDiff \<Rightarrow>
          (case (Option.bind (json_string (map_of prev ''body'')) (ae_parse env), ae_parse env body) of
             (Some p, Some c) \<Rightarrow> canonicalize_json p \<noteq> canonicalize_json c
           | _ \<Rightarrow> map_of prev ''body'' \<noteq> Some (JStr body)))"

fun api_strategy_text :: "api_strategy \<Rightarrow> string" where
  "api_strategy_text ApiJsonDiff = ''json-diff''"
| "api_strategy_text ApiTextDiff = ''text-diff''"
| "api_strategy_text ApiStatusCode = ''status-code''"

definition response_observation :: "api_env \<Rightarrow> string \<Rightarrow> api_strategy \<Rightarrow> string \<Rightarrow> nat \<Rightarrow> observation" where
  "response_observation env url strategy body status =
     (let title = ''API response changed: '' @ display_object_key (ae_graphemes env) (ae_redact env url) in
      \<lparr>o_title = title, o_body = None, o_summary = Some title,
        o_payload = Some (JObj [(''url'', JStr url), (''status'', JNum (show_nat status)),
          (''strategy'', JStr (api_strategy_text strategy)), (''body'', JStr body)]),
        o_snapshot_text = Some body, o_object_key = Some url, o_scope = Some [(''url'', SOne url)],
        o_change = None, o_salience = None,
        o_snapshot = Some (JObj [(''url'', JStr url), (''status'', JNum (show_nat status)),
          (''bodyLength'', JNum (show_nat (length body))), (''strategy'', JStr (api_strategy_text strategy))])\<rparr>)"

definition api_context :: "api_env \<Rightarrow> string \<Rightarrow> keyed_context" where
  "api_context env url = \<lparr>kc_graphemes = ae_graphemes env, kc_object_key = url, kc_display = ae_redact env url,
     kc_payload = [(''url'', JStr url)], kc_scope = [(''url'', SOne url)]\<rparr>"

definition api_result :: "observation list \<Rightarrow> (string \<times> json) list \<Rightarrow> observed" where
  "api_result obs next_state = \<lparr>ob_observations = obs, ob_next = Some (JObj next_state), ob_outcome = None\<rparr>"

definition observe_response :: "api_env \<Rightarrow> api_scope \<Rightarrow> string \<Rightarrow> json option \<Rightarrow> fetched \<Rightarrow> api_error + observed" where
  "observe_response env sc url state f =
     (let strategy = resolve_strategy (as_strategy sc) (ft_type f);
          body = ft_body f; status = ft_status f; prev = previous_response state in
      if strategy \<noteq> ApiStatusCode \<and> \<not> is_success_status status then Inl (ErrorStatus status url)
      else (case as_collection sc of
          Some cfg \<Rightarrow>
            (case ae_parse env body of
               None \<Rightarrow> Inl ResponseNotJson
             | Some parsed \<Rightarrow>
                 (case diff_keyed_collection (api_context env url) parsed cfg (Option.bind prev previous_snapshot) of
                    Inl e \<Rightarrow> Inl (ApiCollectionRejected e)
                  | Inr (obs, snap) \<Rightarrow> Inr (api_result obs (cached_response body status (Some snap)))))
        | None \<Rightarrow>
            Inr (api_result
              (case prev of
                 Some p \<Rightarrow> if response_changed env strategy p body status
                   then [response_observation env url strategy body status] else []
               | None \<Rightarrow> [])
              (cached_response body status None))))"

section \<open>A composite\<close>

record fetched_part =
  fp_id :: string
  fp_body :: string

definition framed_part_section :: "fetched_part \<Rightarrow> string" where
  "framed_part_section p = ''## '' @ fp_id p @ [CHR 0x0A] @ fp_body p"

definition ordered_parts :: "fetched_part list \<Rightarrow> fetched_part list" where
  "ordered_parts ps = sort_key fp_id ps"

definition render_composite_snapshot :: "fetched_part list \<Rightarrow> string" where
  "render_composite_snapshot ps = join [CHR 0x0A, CHR 0x0A] (map framed_part_section (ordered_parts ps))"

definition framed_part_byte_length :: "api_env \<Rightarrow> fetched_part \<Rightarrow> nat" where
  "framed_part_byte_length env p = ae_bytes env (framed_part_section p)"

definition build_composite_observation :: "composite_config \<Rightarrow> fetched_part list \<Rightarrow> string \<Rightarrow> observation" where
  "build_composite_observation cfg ps rendered =
     (let title = default (co_title cfg) (''Composite snapshot: '' @ co_key cfg) in
      \<lparr>o_title = title, o_body = None, o_summary = Some title,
        o_payload = Some (JObj [(''objectKey'', JStr (co_key cfg)),
          (''parts'', JArr (map (\<lambda>p. JObj [(''id'', JStr (fp_id p))]) (ordered_parts ps)))]),
        o_snapshot_text = Some rendered, o_object_key = Some (co_key cfg),
        o_scope = Some [(''objectKey'', SOne (co_key cfg))], o_change = None, o_salience = None,
        o_snapshot = Some (JObj [(''objectKey'', JStr (co_key cfg)), (''partCount'', JNum (show_nat (length ps)))])\<rparr>)"

definition max_composite_concurrency :: nat where
  "max_composite_concurrency = 5"

definition max_composite_bytes :: nat where
  "max_composite_bytes = max_response_bytes"

text \<open>What one request contributes: the bytes of all parts fetched so far are shared by the workers.\<close>

definition part_settles :: "api_env \<Rightarrow> composite_config \<Rightarrow> ms \<Rightarrow> composite_part \<Rightarrow> fetch_answer \<Rightarrow> nat \<Rightarrow>
    nat \<times> (api_error + fetched_part)" where
  "part_settles env cfg timeout part answer sofar =
     (case fetch_body env (cp_url part) timeout True answer of
        Inl e \<Rightarrow> (sofar, Inl e)
      | Inr f \<Rightarrow>
          if \<not> is_success_status (ft_status f) then (sofar, Inl (PartErrorStatus (ft_status f) (cp_id part) (cp_url part)))
          else (let p = \<lparr>fp_id = cp_id part, fp_body = ft_body f\<rparr>;
                    sofar' = sofar + framed_part_byte_length env p in
            if max_composite_bytes < sofar' then (sofar', Inl (CompositeTooLarge (co_key cfg) sofar'))
            else (sofar', Inr p)))"

text \<open>
  A run of the batch: the environment chooses which request in flight completes next and how. The
  first list is the answers in that order, the second what the callbacks made of them.
\<close>

inductive composite_runs :: "api_env \<Rightarrow> composite_config \<Rightarrow> ms \<Rightarrow> (nat \<times> fetch_answer) list \<Rightarrow>
    (nat \<times> (api_error + fetched_part)) list \<Rightarrow> nat \<Rightarrow> (fetched_part, api_error) pool \<Rightarrow> bool"
  for env cfg timeout where
  fetching: "composite_runs env cfg timeout [] [] 0 (pool_start max_composite_concurrency (length (co_parts cfg)))"
| answered: "composite_runs env cfg timeout answers tr sofar p \<Longrightarrow> i \<in> set (pl_flight p) \<Longrightarrow>
    part_settles env cfg timeout (co_parts cfg ! i) answer sofar = (sofar', res) \<Longrightarrow>
    composite_runs env cfg timeout (answers @ [(i, answer)]) (tr @ [(i, res)]) sofar'
      (call_settles (length (co_parts cfg)) i res p)"

text \<open>What the batch made of it: the comparison with the previous snapshot.\<close>

definition observe_composite :: "api_env \<Rightarrow> composite_config \<Rightarrow> json option \<Rightarrow> api_error + fetched_part list \<Rightarrow>
    api_error + observed" where
  "observe_composite env cfg state batch =
     (case batch of
        Inl e \<Rightarrow> Inl e
      | Inr results \<Rightarrow>
          (let rendered = render_composite_snapshot results; bytes = ae_bytes env rendered;
               prev = json_string (Option.bind state (\<lambda>v. jfield v ''composite'')) in
           if max_composite_bytes < bytes then Inl (RenderedTooLarge (co_key cfg) bytes)
           else Inr (api_result
             (if prev = None \<or> prev = Some rendered then []
              else [build_composite_observation cfg results rendered])
             [(''composite'', JStr rendered)])))"

text \<open>Where a request goes with which method and headers is the environment's business: \<open>fetch\<close> is one request,
  \<open>batch\<close> the outcome of a run of the worker pool over the parts.\<close>

definition api_observe :: "api_env \<Rightarrow> (string \<Rightarrow> string option \<Rightarrow> (string \<times> string) list \<times> json option \<Rightarrow> fetch_answer) \<Rightarrow>
    (composite_config \<Rightarrow> string option \<Rightarrow> (string \<times> string) list \<times> json option \<Rightarrow> ms \<Rightarrow> api_error + fetched_part list) \<Rightarrow>
    (string \<times> json) list \<Rightarrow> json option \<Rightarrow> api_error + observed" where
  "api_observe env fetch batch config state =
     (case parse_api_scope config of
        Inl e \<Rightarrow> Inl e
      | Inr sc \<Rightarrow>
          (case resolve_auth env (as_auth sc) of
             Inl e \<Rightarrow> Inl e
           | Inr auth \<Rightarrow>
               (case as_composite sc of
                  Some cfg \<Rightarrow> observe_composite env cfg state (batch cfg (as_method sc) (auth, as_headers sc) (as_timeout_ms sc))
                | None \<Rightarrow>
                    (case as_url sc of
                       None \<Rightarrow> Inl UrlNotString
                     | Some url \<Rightarrow>
                         (case fetch_body env url (as_timeout_ms sc) (as_strategy sc \<noteq> Some ApiStatusCode)
                             (fetch url (as_method sc) (auth, as_headers sc)) of
                            Inl e \<Rightarrow> Inl e
                          | Inr f \<Rightarrow> observe_response env sc url state f)))))"

section \<open>The composite does not depend on the schedule\<close>

definition part_result :: "api_env \<Rightarrow> ms \<Rightarrow> composite_part \<Rightarrow> fetch_answer \<Rightarrow> fetched_part option" where
  "part_result env timeout part answer =
     (case fetch_body env (cp_url part) timeout True answer of
        Inl e \<Rightarrow> None
      | Inr f \<Rightarrow> if is_success_status (ft_status f) then Some \<lparr>fp_id = cp_id part, fp_body = ft_body f\<rparr> else None)"

definition result_bytes :: "api_env \<Rightarrow> (nat \<times> (api_error + fetched_part)) list \<Rightarrow> nat" where
  "result_bytes env tr = (\<Sum>(i, res)\<leftarrow>tr. case res of Inr p \<Rightarrow> framed_part_byte_length env p | Inl _ \<Rightarrow> 0)"

lemma result_bytes_snoc [simp]:
  "result_bytes env [] = 0"
  "result_bytes env (tr @ [(i, Inr p)]) = result_bytes env tr + framed_part_byte_length env p"
  "result_bytes env (tr @ [(i, Inl e)]) = result_bytes env tr"
  by (simp_all add: result_bytes_def)

lemma composite_pool_runs:
  "composite_runs env cfg timeout answers tr sofar p \<Longrightarrow>
     pool_runs max_composite_concurrency (length (co_parts cfg)) tr p"
  by (induction rule: composite_runs.induct) (auto intro: pool_runs.intros)

text \<open>While nothing has failed, the results are the parts answered and their bytes are within the budget.\<close>

lemma composite_progress:
  assumes "composite_runs env cfg timeout answers tr sofar p" "first_failure tr = None"
  shows "sofar = result_bytes env tr \<and> sofar \<le> max_composite_bytes \<and>
    list_all2 (\<lambda>(i, a) (j, res). i = j \<and> (\<exists>q. res = Inr q \<and>
      part_result env timeout (co_parts cfg ! i) a = Some q)) answers tr"
  using assms
proof (induction rule: composite_runs.induct)
  case (answered answers tr sofar p i answer sofar' res)
  show ?case
  proof (cases res)
    case (Inl e)
    with answered.prems show ?thesis by (cases "first_failure tr") simp_all
  next
    case (Inr q)
    with answered.prems have none: "first_failure tr = None" by simp
    have step: "part_result env timeout (co_parts cfg ! i) answer = Some q"
      "sofar' = sofar + framed_part_byte_length env q" "sofar' \<le> max_composite_bytes"
      using answered.hyps(3) Inr
      by (auto simp: part_settles_def part_result_def Let_def split: sum.splits if_splits)
    show ?thesis
      using answered.IH [OF none] step Inr by (auto intro: list_all2_appendI)
  qed
qed simp

text \<open>The parts and bytes of a fixed answer to each request.\<close>

definition answer_result :: "api_env \<Rightarrow> composite_config \<Rightarrow> ms \<Rightarrow> (nat \<Rightarrow> fetch_answer) \<Rightarrow> nat \<Rightarrow> fetched_part option" where
  "answer_result env cfg timeout f i = part_result env timeout (co_parts cfg ! i) (f i)"

definition answer_bytes :: "api_env \<Rightarrow> composite_config \<Rightarrow> ms \<Rightarrow> (nat \<Rightarrow> fetch_answer) \<Rightarrow> nat \<Rightarrow> nat" where
  "answer_bytes env cfg timeout f i = framed_part_byte_length env (the (answer_result env cfg timeout f i))"

lemma list_all2_answers:
  "list_all2 (\<lambda>(i, a) (j, res). i = j \<and> (\<exists>q. res = Inr q \<and> part_result env timeout (co_parts cfg ! i) a = Some q)) answers tr \<Longrightarrow>
     \<forall>(i, a) \<in> set answers. a = f i \<Longrightarrow>
     result_bytes env tr = sum_list (map (answer_bytes env cfg timeout f) (map fst tr)) \<and>
     (\<forall>(i, res) \<in> set tr. \<exists>q. res = Inr q \<and> answer_result env cfg timeout f i = Some q)"
proof (induction answers tr rule: list_all2_induct)
  case (Cons x answers y tr)
  then show ?case
    by (cases x; cases y) (auto simp: result_bytes_def answer_bytes_def answer_result_def)
qed (simp add: result_bytes_def)

lemma composite_settled:
  assumes run: "composite_runs env cfg timeout answers tr sofar p" and none: "first_failure tr = None"
    and f: "\<forall>(i, a) \<in> set answers. a = f i"
  shows "sofar = sum (answer_bytes env cfg timeout f) (fst ` set tr) \<and>
    (\<forall>(i, res) \<in> set tr. \<exists>q. res = Inr q \<and> answer_result env cfg timeout f i = Some q)"
proof -
  have ok: "pool_ok max_composite_concurrency (length (co_parts cfg)) tr p"
    by (rule pool_runs_ok [OF composite_pool_runs [OF run]]) (simp add: max_composite_concurrency_def)
  then have d: "distinct (map fst tr)" by (simp add: pool_ok_def)
  note progress = composite_progress [OF run none]
  from list_all2_answers [of env timeout cfg answers tr f] progress f
  have "sofar = sum_list (map (answer_bytes env cfg timeout f) (map fst tr))"
    "\<forall>(i, res) \<in> set tr. \<exists>q. res = Inr q \<and> answer_result env cfg timeout f i = Some q" by simp_all
  with d show ?thesis by (simp add: sum_list_distinct_conv_sum_set del: map_map)
qed

lemma composite_no_failure:
  assumes "composite_runs env cfg timeout answers tr sofar p"
    and "\<forall>(i, a) \<in> set answers. a = f i"
    and good: "\<forall>i < length (co_parts cfg). answer_result env cfg timeout f i \<noteq> None"
    and fits: "sum (answer_bytes env cfg timeout f) {0..<length (co_parts cfg)} \<le> max_composite_bytes"
  shows "first_failure tr = None"
  using assms(1,2)
proof (induction rule: composite_runs.induct)
  case (answered answers tr sofar p i answer sofar' res)
  let ?n = "length (co_parts cfg)"
  have f: "\<forall>(i, a) \<in> set answers. a = f i" "answer = f i" using answered.prems by auto
  note none = answered.IH [OF f(1)]
  have ok: "pool_ok max_composite_concurrency ?n tr p"
    by (rule pool_runs_ok [OF composite_pool_runs [OF answered.hyps(1)]]) (simp add: max_composite_concurrency_def)
  then have "i \<in> {0..<min ?n (pl_next p)}" "i \<notin> fst ` set tr"
    using answered.hyps(2) unfolding pool_ok_def by (blast, auto)
  then have i: "i < ?n" "i \<notin> fst ` set tr" by auto
  from good i obtain q where q: "answer_result env cfg timeout f i = Some q" by auto
  have "sum (answer_bytes env cfg timeout f) (insert i (fst ` set tr)) \<le> sum (answer_bytes env cfg timeout f) {0..<?n}"
    using pool_settled_below [OF ok] i by (intro sum_mono2) auto
  then have "sofar + framed_part_byte_length env q \<le> max_composite_bytes"
    using composite_settled [OF answered.hyps(1) none f(1)] i fits q by (simp add: answer_bytes_def)
  then have "res = Inr q"
    using answered.hyps(3) q f(2)
    by (auto simp: part_settles_def answer_result_def part_result_def Let_def split: sum.splits if_splits)
  with none show ?case by simp
qed simp

text \<open>
  The outcome of a composite does not depend on the order in which its requests complete. A finished
  batch succeeds exactly when every request was answered with a success and the framed parts fit
  the byte budget together, and then it returns the parts in the configured order; so the rendered
  snapshot is a function of the answers alone.
\<close>

lemma composite_is_schedule_free:
  assumes run: "composite_runs env cfg timeout answers tr sofar p" and fin: "pl_flight p = []"
    and f: "\<forall>(i, a) \<in> set answers. a = f i"
  shows "pool_outcome (length (co_parts cfg)) p = Some (Inr rs) \<longleftrightarrow>
    (\<forall>i < length (co_parts cfg). answer_result env cfg timeout f i \<noteq> None) \<and>
    sum (answer_bytes env cfg timeout f) {0..<length (co_parts cfg)} \<le> max_composite_bytes \<and>
    rs = map (\<lambda>i. the (answer_result env cfg timeout f i)) [0..<length (co_parts cfg)]"
proof -
  let ?n = "length (co_parts cfg)"
  let ?rs = "map (\<lambda>i. the (answer_result env cfg timeout f i)) [0..<?n]"
  have ok: "pool_ok max_composite_concurrency ?n tr p"
    by (rule pool_runs_ok [OF composite_pool_runs [OF run]]) (simp add: max_composite_concurrency_def)
  have onlyif: "rs = ?rs \<and> (\<forall>i < ?n. answer_result env cfg timeout f i \<noteq> None) \<and>
      sum (answer_bytes env cfg timeout f) {0..<?n} \<le> max_composite_bytes"
    if out: "pool_outcome ?n p = Some (Inr rs)" for rs
  proof -
    note res = pool_outcome_results [OF ok out]
    then have none: "first_failure tr = None" by blast
    note settled = composite_settled [OF run none f]
    have "answer_result env cfg timeout f i = Some (rs ! i)" if "i < ?n" for i
      using settled res that by fastforce
    then have "rs = ?rs" "\<forall>i < ?n. answer_result env cfg timeout f i \<noteq> None"
      using res by (auto intro!: nth_equalityI)
    with settled composite_progress [OF run none] pool_finished [OF ok fin none] show ?thesis by simp
  qed
  have "pool_outcome ?n p = Some (Inr ?rs)"
    if "\<forall>i < ?n. answer_result env cfg timeout f i \<noteq> None"
      and "sum (answer_bytes env cfg timeout f) {0..<?n} \<le> max_composite_bytes"
  proof -
    have "first_failure tr = None" by (rule composite_no_failure [OF run f that])
    with fin pool_outcome_failure [OF ok] obtain rs' where "pool_outcome ?n p = Some (Inr rs')"
      by (cases "pool_outcome ?n p") (auto simp: sum.exhaust_sel, metis sum.exhaust)
    with onlyif [OF this] show ?thesis by simp
  qed
  with onlyif show ?thesis by blast
qed

section \<open>What a resource reports\<close>

text \<open>A response within the cap: what is read never exceeds it.\<close>

lemma read_stream_bounded:
  "read_stream env url timeout chunks sofar rs = Inr body \<Longrightarrow> length (concat chunks) = sofar \<Longrightarrow>
     sofar \<le> max_response_bytes \<Longrightarrow> \<exists>bytes. body = ae_decode env bytes \<and> length bytes \<le> max_response_bytes"
proof (induction env url timeout chunks sofar rs rule: read_stream.induct)
  case (4 env url timeout chunks sofar c rs)
  then show ?case by (auto simp: Let_def split: if_splits)
qed (auto split: if_splits)

text \<open>The responses a monitor accepts: answered in time, within the cap, and a success unless only
  the status is watched.\<close>

definition accepts :: "api_scope \<Rightarrow> fetched \<Rightarrow> bool" where
  "accepts sc f = (resolve_strategy (as_strategy sc) (ft_type f) = ApiStatusCode \<or> is_success_status (ft_status f))"

definition accepted_responses :: "api_env \<Rightarrow> api_scope \<Rightarrow> string \<Rightarrow> fetch_answer list \<Rightarrow> fetched list" where
  "accepted_responses env sc url answers =
     filter (accepts sc) (concat (map (\<lambda>a. case fetch_body env url (as_timeout_ms sc)
       (as_strategy sc \<noteq> Some ApiStatusCode) a of Inl _ \<Rightarrow> [] | Inr f \<Rightarrow> [f]) answers))"

text \<open>One poll, and the state after a poll: a poll that throws keeps the state.\<close>

definition poll_resource :: "api_env \<Rightarrow> api_scope \<Rightarrow> string \<Rightarrow> json option \<Rightarrow> fetch_answer \<Rightarrow> api_error + observed" where
  "poll_resource env sc url state a =
     (case fetch_body env url (as_timeout_ms sc) (as_strategy sc \<noteq> Some ApiStatusCode) a of
        Inl e \<Rightarrow> Inl e | Inr f \<Rightarrow> observe_response env sc url state f)"

definition state_after :: "json option \<Rightarrow> api_error + observed \<Rightarrow> json option" where
  "state_after state res = (case res of Inl e \<Rightarrow> state | Inr r \<Rightarrow> ob_next r)"

definition polled_state :: "api_env \<Rightarrow> api_scope \<Rightarrow> string \<Rightarrow> fetch_answer list \<Rightarrow> json option" where
  "polled_state env sc url answers = foldl (\<lambda>st a. state_after st (poll_resource env sc url st a)) None answers"

text \<open>Two responses differ under the strategy the second one is compared with.\<close>

definition responses_differ :: "api_env \<Rightarrow> api_strategy \<Rightarrow> fetched \<Rightarrow> fetched \<Rightarrow> bool" where
  "responses_differ env strategy g f =
     (case strategy of
        ApiStatusCode \<Rightarrow> ft_status g \<noteq> ft_status f
      | ApiTextDiff \<Rightarrow> ft_body g \<noteq> ft_body f
      | ApiJsonDiff \<Rightarrow>
          (case (ae_parse env (ft_body g), ae_parse env (ft_body f)) of
             (Some p, Some c) \<Rightarrow> canonicalize_json p \<noteq> canonicalize_json c
           | _ \<Rightarrow> ft_body g \<noteq> ft_body f))"

lemma accepted_responses_snoc:
  "accepted_responses env sc url (answers @ [a]) = accepted_responses env sc url answers @
     (case fetch_body env url (as_timeout_ms sc) (as_strategy sc \<noteq> Some ApiStatusCode) a of
        Inl _ \<Rightarrow> [] | Inr f \<Rightarrow> if accepts sc f then [f] else [])"
  by (simp add: accepted_responses_def split: sum.splits)

lemma observe_response_plain:
  "as_collection sc = None \<Longrightarrow> observe_response env sc url state f =
     (if \<not> accepts sc f then Inl (ErrorStatus (ft_status f) url)
      else (let strategy = resolve_strategy (as_strategy sc) (ft_type f) in
        Inr (api_result
          (case previous_response state of
             Some p \<Rightarrow> if response_changed env strategy p (ft_body f) (ft_status f)
               then [response_observation env url strategy (ft_body f) (ft_status f)] else []
           | None \<Rightarrow> [])
          (cached_response (ft_body f) (ft_status f) None))))"
  by (auto simp: observe_response_def accepts_def Let_def)

definition response_state :: "fetched list \<Rightarrow> json option" where
  "response_state fs = (if fs = [] then None
     else Some (JObj (cached_response (ft_body (List.last fs)) (ft_status (List.last fs)) None)))"

lemma polled_state_accepted:
  "as_collection sc = None \<Longrightarrow> polled_state env sc url answers = response_state (accepted_responses env sc url answers)"
proof (induction answers rule: rev_induct)
  case Nil
  show ?case by (simp add: polled_state_def accepted_responses_def response_state_def)
next
  case (snoc a answers)
  then show ?case
    by (auto simp: polled_state_def accepted_responses_snoc poll_resource_def observe_response_plain
        state_after_def Let_def api_result_def response_state_def split: sum.splits)
qed

lemma show_nat_eq [simp]: "show_nat m = show_nat n \<longleftrightarrow> m = n"
  by (metis digits_val_show_nat)

lemma response_changed_cached:
  "response_changed env strategy (cached_response (ft_body g) (ft_status g) None) (ft_body f) (ft_status f) =
     responses_differ env strategy g f"
  by (cases strategy) (auto simp: response_changed_def responses_differ_def cached_response_def json_string_def
      split: option.splits)

text \<open>
  After any series of polls of a resource, the next poll is compared with the last response that
  was accepted, and only with it. A request that failed, timed out or was too large, and an error
  status, is reported as an error and leaves no trace; the first accepted response is a silent
  baseline; every later one is reported exactly when it differs under the effective strategy.
\<close>

lemma api_source_compares_with_last_accepted:
  assumes "as_collection sc = None"
  shows "case fetch_body env url (as_timeout_ms sc) (as_strategy sc \<noteq> Some ApiStatusCode) a of
      Inl e \<Rightarrow> poll_resource env sc url (polled_state env sc url answers) a = Inl e
    | Inr f \<Rightarrow>
        (case poll_resource env sc url (polled_state env sc url answers) a of
           Inl e \<Rightarrow> \<not> accepts sc f \<and> e = ErrorStatus (ft_status f) url
         | Inr r \<Rightarrow> accepts sc f \<and>
             (let strategy = resolve_strategy (as_strategy sc) (ft_type f);
                  before = accepted_responses env sc url answers in
              ob_observations r =
                (if before \<noteq> [] \<and> responses_differ env strategy (List.last before) f
                 then [response_observation env url strategy (ft_body f) (ft_status f)] else [])))"
  unfolding polled_state_accepted [OF assms]
  by (auto simp: poll_resource_def observe_response_plain [OF assms] api_result_def Let_def response_state_def
      previous_response_def response_changed_cached split: sum.splits)

section \<open>Two parts and one resource\<close>

definition demo_api_env :: api_env where
  "demo_api_env = \<lparr>ae_getenv = (\<lambda>_. None), ae_base64 = (\<lambda>s. s), ae_decode = (\<lambda>s. s), ae_bytes = length,
     ae_parse = (\<lambda>_. None), ae_redact = (\<lambda>s. s), ae_graphemes = map (\<lambda>c. [c])\<rparr>"

definition demo_composite :: composite_config where
  "demo_composite = \<lparr>co_key = ''all'', co_parts = [\<lparr>cp_id = ''a'', cp_url = ''u''\<rparr>, \<lparr>cp_id = ''b'', cp_url = ''v''\<rparr>],
     co_title = None\<rparr>"

definition demo_answer :: "string \<Rightarrow> fetch_answer" where
  "demo_answer text = Responded \<lparr>rp_status = 200, rp_type = None, rp_length = None,
     rp_body = Some [ReadChunk text], rp_text = []\<rparr>"

definition demo_part :: "nat \<Rightarrow> fetched_part" where
  "demo_part i = \<lparr>fp_id = (if i = 0 then ''a'' else ''b''), fp_body = ''x''\<rparr>"

lemma demo_part_settles:
  "i < 2 \<Longrightarrow> sofar < 100 \<Longrightarrow>
     part_settles demo_api_env demo_composite 1000 (co_parts demo_composite ! i) (demo_answer ''x'') sofar =
     (sofar + 6, Inr (demo_part i))"
  by (auto simp: part_settles_def demo_api_env_def demo_composite_def demo_answer_def fetch_body_def
      read_bounded_body_def max_response_bytes_def max_composite_bytes_def is_success_status_def demo_part_def
      framed_part_byte_length_def framed_part_section_def Let_def less_2_cases_iff)

lemma demo_composite_runs:
  "\<exists>p. composite_runs demo_api_env demo_composite 1000 [(1, demo_answer ''x''), (0, demo_answer ''x'')]
     [(1, Inr (demo_part 1)), (0, Inr (demo_part 0))] 12 p \<and> pl_flight p = []"
proof -
  let ?p0 = "pool_start max_composite_concurrency (length (co_parts demo_composite)) :: (fetched_part, api_error) pool"
  have p0: "pl_flight ?p0 = [0, 1]"
    by (simp add: pool_start_def max_composite_concurrency_def demo_composite_def Let_def upt_rec)
  let ?p1 = "call_settles (length (co_parts demo_composite)) 1 (Inr (demo_part 1)) ?p0"
  let ?p2 = "call_settles (length (co_parts demo_composite)) 0 (Inr (demo_part 0)) ?p1"
  have p1: "pl_flight ?p1 = [0]"
    by (simp add: call_settles_def worker_next_def pool_start_def max_composite_concurrency_def demo_composite_def
        Let_def upt_rec)
  have p2: "pl_flight ?p2 = []"
    by (simp add: call_settles_def worker_next_def pool_start_def max_composite_concurrency_def demo_composite_def
        Let_def upt_rec)
  have "composite_runs demo_api_env demo_composite 1000 ([] @ [(1, demo_answer ''x'')]) ([] @ [(1, Inr (demo_part 1))]) 6 ?p1"
    using demo_part_settles [of 1 0] by (intro composite_runs.answered [OF composite_runs.fetching]) (simp_all add: p0)
  then have "composite_runs demo_api_env demo_composite 1000 (([] @ [(1, demo_answer ''x'')]) @ [(0, demo_answer ''x'')])
      (([] @ [(1, Inr (demo_part 1))]) @ [(0, Inr (demo_part 0))]) 12 ?p2"
    
    by (rule composite_runs.answered) (simp_all add: p1 [simplified] demo_part_settles)
  with p2 show ?thesis by auto
qed

lemma composite_is_schedule_free_witness:
  "\<exists>answers tr sofar p. composite_runs demo_api_env demo_composite 1000 answers tr sofar p \<and>
     map fst answers = [1, 0] \<and> pool_outcome 2 p = Some (Inr [demo_part 0, demo_part 1])"
proof -
  obtain p where p: "composite_runs demo_api_env demo_composite 1000 [(1, demo_answer ''x''), (0, demo_answer ''x'')]
      [(1, Inr (demo_part 1)), (0, Inr (demo_part 0))] 12 p" "pl_flight p = []"
    using demo_composite_runs by blast
  have n: "length (co_parts demo_composite) = 2" by (simp add: demo_composite_def)
  have res: "answer_result demo_api_env demo_composite 1000 (\<lambda>_. demo_answer ''x'') i = Some (demo_part i)" if "i < 2" for i
    using that by (auto simp: answer_result_def part_result_def demo_api_env_def demo_composite_def demo_answer_def
        fetch_body_def read_bounded_body_def max_response_bytes_def is_success_status_def demo_part_def Let_def less_2_cases_iff)
  have bytes: "answer_bytes demo_api_env demo_composite 1000 (\<lambda>_. demo_answer ''x'') i = 6" if "i < 2" for i
    using res [OF that] by (simp add: answer_bytes_def framed_part_byte_length_def framed_part_section_def demo_part_def
        demo_api_env_def)
  have f: "\<forall>(i, a) \<in> set [(1::nat, demo_answer ''x''), (0, demo_answer ''x'')]. a = (\<lambda>_. demo_answer ''x'') i" by simp
  have two: "[0..<2] = [0, 1::nat]" by (simp add: upt_rec)
  have "pool_outcome 2 p = Some (Inr [demo_part 0, demo_part 1])"
    using composite_is_schedule_free [OF p f, of "[demo_part 0, demo_part 1]"]
    by (simp add: n res bytes two max_composite_bytes_def max_response_bytes_def)
  with p show ?thesis by force
qed

definition demo_api_scope :: api_scope where
  "demo_api_scope = \<lparr>as_url = Some ''u'', as_auth = None, as_headers = None, as_method = None, as_timeout_ms = 1000,
     as_strategy = None, as_collection = None, as_composite = None\<rparr>"

lemma api_source_compares_with_last_accepted_witness:
  "\<exists>r. poll_resource demo_api_env demo_api_scope ''u''
       (polled_state demo_api_env demo_api_scope ''u'' [demo_answer ''x'', FetchThrew True ''late'' None]) (demo_answer ''y'') = Inr r \<and>
     ob_observations r = [response_observation demo_api_env ''u'' ApiTextDiff ''y'' 200]"
proof -
  have plain: "as_collection demo_api_scope = None" by (simp add: demo_api_scope_def)
  have f: "fetch_body demo_api_env ''u'' (as_timeout_ms demo_api_scope) (as_strategy demo_api_scope \<noteq> Some ApiStatusCode)
      (demo_answer t) = Inr \<lparr>ft_body = t, ft_status = 200, ft_type = None\<rparr>" if "length t < 5" for t
    using that by (simp add: fetch_body_def demo_answer_def demo_api_scope_def read_bounded_body_def demo_api_env_def
        max_response_bytes_def Let_def)
  have before: "accepted_responses demo_api_env demo_api_scope ''u'' [demo_answer ''x'', FetchThrew True ''late'' None] =
      [\<lparr>ft_body = ''x'', ft_status = 200, ft_type = None\<rparr>]"
    unfolding accepted_responses_def
    by (simp add: f [of "''x''"]) (simp add: fetch_body_def accepts_def is_success_status_def)
  from api_source_compares_with_last_accepted [OF plain, where env = demo_api_env and url = "''u''" and
      a = "demo_answer ''y''" and answers = "[demo_answer ''x'', FetchThrew True ''late'' None]"]
  show ?thesis
    unfolding before f [of "''y''", simplified]
    by (auto simp: accepts_def is_success_status_def Let_def resolve_strategy_def demo_api_scope_def
        is_json_content_type_def responses_differ_def split: sum.splits)
qed

end
