(* ===== verification/AM_Reaper.thy ===== *)
theory AM_Reaper
  imports AM_Path AM_Cron AM_Json AM_Types
begin

text \<open>
  When the daemon stops by itself: the pure decision \<open>apps/cli/src/reap-decision.ts\<close>, the registry of
  transport heartbeats it reads (\<open>apps/cli/src/transport-heartbeat.ts\<close>), and the check the loop of
  \<open>apps/cli/src/commands/daemon.ts\<close> makes after every tick. \<open>Date.parse\<close>, \<open>toISOString\<close>, the digest in a
  file name and the process are arguments.

  The properties: over any sequence of checks the daemon stops exactly when the current stretch of
  quiet checks has lasted for the required window; and a heartbeat is a lease, live for its time to
  live from the moment it is written and not longer.
\<close>

section \<open>The decision\<close>

record reap_input =
  ri_open :: nat
  ri_channel :: bool
  ri_seen :: bool
  ri_idle :: "ms option"
  ri_now :: ms
  ri_reap_after :: ms
  ri_boot_grace :: ms

record reap_output =
  ro_reap :: bool
  ro_idle :: "ms option"
  ro_seen :: bool

definition boot_grace_ms :: ms where
  "boot_grace_ms = 10000"

definition should_reap :: "reap_input \<Rightarrow> reap_output" where
  "should_reap s =
     (if ri_reap_after s \<le> 0 then \<lparr>ro_reap = False, ro_idle = None, ro_seen = ri_seen s\<rparr>
      else if 0 < ri_open s then \<lparr>ro_reap = False, ro_idle = None, ro_seen = True\<rparr>
      else if ri_channel s then \<lparr>ro_reap = False, ro_idle = None, ro_seen = ri_seen s\<rparr>
      else (let idle_since = default (ri_idle s) (ri_now s);
                idle = ri_now s - idle_since;
                required = (if ri_seen s then ri_reap_after s else max (ri_reap_after s) (ri_boot_grace s)) in
        \<lparr>ro_reap = (required \<le> idle), ro_idle = Some idle_since, ro_seen = ri_seen s\<rparr>))"

section \<open>Heartbeats\<close>

datatype transport = Hook | Channel

record heartbeat =
  hb_schema :: int
  hb_transport :: transport
  hb_pid :: int
  hb_ws :: string
  hb_socket :: string
  hb_host :: "string option"
  hb_session :: "string option"
  hb_started :: string
  hb_updated :: string
  hb_ttl :: ms
  hb_last_delivery :: "string option"

definition heartbeat_schema_version :: int where
  "heartbeat_schema_version = 1"

definition channel_heartbeat_ttl_ms :: ms where
  "channel_heartbeat_ttl_ms = 30000"

definition hook_heartbeat_ttl_ms :: ms where
  "hook_heartbeat_ttl_ms = 24 * 60 * 60 * 1000"

definition heartbeat_future_tolerance_ms :: ms where
  "heartbeat_future_tolerance_ms = 5000"

text \<open>
  The process and its clock. \<open>pc_parse_date\<close> is \<open>Date.parse\<close> (\<open>None\<close> for \<open>NaN\<close>), \<open>pc_iso\<close> is \<open>toISOString\<close>
  and \<open>pc_digest\<close> the first characters of the SHA-256 of a key.
\<close>

record proc =
  pc_pid :: nat
  pc_here :: string
  pc_parse_date :: "string \<Rightarrow> ms option"
  pc_iso :: "ms \<Rightarrow> string"
  pc_digest :: "string \<Rightarrow> string"
  pc_workspace_hash :: "string \<Rightarrow> string"

definition key_char :: "char \<Rightarrow> bool" where
  "key_char c = (is_digit c \<or> (let n = of_char c :: nat in (65 \<le> n \<and> n \<le> 90) \<or> (97 \<le> n \<and> n \<le> 122)) \<or> c \<in> set ''._-'')"

definition sanitize_key :: "proc \<Rightarrow> string \<Rightarrow> string" where
  "sanitize_key P key =
     (let cleaned = take 96 (map (\<lambda>c. if key_char c then c else CHR ''_'') key) in
      (if cleaned = [] then ''unknown'' else cleaned) @ ''-'' @ pc_digest P key)"

fun transport_text :: "transport \<Rightarrow> string" where
  "transport_text Hook = ''hook''" | "transport_text Channel = ''channel''"

definition heartbeat_path :: "proc \<Rightarrow> transport \<Rightarrow> string \<Rightarrow> string" where
  "heartbeat_path P t key = transport_text t @ ''-'' @ sanitize_key P key @ ''.json''"

definition heartbeat_key :: "proc \<Rightarrow> transport \<Rightarrow> string \<Rightarrow> string option \<Rightarrow> string" where
  "heartbeat_key P t workspace host =
     (case host of
        Some h \<Rightarrow> if h \<noteq> [] then h
          else if t = Channel then ''pid-'' @ show_nat (pc_pid P) else pc_workspace_hash P workspace
      | None \<Rightarrow> if t = Channel then ''pid-'' @ show_nat (pc_pid P) else pc_workspace_hash P workspace)"

definition is_heartbeat_stale :: "proc \<Rightarrow> heartbeat \<Rightarrow> ms \<Rightarrow> bool" where
  "is_heartbeat_stale P h now =
     (case pc_parse_date P (hb_updated h) of
        None \<Rightarrow> True
      | Some updated \<Rightarrow>
          (let age = now - updated in
           if age < - heartbeat_future_tolerance_ms then True else hb_ttl h < age))"

definition heartbeat_matches_binding :: "proc \<Rightarrow> heartbeat \<Rightarrow> string \<Rightarrow> string \<Rightarrow> bool" where
  "heartbeat_matches_binding P h workspace socket =
     (path_resolve (pc_here P) (pc_here P) (hb_ws h) = path_resolve (pc_here P) (pc_here P) workspace \<and>
      path_resolve (pc_here P) (pc_here P) (hb_socket h) = path_resolve (pc_here P) (pc_here P) socket)"

section \<open>The registry\<close>

text \<open>
  The directory as file names with what reading a file answers: a heartbeat of any schema version, or
  nothing for a file that is torn, foreign or unreadable.
\<close>

type_synonym registry = "(string \<times> heartbeat option) list"

definition json_file :: "string \<Rightarrow> bool" where
  "json_file name = (5 \<le> length name \<and> drop (length name - 5) name = ''.json'')"

definition readable :: "string \<times> heartbeat option \<Rightarrow> heartbeat option" where
  "readable = (\<lambda>(name, h). if \<not> json_file name then None
     else (case h of Some b \<Rightarrow> if hb_schema b = heartbeat_schema_version then Some b else None | None \<Rightarrow> None))"

record scan =
  sc_records :: "heartbeat list"
  sc_failed :: bool

text \<open>Listing the directory can fail; only \<open>ENOENT\<close> means that it is empty.\<close>

definition read_heartbeats :: "string + registry \<Rightarrow> scan" where
  "read_heartbeats dir =
     (case dir of
        Inl code \<Rightarrow> \<lparr>sc_records = [], sc_failed = (code \<noteq> ''ENOENT'')\<rparr>
      | Inr reg \<Rightarrow> \<lparr>sc_records = concat (map (\<lambda>f. case readable f of None \<Rightarrow> [] | Some h \<Rightarrow> [h]) reg), sc_failed = False\<rparr>)"

definition reap_expired_heartbeats :: "proc \<Rightarrow> ms \<Rightarrow> registry \<Rightarrow> registry" where
  "reap_expired_heartbeats P now reg =
     filter (\<lambda>f. case readable f of None \<Rightarrow> True | Some h \<Rightarrow> \<not> is_heartbeat_stale P h now) reg"

record heartbeat_input =
  hi_transport :: transport
  hi_ws :: string
  hi_socket :: string
  hi_host :: "string option"
  hi_session :: "string option"
  hi_started :: "ms option"
  hi_ttl :: "ms option"
  hi_delivery :: "ms option"

definition existing_delivery :: "registry \<Rightarrow> string \<Rightarrow> string option" where
  "existing_delivery reg target = (case map_of reg target of Some (Some h) \<Rightarrow> hb_last_delivery h | _ \<Rightarrow> None)"

definition non_blank :: "string option \<Rightarrow> string option" where
  "non_blank v = (case v of Some s \<Rightarrow> if s = [] then None else Some s | None \<Rightarrow> None)"

definition heartbeat_record :: "proc \<Rightarrow> registry \<Rightarrow> ms \<Rightarrow> heartbeat_input \<Rightarrow> string \<times> heartbeat" where
  "heartbeat_record P reg now i =
     (let workspace = path_resolve (pc_here P) (pc_here P) (hi_ws i);
          target = heartbeat_path P (hi_transport i) (heartbeat_key P (hi_transport i) workspace (hi_host i));
          delivery = or_else (map_option (pc_iso P) (hi_delivery i)) (existing_delivery reg target) in
      (target,
       \<lparr>hb_schema = heartbeat_schema_version, hb_transport = hi_transport i, hb_pid = int (pc_pid P),
         hb_ws = workspace, hb_socket = hi_socket i, hb_host = non_blank (hi_host i),
         hb_session = non_blank (hi_session i), hb_started = pc_iso P (default (hi_started i) now),
         hb_updated = pc_iso P now,
         hb_ttl = default (hi_ttl i) (if hi_transport i = Channel then channel_heartbeat_ttl_ms else hook_heartbeat_ttl_ms),
         hb_last_delivery = non_blank delivery\<rparr>))"

text \<open>The file is replaced atomically; a failed write changes nothing and skips the collection.\<close>

definition write_transport_heartbeat :: "proc \<Rightarrow> bool \<Rightarrow> ms \<Rightarrow> heartbeat_input \<Rightarrow> registry \<Rightarrow> registry \<times> heartbeat option" where
  "write_transport_heartbeat P writable now i reg =
     (let (target, h) = heartbeat_record P reg now i in
      if \<not> writable then (reg, None)
      else (reap_expired_heartbeats P now (map_set reg target (Some h)), Some h))"

definition remove_transport_heartbeat :: "proc \<Rightarrow> transport \<Rightarrow> string \<Rightarrow> string option \<Rightarrow> registry \<Rightarrow> registry" where
  "remove_transport_heartbeat P t workspace host reg =
     filter (\<lambda>(name, _). name \<noteq> heartbeat_path P t (heartbeat_key P t workspace host)) reg"

section \<open>The check after a tick\<close>

record daemon_config =
  dc_ws :: string
  dc_socket :: string
  dc_reap_after :: ms

record loop_state =
  lp_idle :: "ms option"
  lp_seen :: bool

definition loop_started :: loop_state where
  "loop_started = \<lparr>lp_idle = None, lp_seen = False\<rparr>"

text \<open>What one check sees; a check can throw, and is skipped.\<close>

record check =
  ck_now :: ms
  ck_throws :: bool
  ck_sessions :: "session list"
  ck_registry :: "string + registry"

definition workspace_sessions :: "daemon_config \<Rightarrow> check \<Rightarrow> session list" where
  "workspace_sessions D c = filter (\<lambda>s. s_ws s = Some (dc_ws D)) (ck_sessions c)"

definition open_count :: "daemon_config \<Rightarrow> check \<Rightarrow> nat" where
  "open_count D c = length (filter (\<lambda>s. s_status s = Active) (workspace_sessions D c))"

definition channel_attached :: "proc \<Rightarrow> daemon_config \<Rightarrow> check \<Rightarrow> bool" where
  "channel_attached P D c =
     (0 < dc_reap_after D \<and> open_count D c = 0 \<and>
      (let found = read_heartbeats (ck_registry c) in
       sc_failed found \<or>
       list_ex (\<lambda>h. hb_transport h = Channel \<and> heartbeat_matches_binding P h (dc_ws D) (dc_socket D) \<and>
         \<not> is_heartbeat_stale P h (ck_now c)) (sc_records found)))"

definition reap_check :: "proc \<Rightarrow> daemon_config \<Rightarrow> loop_state \<Rightarrow> check \<Rightarrow> loop_state \<times> bool" where
  "reap_check P D st c =
     (if ck_throws c then (st, False)
      else (let d = should_reap \<lparr>ri_open = open_count D c, ri_channel = channel_attached P D c,
                  ri_seen = lp_seen st \<or> workspace_sessions D c \<noteq> [], ri_idle = lp_idle st, ri_now = ck_now c,
                  ri_reap_after = dc_reap_after D, ri_boot_grace = boot_grace_ms\<rparr> in
            (\<lparr>lp_idle = ro_idle d, lp_seen = ro_seen d\<rparr>, ro_reap d)))"

definition loop_after :: "proc \<Rightarrow> daemon_config \<Rightarrow> check list \<Rightarrow> loop_state" where
  "loop_after P D cs = foldl (\<lambda>st c. fst (reap_check P D st c)) loop_started cs"

section \<open>Quiet stretches\<close>

text \<open>The reference: the checks that did not throw, and the longest suffix of them that saw nobody.\<close>

definition quiet :: "proc \<Rightarrow> daemon_config \<Rightarrow> check \<Rightarrow> bool" where
  "quiet P D c = (open_count D c = 0 \<and> \<not> channel_attached P D c)"

definition counted :: "check list \<Rightarrow> check list" where
  "counted cs = filter (\<lambda>c. \<not> ck_throws c) cs"

definition quiet_stretch :: "proc \<Rightarrow> daemon_config \<Rightarrow> check list \<Rightarrow> check list" where
  "quiet_stretch P D cs = rev (takeWhile (quiet P D) (rev (counted cs)))"

definition seen_session :: "daemon_config \<Rightarrow> check list \<Rightarrow> bool" where
  "seen_session D cs = list_ex (\<lambda>c. workspace_sessions D c \<noteq> []) (counted cs)"

definition required_idle :: "daemon_config \<Rightarrow> check list \<Rightarrow> ms" where
  "required_idle D cs = (if seen_session D cs then dc_reap_after D else max (dc_reap_after D) boot_grace_ms)"

lemma counted_simps [simp]:
  "counted [] = []" "counted (cs @ [c]) = counted cs @ (if ck_throws c then [] else [c])"
  by (simp_all add: counted_def)

lemma quiet_stretch_snoc:
  "quiet_stretch P D (cs @ [c]) =
     (if ck_throws c then quiet_stretch P D cs else if quiet P D c then quiet_stretch P D cs @ [c] else [])"
  by (simp add: quiet_stretch_def)

lemma seen_session_snoc:
  "seen_session D (cs @ [c]) \<longleftrightarrow> seen_session D cs \<or> (\<not> ck_throws c \<and> workspace_sessions D c \<noteq> [])"
  by (auto simp: seen_session_def)

lemma open_means_session: "0 < open_count D c \<Longrightarrow> workspace_sessions D c \<noteq> []"
  by (auto simp: open_count_def)

lemma loop_after_stretch:
  assumes "0 < dc_reap_after D"
  shows "lp_seen (loop_after P D cs) = seen_session D cs \<and>
    lp_idle (loop_after P D cs) =
      (if quiet_stretch P D cs = [] then None else Some (ck_now (hd (quiet_stretch P D cs))))"
proof (induction cs rule: rev_induct)
  case Nil
  show ?case by (simp add: loop_after_def loop_started_def seen_session_def quiet_stretch_def)
next
  case (snoc c cs)
  define st where "st = loop_after P D cs"
  have step: "loop_after P D (cs @ [c]) = fst (reap_check P D st c)" by (simp add: loop_after_def st_def)
  consider "ck_throws c" | "\<not> ck_throws c" "0 < open_count D c" | "\<not> ck_throws c" "open_count D c = 0" "channel_attached P D c"
    | "\<not> ck_throws c" "quiet P D c" by (auto simp: quiet_def)
  then show ?case
  proof cases
    case 1
    with snoc show ?thesis unfolding step
      by (simp add: reap_check_def quiet_stretch_snoc seen_session_snoc st_def)
  next
    case 2
    with assms open_means_session [OF 2(2)] show ?thesis unfolding step
      by (simp add: reap_check_def should_reap_def Let_def quiet_stretch_snoc seen_session_snoc quiet_def)
  next
    case 3
    with assms snoc show ?thesis unfolding step
      by (simp add: reap_check_def should_reap_def Let_def quiet_stretch_snoc seen_session_snoc quiet_def st_def)
  next
    case 4
    then have "open_count D c = 0" "\<not> channel_attached P D c" by (simp_all add: quiet_def)
    with 4 assms snoc show ?thesis unfolding step
      by (cases "quiet_stretch P D cs")
        (simp_all add: reap_check_def should_reap_def Let_def quiet_stretch_snoc seen_session_snoc st_def)
  qed
qed

text \<open>
  C29: after any sequence of checks, the next one stops the daemon exactly when reaping is enabled, it
  sees no open session and no live channel of this daemon (an unreadable registry counts as one), and
  the stretch of such checks it ends has lasted for the required window: the configured one once a
  session of the workspace was seen, at least the boot grace before. A check that throws neither
  stops the daemon nor interrupts the stretch.
\<close>

theorem daemon_stops_after_quiet_stretch:
  "snd (reap_check P D (loop_after P D cs) c) \<longleftrightarrow>
     0 < dc_reap_after D \<and> \<not> ck_throws c \<and> quiet P D c \<and>
     required_idle D (cs @ [c]) \<le> ck_now c - ck_now (hd (quiet_stretch P D (cs @ [c])))"
proof (cases "0 < dc_reap_after D")
  case True
  note st = loop_after_stretch [OF True, of P cs]
  show ?thesis
  proof (cases "ck_throws c \<or> \<not> quiet P D c")
    case False
    then have "open_count D c = 0" "\<not> channel_attached P D c" by (simp_all add: quiet_def)
    with True False st show ?thesis
      by (cases "quiet_stretch P D cs")
        (auto simp: reap_check_def should_reap_def Let_def quiet_stretch_snoc required_idle_def seen_session_snoc)
  qed (use True in \<open>auto simp: reap_check_def should_reap_def Let_def quiet_def\<close>)
qed (simp add: reap_check_def should_reap_def)

section \<open>A heartbeat is a lease\<close>

text \<open>\<open>Date.parse\<close> reads what \<open>toISOString\<close> printed, for every time a \<open>Date\<close> can hold after the epoch.\<close>

definition date_ok :: "ms \<Rightarrow> bool" where
  "date_ok t = (0 \<le> t \<and> t \<le> 8640000000000000)"

definition dates_round_trip :: "proc \<Rightarrow> bool" where
  "dates_round_trip P = (\<forall>t. date_ok t \<longrightarrow> pc_parse_date P (pc_iso P t) = Some t)"

definition lease_end :: "ms \<Rightarrow> heartbeat_input \<Rightarrow> ms" where
  "lease_end now i = now + default (hi_ttl i) (if hi_transport i = Channel then channel_heartbeat_ttl_ms else hook_heartbeat_ttl_ms)"

lemma json_file_heartbeat [simp]: "json_file (heartbeat_path P t key)"
  by (simp add: json_file_def heartbeat_path_def)

lemma heartbeat_record_fields:
  "heartbeat_record P reg now i = (target, h) \<Longrightarrow>
     hb_schema h = heartbeat_schema_version \<and> hb_transport h = hi_transport i \<and> hb_updated h = pc_iso P now \<and>
     hb_ttl h = lease_end now i - now \<and> hb_ws h = path_resolve (pc_here P) (pc_here P) (hi_ws i) \<and>
     hb_socket h = hi_socket i \<and> json_file target"
  by (auto simp: heartbeat_record_def Let_def lease_end_def)

lemma heartbeat_stale_iff:
  assumes "dates_round_trip P" "heartbeat_record P reg now i = (target, h)" "date_ok now"
  shows "is_heartbeat_stale P h t \<longleftrightarrow> t < now - heartbeat_future_tolerance_ms \<or> lease_end now i < t"
  using assms(1,3) heartbeat_record_fields [OF assms(2)]
  by (auto simp: is_heartbeat_stale_def dates_round_trip_def Let_def)

lemma map_of_filter_entries:
  "distinct (map fst m) \<Longrightarrow> map_of (filter Q m) k =
     (case map_of m k of None \<Rightarrow> None | Some v \<Rightarrow> if Q (k, v) then Some v else None)"
proof (induction m)
  case (Cons kv m)
  then have "map_of m (fst kv) = None" by (auto simp: map_of_eq_None_iff)
  with Cons show ?case by (cases kv) (auto split: option.splits)
qed simp

lemma channel_attached_member:
  assumes "0 < dc_reap_after D" "open_count D c = 0" "ck_registry c = Inr reg" "(name, Some h) \<in> set reg" "json_file name"
    and "hb_schema h = heartbeat_schema_version" "hb_transport h = Channel"
    and "heartbeat_matches_binding P h (dc_ws D) (dc_socket D)" "\<not> is_heartbeat_stale P h (ck_now c)"
  shows "channel_attached P D c"
proof -
  have "h \<in> set (sc_records (read_heartbeats (Inr reg)))"
    using assms(4-6) by (force simp: read_heartbeats_def readable_def)
  with assms show ?thesis by (auto simp: channel_attached_def Let_def list_ex_iff)
qed

text \<open>
  A heartbeat is a lease. Writing one puts it in place, removes exactly the lapsed records of
  others and keeps the rest. Until its time to live is over no check of the daemon it is bound to
  stops that daemon while the file is there; from then on the record counts for nothing.
\<close>

lemma heartbeat_is_a_lease:
  assumes "dates_round_trip P" and "distinct (map fst reg)" and "date_ok now" and "0 \<le> lease_end now i - now"
    and "heartbeat_record P reg now i = (target, h)"
    and "write_transport_heartbeat P True now i reg = (reg', written)"
  shows "written = Some h \<and>
    (\<forall>name. map_of reg' name = (if name = target then Some (Some h)
       else (case map_of reg name of None \<Rightarrow> None
         | Some f \<Rightarrow> if (case readable (name, f) of None \<Rightarrow> True | Some b \<Rightarrow> \<not> is_heartbeat_stale P b now) then Some f else None))) \<and>
    (\<forall>D st c files. ck_registry c = Inr files \<and> (target, Some h) \<in> set files \<and> now \<le> ck_now c \<and> ck_now c \<le> lease_end now i \<and>
       hi_transport i = Channel \<and> heartbeat_matches_binding P h (dc_ws D) (dc_socket D) \<longrightarrow> \<not> snd (reap_check P D st c)) \<and>
    (\<forall>t > lease_end now i. is_heartbeat_stale P h t)"
proof -
  note fields = heartbeat_record_fields [OF assms(5)] and stale = heartbeat_stale_iff [OF assms(1,5,3)]
  have w: "written = Some h" "reg' = reap_expired_heartbeats P now (map_set reg target (Some h))"
    using assms(5,6) by (auto simp: write_transport_heartbeat_def)
  have live: "\<not> is_heartbeat_stale P h now" using assms(4) by (simp add: stale heartbeat_future_tolerance_ms_def)
  have d: "distinct (map fst (map_set reg target (Some h)))" using assms(2) by (rule map_set_distinct)
  have names: "map_of reg' name = (if name = target then Some (Some h)
      else (case map_of reg name of None \<Rightarrow> None
        | Some f \<Rightarrow> if (case readable (name, f) of None \<Rightarrow> True | Some b \<Rightarrow> \<not> is_heartbeat_stale P b now) then Some f else None))" for name
    unfolding w(2) reap_expired_heartbeats_def map_of_filter_entries [OF d]
    using fields live by (auto simp: map_of_map_set readable_def split: option.splits)
  have keeps: "\<not> snd (reap_check P D st c)"
    if "ck_registry c = Inr files" "(target, Some h) \<in> set files" "now \<le> ck_now c" "ck_now c \<le> lease_end now i"
      "hi_transport i = Channel" "heartbeat_matches_binding P h (dc_ws D) (dc_socket D)" for D st c files
  proof (cases "0 < dc_reap_after D \<and> open_count D c = 0")
    case True
    then have "channel_attached P D c"
      using that fields by (intro channel_attached_member [of D c files target h]) (auto simp: stale heartbeat_future_tolerance_ms_def)
    with True show ?thesis by (simp add: reap_check_def should_reap_def Let_def)
  qed (auto simp: reap_check_def should_reap_def Let_def)
  show ?thesis using w(1) names keeps by (auto simp: stale)
qed

section \<open>A channel that attaches\<close>

definition demo_proc :: proc where
  "demo_proc = \<lparr>pc_pid = 7, pc_here = ''/'', pc_parse_date = (\<lambda>s. Some (int (length s))),
     pc_iso = (\<lambda>t. replicate (nat t) (CHR ''x'')), pc_digest = (\<lambda>_. ''d''), pc_workspace_hash = (\<lambda>_. ''w'')\<rparr>"

definition demo_heartbeat_input :: heartbeat_input where
  "demo_heartbeat_input = \<lparr>hi_transport = Channel, hi_ws = ''/w'', hi_socket = ''/s'', hi_host = None, hi_session = None,
     hi_started = None, hi_ttl = None, hi_delivery = None\<rparr>"

definition demo_daemon :: daemon_config where
  "demo_daemon = \<lparr>dc_ws = ''/w'', dc_socket = ''/s'', dc_reap_after = 1000\<rparr>"

definition demo_check :: "ms \<Rightarrow> registry \<Rightarrow> check" where
  "demo_check t reg = \<lparr>ck_now = t, ck_throws = False, ck_sessions = [], ck_registry = Inr reg\<rparr>"

lemma heartbeat_is_a_lease_witness:
  "\<exists>reg h. write_transport_heartbeat demo_proc True 5 demo_heartbeat_input [] = (reg, Some h) \<and>
     \<not> snd (reap_check demo_proc demo_daemon \<lparr>lp_idle = Some (- 100000), lp_seen = True\<rparr> (demo_check 30005 reg)) \<and>
     is_heartbeat_stale demo_proc h 30006"
proof -
  obtain target h where rec: "heartbeat_record demo_proc [] 5 demo_heartbeat_input = (target, h)" by fastforce
  obtain reg' out where w: "write_transport_heartbeat demo_proc True 5 demo_heartbeat_input [] = (reg', out)" by fastforce
  have dates: "dates_round_trip demo_proc" by (simp add: dates_round_trip_def demo_proc_def date_ok_def)
  have lease: "lease_end 5 demo_heartbeat_input = 30005"
    by (simp add: lease_end_def demo_heartbeat_input_def channel_heartbeat_ttl_ms_def)
  have p: "distinct (map fst ([] :: registry))" "date_ok 5" "0 \<le> lease_end 5 demo_heartbeat_input - 5"
    by (simp_all add: lease date_ok_def)
  note res = heartbeat_is_a_lease [OF dates p rec w]
  have "map_of reg' target = Some (Some h)" using res by simp
  then have "(target, Some h) \<in> set reg'" by (rule map_of_SomeD)
  moreover have "heartbeat_matches_binding demo_proc h (dc_ws demo_daemon) (dc_socket demo_daemon)"
    using rec by (auto simp: heartbeat_record_def heartbeat_matches_binding_def Let_def demo_heartbeat_input_def
        demo_daemon_def path_resolve_idem)
  ultimately have "\<not> snd (reap_check demo_proc demo_daemon st (demo_check 30005 reg'))" for st
    using res lease by (auto simp: demo_check_def demo_heartbeat_input_def)
  with res w lease show ?thesis by auto
qed

end
