(* ===== verification/AM_TransportHealth.thy ===== *)
theory AM_TransportHealth
  imports AM_Reaper AM_Diagnosis
begin

text \<open>
  The verdict of \<open>doctor\<close> on delivery, \<open>apps/cli/src/transport-health.ts\<close>: from the registry of
  heartbeats, the daemon's state and its diagnoses, which transports listen for the active lead
  sessions of a workspace and whether an event will reach them. A problem is kept as its code and its
  subject; the English of details and remediations is left out.

  The property is that the verdict is sound and complete: a workspace is called deliverable exactly
  when the daemon is up, nothing is muted or unknown, and some transport has a live listener, bound
  to this daemon and environment, for every active lead session.
\<close>

section \<open>Input and result\<close>

text \<open>A hold as a daemon of any version reports it.\<close>

datatype reported_reason = RSettleWindow | RNoNewWork | RAlreadyClaimed | RCoalescedUntilAck | RReservedInFlight

record reported_hold =
  rh_reason :: reported_reason
  rh_claimed :: "ident list option"

record reported_diagnosis =
  rd_session :: ident
  rd_holds :: "reported_hold list"

record beat =
  bt_heartbeat :: heartbeat
  bt_home :: string
  bt_data_root :: string
  bt_version :: string

record health_input =
  th_ws :: string
  th_socket :: string
  th_daemon_running :: bool
  th_leads :: "string list"
  th_beats :: "beat list"
  th_diagnoses :: "reported_diagnosis list"
  th_unavailable :: "ident list"
  th_version :: string
  th_home :: string
  th_data_root :: string
  th_now :: ms

datatype problem_code =
    DaemonUnreachable
  | WorkspaceMismatch
  | SocketMismatch
  | EnvironmentMismatch
  | RemindersSuppressed
  | HeartbeatStale
  | VersionSkew
  | ChannelRegistrationUnverified
  | DeliveryDiagnosisUnavailable
  | ChannelSessionUnmatched
  | ChannelLeadUncovered
  | HookLeadUncovered

text \<open>A problem names the sessions it is about, and the events a scoped acknowledgment would name.\<close>

record problem =
  pb_code :: problem_code
  pb_sessions :: "string list"
  pb_events :: "(ident \<times> ident list) list"

definition problem_of :: "problem_code \<Rightarrow> string list \<Rightarrow> problem" where
  "problem_of c ss = \<lparr>pb_code = c, pb_sessions = ss, pb_events = []\<rparr>"

record transport_status =
  ts_name :: transport
  ts_configured :: bool
  ts_running :: bool
  ts_healthy :: bool
  ts_bound :: "beat option"
  ts_last_delivery :: "string option"
  ts_problems :: "problem list"

datatype reach = ReachHook | ReachChannel | ReachBoth | ReachNone

record delivery_health =
  dh_transports :: "transport_status list"
  dh_pipeline :: "problem list"
  dh_reach :: reach
  dh_deliverable :: bool

section \<open>Problems\<close>

definition is_shared_problem :: "problem_code \<Rightarrow> bool" where
  "is_shared_problem c = (c \<in> {DaemonUnreachable, RemindersSuppressed, DeliveryDiagnosisUnavailable})"

definition is_advisory :: "problem_code \<Rightarrow> bool" where
  "is_advisory c = (c \<in> {ChannelRegistrationUnverified, VersionSkew})"

definition disqualifies_from_listening :: "problem_code \<Rightarrow> bool" where
  "disqualifies_from_listening c = (\<not> is_shared_problem c \<and> \<not> is_advisory c)"

definition same_path :: "proc \<Rightarrow> string \<Rightarrow> string \<Rightarrow> bool" where
  "same_path P a b = (path_resolve (pc_here P) (pc_here P) a = path_resolve (pc_here P) (pc_here P) b)"

definition binding_problems :: "proc \<Rightarrow> health_input \<Rightarrow> beat \<Rightarrow> problem list" where
  "binding_problems P inp b =
     (let h = bt_heartbeat b in
      (if heartbeat_matches_binding P h (th_ws inp) (th_socket inp) then []
       else if \<not> same_path P (hb_ws h) (th_ws inp) then [problem_of WorkspaceMismatch []]
       else [problem_of SocketMismatch []]) @
      (if bt_home b \<noteq> th_home inp \<or> bt_data_root b \<noteq> th_data_root inp then [problem_of EnvironmentMismatch []] else []))"

definition valid_claimed :: "reported_hold \<Rightarrow> bool" where
  "valid_claimed h = (case rh_claimed h of None \<Rightarrow> False | Some ids \<Rightarrow> 0 < length ids \<and> list_all (\<lambda>i. i \<noteq> []) ids)"

definition suppressed_holds :: "health_input \<Rightarrow> (ident \<times> reported_hold) list" where
  "suppressed_holds inp =
     concat (map (\<lambda>d. map (Pair (rd_session d))
       (filter (\<lambda>h. rh_reason h \<in> {RCoalescedUntilAck, RAlreadyClaimed}) (rd_holds d))) (th_diagnoses inp))"

definition suppression_problems :: "health_input \<Rightarrow> problem list" where
  "suppression_problems inp =
     (let suppressed = suppressed_holds inp;
          trustworthy = filter (\<lambda>(s, h). valid_claimed h) suppressed;
          untrustworthy = filter (\<lambda>(s, h). \<not> valid_claimed h) suppressed;
          named = remdups (map fst trustworthy) in
      (if trustworthy = [] then []
       else [\<lparr>pb_code = RemindersSuppressed, pb_sessions = named,
         pb_events = map (\<lambda>s. (s, remdups (concat (map (\<lambda>(_, h). default (rh_claimed h) [])
           (filter (\<lambda>(t, _). t = s) trustworthy))))) named\<rparr>]) @
      (if untrustworthy = [] then []
       else [problem_of DeliveryDiagnosisUnavailable (remdups (map fst untrustworthy))]))"

definition diagnosis_unavailable_problems :: "health_input \<Rightarrow> problem list" where
  "diagnosis_unavailable_problems inp =
     (if th_unavailable inp = [] then [] else [problem_of DeliveryDiagnosisUnavailable (th_unavailable inp)])"

section \<open>The heartbeats of a transport\<close>

text \<open>The freshness by which heartbeats are ranked; \<open>None\<close> is minus infinity, the least value.\<close>

definition representative_freshness :: "proc \<Rightarrow> ms \<Rightarrow> beat \<Rightarrow> ms option" where
  "representative_freshness P now b =
     (case pc_parse_date P (hb_updated (bt_heartbeat b)) of
        None \<Rightarrow> None
      | Some t \<Rightarrow> if now - t < - heartbeat_future_tolerance_ms then None else Some t)"

definition is_lead_beat :: "health_input \<Rightarrow> beat \<Rightarrow> bool" where
  "is_lead_beat inp b = (case hb_host (bt_heartbeat b) of None \<Rightarrow> False | Some s \<Rightarrow> s \<in> set (th_leads inp))"

definition selected_beats :: "proc \<Rightarrow> health_input \<Rightarrow> transport \<Rightarrow> beat list" where
  "selected_beats P inp t =
     (let candidates = filter (\<lambda>b. hb_transport (bt_heartbeat b) = t) (th_beats inp);
          same_workspace = filter (\<lambda>b. same_path P (hb_ws (bt_heartbeat b)) (th_ws inp)) candidates;
          leads = filter (is_lead_beat inp) (if t = Channel then candidates else same_workspace) in
      if leads = [] then same_workspace else leads)"

definition heartbeat_problems :: "proc \<Rightarrow> health_input \<Rightarrow> transport \<Rightarrow> beat \<Rightarrow> problem list" where
  "heartbeat_problems P inp t b =
     (let stale = is_heartbeat_stale P (bt_heartbeat b) (th_now inp) in
      binding_problems P inp b @
      (if t = Channel \<and> \<not> is_lead_beat inp b then [problem_of ChannelSessionUnmatched []] else []) @
      (if stale then [problem_of HeartbeatStale []] else []) @
      (if bt_version b \<noteq> th_version inp then [problem_of VersionSkew []] else []) @
      (if t = Channel \<and> \<not> stale then [problem_of ChannelRegistrationUnverified []] else []))"

text \<open>The ranking: the freshest first, among equals the one with most problems; \<open>sort\<close> is stable.\<close>

definition freshness_key :: "ms option \<Rightarrow> bool \<times> ms" where
  "freshness_key f = (case f of None \<Rightarrow> (True, 0) | Some t \<Rightarrow> (False, - t))"

definition ranked_beats :: "proc \<Rightarrow> health_input \<Rightarrow> transport \<Rightarrow> beat list" where
  "ranked_beats P inp t =
     map snd (sort_key fst (map (\<lambda>b. ((freshness_key (representative_freshness P (th_now inp) b),
       - int (length (heartbeat_problems P inp t b))), b))
       (sort_key (\<lambda>b. freshness_key (representative_freshness P (th_now inp) b)) (selected_beats P inp t))))"

definition uncovered_leads :: "proc \<Rightarrow> health_input \<Rightarrow> transport \<Rightarrow> string list" where
  "uncovered_leads P inp t =
     filter (\<lambda>s. Some s \<notin> set (map (\<lambda>b. hb_host (bt_heartbeat b)) (selected_beats P inp t))) (th_leads inp)"

definition build_transport :: "proc \<Rightarrow> health_input \<Rightarrow> problem list \<Rightarrow> transport \<Rightarrow> transport_status" where
  "build_transport P inp shared t =
     (case ranked_beats P inp t of
        [] \<Rightarrow> \<lparr>ts_name = t, ts_configured = False, ts_running = False, ts_healthy = False, ts_bound = None,
            ts_last_delivery = None, ts_problems = []\<rparr>
      | b # _ \<Rightarrow>
          (let stale = is_heartbeat_stale P (bt_heartbeat b) (th_now inp);
               uncovered = uncovered_leads P inp t;
               problems = concat (map (heartbeat_problems P inp t) (ranked_beats P inp t)) @
                 (if uncovered = [] then []
                  else [problem_of (if t = Channel then ChannelLeadUncovered else HookLeadUncovered) uncovered]) @ shared;
               blocking = filter (\<lambda>p. \<not> is_advisory (pb_code p)) problems in
           \<lparr>ts_name = t, ts_configured = True, ts_running = \<not> stale, ts_healthy = (\<not> stale \<and> blocking = []),
             ts_bound = Some b, ts_last_delivery = hb_last_delivery (bt_heartbeat b), ts_problems = problems\<rparr>))"

section \<open>The verdict\<close>

definition shared_problems :: "health_input \<Rightarrow> problem list" where
  "shared_problems inp = (if th_daemon_running inp then [] else [problem_of DaemonUnreachable []]) @
     suppression_problems inp @ diagnosis_unavailable_problems inp"

definition is_listening :: "transport_status \<Rightarrow> bool" where
  "is_listening s = (ts_running s \<and> \<not> list_ex (\<lambda>p. disqualifies_from_listening (pb_code p)) (ts_problems s))"

definition reach_of :: "transport_status list \<Rightarrow> reach" where
  "reach_of listening =
     (if length listening = 2 then ReachBoth
      else (case listening of [] \<Rightarrow> ReachNone
        | s # _ \<Rightarrow> if ts_name s = Hook then ReachHook else ReachChannel))"

definition compute_transport_health :: "proc \<Rightarrow> health_input \<Rightarrow> delivery_health" where
  "compute_transport_health P inp =
     (let shared = shared_problems inp;
          transports = [build_transport P inp shared Hook, build_transport P inp shared Channel];
          listening = (if th_leads inp = [] then [] else filter is_listening transports);
          reach = (if th_leads inp = [] then ReachNone else reach_of listening);
          suppressed = list_ex (\<lambda>p. pb_code p = RemindersSuppressed) shared;
          unavailable = list_ex (\<lambda>p. pb_code p = DeliveryDiagnosisUnavailable) shared in
      \<lparr>dh_transports = transports, dh_pipeline = shared, dh_reach = reach,
        dh_deliverable = (th_leads inp \<noteq> [] \<and> reach \<noteq> ReachNone \<and> th_daemon_running inp \<and> \<not> suppressed \<and> \<not> unavailable)\<rparr>)"

section \<open>Soundness and completeness\<close>

text \<open>A listener: its lease is live, it is bound to this daemon and reads the same environment.\<close>

definition sound_listener :: "proc \<Rightarrow> health_input \<Rightarrow> beat \<Rightarrow> bool" where
  "sound_listener P inp b =
     (\<not> is_heartbeat_stale P (bt_heartbeat b) (th_now inp) \<and>
      heartbeat_matches_binding P (bt_heartbeat b) (th_ws inp) (th_socket inp) \<and>
      bt_home b = th_home inp \<and> bt_data_root b = th_data_root inp)"

definition listens_for_all :: "proc \<Rightarrow> health_input \<Rightarrow> transport \<Rightarrow> bool" where
  "listens_for_all P inp t =
     (th_leads inp \<noteq> [] \<and>
      (\<forall>s \<in> set (th_leads inp). \<exists>b \<in> set (th_beats inp). hb_transport (bt_heartbeat b) = t \<and>
         hb_host (bt_heartbeat b) = Some s \<and> sound_listener P inp b) \<and>
      (\<forall>b \<in> set (th_beats inp). hb_transport (bt_heartbeat b) = t \<and> is_lead_beat inp b \<and>
         (t = Hook \<longrightarrow> same_path P (hb_ws (bt_heartbeat b)) (th_ws inp)) \<longrightarrow> sound_listener P inp b))"

lemma set_ranked [simp]: "set (ranked_beats P inp t) = set (selected_beats P inp t)"
  by (force simp: ranked_beats_def)

lemma ranked_Nil: "ranked_beats P inp t = [] \<longleftrightarrow> selected_beats P inp t = []"
  by (metis set_empty set_ranked)

lemma selected_sub: "b \<in> set (selected_beats P inp t) \<Longrightarrow> b \<in> set (th_beats inp) \<and> hb_transport (bt_heartbeat b) = t"
  by (auto simp: selected_beats_def Let_def split: if_splits)

lemma disqualifying_problems:
  "list_ex (\<lambda>p. disqualifies_from_listening (pb_code p)) (heartbeat_problems P inp t b) \<longleftrightarrow>
     \<not> sound_listener P inp b \<or> (t = Channel \<and> \<not> is_lead_beat inp b)"
  by (auto simp: heartbeat_problems_def binding_problems_def sound_listener_def problem_of_def Let_def
      disqualifies_from_listening_def is_shared_problem_def is_advisory_def)

lemma shared_not_disqualifying: "\<not> list_ex (\<lambda>p. disqualifies_from_listening (pb_code p)) (shared_problems inp)"
  by (auto simp: shared_problems_def suppression_problems_def diagnosis_unavailable_problems_def problem_of_def Let_def
      disqualifies_from_listening_def is_shared_problem_def)

lemma covered_iff:
  "uncovered_leads P inp t = [] \<longleftrightarrow>
     (\<forall>s \<in> set (th_leads inp). \<exists>b \<in> set (selected_beats P inp t). hb_host (bt_heartbeat b) = Some s)"
  by (simp add: uncovered_leads_def filter_empty_conv image_iff) (metis (no_types))

lemma is_listening_iff:
  "is_listening (build_transport P inp (shared_problems inp) t) \<longleftrightarrow>
     selected_beats P inp t \<noteq> [] \<and> uncovered_leads P inp t = [] \<and>
     (\<forall>b \<in> set (selected_beats P inp t). sound_listener P inp b \<and> (t = Channel \<longrightarrow> is_lead_beat inp b))"
proof (cases "ranked_beats P inp t")
  case Nil
  then show ?thesis by (simp add: is_listening_def build_transport_def ranked_Nil [symmetric])
next
  case (Cons b bs)
  then have b: "b \<in> set (selected_beats P inp t)" "selected_beats P inp t \<noteq> []"
    using set_ranked [of P inp t] ranked_Nil [of P inp t] by auto
  have ex: "list_ex (\<lambda>p. disqualifies_from_listening (pb_code p)) (concat (map (heartbeat_problems P inp t) (ranked_beats P inp t))) \<longleftrightarrow>
      (\<exists>b \<in> set (selected_beats P inp t). \<not> sound_listener P inp b \<or> (t = Channel \<and> \<not> is_lead_beat inp b))"
    unfolding disqualifying_problems [symmetric] by (simp add: list_ex_iff)
  have un: "list_ex (\<lambda>p. disqualifies_from_listening (pb_code p)) (if uncovered_leads P inp t = [] then []
      else [problem_of (if t = Channel then ChannelLeadUncovered else HookLeadUncovered) (uncovered_leads P inp t)]) \<longleftrightarrow>
      uncovered_leads P inp t \<noteq> []"
    by (auto simp: problem_of_def disqualifies_from_listening_def is_shared_problem_def is_advisory_def)
  have "is_listening (build_transport P inp (shared_problems inp) t) \<longleftrightarrow>
      \<not> is_heartbeat_stale P (bt_heartbeat b) (th_now inp) \<and>
      \<not> list_ex (\<lambda>p. disqualifies_from_listening (pb_code p)) (concat (map (heartbeat_problems P inp t) (ranked_beats P inp t))) \<and>
      uncovered_leads P inp t = []"
    using un shared_not_disqualifying [of inp]
    by (simp add: is_listening_def build_transport_def Cons Let_def list_ex_append)
  with ex b show ?thesis by (auto simp: sound_listener_def)
qed

lemma sound_same_path: "sound_listener P inp b \<Longrightarrow> same_path P (hb_ws (bt_heartbeat b)) (th_ws inp)"
  by (simp add: sound_listener_def heartbeat_matches_binding_def same_path_def)

lemma transport_cases: "t = Hook \<or> t = Channel"
  by (cases t) simp_all

text \<open>Once some counting heartbeat belongs to a lead, exactly those are selected.\<close>

lemma selected_leads:
  assumes "b \<in> set (th_beats inp)" "hb_transport (bt_heartbeat b) = t" "is_lead_beat inp b"
    and "t = Hook \<longrightarrow> same_path P (hb_ws (bt_heartbeat b)) (th_ws inp)"
  shows "set (selected_beats P inp t) = {b \<in> set (th_beats inp). hb_transport (bt_heartbeat b) = t \<and> is_lead_beat inp b \<and>
    (t = Hook \<longrightarrow> same_path P (hb_ws (bt_heartbeat b)) (th_ws inp))}"
  using assms by (cases t) (auto simp: selected_beats_def Let_def filter_empty_conv)

lemma listening_meaning:
  assumes "th_leads inp \<noteq> []"
  shows "is_listening (build_transport P inp (shared_problems inp) t) \<longleftrightarrow> listens_for_all P inp t"
proof
  assume "is_listening (build_transport P inp (shared_problems inp) t)"
  then have sel: "\<forall>s \<in> set (th_leads inp). \<exists>b \<in> set (selected_beats P inp t). hb_host (bt_heartbeat b) = Some s"
    and sound: "\<forall>b \<in> set (selected_beats P inp t). sound_listener P inp b"
    by (simp_all add: is_listening_iff covered_iff)
  from assms obtain s where "s \<in> set (th_leads inp)" by (cases "th_leads inp") auto
  with sel obtain b where b: "b \<in> set (selected_beats P inp t)" "hb_host (bt_heartbeat b) = Some s" by blast
  with \<open>s \<in> set (th_leads inp)\<close> have "is_lead_beat inp b" by (simp add: is_lead_beat_def)
  with b selected_sub [OF b(1)] sound sound_same_path [of P inp b]
  have "set (selected_beats P inp t) = {b \<in> set (th_beats inp). hb_transport (bt_heartbeat b) = t \<and> is_lead_beat inp b \<and>
    (t = Hook \<longrightarrow> same_path P (hb_ws (bt_heartbeat b)) (th_ws inp))}"
    by (intro selected_leads [of b]) auto
  with sel sound assms selected_sub show "listens_for_all P inp t"
    by (auto simp: listens_for_all_def) blast
next
  assume l: "listens_for_all P inp t"
  from assms obtain s where s: "s \<in> set (th_leads inp)" by (cases "th_leads inp") auto
  with l obtain b where b: "b \<in> set (th_beats inp)" "hb_transport (bt_heartbeat b) = t"
    "hb_host (bt_heartbeat b) = Some s" "sound_listener P inp b" by (auto simp: listens_for_all_def)
  then have sel: "set (selected_beats P inp t) = {b \<in> set (th_beats inp). hb_transport (bt_heartbeat b) = t \<and> is_lead_beat inp b \<and>
    (t = Hook \<longrightarrow> same_path P (hb_ws (bt_heartbeat b)) (th_ws inp))}"
    using s sound_same_path [of P inp b] by (intro selected_leads [of b]) (auto simp: is_lead_beat_def)
  have cover: "\<exists>b \<in> set (selected_beats P inp t). hb_host (bt_heartbeat b) = Some s" if "s \<in> set (th_leads inp)" for s
  proof -
    from l that obtain b where "b \<in> set (th_beats inp)" "hb_transport (bt_heartbeat b) = t"
      "hb_host (bt_heartbeat b) = Some s" "sound_listener P inp b" by (auto simp: listens_for_all_def)
    with that sound_same_path [of P inp b] show ?thesis unfolding sel by (auto simp: is_lead_beat_def)
  qed
  then have "selected_beats P inp t \<noteq> []" using s by fastforce
  with cover l show "is_listening (build_transport P inp (shared_problems inp) t)"
    unfolding is_listening_iff covered_iff sel by (auto simp: listens_for_all_def)
qed

lemma shared_codes:
  "list_ex (\<lambda>p. pb_code p = RemindersSuppressed) (shared_problems inp) \<or>
   list_ex (\<lambda>p. pb_code p = DeliveryDiagnosisUnavailable) (shared_problems inp) \<longleftrightarrow>
     suppressed_holds inp \<noteq> [] \<or> th_unavailable inp \<noteq> []"
proof -
  have "filter (\<lambda>(s, h). valid_claimed h) xs = [] \<and> filter (\<lambda>(s, h). \<not> valid_claimed h) xs = [] \<longleftrightarrow> xs = []" for xs :: "(ident \<times> reported_hold) list"
    by (cases xs) auto
  then show ?thesis
    by (auto simp: shared_problems_def suppression_problems_def diagnosis_unavailable_problems_def problem_of_def Let_def)
qed

text \<open>
  C30: the verdict on delivery is sound and complete. A workspace is reported as deliverable exactly
  when its daemon runs, no diagnosis mutes reminders or is missing, and one of the transports has for
  every active lead session a heartbeat that is within its lease, bound to this workspace and socket
  and reads the same home and data root, with no other lead heartbeat of that transport lapsed or
  bound elsewhere.
\<close>

theorem deliverable_means_listeners:
  "dh_deliverable (compute_transport_health P inp) \<longleftrightarrow>
     th_daemon_running inp \<and> suppressed_holds inp = [] \<and> th_unavailable inp = [] \<and>
     (listens_for_all P inp Hook \<or> listens_for_all P inp Channel)"
proof (cases "th_leads inp = []")
  case False
  let ?T = "\<lambda>t. build_transport P inp (shared_problems inp) t"
  have "reach_of (filter is_listening [?T Hook, ?T Channel]) \<noteq> ReachNone \<longleftrightarrow> is_listening (?T Hook) \<or> is_listening (?T Channel)"
    by (simp add: reach_of_def)
  then show ?thesis
    using False shared_codes [of inp]
    by (simp add: compute_transport_health_def Let_def listening_meaning [OF False]) blast
qed (simp add: compute_transport_health_def listens_for_all_def Let_def)

text \<open>The daemon of this version never reports a muted reminder.\<close>

definition reported_reason_of :: "hold_reason \<Rightarrow> reported_reason" where
  "reported_reason_of r = (case r of SettleWindow \<Rightarrow> RSettleWindow | NoNewWork \<Rightarrow> RNoNewWork | ReservedInFlight \<Rightarrow> RReservedInFlight)"

definition report_diagnosis :: "diagnosis \<Rightarrow> reported_diagnosis" where
  "report_diagnosis d = \<lparr>rd_session = dg_session d,
     rd_holds = map (\<lambda>h. \<lparr>rh_reason = reported_reason_of (hd_reason h), rh_claimed = hd_claimed h\<rparr>) (dg_holds d)\<rparr>"

lemma current_daemon_mutes_nothing:
  "th_diagnoses inp = map report_diagnosis ds \<Longrightarrow> suppressed_holds inp = []"
  by (auto simp: suppressed_holds_def report_diagnosis_def reported_reason_of_def filter_empty_conv split: hold_reason.splits)

end
