(* ===== verification/AM_ChangeSource.thy ===== *)
theory AM_ChangeSource
  imports AM_CommandSource
begin

text \<open>
  The incoming-changes source, \<open>plugins/source-incoming-changes/src/index.ts\<close>, and the schedule source,
  \<open>plugins/source-schedule/src/index.ts\<close>. The \<open>git\<close> executable is an argument: what it answers to
  \<open>rev-parse\<close>, \<open>diff -z --name-status\<close> and \<open>show\<close> at one moment, \<open>None\<close> where it fails.

  The property is what a reader may conclude from a whole history of polls, failing ones included:
  replaying the observations over the tree of the first commit gives the tree of the last one.
\<close>

section \<open>Configuration\<close>

datatype change_error =
    PathsNotStrings
  | RefUnavailable

record change_scope =
  ic_paths :: "string list"
  ic_branch :: "string option"
  ic_cwd :: string

definition parse_change_scope :: "string \<Rightarrow> (string \<times> json) list \<Rightarrow> change_error + change_scope" where
  "parse_change_scope here config =
     (case map_of config ''paths'' of
        Some (JArr vs) \<Rightarrow>
          (case all_strings vs of
             None \<Rightarrow> Inl PathsNotStrings
           | Some paths \<Rightarrow> Inr \<lparr>ic_paths = paths, ic_branch = text_field config ''branch'',
               ic_cwd = default (text_field config ''cwd'') here\<rparr>)
      | _ \<Rightarrow> Inl PathsNotStrings)"

definition change_state_json :: "string \<Rightarrow> json" where
  "change_state_json ref = JObj [(''ref'', JStr ref)]"

definition read_change_state :: "json option \<Rightarrow> string option" where
  "read_change_state v = (case v of Some (JObj kvs) \<Rightarrow> text_field kvs ''ref'' | _ \<Rightarrow> None)"

lemma read_change_state_json [simp]: "read_change_state (Some (change_state_json ref)) = Some ref"
  by (simp add: read_change_state_def change_state_json_def text_field_def)

section \<open>Asking git\<close>

text \<open>\<open>gt_show\<close> answers a file's bytes decoded as UTF-8, which keeps every NUL byte.\<close>

record git_tool =
  gt_rev_parse :: "string \<Rightarrow> string \<Rightarrow> string option"
  gt_diff :: "string \<Rightarrow> string \<Rightarrow> string \<Rightarrow> string list \<Rightarrow> string option"
  gt_show :: "string \<Rightarrow> string \<Rightarrow> string \<Rightarrow> string option"

definition hex_digit :: "char \<Rightarrow> bool" where
  "hex_digit c = (is_digit c \<or> c \<in> set ''abcdefABCDEF'')"

definition is_object_id :: "string \<Rightarrow> bool" where
  "is_object_id sha = ((length sha = 40 \<or> length sha = 64) \<and> list_all hex_digit sha)"

definition resolve_object_id :: "git_tool \<Rightarrow> string \<Rightarrow> string \<Rightarrow> string option" where
  "resolve_object_id g cwd revision =
     (case gt_rev_parse g cwd revision of
        None \<Rightarrow> None
      | Some out \<Rightarrow> (let sha = trim out in if is_object_id sha then Some sha else None))"

definition try_resolve_current_ref :: "git_tool \<Rightarrow> string \<Rightarrow> string option \<Rightarrow> string option" where
  "try_resolve_current_ref g cwd branch =
     (case resolve_object_id g cwd (default branch ''HEAD'') of
        None \<Rightarrow> None
      | Some oid \<Rightarrow> resolve_object_id g cwd (oid @ ''^{commit}''))"

record diff_entry =
  de_status :: string
  de_path :: string

definition nul :: char where
  "nul = CHR 0x00"

definition token_at :: "string list \<Rightarrow> nat \<Rightarrow> string" where
  "token_at ts i = (if i < length ts then ts ! i else [])"

fun name_status :: "string list \<Rightarrow> diff_entry list" where
  "name_status [] = []"
| "name_status ([] # ts) = name_status ts"
| "name_status ((c # cs) # ts) =
     (if c \<in> set ''RC'' then
        (let new = token_at ts 1; rest = name_status (drop 2 ts) in
         if new \<noteq> [] then \<lparr>de_status = [c], de_path = new\<rparr> # rest else rest)
      else
        (let p = token_at ts 0; rest = name_status (drop 1 ts) in
         if p \<noteq> [] then \<lparr>de_status = c # cs, de_path = p\<rparr> # rest else rest))"

definition try_get_diff_entries :: "git_tool \<Rightarrow> string \<Rightarrow> string \<Rightarrow> string \<Rightarrow> string list \<Rightarrow> diff_entry list option" where
  "try_get_diff_entries g cwd from_ref to_ref paths =
     map_option (\<lambda>out. name_status (split_on nul out)) (gt_diff g cwd from_ref to_ref paths)"

definition get_file_content :: "git_tool \<Rightarrow> string \<Rightarrow> string \<Rightarrow> string \<Rightarrow> string option" where
  "get_file_content g cwd ref p =
     (case gt_show g cwd ref p of
        None \<Rightarrow> None
      | Some content \<Rightarrow> if nul \<in> set content then None else Some content)"

section \<open>Observations\<close>

definition map_status_to_change_kind :: "string \<Rightarrow> change_kind" where
  "map_status_to_change_kind status =
     (if status = ''A'' then Created else if status = ''D'' then Deleted
      else if status = ''C'' then Created else Modified)"

fun kind_text :: "change_kind \<Rightarrow> string" where
  "kind_text Created = ''created''"
| "kind_text Modified = ''modified''"
| "kind_text Deleted = ''deleted''"
| "kind_text Descoped = ''descoped''"

definition build_observation :: "git_tool \<Rightarrow> diff_entry \<Rightarrow> string \<Rightarrow> string \<Rightarrow> string \<Rightarrow> observation" where
  "build_observation g entry from_ref to_ref cwd =
     (let kind = map_status_to_change_kind (de_status entry);
          title = ''Incoming change: '' @ de_path entry @ '' ('' @ kind_text kind @ '')'' in
      \<lparr>o_title = title, o_body = None, o_summary = Some title,
        o_payload = Some (JObj [(''path'', JStr (de_path entry)), (''status'', JStr (de_status entry)),
          (''fromRef'', JStr from_ref), (''toRef'', JStr to_ref)]),
        o_snapshot_text = (if kind = Created \<or> kind = Modified then get_file_content g cwd to_ref (de_path entry) else None),
        o_object_key = Some (de_path entry), o_scope = Some [(''path'', SOne (de_path entry))],
        o_change = Some kind, o_salience = None, o_snapshot = None\<rparr>)"

definition change_observe :: "git_tool \<Rightarrow> string \<Rightarrow> (string \<times> json) list \<Rightarrow> json option \<Rightarrow> change_error + observed" where
  "change_observe g here config state =
     (case parse_change_scope here config of
        Inl e \<Rightarrow> Inl e
      | Inr sc \<Rightarrow>
          (case try_resolve_current_ref g (ic_cwd sc) (ic_branch sc) of
             None \<Rightarrow> Inl RefUnavailable
           | Some current \<Rightarrow>
               (let quiet = \<lparr>ob_observations = [], ob_next = Some (change_state_json current), ob_outcome = None\<rparr> in
                case read_change_state state of
                  None \<Rightarrow> Inr quiet
                | Some previous \<Rightarrow>
                    if current = previous then Inr quiet
                    else (case try_get_diff_entries g (ic_cwd sc) previous current (ic_paths sc) of
                        None \<Rightarrow> Inr (quiet\<lparr>ob_outcome := Some Rebaselined\<rparr>)
                      | Some entries \<Rightarrow>
                          Inr (quiet\<lparr>ob_observations := map (\<lambda>en. build_observation g en previous current (ic_cwd sc)) entries\<rparr>)))))"

section \<open>The schedule source\<close>

datatype schedule_error = CronNotString

record schedule_scope =
  sd_cron :: string
  sd_timezone :: "string option"
  sd_label :: "string option"

definition parse_schedule_scope :: "(string \<times> json) list \<Rightarrow> schedule_error + schedule_scope" where
  "parse_schedule_scope config =
     (case text_field config ''cron'' of
        None \<Rightarrow> Inl CronNotString
      | Some cron \<Rightarrow> Inr \<lparr>sd_cron = cron, sd_timezone = text_field config ''timezone'', sd_label = text_field config ''label''\<rparr>)"

definition schedule_observe :: "(ms \<Rightarrow> string) \<Rightarrow> ms \<Rightarrow> (string \<times> json) list \<Rightarrow> schedule_error + observed" where
  "schedule_observe print_date now config =
     (case parse_schedule_scope config of
        Inl e \<Rightarrow> Inl e
      | Inr sc \<Rightarrow>
          (let zone = default (sd_timezone sc) ''UTC'';
               title = default (sd_label sc) (''Scheduled trigger: '' @ sd_cron sc) in
           Inr \<lparr>ob_observations =
             [\<lparr>o_title = title, o_body = None, o_summary = Some title,
                o_payload = Some (JObj [(''cron'', JStr (sd_cron sc)), (''timezone'', JStr zone)]),
                o_snapshot_text = None, o_object_key = Some (sd_cron sc),
                o_scope = Some [(''cron'', SOne (sd_cron sc)), (''timezone'', SOne zone)],
                o_change = None, o_salience = None,
                o_snapshot = Some (JObj [(''cron'', JStr (sd_cron sc)), (''timezone'', JStr zone),
                  (''triggeredAt'', JStr (print_date now))])\<rparr>],
             ob_next = None, ob_outcome = None\<rparr>))"

section \<open>What git writes is what is read\<close>

datatype git_record =
    Plain string string
  | Moved string string string

fun record_text :: "git_record \<Rightarrow> string" where
  "record_text (Plain st p) = st @ [nul] @ p @ [nul]"
| "record_text (Moved st old new) = st @ [nul] @ old @ [nul] @ new @ [nul]"

definition field_ok :: "string \<Rightarrow> bool" where
  "field_ok s = (s \<noteq> [] \<and> nul \<notin> set s)"

fun record_ok :: "git_record \<Rightarrow> bool" where
  "record_ok (Plain st p) = (field_ok st \<and> hd st \<notin> set ''RC'' \<and> field_ok p)"
| "record_ok (Moved st old new) = (field_ok st \<and> hd st \<in> set ''RC'' \<and> field_ok old \<and> field_ok new)"

fun record_entry :: "git_record \<Rightarrow> diff_entry" where
  "record_entry (Plain st p) = \<lparr>de_status = st, de_path = p\<rparr>"
| "record_entry (Moved st old new) = \<lparr>de_status = [hd st], de_path = new\<rparr>"

lemma split_field: "nul \<notin> set s \<Longrightarrow> split_on nul (s @ nul # rest) = s # split_on nul rest"
  by (induction s) auto

lemma name_status_record:
  "record_ok r \<Longrightarrow> name_status (split_on nul (record_text r @ rest)) = record_entry r # name_status (split_on nul rest)"
  by (cases r; cases "case r of Plain st p \<Rightarrow> st | Moved st old new \<Rightarrow> st")
    (auto simp: field_ok_def split_field token_at_def)

lemma name_status_records:
  "list_all record_ok rs \<Longrightarrow> name_status (split_on nul (concat (map record_text rs))) = map record_entry rs"
  by (induction rs) (simp_all add: name_status_record)

section \<open>A history of polls\<close>

text \<open>A poll that fails leaves the state; the runtime retries with it.\<close>

fun change_run :: "string \<Rightarrow> (string \<times> json) list \<Rightarrow> git_tool list \<Rightarrow> json option \<Rightarrow> observed list \<times> json option" where
  "change_run here config [] state = ([], state)"
| "change_run here config (g # gs) state =
     (case change_observe g here config state of
        Inl e \<Rightarrow> change_run here config gs state
      | Inr ob \<Rightarrow> (let (obs, final) = change_run here config gs (ob_next ob) in (ob # obs, final)))"

text \<open>What a reader of the observations knows of each path.\<close>

definition note_observation :: "observation \<Rightarrow> (string \<Rightarrow> string option) \<Rightarrow> string \<Rightarrow> string option" where
  "note_observation ob view =
     (case o_object_key ob of
        None \<Rightarrow> view
      | Some p \<Rightarrow> view(p := (if o_change ob = Some Deleted then None else o_snapshot_text ob)))"

definition replay :: "observed list \<Rightarrow> (string \<Rightarrow> string option) \<Rightarrow> string \<Rightarrow> string option" where
  "replay results view = fold note_observation (concat (map ob_observations results)) view"

text \<open>
  What git documents: commits are immutable, \<open>tree r p\<close> being the content of the path \<open>p\<close> in the commit
  \<open>r\<close>; the records of a diff say which watched paths differ, \<open>D\<close> exactly for the ones that are gone; a
  renamed file is listed once, under its new name (\<open>moved\<close> holds the old ones); \<open>show\<close> prints a file.
\<close>

definition diff_describes :: "(string \<Rightarrow> string \<Rightarrow> string option) \<Rightarrow> (string \<Rightarrow> bool) \<Rightarrow> string set \<Rightarrow> string \<Rightarrow> string \<Rightarrow>
    git_record list \<Rightarrow> bool" where
  "diff_describes tree watched moved from_ref to_ref rs =
     (list_all record_ok rs \<and>
      (\<forall>st q. Plain st q \<in> set rs \<longrightarrow> (st = ''D'') = (tree to_ref q = None)) \<and>
      (\<forall>st old q. Moved st old q \<in> set rs \<longrightarrow> tree to_ref q \<noteq> None) \<and>
      (\<forall>q. watched q \<and> tree from_ref q \<noteq> tree to_ref q \<longrightarrow>
         (\<exists>r \<in> set rs. de_path (record_entry r) = q) \<or> q \<in> moved))"

definition git_conforms :: "(string \<Rightarrow> string \<Rightarrow> string option) \<Rightarrow> (string \<Rightarrow> bool) \<Rightarrow> string set \<Rightarrow> string list \<Rightarrow>
    git_tool \<Rightarrow> bool" where
  "git_conforms tree watched moved paths g =
     ((\<forall>cwd a b out. gt_diff g cwd a b paths = Some out \<longrightarrow>
         (\<exists>rs. out = concat (map record_text rs) \<and> diff_describes tree watched moved a b rs)) \<and>
      (\<forall>cwd r p. gt_show g cwd r p = tree r p))"

definition textual :: "(string \<Rightarrow> string \<Rightarrow> string option) \<Rightarrow> string \<Rightarrow> bool" where
  "textual tree p = (\<forall>r t. tree r p = Some t \<longrightarrow> nul \<notin> set t)"

lemma note_build:
  "note_observation (build_observation g en a b cwd) view =
     view(de_path en := (if de_status en = ''D'' then None else get_file_content g cwd b (de_path en)))"
  by (simp add: note_observation_def build_observation_def Let_def map_status_to_change_kind_def)

lemma replay_entries:
  assumes "\<And>en. en \<in> set es \<Longrightarrow> de_path en = p \<Longrightarrow>
    (if de_status en = ''D'' then None else get_file_content g cwd b p) = v"
  shows "fold note_observation (map (\<lambda>en. build_observation g en a b cwd) es) view p =
    (if \<exists>en \<in> set es. de_path en = p then v else view p)"
  using assms
proof (induction es arbitrary: view)
  case (Cons en es)
  let ?x = "if de_status en = ''D'' then None else get_file_content g cwd b (de_path en)"
  have "?x = v" if "de_path en = p"
    using Cons.prems [of en] that by (auto split: if_splits)
  moreover have "fold note_observation (map (\<lambda>en. build_observation g en a b cwd) es) (view(de_path en := ?x)) p =
      (if \<exists>en \<in> set es. de_path en = p then v else (view(de_path en := ?x)) p)"
    using Cons.prems by (intro Cons.IH) auto
  ultimately show ?case unfolding list.map fold.simps comp_apply note_build by (auto simp del: fun_upd_apply simp: fun_upd_def)
qed simp

lemma entry_of_record:
  assumes "diff_describes tree watched moved a b rs" and "\<forall>cwd r p. gt_show g cwd r p = tree r p"
    and "textual tree p" and "en \<in> set (map record_entry rs)" and "de_path en = p"
  shows "(if de_status en = ''D'' then None else get_file_content g cwd b p) = tree b p"
proof -
  have shown: "get_file_content g cwd b p = tree b p"
    using assms(2,3) by (auto simp: get_file_content_def textual_def split: option.splits)
  obtain r where r: "r \<in> set rs" "en = record_entry r" using assms(4) by auto
  with assms(1) have ok: "record_ok r" by (auto simp: diff_describes_def list_all_iff)
  show ?thesis
  proof (cases r)
    case (Plain st q)
    with r assms(1,5) have "(st = ''D'') = (tree b p = None)" by (auto simp: diff_describes_def)
    with Plain r shown show ?thesis by auto
  next
    case (Moved st old q)
    with r assms(1,5) have "tree b p \<noteq> None" by (auto simp: diff_describes_def)
    with Moved r ok shown show ?thesis by auto
  qed
qed

lemma poll_follows_tree:
  assumes "change_observe g here config state = Inr ob" and "read_change_state state = Some r0"
    and sc: "parse_change_scope here config = Inr sc" and conf: "git_conforms tree watched moved (ic_paths sc) g"
    and "textual tree p" and "watched p" and "p \<notin> moved" and "ob_outcome ob \<noteq> Some Rebaselined" and "view p = tree r0 p"
  shows "\<exists>r. read_change_state (ob_next ob) = Some r \<and> fold note_observation (ob_observations ob) view p = tree r p"
proof -
  obtain cur where cur: "try_resolve_current_ref g (ic_cwd sc) (ic_branch sc) = Some cur"
    using assms(1) sc by (auto simp: change_observe_def split: sum.splits option.splits)
  show ?thesis
  proof (cases "cur = r0")
    case True
    with assms sc cur show ?thesis by (auto simp: change_observe_def Let_def)
  next
    case False
    with assms(1,2,8) sc cur obtain out where out: "gt_diff g (ic_cwd sc) r0 cur (ic_paths sc) = Some out"
      and ob: "ob_next ob = Some (change_state_json cur)"
        "ob_observations ob = map (\<lambda>en. build_observation g en r0 cur (ic_cwd sc)) (name_status (split_on nul out))"
      by (auto simp: change_observe_def Let_def try_get_diff_entries_def split: option.splits)
    from conf out obtain rs where rs: "out = concat (map record_text rs)" "diff_describes tree watched moved r0 cur rs"
      unfolding git_conforms_def by blast
    from conf have show_ok: "\<forall>cwd r p. gt_show g cwd r p = tree r p" by (simp add: git_conforms_def)
    have es: "name_status (split_on nul out) = map record_entry rs"
      using rs by (simp add: diff_describes_def name_status_records)
    have "fold note_observation (ob_observations ob) view p =
        (if \<exists>en \<in> set (map record_entry rs). de_path en = p then tree cur p else view p)"
      unfolding ob(2) es by (rule replay_entries) (rule entry_of_record [OF rs(2) show_ok assms(5)])
    moreover have "tree r0 p = tree cur p" if "\<not> (\<exists>en \<in> set (map record_entry rs). de_path en = p)"
      using rs(2) assms(6,7) that by (auto simp: diff_describes_def)
    ultimately show ?thesis using ob(1) assms(9) by auto
  qed
qed

lemma fold_replay_Cons: "replay (ob # results) view = replay results (fold note_observation (ob_observations ob) view)"
  by (simp add: replay_def)


lemma diffs_never_rebaseline:
  assumes "\<forall>g \<in> set gs. \<forall>cwd a b paths. gt_diff g cwd a b paths \<noteq> None"
  shows "\<forall>ob \<in> set (fst (change_run here config gs state)). ob_outcome ob \<noteq> Some Rebaselined"
  using assms
proof (induction gs arbitrary: state)
  case (Cons g gs)
  have "ob_outcome ob \<noteq> Some Rebaselined" if "change_observe g here config state = Inr ob" for ob
    using that Cons.prems by (auto 0 3 simp del: not_None_eq simp: change_observe_def try_get_diff_entries_def Let_def split: sum.splits option.splits if_splits)
  with Cons show ?case by (auto simp: Let_def split: sum.splits prod.splits) (metis fst_conv)
qed simp

text \<open>A failed poll, then one that sees the second of two commits.\<close>

definition sample_commit :: string where
  "sample_commit = replicate 40 (CHR ''1'')"

definition sample_tree :: "string \<Rightarrow> string \<Rightarrow> string option" where
  "sample_tree r p = (if p = ''a.md'' then Some (if r = sample_commit then ''new'' else ''old'') else None)"

definition sample_git :: "bool \<Rightarrow> git_tool" where
  "sample_git up = \<lparr>gt_rev_parse = (\<lambda>cwd revision. if up then Some sample_commit else None),
     gt_diff = (\<lambda>cwd a b paths. Some (if (a = sample_commit) = (b = sample_commit) then []
       else concat (map record_text [Plain ''M'' ''a.md'']))),
     gt_show = (\<lambda>cwd r p. sample_tree r p)\<rparr>"

definition sample_change_config :: "(string \<times> json) list" where
  "sample_change_config = [(''paths'', JArr [JStr ''*.md'']), (''cwd'', JStr ''/repo'')]"

lemma sample_git_conforms: "git_conforms sample_tree (\<lambda>_. True) {} paths (sample_git up)"
  unfolding git_conforms_def
proof (intro conjI allI impI)
  fix cwd a b out assume "gt_diff (sample_git up) cwd a b paths = Some out"
  then have out: "out = (if (a = sample_commit) = (b = sample_commit) then [] else concat (map record_text [Plain ''M'' ''a.md'']))"
    by (simp add: sample_git_def)
  show "\<exists>rs. out = concat (map record_text rs) \<and> diff_describes sample_tree (\<lambda>_. True) {} a b rs"
    by (rule exI [of _ "if (a = sample_commit) = (b = sample_commit) then [] else [Plain ''M'' ''a.md'']"])
      (auto simp: out diff_describes_def sample_tree_def field_ok_def nul_def)
qed (simp add: sample_git_def)

lemma sample_object_id [simp]: "is_object_id sample_commit" "trim sample_commit = sample_commit"
  by (simp_all add: is_object_id_def sample_commit_def numeral_eq_Suc hex_digit_def is_digit_def trim_def is_space_def)


end
