(* ===== verification/AM_Authoring.thy ===== *)
theory AM_Authoring
  imports AM_CommandSource AM_Cron AM_Path AM_Lifecycle
begin

text \<open>
  How an authored monitor becomes the record the runtime works with: the schema of the frontmatter
  (\<open>schema/monitor-schema.ts\<close>, \<open>schema/input-limits.ts\<close>), the checks of a watch scope
  (\<open>schema/validate-scope.ts\<close>), one file (\<open>parser/parse-monitor.ts\<close>, \<open>parser/read-monitor-file.ts\<close>)
  and the scan of a directory (\<open>parser/scan-monitors.ts\<close>). A schema is read as the parser it declares:
  a value, or nothing where it is rejected; the texts of the issues are not modelled, only whether one
  of them is an exceeded admission limit. The YAML reader, the compilers of CEL and jq, the time zone
  database, the JSON Schema validator and the directory listing are arguments.
\<close>

section \<open>Admission budgets\<close>

definition max_monitor_bytes :: nat where
  "max_monitor_bytes = 1024 * 1024"

definition max_monitor_tags :: nat where
  "max_monitor_tags = 256"

definition max_monitor_derive_rules :: nat where
  "max_monitor_derive_rules = 128"

text \<open>An array is admitted or not before any element is looked at.\<close>

definition bounded_monitor_array :: "(json \<Rightarrow> 'a option) \<Rightarrow> nat \<Rightarrow> json \<Rightarrow> 'a list option" where
  "bounded_monitor_array element maximum v =
     (case v of JArr vs \<Rightarrow> if maximum < length vs then None else those (map element vs) | _ \<Rightarrow> None)"

definition exceeds :: "nat \<Rightarrow> json option \<Rightarrow> bool" where
  "exceeds maximum v = (case v of Some (JArr vs) \<Rightarrow> maximum < length vs | _ \<Rightarrow> False)"

section \<open>The blocks of the frontmatter\<close>

text \<open>
  \<open>au_cel\<close> and \<open>au_jq\<close> say whether an expression compiles, \<open>au_zone\<close> whether \<open>Intl.DateTimeFormat\<close> accepts
  a time zone, \<open>au_bytes\<close> is \<open>Buffer.byteLength\<close>, \<open>au_matter\<close> the frontmatter's data and the body, \<open>None\<close>
  where the YAML is malformed.
\<close>

record authoring =
  au_cel :: "string \<Rightarrow> bool"
  au_jq :: "string \<Rightarrow> bool"
  au_zone :: "string \<Rightarrow> bool"
  au_bytes :: "string \<Rightarrow> nat"
  au_matter :: "string \<Rightarrow> (json \<times> string) option"

text \<open>An optional property: absent is a value of its own; present it has to pass.\<close>

definition optional :: "(json \<Rightarrow> 'a option) \<Rightarrow> json option \<Rightarrow> 'a option option" where
  "optional f v = (case v of None \<Rightarrow> Some None | Some w \<Rightarrow> map_option Some (f w))"

definition as_text :: "json \<Rightarrow> string option" where
  "as_text v = (case v of JStr s \<Rightarrow> Some s | _ \<Rightarrow> None)"

definition non_empty_text :: "json \<Rightarrow> string option" where
  "non_empty_text v = (case v of JStr s \<Rightarrow> if s = [] then None else Some s | _ \<Rightarrow> None)"

definition duration_pattern :: "string \<Rightarrow> bool" where
  "duration_pattern s = (2 \<le> length s \<and> list_all is_digit (butlast s) \<and> last s \<in> set ''smhd'')"

definition cron_pattern :: "string \<Rightarrow> bool" where
  "cron_pattern s = (length (words_ws (trim s)) = 5)"

definition matching_text :: "(string \<Rightarrow> bool) \<Rightarrow> json \<Rightarrow> string option" where
  "matching_text ok v = (case v of JStr s \<Rightarrow> if ok s then Some s else None | _ \<Rightarrow> None)"

definition notify_schema :: "authoring \<Rightarrow> json \<Rightarrow> notify option" where
  "notify_schema A v =
     (case v of
        JObj kvs \<Rightarrow>
          (case map_of kvs ''strategy'' of
             Some (JStr s) \<Rightarrow>
               if s = ''debounce'' then
                 map_option Debounce (Option.bind (map_of kvs ''settle-for'') (matching_text duration_pattern))
               else if s = ''throttle'' then
                 map_option Throttle (Option.bind (map_of kvs ''suppress-for'') (matching_text duration_pattern))
               else if s = ''rollup'' then
                 Option.bind (Option.bind (map_of kvs ''window'') (matching_text cron_pattern)) (\<lambda>window.
                   Option.bind (optional (matching_text (\<lambda>z. z \<noteq> [] \<and> au_zone A z)) (map_of kvs ''timezone'')) (\<lambda>zone.
                     Some (Rollup window zone)))
               else None
           | _ \<Rightarrow> None)
      | _ \<Rightarrow> None)"

definition baseline_strategy_schema :: "json option \<Rightarrow> baseline_strategy option" where
  "baseline_strategy_schema v =
     (case v of
        None \<Rightarrow> Some Net
      | Some (JStr s) \<Rightarrow> if s = ''incremental'' then Some Incremental else if s = ''net'' then Some Net else None
      | _ \<Rightarrow> None)"

definition urgency_band_schema :: "json \<Rightarrow> (urgency \<times> urgency) option" where
  "urgency_band_schema v =
     (case v of JStr raw \<Rightarrow> (case parse_urgency_band raw of Inl e \<Rightarrow> None | Inr band \<Rightarrow> Some band) | _ \<Rightarrow> None)"

definition watch_schema :: "json \<Rightarrow> (string \<times> (string \<times> json) list) option" where
  "watch_schema v =
     (case v of
        JObj kvs \<Rightarrow> map_option (\<lambda>t. (t, filter (\<lambda>(k, _). k \<noteq> ''type'') kvs))
          (Option.bind (map_of kvs ''type'') (matching_text kebab_type))
      | _ \<Rightarrow> None)"

definition derive_rule_schema :: "json \<Rightarrow> derive_rule option" where
  "derive_rule_schema v =
     (case v of
        JObj kvs \<Rightarrow>
          (case (Option.bind (map_of kvs ''name'') non_empty_text, Option.bind (map_of kvs ''when'') non_empty_text) of
             (Some n, Some w) \<Rightarrow> Some \<lparr>dr_name = n, dr_when = w\<rparr>
           | _ \<Rightarrow> None)
      | _ \<Rightarrow> None)"

definition shape_schema :: "authoring \<Rightarrow> json \<Rightarrow> shape_config option" where
  "shape_schema A v =
     (case v of
        JObj kvs \<Rightarrow>
          (case (optional (bounded_monitor_array derive_rule_schema max_monitor_derive_rules) (map_of kvs ''derive''),
              optional (matching_text (\<lambda>s. s = ''rendered'')) (map_of kvs ''render'')) of
             (Some rules, Some rendered) \<Rightarrow>
               if list_all (\<lambda>r. au_cel A (dr_when r)) (default rules []) then
                 Some \<lparr>sh_derive = rules, sh_rendered = (rendered \<noteq> None)\<rparr>
               else None
           | _ \<Rightarrow> None)
      | _ \<Rightarrow> None)"

definition payload_form_schema :: "json \<Rightarrow> payload_form option" where
  "payload_form_schema v =
     (case v of
        JStr s \<Rightarrow> if s = ''prose'' then Some Prose else if s = ''structured'' then Some Structured
          else if s = ''artifact'' then Some Artifact else if s = ''rendered'' then Some Rendered else None
      | _ \<Rightarrow> None)"

definition payload_transform_schema :: "json \<Rightarrow> transform option" where
  "payload_transform_schema v =
     (case v of
        JObj kvs \<Rightarrow>
          (case (Option.bind (map_of kvs ''language'') as_text, Option.bind (map_of kvs ''expression'') non_empty_text) of
             (Some l, Some e) \<Rightarrow> if l = ''jq'' then Some (Jq e) else if l = ''cel'' then Some (Cel e) else None
           | _ \<Rightarrow> None)
      | _ \<Rightarrow> None)"

fun transform_compiles :: "authoring \<Rightarrow> transform \<Rightarrow> bool" where
  "transform_compiles A (Jq e) = au_jq A e"
| "transform_compiles A (Cel e) = au_cel A e"

definition payload_encodings :: "string list" where
  "payload_encodings = [''json'', ''yaml'', ''toon'', ''toml'']"

definition payload_schema :: "authoring \<Rightarrow> json \<Rightarrow> payload_config option" where
  "payload_schema A v =
     (case v of
        JObj kvs \<Rightarrow>
          (case (Option.bind (map_of kvs ''form'') payload_form_schema,
              optional payload_transform_schema (map_of kvs ''transform''),
              optional (matching_text (\<lambda>s. s \<in> set payload_encodings)) (map_of kvs ''encoding'')) of
             (Some form, Some tr, Some encoding) \<Rightarrow>
               (case tr of
                  None \<Rightarrow> Some \<lparr>pl_form = form, pl_transform = None\<rparr>
                | Some t \<Rightarrow> if form = Structured \<and> transform_compiles A t then Some \<lparr>pl_form = form, pl_transform = Some t\<rparr>
                    else None)
           | _ \<Rightarrow> None)
      | _ \<Rightarrow> None)"

definition name_schema :: "json \<Rightarrow> string option" where
  "name_schema v = matching_text (\<lambda>s. s \<noteq> [] \<and> trim s \<noteq> []) v"

section \<open>The frontmatter\<close>

record frontmatter =
  fm_name :: "string option"
  fm_watch :: "string \<times> (string \<times> json) list"
  fm_urgency :: urgency
  fm_urgency_max :: urgency
  fm_notify :: "notify option"
  fm_baseline :: baseline_strategy
  fm_tags :: "string list option"
  fm_shape :: "shape_config option"
  fm_payload :: "payload_config option"

definition default_urgency_band :: "urgency \<times> urgency" where
  "default_urgency_band = (Normal, Normal)"

definition monitor_frontmatter_schema :: "authoring \<Rightarrow> json \<Rightarrow> frontmatter option" where
  "monitor_frontmatter_schema A v =
     (case v of
        JObj kvs \<Rightarrow>
          Option.bind (optional name_schema (map_of kvs ''name'')) (\<lambda>name.
          Option.bind (Option.bind (map_of kvs ''watch'') watch_schema) (\<lambda>watch.
          Option.bind (optional urgency_band_schema (map_of kvs ''urgency'')) (\<lambda>band.
          Option.bind (optional (notify_schema A) (map_of kvs ''notify'')) (\<lambda>notify.
          Option.bind (baseline_strategy_schema (map_of kvs ''baseline-strategy'')) (\<lambda>baseline.
          Option.bind (optional (bounded_monitor_array as_text max_monitor_tags) (map_of kvs ''tags'')) (\<lambda>tags.
          Option.bind (optional (shape_schema A) (map_of kvs ''shape'')) (\<lambda>shape.
          Option.bind (optional (payload_schema A) (map_of kvs ''payload'')) (\<lambda>payload.
            Some \<lparr>fm_name = name, fm_watch = watch, fm_urgency = fst (default band default_urgency_band),
              fm_urgency_max = snd (default band default_urgency_band), fm_notify = notify, fm_baseline = baseline,
              fm_tags = tags, fm_shape = shape, fm_payload = payload\<rparr>))))))))
      | _ \<Rightarrow> None)"

text \<open>Every field is looked at whatever becomes of the others, so an exceeded limit is always seen.\<close>

definition input_limit_exceeded :: "json \<Rightarrow> bool" where
  "input_limit_exceeded v =
     (case v of
        JObj kvs \<Rightarrow> exceeds max_monitor_tags (map_of kvs ''tags'') \<or>
          exceeds max_monitor_derive_rules (Option.bind (map_of kvs ''shape'') (\<lambda>s. jfield s ''derive''))
      | _ \<Rightarrow> False)"

section \<open>One file\<close>

definition path_components :: "string \<Rightarrow> string list" where
  "path_components p = filter (\<lambda>s. s \<noteq> []) (split_on slash p)"

definition path_basename :: "string \<Rightarrow> string" where
  "path_basename p = (if path_components p = [] then [] else last (path_components p))"

definition path_dirname :: "string \<Rightarrow> string" where
  "path_dirname p =
     (let dirs = butlast (path_components p) in
      if is_absolute p then slash # join [slash] dirs else if dirs = [] then ''.'' else join [slash] dirs)"

text \<open>\<open>path.parse(p).name\<close>: the base without its extension; a leading dot starts none.\<close>

definition path_name :: "string \<Rightarrow> string" where
  "path_name p =
     (let b = path_basename p; rb = rev b; ext = takeWhile (\<lambda>c. c \<noteq> CHR ''.'') rb in
      if length ext = length b \<or> b = ''..'' \<or> length b = Suc (length ext) then b
      else take (length b - Suc (length ext)) b)"

definition monitor_id_of :: "string \<Rightarrow> string" where
  "monitor_id_of p = (if path_basename p = ''MONITOR.md'' then path_basename (path_dirname p) else path_name p)"

datatype parse_error =
    ByteLimit
  | NoMonitorId
  | BadYaml
  | Rejected bool
  | ReadFailed

definition parse_monitor :: "authoring \<Rightarrow> string \<Rightarrow> string \<Rightarrow> parse_error + monitor" where
  "parse_monitor A content p =
     (let id = monitor_id_of p in
      if max_monitor_bytes < au_bytes A content then Inl ByteLimit
      else if id = [] \<or> hd id = CHR ''.'' then Inl NoMonitorId
      else (case au_matter A content of
          None \<Rightarrow> Inl BadYaml
        | Some (data, body) \<Rightarrow>
            (case monitor_frontmatter_schema A data of
               None \<Rightarrow> Inl (Rejected (input_limit_exceeded data))
             | Some fm \<Rightarrow>
                 Inr \<lparr>m_id = id, m_display = default (fm_name fm) id, m_name = fm_name fm,
                   m_type = fst (fm_watch fm), m_config = snd (fm_watch fm), m_urgency = fm_urgency fm,
                   m_urgency_max = Some (fm_urgency_max fm), m_notify = fm_notify fm, m_baseline = fm_baseline fm,
                   m_tags = fm_tags fm, m_shape = fm_shape fm, m_payload = fm_payload fm,
                   m_instructions = trim body, m_file = p\<rparr>)))"

section \<open>Reading within the budget\<close>

text \<open>
  \<open>monitorReadBudget\<close>, driven by either reader: \<open>rd pos room\<close> is one \<open>read\<close> at most \<open>room\<close> bytes long, empty
  at the end of the file, \<open>None\<close> where it throws. The answer is the bytes, or nothing for a file that
  is too long, with the capacity reserved in the end.
\<close>

definition capacity_limit :: nat where
  "capacity_limit = max_monitor_bytes + 1"

function read_budget :: "(nat \<Rightarrow> nat \<Rightarrow> 'b list option) \<Rightarrow> 'b list \<Rightarrow> nat \<Rightarrow> 'b list option option \<times> nat" where
  "read_budget rd got cap =
     (if capacity_limit \<le> length got then (Some None, cap)
      else (let cap' = (if length got = cap then min (cap * 2) capacity_limit else cap) in
        case rd (length got) (cap' - length got) of
          None \<Rightarrow> (None, cap')
        | Some chunk \<Rightarrow> if chunk = [] then (Some (Some got), cap') else read_budget rd (got @ chunk) cap'))"
  by pat_completeness auto
termination
  by (relation "measure (\<lambda>(rd, got, cap). capacity_limit - length got)") (auto simp: Let_def simp flip: length_greater_0_conv split: if_splits)

declare read_budget.simps [simp del]

definition read_monitor_file :: "(nat \<Rightarrow> nat \<Rightarrow> 'b list option) \<Rightarrow> 'b list option option \<times> nat" where
  "read_monitor_file rd = read_budget rd [] (min 4096 capacity_limit)"

definition parse_monitor_file :: "authoring \<Rightarrow> ('b list \<Rightarrow> string) \<Rightarrow> (string \<Rightarrow> (nat \<Rightarrow> nat \<Rightarrow> 'b list option) option) \<Rightarrow>
    string \<Rightarrow> parse_error + monitor" where
  "parse_monitor_file A decode fopen p =
     (case fopen p of
        None \<Rightarrow> Inl ReadFailed
      | Some rd \<Rightarrow>
          (case fst (read_monitor_file rd) of
             None \<Rightarrow> Inl ReadFailed
           | Some None \<Rightarrow> Inl ByteLimit
           | Some (Some bytes) \<Rightarrow> parse_monitor A (decode bytes) p))"

section \<open>Scanning a directory\<close>

record scan_result =
  sr_monitors :: "monitor list"
  sr_errors :: "(string \<times> parse_error) list"
  sr_duplicates :: "(string \<times> string list) list"

definition file_paths_by_id :: "monitor list \<Rightarrow> (string \<times> string list) list" where
  "file_paths_by_id ms = foldl (\<lambda>m x. map_set m (m_id x) (default (map_of m (m_id x)) [] @ [m_file x])) [] ms"

definition scan_matches :: "string \<Rightarrow> string \<Rightarrow> string list \<Rightarrow> string list \<Rightarrow> string list" where
  "scan_matches here base folders flats =
     sort (filter (\<lambda>p. path_dirname (path_resolve here here p) \<noteq> path_resolve here here base) folders @
       filter (\<lambda>p. path_basename p \<noteq> ''MONITOR.md'') flats)"

definition scan_monitors :: "authoring \<Rightarrow> ('b list \<Rightarrow> string) \<Rightarrow> (string \<Rightarrow> (nat \<Rightarrow> nat \<Rightarrow> 'b list option) option) \<Rightarrow>
    string \<Rightarrow> string \<Rightarrow> string list \<Rightarrow> string list \<Rightarrow> scan_result" where
  "scan_monitors A decode fopen here base folders flats =
     (let outcomes = map (\<lambda>p. (p, parse_monitor_file A decode fopen p))
            (map (path_resolve here here) (scan_matches here base folders flats));
          ms = concat (map (\<lambda>(p, r). case r of Inr m \<Rightarrow> [m] | Inl e \<Rightarrow> []) outcomes) in
      \<lparr>sr_monitors = ms,
        sr_errors = concat (map (\<lambda>(p, r). case r of Inr m \<Rightarrow> [] | Inl e \<Rightarrow> [(p, e)]) outcomes),
        sr_duplicates = filter (\<lambda>(i, ps). 1 < length ps) (file_paths_by_id ms)\<rparr>)"

section \<open>The scope of a watch\<close>

text \<open>The validator answers the location and the message of each error; \<open>'#'\<close> is the whole scope.\<close>

definition error_location :: "string \<Rightarrow> string" where
  "error_location loc =
     (if loc = [] \<or> loc = ''#'' then ''scope'' else if hd loc = CHR ''#'' then ''scope'' @ tl loc else loc)"

fun once :: "'a list \<Rightarrow> 'a list" where
  "once [] = []"
| "once (x # xs) = x # filter (\<lambda>y. y \<noteq> x) (once xs)"

definition validate_scope :: "(json \<Rightarrow> json \<Rightarrow> (string \<times> string) list option) \<Rightarrow> (string \<times> json) list \<Rightarrow> json \<Rightarrow> string list" where
  "validate_scope validate sc schema =
     (case validate schema (JObj sc) of
        None \<Rightarrow> []
      | Some errors \<Rightarrow> once (map (\<lambda>(loc, msg). error_location loc @ '': '' @ msg) errors))"

definition change_detection_collection_error :: "(string \<times> json) list \<Rightarrow> string option" where
  "change_detection_collection_error cfg =
     (case map_of cfg ''change-detection'' of
        Some (JObj cd) \<Rightarrow>
          if map_of cd ''collection'' = None \<or> map_of cd ''strategy'' = Some (JStr ''json-diff'') then None
          else Some ''change-detection.collection requires strategy: json-diff''
      | _ \<Rightarrow> None)"

definition declares_timezone :: "json \<Rightarrow> bool" where
  "declares_timezone schema = (case jfield schema ''properties'' of Some (JObj ps) \<Rightarrow> map_of ps ''timezone'' \<noteq> None | _ \<Rightarrow> False)"

definition invalid_timezone_error :: "authoring \<Rightarrow> (string \<times> json) list \<Rightarrow> json \<Rightarrow> string option" where
  "invalid_timezone_error A cfg schema =
     (if \<not> declares_timezone schema then None
      else (case text_field cfg ''timezone'' of
          None \<Rightarrow> None
        | Some z \<Rightarrow> if au_zone A z then None
            else Some (''scope.timezone: '' @ [CHR 0x22] @ z @ [CHR 0x22] @ '' is not a valid IANA time zone name (e.g. '' @
              [CHR 0x22] @ ''America/New_York'' @ [CHR 0x22] @ '', '' @ [CHR 0x22] @ ''UTC'' @ [CHR 0x22] @ '').'')))"

fun contains_text :: "string \<Rightarrow> string \<Rightarrow> bool" where
  "contains_text needle [] = (needle = [])"
| "contains_text needle (c # cs) = (take (length needle) (c # cs) = needle \<or> contains_text needle cs)"

definition validate_watch_scope :: "authoring \<Rightarrow> (json \<Rightarrow> json \<Rightarrow> (string \<times> string) list option) \<Rightarrow> (string \<times> json) list \<Rightarrow>
    json \<Rightarrow> string list" where
  "validate_watch_scope A validate sc schema =
     (let errors = validate_scope validate sc schema;
          supplemental = concat (map (\<lambda>e. case e of None \<Rightarrow> [] | Some m \<Rightarrow> [m])
            [change_detection_collection_error sc, invalid_timezone_error A sc schema]) in
      if supplemental \<noteq> [] then supplemental @ filter (\<lambda>m. \<not> contains_text ''then'' m) errors else errors)"

section \<open>What is read\<close>

text \<open>A reader of a file that does not change: every read makes progress and stays within its room.\<close>

definition reads_file :: "'b list \<Rightarrow> (nat \<Rightarrow> nat \<Rightarrow> 'b list option) \<Rightarrow> bool" where
  "reads_file content rd =
     (\<forall>pos room. 0 < room \<longrightarrow>
        (\<exists>n. rd pos room = Some (take n (drop pos content)) \<and> n \<le> room \<and> (pos < length content \<longrightarrow> 0 < n)))"

lemma read_budget_file:
  assumes "reads_file content rd" and "length got \<le> cap" and "0 < cap" and "cap \<le> capacity_limit"
    and "got = take (length got) content"
  shows "fst (read_budget rd got cap) = Some (if length content \<le> max_monitor_bytes then Some content else None) \<and>
    snd (read_budget rd got cap) \<le> capacity_limit \<and> snd (read_budget rd got cap) \<le> max cap (2 * length content)"
  using assms
proof (induction rd got cap rule: read_budget.induct)
  case (1 rd got cap)
  from 1(6) have gl: "length got \<le> length content" by (metis length_take min.bounded_iff order_refl)
  show ?case
  proof (cases "capacity_limit \<le> length got")
    case True
    with gl 1(5) show ?thesis by (simp add: read_budget.simps [of rd got] capacity_limit_def)
  next
    case False
    define cap' where "cap' = (if length got = cap then min (cap * 2) capacity_limit else cap)"
    have cap': "length got < cap'" "cap' \<le> capacity_limit" "cap' \<le> max cap (2 * length got)"
      using False 1(3-5) by (auto simp: cap'_def)
    with 1(2) obtain n where n: "rd (length got) (cap' - length got) = Some (take n (drop (length got) content))"
      "n \<le> cap' - length got" "length got < length content \<longrightarrow> 0 < n" unfolding reads_file_def by (metis zero_less_diff)
    have step: "read_budget rd got cap = (if take n (drop (length got) content) = [] then (Some (Some got), cap')
        else read_budget rd (got @ take n (drop (length got) content)) cap')"
      using False n(1) by (simp add: read_budget.simps [of rd got] Let_def cap'_def [symmetric])
    show ?thesis
    proof (cases "take n (drop (length got) content) = []")
      case True
      with n(3) gl have "length got = length content" by auto
      with 1(6) have "got = content" by (metis take_all order_refl)
      then have "fst (read_budget rd got cap) = Some (Some content)" and "snd (read_budget rd got cap) = cap'"
        using True step by simp_all
      with \<open>length got = length content\<close> False cap' show ?thesis by (auto simp: capacity_limit_def)
    next
      case nonempty: False
      let ?got = "got @ take n (drop (length got) content)"
      have g: "?got = take (length got + n) content"
        by (subst List.take_add) (rule arg_cong2 [where f = append, OF 1(6) refl])
      then have pre: "?got = take (length ?got) content" unfolding g by (simp add: min_def)
      have len: "length ?got \<le> cap'" using n(2) cap'(1) by simp
      have "fst (read_budget rd ?got cap') = Some (if length content \<le> max_monitor_bytes then Some content else None) \<and>
          snd (read_budget rd ?got cap') \<le> capacity_limit \<and> snd (read_budget rd ?got cap') \<le> max cap' (2 * length content)"
        by (rule 1(1) [OF False cap'_def n(1) nonempty 1(2) len _ cap'(2) pre]) (use cap'(1) in simp)
      then show ?thesis using step nonempty cap'(3) gl by auto
    qed
  qed
qed

text \<open>
  However the reads are cut, a file is answered whole or, above the limit, not at all, and the
  memory reserved is within the limit and in proportion to the file.
\<close>

lemma monitor_file_read_within_budget:
  assumes "reads_file content rd"
  shows "fst (read_monitor_file rd) = Some (if length content \<le> max_monitor_bytes then Some content else None)"
    and "snd (read_monitor_file rd) \<le> min capacity_limit (max 4096 (2 * length content))"
  using read_budget_file [OF assms, of "[]" "min 4096 capacity_limit"]
  by (auto simp: read_monitor_file_def capacity_limit_def max_monitor_bytes_def)

section \<open>The type of an authored monitor\<close>

definition notify_ok :: "authoring \<Rightarrow> notify \<Rightarrow> bool" where
  "notify_ok A n =
     (case n of
        Debounce d \<Rightarrow> \<not> isl (parse_duration d)
      | Throttle d \<Rightarrow> \<not> isl (parse_duration d)
      | Rollup w z \<Rightarrow> length (words_ws (trim w)) = 5 \<and> pred_option (au_zone A) z)"

definition monitor_ok :: "authoring \<Rightarrow> monitor \<Rightarrow> bool" where
  "monitor_ok A m =
     (m_id m \<noteq> [] \<and> hd (m_id m) \<noteq> CHR ''.'' \<and> slash \<notin> set (m_id m) \<and> m_display m \<noteq> [] \<and>
      kebab_type (m_type m) \<and> ''type'' \<notin> fst ` set (m_config m) \<and>
      (\<exists>hi. m_urgency_max m = Some hi \<and> m_urgency m \<le> hi) \<and>
      pred_option (notify_ok A) (m_notify m) \<and>
      pred_option (\<lambda>ts. length ts \<le> max_monitor_tags) (m_tags m) \<and>
      pred_option (\<lambda>s. pred_option (\<lambda>rs. length rs \<le> max_monitor_derive_rules \<and>
        list_all (\<lambda>r. dr_name r \<noteq> [] \<and> au_cel A (dr_when r)) rs) (sh_derive s)) (m_shape m) \<and>
      pred_option (\<lambda>pl. pred_option (\<lambda>t. pl_form pl = Structured \<and> transform_compiles A t) (pl_transform pl)) (m_payload m))"

lemma optional_pred:
  assumes "optional f v = Some r" and "\<And>w x. f w = Some x \<Longrightarrow> P x"
  shows "pred_option P r"
  using assms by (auto simp: optional_def split: option.splits)

lemma matching_text_Some: "matching_text ok v = Some s \<longleftrightarrow> v = JStr s \<and> ok s"
  by (cases v) (auto simp: matching_text_def)

lemma non_empty_text_Some: "non_empty_text v = Some s \<longleftrightarrow> v = JStr s \<and> s \<noteq> []"
  by (cases v) (auto simp: non_empty_text_def)

lemma those_Some: "those xs = Some ys \<Longrightarrow> xs = map Some ys"
  by (induction xs arbitrary: ys) (auto split: option.splits)

lemma duration_pattern_parses: "duration_pattern s \<Longrightarrow> \<not> isl (parse_duration s)"
  by (cases s rule: rev_cases) (auto simp: duration_pattern_def parse_duration_def unit_ms_def)

lemma notify_schema_ok: "notify_schema A v = Some n \<Longrightarrow> notify_ok A n"
  by (auto simp: notify_schema_def notify_ok_def matching_text_Some cron_pattern_def optional_def
      bind_eq_Some_conv duration_pattern_parses split: json.splits option.splits if_splits)

lemma bounded_array_map:
  assumes "bounded_monitor_array f n v = Some xs"
  shows "\<exists>vs. v = JArr vs \<and> map f vs = map Some xs \<and> length vs \<le> n"
proof (cases v)
  case (JArr vs)
  with assms have "length vs \<le> n" "those (map f vs) = Some xs"
    by (simp_all add: bounded_monitor_array_def split: if_splits)
  with those_Some [OF this(2)] JArr show ?thesis by blast
qed (use assms in \<open>simp_all add: bounded_monitor_array_def\<close>)

lemma bounded_array_length: "bounded_monitor_array f n v = Some xs \<Longrightarrow> length xs \<le> n"
  using bounded_array_map [of f n v xs] by (metis length_map)

lemma shape_schema_ok:
  "shape_schema A v = Some s \<Longrightarrow> pred_option (\<lambda>rs. length rs \<le> max_monitor_derive_rules \<and>
     list_all (\<lambda>r. dr_name r \<noteq> [] \<and> au_cel A (dr_when r)) rs) (sh_derive s)"
proof -
  have named: "dr_name r \<noteq> []" if arr: "bounded_monitor_array derive_rule_schema n w = Some rs" and r: "r \<in> set rs" for n w rs r
  proof -
    obtain vs where "w = JArr vs" "map derive_rule_schema vs = map Some rs"
      using bounded_array_map [OF arr] by blast
    then obtain x where "derive_rule_schema x = Some r" using r
      by (metis (no_types, lifting) imageE image_eqI list.set_map)
    then show ?thesis
      by (auto simp: derive_rule_schema_def non_empty_text_Some bind_eq_Some_conv split: json.splits option.splits if_splits)
  qed
  assume "shape_schema A v = Some s"
  then obtain w rules where rules: "optional (bounded_monitor_array derive_rule_schema max_monitor_derive_rules) w = Some rules"
    and cel: "list_all (\<lambda>r. au_cel A (dr_when r)) (default rules [])" and s: "sh_derive s = rules"
    by (cases v) (auto simp: shape_schema_def split: option.splits if_splits)
  have "pred_option (\<lambda>rs. length rs \<le> max_monitor_derive_rules \<and> (\<forall>r \<in> set rs. dr_name r \<noteq> [])) rules"
    by (rule optional_pred [OF rules]) (auto dest: bounded_array_length named)
  with cel show ?thesis by (cases rules) (auto simp: s list_all_iff)
qed

lemma payload_schema_ok:
  "payload_schema A v = Some pl \<Longrightarrow> pred_option (\<lambda>t. pl_form pl = Structured \<and> transform_compiles A t) (pl_transform pl)"
  by (auto simp: payload_schema_def split: json.splits option.splits if_splits)

lemma watch_schema_ok: "watch_schema v = Some (t, cfg) \<Longrightarrow> kebab_type t \<and> ''type'' \<notin> fst ` set cfg"
  by (auto simp: watch_schema_def matching_text_Some bind_eq_Some_conv split: json.splits)

lemma urgency_band_ok: "urgency_band_schema v = Some (lo, hi) \<Longrightarrow> lo \<le> hi"
  by (auto simp: urgency_band_schema_def parse_urgency_band_def Let_def less_eq_urgency_def
      split: json.splits list.splits option.splits sum.splits if_splits)

lemma component_no_slash: "s \<in> set (path_components p) \<Longrightarrow> slash \<notin> set s"
  by (auto simp: path_components_def split_on_no_sep)

lemma path_basename_no_slash: "slash \<notin> set (path_basename p)"
  using component_no_slash [of "last (path_components p)" p] by (simp add: path_basename_def)

lemma monitor_id_no_slash: "slash \<notin> set (monitor_id_of p)"
  using path_basename_no_slash [of p] path_basename_no_slash [of "path_dirname p"]
  by (auto simp: monitor_id_of_def path_name_def Let_def dest: in_set_takeD)

lemma frontmatter_ok:
  assumes "monitor_frontmatter_schema A v = Some fm"
  shows "pred_option (\<lambda>n. n \<noteq> []) (fm_name fm)" and "kebab_type (fst (fm_watch fm))" and "''type'' \<notin> fst ` set (snd (fm_watch fm))"
    and "fm_urgency fm \<le> fm_urgency_max fm" and "pred_option (notify_ok A) (fm_notify fm)"
    and "pred_option (\<lambda>ts. length ts \<le> max_monitor_tags) (fm_tags fm)"
    and "pred_option (\<lambda>s. pred_option (\<lambda>rs. length rs \<le> max_monitor_derive_rules \<and>
        list_all (\<lambda>r. dr_name r \<noteq> [] \<and> au_cel A (dr_when r)) rs) (sh_derive s)) (fm_shape fm)"
    and "pred_option (\<lambda>pl. pred_option (\<lambda>t. pl_form pl = Structured \<and> transform_compiles A t) (pl_transform pl)) (fm_payload fm)"
proof -
  obtain kvs name w t cfg band n b ts sh pl where v: "v = JObj kvs"
    and parts: "optional name_schema (map_of kvs ''name'') = Some name" "watch_schema w = Some (t, cfg)"
      "optional urgency_band_schema (map_of kvs ''urgency'') = Some band" "optional (notify_schema A) (map_of kvs ''notify'') = Some n"
      "optional (bounded_monitor_array as_text max_monitor_tags) (map_of kvs ''tags'') = Some ts"
      "optional (shape_schema A) (map_of kvs ''shape'') = Some sh" "optional (payload_schema A) (map_of kvs ''payload'') = Some pl"
    and fm: "fm = \<lparr>fm_name = name, fm_watch = (t, cfg), fm_urgency = fst (default band default_urgency_band),
        fm_urgency_max = snd (default band default_urgency_band), fm_notify = n, fm_baseline = b,
        fm_tags = ts, fm_shape = sh, fm_payload = pl\<rparr>"
    using assms by (cases v) (auto simp: monitor_frontmatter_schema_def bind_eq_Some_conv)
  show "pred_option (\<lambda>n. n \<noteq> []) (fm_name fm)"
    unfolding fm by (simp, rule optional_pred [OF parts(1)]) (auto simp: name_schema_def matching_text_Some)
  show "kebab_type (fst (fm_watch fm))" "''type'' \<notin> fst ` set (snd (fm_watch fm))"
    using watch_schema_ok [OF parts(2)] by (simp_all add: fm)
  have "pred_option (\<lambda>b. fst b \<le> snd b) band"
    by (rule optional_pred [OF parts(3)]) (auto simp: urgency_band_ok)
  then show "fm_urgency fm \<le> fm_urgency_max fm"
    by (cases band) (auto simp: fm default_urgency_band_def)
  show "pred_option (notify_ok A) (fm_notify fm)"
    unfolding fm by (simp, rule optional_pred [OF parts(4)]) (rule notify_schema_ok)
  show "pred_option (\<lambda>ts. length ts \<le> max_monitor_tags) (fm_tags fm)"
    unfolding fm by (simp, rule optional_pred [OF parts(5)]) (rule bounded_array_length)
  show "pred_option (\<lambda>s. pred_option (\<lambda>rs. length rs \<le> max_monitor_derive_rules \<and>
      list_all (\<lambda>r. dr_name r \<noteq> [] \<and> au_cel A (dr_when r)) rs) (sh_derive s)) (fm_shape fm)"
    unfolding fm frontmatter.simps by (rule optional_pred [OF parts(6)]) (rule shape_schema_ok)
  show "pred_option (\<lambda>pl. pred_option (\<lambda>t. pl_form pl = Structured \<and> transform_compiles A t) (pl_transform pl)) (fm_payload fm)"
    unfolding fm frontmatter.simps by (rule optional_pred [OF parts(7)]) (rule payload_schema_ok)
qed

lemma parse_monitor_ok:
  assumes "parse_monitor A content p = Inr m"
  shows "monitor_ok A m \<and> m_file m = p \<and> au_bytes A content \<le> max_monitor_bytes"
proof -
  from assms obtain data body fm where id: "au_bytes A content \<le> max_monitor_bytes" "monitor_id_of p \<noteq> []" "hd (monitor_id_of p) \<noteq> CHR ''.''"
    and fm: "monitor_frontmatter_schema A data = Some fm"
    and m: "m = \<lparr>m_id = monitor_id_of p, m_display = default (fm_name fm) (monitor_id_of p), m_name = fm_name fm,
        m_type = fst (fm_watch fm), m_config = snd (fm_watch fm), m_urgency = fm_urgency fm,
        m_urgency_max = Some (fm_urgency_max fm), m_notify = fm_notify fm, m_baseline = fm_baseline fm,
        m_tags = fm_tags fm, m_shape = fm_shape fm, m_payload = fm_payload fm,
        m_instructions = trim body, m_file = p\<rparr>"
    by (auto simp: parse_monitor_def Let_def split: if_splits option.splits prod.splits)
  note ok = frontmatter_ok [OF fm]
  have "m_display m \<noteq> []" using ok(1) id(2) by (cases "fm_name fm") (simp_all add: m)
  then have "monitor_ok A m" using ok id monitor_id_no_slash [of p]
    unfolding monitor_ok_def by (simp add: m)
  with id show ?thesis by (simp add: m)
qed

text \<open>
  C32: authoring is typed. Whatever is in a file and wherever it lies, parsing either says why there is no
  monitor, or gives one the runtime can work with: its id is the name of a file or folder that
  is not hidden; its source is kebab-case; its urgency band is not inverted; every delay it is
  paced by parses, and its delivery window has five fields and a known time zone; tags and derive
  rules are within their budgets; its predicates compile; and a transform comes with the
  structured form only.
\<close>

theorem parsed_monitor_is_well_typed:
  "case parse_monitor A content p of
     Inr m \<Rightarrow> monitor_ok A m \<and> m_file m = p \<and> au_bytes A content \<le> max_monitor_bytes
   | Inl ByteLimit \<Rightarrow> max_monitor_bytes < au_bytes A content
   | Inl NoMonitorId \<Rightarrow> monitor_id_of p = [] \<or> hd (monitor_id_of p) = CHR ''.''
   | Inl BadYaml \<Rightarrow> au_matter A content = None
   | Inl (Rejected limit) \<Rightarrow> (\<exists>data body. au_matter A content = Some (data, body) \<and>
       monitor_frontmatter_schema A data = None \<and> limit = input_limit_exceeded data)
   | Inl ReadFailed \<Rightarrow> False"
proof (cases "parse_monitor A content p")
  case (Inl e)
  then show ?thesis by (auto simp: parse_monitor_def Let_def split: if_splits option.splits)
next
  case (Inr m)
  with parse_monitor_ok show ?thesis by auto
qed

section \<open>A scan accounts for every file\<close>

lemma file_paths_by_id_snoc:
  "file_paths_by_id (ms @ [x]) =
     map_set (file_paths_by_id ms) (m_id x) (default (map_of (file_paths_by_id ms) (m_id x)) [] @ [m_file x])"
  by (simp add: file_paths_by_id_def)

lemma file_paths_by_id_distinct: "distinct (map fst (file_paths_by_id ms))"
  by (induction ms rule: rev_induct) (simp_all add: file_paths_by_id_snoc map_set_distinct, simp add: file_paths_by_id_def)

lemma map_of_file_paths_by_id:
  "map_of (file_paths_by_id ms) i =
     (let ps = map m_file (filter (\<lambda>m. m_id m = i) ms) in if ps = [] then None else Some ps)"
proof (induction ms rule: rev_induct)
  case (snoc x ms)
  then show ?case by (auto simp: file_paths_by_id_snoc map_of_map_set Let_def)
qed (simp add: file_paths_by_id_def)

lemma in_file_paths_by_id:
  "(i, ps) \<in> set (file_paths_by_id ms) \<longleftrightarrow> ps = map m_file (filter (\<lambda>m. m_id m = i) ms) \<and> ps \<noteq> []"
  using map_of_eq_Some_iff [OF file_paths_by_id_distinct, of ms i ps] by (auto simp: map_of_file_paths_by_id Let_def split: if_splits)

lemma no_two_share: "(\<forall>i. length (filter (\<lambda>m. f m = i) ms) < 2) \<longleftrightarrow> distinct (map f ms)"
proof (induction ms)
  case (Cons x ms)
  define n where "n i = length (filter (\<lambda>m. f m = i) ms)" for i
  have "(\<forall>i. (if f x = i then Suc (n i) else n i) < 2) \<longleftrightarrow> n (f x) = 0 \<and> (\<forall>i. n i < 2)"
  proof (intro iffI conjI allI)
    fix i assume l: "\<forall>i. (if f x = i then Suc (n i) else n i) < 2"
    show "n (f x) = 0" using spec [OF l, of "f x"] by simp
    show "n i < 2" using spec [OF l, of i] by (simp split: if_splits)
  qed auto
  moreover have "length (filter (\<lambda>m. f m = i) (x # ms)) = (if f x = i then Suc (n i) else n i)" for i
    by (simp add: n_def)
  moreover have "n (f x) = 0 \<longleftrightarrow> f x \<notin> set (map f ms)"
    by (simp add: n_def filter_empty_conv image_iff) metis
  ultimately show ?case using Cons unfolding n_def by simp
qed simp

definition unambiguous :: "scan_result \<Rightarrow> bool" where
  "unambiguous r = (sr_duplicates r = [])"

lemma duplicates_iff:
  assumes "r = scan_monitors A decode fopen here base folders flats"
  shows "(i, ps) \<in> set (sr_duplicates r) \<longleftrightarrow>
    ps = map m_file (filter (\<lambda>m. m_id m = i) (sr_monitors r)) \<and> 2 \<le> length ps"
  by (auto simp: assms scan_monitors_def Let_def in_file_paths_by_id)

lemma unambiguous_iff:
  assumes "r = scan_monitors A decode fopen here base folders flats"
  shows "unambiguous r \<longleftrightarrow> distinct (map m_id (sr_monitors r))"
proof -
  have "unambiguous r \<longleftrightarrow> (\<forall>i ps. (i, ps) \<notin> set (sr_duplicates r))"
    by (auto simp: unambiguous_def) (metis list.set_intros(1) neq_Nil_conv surj_pair)
  also have "\<dots> \<longleftrightarrow> (\<forall>i. length (filter (\<lambda>m. m_id m = i) (sr_monitors r)) < 2)"
    by (simp add: duplicates_iff [OF assms] not_le)
  finally show ?thesis by (simp add: no_two_share)
qed

lemma parse_monitor_file_ok:
  assumes "parse_monitor_file A decode fopen p = Inr m"
  shows "monitor_ok A m \<and> m_file m = p"
proof -
  obtain content where "parse_monitor A content p = Inr m"
    using assms by (auto simp: parse_monitor_file_def split: option.splits)
  with parse_monitor_ok show ?thesis by blast
qed

lemma split_outcomes:
  "mset (map m_file (concat (map (\<lambda>(p, r). case r of Inr m \<Rightarrow> [m] | Inl e \<Rightarrow> []) outs))) +
   mset (map fst (concat (map (\<lambda>(p, r). case r of Inr m \<Rightarrow> [] | Inl e \<Rightarrow> [(p, e)]) outs))) = mset (map fst outs)"
  if "\<forall>(p, r) \<in> set outs. case r of Inr m \<Rightarrow> m_file m = p | Inl e \<Rightarrow> True"
  using that by (induction outs) (auto split: sum.splits)

text \<open>
  A scan loses no file and hides no clash. Each file that is a monitor's by its place, a \<open>MONITOR.md\<close> in a
  folder of its own or another markdown file at the top, gives exactly one monitor or one error,
  in the order of the paths; every monitor is well typed; and the ids that several files
  derive are reported with all their files, so that a scan without such a report has one monitor
  per id.
\<close>

lemma scan_accounts_for_files:
  fixes A decode fopen here base folders flats
  defines "r \<equiv> scan_monitors A decode fopen here base folders flats"
  shows "mset (map m_file (sr_monitors r)) + mset (map fst (sr_errors r)) =
      mset (map (path_resolve here here) (scan_matches here base folders flats)) \<and>
    list_all (monitor_ok A) (sr_monitors r) \<and>
    (\<forall>i ps. (i, ps) \<in> set (sr_duplicates r) \<longleftrightarrow>
       ps = map m_file (filter (\<lambda>m. m_id m = i) (sr_monitors r)) \<and> 2 \<le> length ps) \<and>
    (unambiguous r \<longleftrightarrow> distinct (map m_id (sr_monitors r)))"
proof (intro conjI allI)
  let ?outs = "map (\<lambda>p. (p, parse_monitor_file A decode fopen p)) (map (path_resolve here here) (scan_matches here base folders flats))"
  have "mset (map m_file (sr_monitors r)) + mset (map fst (sr_errors r)) = mset (map fst ?outs)"
    unfolding r_def scan_monitors_def Let_def scan_result.simps
    by (rule split_outcomes) (auto dest: parse_monitor_file_ok split: sum.splits)
  then show "mset (map m_file (sr_monitors r)) + mset (map fst (sr_errors r)) =
      mset (map (path_resolve here here) (scan_matches here base folders flats))" by (simp add: comp_def)
  show "list_all (monitor_ok A) (sr_monitors r)"
    by (auto simp: r_def scan_monitors_def Let_def list_all_iff dest!: sym [of "Inr _"] parse_monitor_file_ok split: sum.splits)
qed (use duplicates_iff [OF r_def [THEN meta_eq_to_obj_eq]] unambiguous_iff [OF r_def [THEN meta_eq_to_obj_eq]] in auto)

end
