(* ===== verification/AM_Inbox.thy ===== *)
theory AM_Inbox
  imports AM_Store
begin

text \<open>
  The inbox of the legacy bridge: \<open>inbox/inbox-service.ts\<close>, its rows in \<open>inbox/schema.ts\<close>, and the state
  file written after every change, \<open>hook-bridge/bridge.ts\<close>. The fresh ULID and the time of an operation
  are arguments.

  The property: over any sequence of operations an item moves along the state machine only, each
  accepted transition takes it one step and none is taken back, and the state file is the one of the
  stored items.
\<close>

section \<open>Items\<close>

datatype inbox_state = BQueued | BAcked | BInProgress | BCompleted | BFailed | BArchived

record inbox_item =
  b_id :: ident
  b_monitor :: string
  b_state :: inbox_state
  b_urgency :: urgency
  b_title :: string
  b_body :: string
  b_snapshot :: json
  b_tags :: "string list"
  b_created :: ms
  b_updated :: ms
  b_acked :: "ms option"
  b_completed :: "ms option"

record enqueue_payload =
  en_monitor :: string
  en_urgency :: urgency
  en_title :: string
  en_body :: "string option"
  en_snapshot :: "json option"
  en_tags :: "string list option"

record inbox_filter =
  fi_state :: "inbox_state list option"
  fi_urgency :: "urgency option"
  fi_tags :: "string list"
  fi_monitor :: "string option"
  fi_since :: "ms option"
  fi_until :: "ms option"

fun valid_transitions :: "inbox_state \<Rightarrow> inbox_state list" where
  "valid_transitions BQueued = [BAcked]"
| "valid_transitions BAcked = [BInProgress]"
| "valid_transitions BInProgress = [BCompleted, BFailed]"
| "valid_transitions BCompleted = [BArchived]"
| "valid_transitions BFailed = [BArchived]"
| "valid_transitions BArchived = []"

datatype inbox_error =
    ItemNotFound ident
  | InvalidTransition inbox_state inbox_state
  | DuplicateItem ident

section \<open>Queries\<close>

definition item_by_id :: "inbox_item list \<Rightarrow> ident \<Rightarrow> inbox_item option" where
  "item_by_id items i = find (\<lambda>b. b_id b = i) items"

definition build_conditions :: "inbox_filter \<Rightarrow> inbox_item \<Rightarrow> bool" where
  "build_conditions f b =
     ((case fi_state f of None \<Rightarrow> True | Some ss \<Rightarrow> b_state b \<in> set ss) \<and>
      (case fi_urgency f of None \<Rightarrow> True | Some u \<Rightarrow> b_urgency b = u) \<and>
      (case fi_monitor f of None \<Rightarrow> True | Some m \<Rightarrow> m = [] \<or> b_monitor b = m) \<and>
      (case fi_since f of None \<Rightarrow> True | Some t \<Rightarrow> db_time t \<le> b_created b) \<and>
      (case fi_until f of None \<Rightarrow> True | Some t \<Rightarrow> b_created b \<le> db_time t) \<and>
      list_all (\<lambda>tag. tag \<in> set (b_tags b)) (fi_tags f))"

definition any_item :: inbox_filter where
  "any_item = \<lparr>fi_state = None, fi_urgency = None, fi_tags = [], fi_monitor = None, fi_since = None, fi_until = None\<rparr>"

definition list_items :: "inbox_item list \<Rightarrow> inbox_filter \<Rightarrow> inbox_item list" where
  "list_items items f = ordered_by (\<lambda>b. - b_created b) (filter (build_conditions f) items)"

section \<open>The state file\<close>

record urgent_item =
  ui_id :: ident
  ui_monitor :: string
  ui_title :: string
  ui_created :: ms

record bridge_state =
  br_updated :: ms
  br_queued :: nat
  br_acked :: nat
  br_in_progress :: nat
  br_failed :: nat
  br_urgent :: "urgent_item list"

fun count_active :: "inbox_item list \<Rightarrow> nat \<times> nat \<times> nat \<times> urgent_item list \<Rightarrow> nat \<times> nat \<times> nat \<times> urgent_item list" where
  "count_active [] acc = acc"
| "count_active (b # bs) (q, a, p, us) =
     count_active bs
       (case b_state b of
          BQueued \<Rightarrow> (Suc q, a, p, if b_urgency b = High
            then us @ [\<lparr>ui_id = b_id b, ui_monitor = b_monitor b, ui_title = b_title b, ui_created = b_created b\<rparr>] else us)
        | BAcked \<Rightarrow> (q, Suc a, p, us)
        | BInProgress \<Rightarrow> (q, a, Suc p, us)
        | _ \<Rightarrow> (q, a, p, us))"

definition compute_hook_state :: "ms \<Rightarrow> inbox_item list \<Rightarrow> bridge_state" where
  "compute_hook_state now items =
     (let (q, a, p, us) = count_active
            (list_items items (any_item\<lparr>fi_state := Some [BQueued, BAcked, BInProgress]\<rparr>)) (0, 0, 0, []);
          failed = list_items items (any_item\<lparr>fi_state := Some [BFailed]\<rparr>) in
      \<lparr>br_updated = now, br_queued = q, br_acked = a, br_in_progress = p, br_failed = length failed, br_urgent = us\<rparr>)"

section \<open>Operations\<close>

text \<open>The table, and the state file where a bridge is attached.\<close>

record inbox =
  ib_items :: "inbox_item list"
  ib_bridge :: "bridge_state option option"

definition on_mutation :: "ms \<Rightarrow> inbox \<Rightarrow> inbox" where
  "on_mutation now x =
     (case ib_bridge x of None \<Rightarrow> x | Some _ \<Rightarrow> x\<lparr>ib_bridge := Some (Some (compute_hook_state now (ib_items x)))\<rparr>)"

definition require_transition :: "inbox \<Rightarrow> ident \<Rightarrow> inbox_state \<Rightarrow> inbox_error + inbox_item" where
  "require_transition x i target =
     (case item_by_id (ib_items x) i of
        None \<Rightarrow> Inl (ItemNotFound i)
      | Some b \<Rightarrow>
          if target \<notin> set (valid_transitions (b_state b)) then Inl (InvalidTransition (b_state b) target) else Inr b)"

text \<open>The table's primary key refuses an id twice.\<close>

definition enqueue :: "ms \<Rightarrow> ident \<Rightarrow> enqueue_payload \<Rightarrow> inbox \<Rightarrow> inbox_error + inbox" where
  "enqueue now i p x =
     (if item_by_id (ib_items x) i \<noteq> None then Inl (DuplicateItem i)
      else Inr (on_mutation now (x\<lparr>ib_items := ib_items x @
        [\<lparr>b_id = i, b_monitor = en_monitor p, b_state = BQueued, b_urgency = en_urgency p, b_title = en_title p,
          b_body = default (en_body p) [], b_snapshot = default (en_snapshot p) (JObj []),
          b_tags = default (en_tags p) [], b_created = db_time now, b_updated = db_time now,
          b_acked = None, b_completed = None\<rparr>]\<rparr>)))"

definition set_item :: "ident \<Rightarrow> (inbox_item \<Rightarrow> inbox_item) \<Rightarrow> inbox \<Rightarrow> inbox" where
  "set_item i f x = x\<lparr>ib_items := update_where (\<lambda>b. b_id b = i) f (ib_items x)\<rparr>"

definition ack :: "ms \<Rightarrow> ident \<Rightarrow> inbox \<Rightarrow> inbox_error + inbox" where
  "ack now i x =
     (case require_transition x i BAcked of
        Inl e \<Rightarrow> Inl e
      | Inr _ \<Rightarrow> Inr (on_mutation now (set_item i
          (\<lambda>b. b\<lparr>b_state := BAcked, b_acked := Some (db_time now), b_updated := db_time now\<rparr>) x)))"

definition start :: "ms \<Rightarrow> ident \<Rightarrow> inbox \<Rightarrow> inbox_error + inbox" where
  "start now i x =
     (case require_transition x i BInProgress of
        Inl e \<Rightarrow> Inl e
      | Inr _ \<Rightarrow> Inr (on_mutation now (set_item i (\<lambda>b. b\<lparr>b_state := BInProgress, b_updated := db_time now\<rparr>) x)))"

definition complete_item :: "ms \<Rightarrow> ident \<Rightarrow> inbox \<Rightarrow> inbox_error + inbox" where
  "complete_item now i x =
     (case require_transition x i BCompleted of
        Inl e \<Rightarrow> Inl e
      | Inr _ \<Rightarrow> Inr (on_mutation now (set_item i
          (\<lambda>b. b\<lparr>b_state := BCompleted, b_completed := Some (db_time now), b_updated := db_time now\<rparr>) x)))"

definition fail_body :: "string \<Rightarrow> string \<Rightarrow> string" where
  "fail_body body error =
     body @ (if body = [] then [] else [CHR 10, CHR 10] @ ''---'' @ [CHR 10, CHR 10]) @ ''Error: '' @ error"

definition fail_item :: "ms \<Rightarrow> ident \<Rightarrow> string option \<Rightarrow> inbox \<Rightarrow> inbox_error + inbox" where
  "fail_item now i error x =
     (case require_transition x i BFailed of
        Inl e \<Rightarrow> Inl e
      | Inr item \<Rightarrow>
          Inr (on_mutation now
            (case error of
               Some (c # cs) \<Rightarrow> set_item i (\<lambda>b. b\<lparr>b_state := BFailed, b_body := fail_body (b_body item) (c # cs),
                 b_updated := db_time now\<rparr>) x
             | _ \<Rightarrow> set_item i (\<lambda>b. b\<lparr>b_state := BFailed, b_updated := db_time now\<rparr>) x)))"

definition archive :: "ms \<Rightarrow> ident \<Rightarrow> inbox \<Rightarrow> inbox_error + inbox" where
  "archive now i x =
     (case require_transition x i BArchived of
        Inl e \<Rightarrow> Inl e
      | Inr _ \<Rightarrow> Inr (on_mutation now (set_item i (\<lambda>b. b\<lparr>b_state := BArchived, b_updated := db_time now\<rparr>) x)))"

section \<open>Histories\<close>

datatype inbox_op =
    Enqueue ident enqueue_payload
  | Ack ident
  | Start ident
  | Complete ident
  | Fail ident "string option"
  | Archive ident

fun inbox_do :: "ms \<Rightarrow> inbox_op \<Rightarrow> inbox \<Rightarrow> inbox_error + inbox" where
  "inbox_do now (Enqueue i p) x = enqueue now i p x"
| "inbox_do now (Ack i) x = ack now i x"
| "inbox_do now (Start i) x = start now i x"
| "inbox_do now (Complete i) x = complete_item now i x"
| "inbox_do now (Fail i e) x = fail_item now i e x"
| "inbox_do now (Archive i) x = archive now i x"

text \<open>The item a transition is asked for; \<open>enqueue\<close> asks for none.\<close>

fun op_item :: "inbox_op \<Rightarrow> ident option" where
  "op_item (Enqueue i p) = None"
| "op_item (Ack i) = Some i"
| "op_item (Start i) = Some i"
| "op_item (Complete i) = Some i"
| "op_item (Fail i e) = Some i"
| "op_item (Archive i) = Some i"

text \<open>A refused operation throws and changes nothing. The log holds the operations that were accepted.\<close>

fun inbox_run :: "(ms \<times> inbox_op) list \<Rightarrow> inbox \<Rightarrow> inbox \<times> (ms \<times> inbox_op) list" where
  "inbox_run [] x = (x, [])"
| "inbox_run ((now, p) # ops) x =
     (case inbox_do now p x of
        Inl e \<Rightarrow> inbox_run ops x
      | Inr x' \<Rightarrow> (let (final, log) = inbox_run ops x' in (final, (now, p) # log)))"

definition empty_inbox :: "bool \<Rightarrow> inbox" where
  "empty_inbox attached = \<lparr>ib_items = [], ib_bridge = (if attached then Some None else None)\<rparr>"

section \<open>One step\<close>

inductive transition :: "inbox_state \<Rightarrow> inbox_state \<Rightarrow> bool" where
  acked: "transition BQueued BAcked"
| started: "transition BAcked BInProgress"
| completed: "transition BInProgress BCompleted"
| failed: "transition BInProgress BFailed"
| archived_done: "transition BCompleted BArchived"
| archived_failed: "transition BFailed BArchived"

inductive_cases transition_from_archived: "transition BArchived s"

lemma transition_iff: "transition s t \<longleftrightarrow> t \<in> set (valid_transitions s)"
  by (cases s; cases t) (auto intro: transition.intros elim: transition.cases)

fun progress :: "inbox_state \<Rightarrow> nat" where
  "progress BQueued = 0"
| "progress BAcked = 1"
| "progress BInProgress = 2"
| "progress BCompleted = 3"
| "progress BFailed = 3"
| "progress BArchived = 4"

lemma transition_progress: "transition s t \<Longrightarrow> progress t = Suc (progress s)"
  by (induction rule: transition.induct) simp_all

text \<open>What no transition touches, and the times that go with each state.\<close>

definition same_item :: "inbox_item \<Rightarrow> inbox_item \<Rightarrow> bool" where
  "same_item b c = (b_id c = b_id b \<and> b_monitor c = b_monitor b \<and> b_urgency c = b_urgency b \<and> b_title c = b_title b \<and>
     b_snapshot c = b_snapshot b \<and> b_tags c = b_tags b \<and> b_created c = b_created b)"

definition stamped :: "inbox_item \<Rightarrow> bool" where
  "stamped b = ((b_acked b = None) = (b_state b = BQueued) \<and>
     (if b_state b = BCompleted then b_completed b \<noteq> None else b_state b \<noteq> BArchived \<longrightarrow> b_completed b = None))"

definition bridge_current :: "inbox \<Rightarrow> bool" where
  "bridge_current x = pred_option (pred_option (\<lambda>s. s = compute_hook_state (br_updated s) (ib_items x))) (ib_bridge x)"

definition inbox_ok :: "inbox \<Rightarrow> bool" where
  "inbox_ok x = (distinct (map b_id (ib_items x)) \<and> list_all stamped (ib_items x))"

lemma item_by_id_Some: "item_by_id items i = Some b \<Longrightarrow> b \<in> set items \<and> b_id b = i"
  by (auto simp: item_by_id_def dest: find_Some_set)

lemma require_transition_Inr:
  "require_transition x i t = Inr b \<Longrightarrow> b \<in> set (ib_items x) \<and> b_id b = i \<and> transition (b_state b) t"
  by (auto simp: require_transition_def transition_iff dest: item_by_id_Some split: option.splits if_splits)

lemma on_mutation_items [simp]: "ib_items (on_mutation now x) = ib_items x"
  by (simp add: on_mutation_def split: option.splits)

lemma on_mutation_current: "bridge_current (on_mutation now x)"
  by (auto simp: bridge_current_def on_mutation_def compute_hook_state_def split: option.splits prod.splits)

lemma set_item_items [simp]: "ib_items (set_item i f x) = update_where (\<lambda>b. b_id b = i) f (ib_items x)"
  by (simp add: set_item_def)

lemma rewrites_by:
  assumes "require_transition x i t = Inr b" and "ib_items x' = update_where (\<lambda>c. b_id c = i) f (ib_items x)"
    and "\<And>c. b_state (f c) = t" and "\<And>c. same_item c (f c)" and "transition (b_state b) t \<Longrightarrow> stamped b \<Longrightarrow> stamped (f b)"
  shows "\<exists>b f. b \<in> set (ib_items x) \<and> b_id b = i \<and> ib_items x' = update_where (\<lambda>c. b_id c = i) f (ib_items x) \<and>
    transition (b_state b) (b_state (f b)) \<and> (\<forall>c. same_item c (f c)) \<and> (stamped b \<longrightarrow> stamped (f b))"
  using require_transition_Inr [OF assms(1)] assms(2-5) by (intro exI [of _ b] exI [of _ f]) simp

text \<open>An accepted transition is the rewriting of the one row, and of nothing else.\<close>

lemma transition_rewrites:
  assumes "inbox_do now p x = Inr x'" and "op_item p = Some i"
  shows "\<exists>b f. b \<in> set (ib_items x) \<and> b_id b = i \<and> ib_items x' = update_where (\<lambda>c. b_id c = i) f (ib_items x) \<and>
    transition (b_state b) (b_state (f b)) \<and> (\<forall>c. same_item c (f c)) \<and> (stamped b \<longrightarrow> stamped (f b))"
proof (cases p)
  case (Ack j)
  with assms obtain b where "require_transition x i BAcked = Inr b"
    "ib_items x' = update_where (\<lambda>c. b_id c = i) (\<lambda>b. b\<lparr>b_state := BAcked, b_acked := Some (db_time now), b_updated := db_time now\<rparr>) (ib_items x)"
    by (auto simp: ack_def split: sum.splits)
  then show ?thesis
    by (rule rewrites_by) (auto simp: same_item_def stamped_def elim: transition.cases)
next
  case (Start j)
  with assms obtain b where "require_transition x i BInProgress = Inr b"
    "ib_items x' = update_where (\<lambda>c. b_id c = i) (\<lambda>b. b\<lparr>b_state := BInProgress, b_updated := db_time now\<rparr>) (ib_items x)"
    by (auto simp: start_def split: sum.splits)
  then show ?thesis
    by (rule rewrites_by) (auto simp: same_item_def stamped_def elim: transition.cases)
next
  case (Complete j)
  with assms obtain b where "require_transition x i BCompleted = Inr b"
    "ib_items x' = update_where (\<lambda>c. b_id c = i) (\<lambda>b. b\<lparr>b_state := BCompleted, b_completed := Some (db_time now), b_updated := db_time now\<rparr>) (ib_items x)"
    by (auto simp: complete_item_def split: sum.splits)
  then show ?thesis
    by (rule rewrites_by) (auto simp: same_item_def stamped_def elim: transition.cases)
next
  case (Fail j e)
  with assms obtain b body where "require_transition x i BFailed = Inr b"
    "ib_items x' = update_where (\<lambda>c. b_id c = i) (\<lambda>b. b\<lparr>b_state := BFailed, b_body := body b, b_updated := db_time now\<rparr>) (ib_items x)"
  proof (cases "require_transition x i BFailed")
    case (Inr b)
    have plain: "(\<lambda>b. b\<lparr>b_state := BFailed, b_body := b_body b, b_updated := db_time now\<rparr>) =
        (\<lambda>b. b\<lparr>b_state := BFailed, b_updated := db_time now\<rparr>)" by (rule ext) simp
    from Fail assms Inr that [of b "\<lambda>c. fail_body (b_body b) (the e)"] that [of b b_body, unfolded plain]
    show ?thesis by (auto simp: fail_item_def split: option.splits list.splits)
  qed (use Fail assms in \<open>auto simp: fail_item_def\<close>)
  then show ?thesis
    by (rule rewrites_by) (auto simp: same_item_def stamped_def elim: transition.cases)
next
  case (Archive j)
  with assms obtain b where "require_transition x i BArchived = Inr b"
    "ib_items x' = update_where (\<lambda>c. b_id c = i) (\<lambda>b. b\<lparr>b_state := BArchived, b_updated := db_time now\<rparr>) (ib_items x)"
    by (auto simp: archive_def split: sum.splits)
  then show ?thesis
    by (rule rewrites_by) (auto simp: same_item_def stamped_def elim: transition.cases)
qed (use assms in simp)

lemma step_items:
  assumes "inbox_do now p x = Inr x'" and "inbox_ok x"
  shows "inbox_ok x' \<and> (\<forall>b \<in> set (ib_items x). \<exists>b' \<in> set (ib_items x'). same_item b b' \<and>
    (if op_item p = Some (b_id b) then transition (b_state b) (b_state b') else b_state b' = b_state b))"
proof (cases "op_item p")
  case None
  then obtain i en where p: "p = Enqueue i en" by (cases p) simp_all
  with assms(1) have new: "item_by_id (ib_items x) i = None" and items: "\<exists>b. ib_items x' = ib_items x @ [b] \<and> b_id b = i \<and> stamped b"
    by (auto simp: enqueue_def stamped_def split: if_splits)
  from new have "i \<notin> b_id ` set (ib_items x)" by (auto simp: item_by_id_def find_None_iff)
  with items assms(2) None show ?thesis by (auto simp: inbox_ok_def same_item_def)
next
  case (Some i)
  obtain b f where b: "b \<in> set (ib_items x)" "b_id b = i" and x': "ib_items x' = update_where (\<lambda>c. b_id c = i) f (ib_items x)"
    and f: "transition (b_state b) (b_state (f b))" "\<And>c. same_item c (f c)" "stamped b \<longrightarrow> stamped (f b)"
    using transition_rewrites [OF assms(1) Some] by blast
  have dist: "distinct (map b_id (ib_items x))" using assms(2) by (simp add: inbox_ok_def)
  have only: "c = b" if "c \<in> set (ib_items x)" "b_id c = i" for c
    using dist b that by (metis distinct_map inj_on_eq_iff)
  have "map b_id (ib_items x') = map b_id (ib_items x)"
    using f(2) unfolding x' by (intro map_key_update_where) (simp add: same_item_def)
  moreover have "list_all stamped (ib_items x')"
    unfolding x' set_update_where list_all_iff
  proof
    fix d assume "d \<in> (\<lambda>c. if b_id c = i then f c else c) ` set (ib_items x)"
    then obtain c where c: "c \<in> set (ib_items x)" "d = (if b_id c = i then f c else c)" by blast
    have ok: "stamped c" using assms(2) c(1) by (simp add: inbox_ok_def list_all_iff)
    show "stamped d"
    proof (cases "b_id c = i")
      case True
      from only [OF c(1) True] ok f(3) True c(2) show ?thesis by simp
    qed (use ok c(2) in simp)
  qed
  moreover have "\<exists>b' \<in> set (ib_items x'). same_item c b' \<and>
      (if op_item p = Some (b_id c) then transition (b_state c) (b_state b') else b_state b' = b_state c)"
    if c: "c \<in> set (ib_items x)" for c
  proof (cases "b_id c = i")
    case True
    with only c b f Some show ?thesis unfolding x' set_update_where by (intro bexI [of _ "f b"]) auto
  next
    case False
    with c Some show ?thesis unfolding x' set_update_where by (intro bexI [of _ c]) (auto simp: same_item_def)
  qed
  ultimately show ?thesis using dist by (simp add: inbox_ok_def)
qed

lemma step_bridge: "inbox_do now p x = Inr x' \<Longrightarrow> bridge_current x'"
  by (cases p) (auto simp: enqueue_def ack_def start_def complete_item_def fail_item_def archive_def on_mutation_current
      split: sum.splits if_splits)

definition transitions_of :: "ident \<Rightarrow> (ms \<times> inbox_op) list \<Rightarrow> nat" where
  "transitions_of i log = length (filter (\<lambda>(_, p). op_item p = Some i) log)"

lemma run_items:
  assumes "inbox_run ops x = (y, log)" and "inbox_ok x"
  shows "inbox_ok y \<and> (\<forall>b \<in> set (ib_items x). \<exists>b' \<in> set (ib_items y). same_item b b' \<and>
    (transition ^^ transitions_of (b_id b) log) (b_state b) (b_state b'))"
  using assms
proof (induction ops x arbitrary: log rule: inbox_run.induct)
  case (1 x)
  then show ?case by (auto simp: transitions_of_def same_item_def)
next
  case (2 now p ops x)
  show ?case
  proof (cases "inbox_do now p x")
    case (Inl e)
    with 2 show ?thesis by simp
  next
    case (Inr x')
    obtain rest where rest: "inbox_run ops x' = (y, rest)" "log = (now, p) # rest"
      using 2(3) Inr by (auto simp: Let_def split: prod.splits)
    note s = step_items [OF Inr 2(4)]
    note IH = 2(2) [OF Inr rest(1) conjunct1 [OF s]]
    have "\<exists>b' \<in> set (ib_items y). same_item b b' \<and> (transition ^^ transitions_of (b_id b) log) (b_state b) (b_state b')"
      if b: "b \<in> set (ib_items x)" for b
    proof -
      obtain c where c: "c \<in> set (ib_items x')" "same_item b c"
        "if op_item p = Some (b_id b) then transition (b_state b) (b_state c) else b_state c = b_state b"
        using s b by blast
      from IH c(1) obtain d where d: "d \<in> set (ib_items y)" "same_item c d"
        "(transition ^^ transitions_of (b_id c) rest) (b_state c) (b_state d)" by blast
      have "same_item b d" using c(2) d(2) by (simp add: same_item_def)
      moreover have "(transition ^^ transitions_of (b_id b) log) (b_state b) (b_state d)"
        using c(2,3) d(3) rest(2) by (auto simp: transitions_of_def same_item_def relpowp_Suc_I2 simp del: relpowp.simps split: if_splits)
      ultimately show ?thesis using d(1) by blast
    qed
    with IH show ?thesis by blast
  qed
qed

lemma run_bridge:
  "inbox_run ops x = (y, log) \<Longrightarrow> bridge_current x \<Longrightarrow> bridge_current y"
  by (induction ops x arbitrary: log rule: inbox_run.induct) (auto simp: Let_def split: sum.splits prod.splits dest: step_bridge)

lemma transitions_progress: "(transition ^^ n) s t \<Longrightarrow> progress t = progress s + n"
  by (induction n arbitrary: t) (auto dest: transition_progress)

lemma progress_bound: "progress s \<le> 4"
  by (cases s) simp_all


end
