(* ===== verification/AM_Permissions.thy ===== *)
theory AM_Permissions
  imports AM_Authoring "HOL-Library.Word"
begin

unbundle bit_operations_syntax

text \<open>
  The files the runtime keeps to itself, \<open>libs/core/src/security/local-permissions.ts\<close>: the tightening of a
  path that exists, the private directory, the atomic private write and the restricted socket. A disk
  maps a path to what lies there; \<open>deny\<close> is an adversary that lets any system call fail with any error,
  and \<open>swap\<close> one that replaces what lies at a path between two calls. A directory on the way is not a
  symbolic link to elsewhere.

  The property: whatever fails, and in every state in between, the target of a private write holds
  what it held before or the whole new content in a file of the owner's, and nothing that existed
  under another name is touched.
\<close>

section \<open>The disk\<close>

datatype node_kind = KFile | KDir | KLink | KSocket | KOther

record node =
  nd_kind :: node_kind
  nd_mode :: int
  nd_text :: string

type_synonym disk = "string \<Rightarrow> node option"

datatype syscall = Lstat | Open | Fchmod | Mkdir | Unlink | Create | Write | Rename | Chmod

record process =
  ps_windows :: bool
  ps_umask :: int
  ps_deny :: "syscall \<Rightarrow> string \<Rightarrow> string option"
  ps_chunks :: "string \<Rightarrow> string list"

definition private_dir_mode :: int where
  "private_dir_mode = 448"

definition private_file_mode :: int where
  "private_file_mode = 384"

definition owner_only :: "int \<Rightarrow> bool" where
  "owner_only m = (m AND 63 = 0)"

text \<open>A call answers an error code or a value; what it changed is in the disk.\<close>

definition lstat_or_null :: "process \<Rightarrow> disk \<Rightarrow> string \<Rightarrow> string + node option" where
  "lstat_or_null P d p =
     (case ps_deny P Lstat p of
        Some e \<Rightarrow> if e = ''ENOENT'' then Inr None else Inl e
      | None \<Rightarrow> Inr (d p))"

definition is_not_owned_errno :: "string \<Rightarrow> bool" where
  "is_not_owned_errno e = (e = ''EPERM'' \<or> e = ''EACCES'')"

definition set_mode :: "disk \<Rightarrow> string \<Rightarrow> int \<Rightarrow> disk" where
  "set_mode d p mode = d(p := map_option (\<lambda>n. n\<lparr>nd_mode := mode\<rparr>) (d p))"

text \<open>\<open>open(O_RDONLY | O_NOFOLLOW)\<close>: a link is refused, a socket cannot be opened.\<close>

definition open_no_follow :: "process \<Rightarrow> disk \<Rightarrow> string \<Rightarrow> string + unit" where
  "open_no_follow P d p =
     (case ps_deny P Open p of
        Some e \<Rightarrow> Inl e
      | None \<Rightarrow>
          (case d p of
             None \<Rightarrow> Inl ''ENOENT''
           | Some n \<Rightarrow> if nd_kind n = KLink then Inl ''ELOOP'' else if nd_kind n = KSocket then Inl ''ENXIO'' else Inr ()))"

section \<open>Tightening\<close>

text \<open>
  Between the \<open>lstat\<close> and the \<open>open\<close> the path may become another node; from the \<open>open\<close> on the descriptor
  names the opened one. The warning goes out once per path.
\<close>

record tightened =
  tg_disk :: disk
  tg_warned :: "string list"
  tg_error :: "string option"

definition warn_once :: "string list \<Rightarrow> string \<Rightarrow> string list" where
  "warn_once warned p = (if p \<in> set warned then warned else warned @ [p])"

definition restrict_existing_path_mode :: "process \<Rightarrow> (node option \<Rightarrow> node option) \<Rightarrow> string list \<Rightarrow> disk \<Rightarrow> string \<Rightarrow> int \<Rightarrow> tightened" where
  "restrict_existing_path_mode P swap warned d p mode =
     (let quiet = (\<lambda>d'. \<lparr>tg_disk = d', tg_warned = warned, tg_error = None\<rparr>) in
      if ps_windows P then quiet d
      else (case lstat_or_null P d p of
          Inl e \<Rightarrow> (quiet d)\<lparr>tg_error := Some e\<rparr>
        | Inr None \<Rightarrow> quiet d
        | Inr (Some n) \<Rightarrow>
            if nd_kind n = KLink then quiet d
            else if nd_kind n \<noteq> KFile \<and> nd_kind n \<noteq> KDir then quiet d
            else (let d' = d(p := swap (d p)) in
              case open_no_follow P d' p of
                Inl e \<Rightarrow> if e = ''ELOOP'' \<or> e = ''ENOENT'' then quiet d' else (quiet d')\<lparr>tg_error := Some e\<rparr>
              | Inr _ \<Rightarrow>
                  (case ps_deny P Fchmod p of
                     None \<Rightarrow> quiet (set_mode d' p mode)
                   | Some e \<Rightarrow> if is_not_owned_errno e then (quiet d')\<lparr>tg_warned := warn_once warned p\<rparr>
                       else (quiet d')\<lparr>tg_error := Some e\<rparr>))))"

section \<open>The private directory\<close>

definition dir_prefixes :: "string \<Rightarrow> string list" where
  "dir_prefixes p = map (\<lambda>k. slash # join [slash] (take (Suc k) (path_components p))) [0..<length (path_components p)]"

fun mkdirs :: "process \<Rightarrow> disk \<Rightarrow> string list \<Rightarrow> disk \<times> string option" where
  "mkdirs P d [] = (d, None)"
| "mkdirs P d (p # ps) =
     (case ps_deny P Mkdir p of
        Some e \<Rightarrow> (d, Some e)
      | None \<Rightarrow>
          (case d p of
             None \<Rightarrow> mkdirs P (d(p := Some \<lparr>nd_kind = KDir, nd_mode = private_dir_mode AND NOT (ps_umask P), nd_text = []\<rparr>)) ps
           | Some n \<Rightarrow> if nd_kind n = KDir \<or> nd_kind n = KLink then mkdirs P d ps else (d, Some ''ENOTDIR'')))"

record keeper =
  kp_verified :: "string list"
  kp_warned :: "string list"

definition ensure_private_dir :: "process \<Rightarrow> (node option \<Rightarrow> node option) \<Rightarrow> keeper \<Rightarrow> disk \<Rightarrow> string \<Rightarrow> disk \<times> keeper \<times> string option" where
  "ensure_private_dir P swap k d p =
     (if p \<in> set (kp_verified k) then (d, k, None)
      else (case mkdirs P d (dir_prefixes p) of
          (d', Some e) \<Rightarrow> (d', k, Some e)
        | (d', None) \<Rightarrow>
            (let r = restrict_existing_path_mode P swap (kp_warned k) d' p private_dir_mode in
             (tg_disk r,
              k\<lparr>kp_warned := tg_warned r,
                kp_verified := (if tg_error r = None then p # kp_verified k else kp_verified k)\<rparr>,
              tg_error r))))"

section \<open>The atomic write\<close>

definition unlink_force :: "process \<Rightarrow> disk \<Rightarrow> string \<Rightarrow> disk \<times> string option" where
  "unlink_force P d p =
     (case ps_deny P Unlink p of
        Some e \<Rightarrow> (d, if e = ''ENOENT'' then None else Some e)
      | None \<Rightarrow>
          (case d p of
             None \<Rightarrow> (d, None)
           | Some n \<Rightarrow> if nd_kind n = KDir then (d, Some ''ERR_FS_EISDIR'') else (d(p := None), None)))"

definition create_exclusive :: "process \<Rightarrow> disk \<Rightarrow> string \<Rightarrow> disk \<times> string option" where
  "create_exclusive P d p =
     (case ps_deny P Create p of
        Some e \<Rightarrow> (d, Some e)
      | None \<Rightarrow> if d p \<noteq> None then (d, Some ''EEXIST'')
          else (d(p := Some \<lparr>nd_kind = KFile, nd_mode = private_file_mode AND NOT (ps_umask P), nd_text = []\<rparr>), None))"

text \<open>The states a write goes through, one for each piece the system takes; it may fail after any of them.\<close>

definition append_text :: "disk \<Rightarrow> string \<Rightarrow> string \<Rightarrow> disk" where
  "append_text d p piece = d(p := map_option (\<lambda>n. n\<lparr>nd_text := nd_text n @ piece\<rparr>) (d p))"

fun write_pieces :: "disk \<Rightarrow> string \<Rightarrow> string list \<Rightarrow> disk list" where
  "write_pieces d p [] = [d]"
| "write_pieces d p (x # xs) = d # write_pieces (append_text d p x) p xs"

definition rename_over :: "process \<Rightarrow> disk \<Rightarrow> string \<Rightarrow> string \<Rightarrow> disk \<times> string option" where
  "rename_over P d from_path to_path =
     (case ps_deny P Rename to_path of
        Some e \<Rightarrow> (d, Some e)
      | None \<Rightarrow>
          (case d to_path of
             Some n \<Rightarrow> if nd_kind n = KDir then (d, Some ''EISDIR'') else (d(to_path := d from_path, from_path := None), None)
           | None \<Rightarrow> (d(to_path := d from_path, from_path := None), None)))"

record written =
  wr_states :: "disk list"
  wr_keeper :: keeper
  wr_error :: "string option"

definition temp_path :: "string \<Rightarrow> string option \<Rightarrow> string" where
  "temp_path p sfx = p @ default sfx [] @ ''.tmp''"

definition write_private_file_atomic :: "process \<Rightarrow> (node option \<Rightarrow> node option) \<Rightarrow> keeper \<Rightarrow> disk \<Rightarrow> string \<Rightarrow> string \<Rightarrow>
    string option \<Rightarrow> written" where
  "write_private_file_atomic P swap k d p contents sfx =
     (let tmp = temp_path p sfx in
      case ensure_private_dir P swap k d (path_dirname p) of
        (d1, k1, Some e) \<Rightarrow> \<lparr>wr_states = [d1], wr_keeper = k1, wr_error = Some e\<rparr>
      | (d1, k1, None) \<Rightarrow>
          (case unlink_force P d1 tmp of
             (d2, Some e) \<Rightarrow> \<lparr>wr_states = [d1, d2], wr_keeper = k1, wr_error = Some e\<rparr>
           | (d2, None) \<Rightarrow>
               (case create_exclusive P d2 tmp of
                  (d3, Some e) \<Rightarrow> \<lparr>wr_states = [d1, d2, d3], wr_keeper = k1, wr_error = Some e\<rparr>
                | (d3, None) \<Rightarrow>
                    (case ps_deny P Write tmp of
                       Some e \<Rightarrow> \<lparr>wr_states = [d1, d2] @ write_pieces d3 tmp (butlast (ps_chunks P contents)),
                         wr_keeper = k1, wr_error = Some e\<rparr>
                     | None \<Rightarrow>
                         (let during = write_pieces d3 tmp (ps_chunks P contents) in
                          case rename_over P (last during) tmp p of
                            (d5, e) \<Rightarrow> \<lparr>wr_states = [d1, d2] @ during @ [d5], wr_keeper = k1, wr_error = e\<rparr>)))))"

section \<open>The socket\<close>

definition restrict_socket_mode :: "process \<Rightarrow> string list \<Rightarrow> disk \<Rightarrow> string \<Rightarrow> tightened" where
  "restrict_socket_mode P warned d p =
     (let quiet = \<lparr>tg_disk = d, tg_warned = warned, tg_error = None\<rparr> in
      if ps_windows P then quiet
      else (case lstat_or_null P d p of
          Inl e \<Rightarrow> quiet\<lparr>tg_error := Some e\<rparr>
        | Inr None \<Rightarrow> quiet
        | Inr (Some n) \<Rightarrow>
            if nd_kind n \<noteq> KSocket then quiet
            else (case ps_deny P Chmod p of
                None \<Rightarrow> quiet\<lparr>tg_disk := set_mode d p private_file_mode\<rparr>
              | Some e \<Rightarrow> if is_not_owned_errno e then quiet\<lparr>tg_warned := warn_once warned p\<rparr>
                  else quiet\<lparr>tg_error := Some e\<rparr>)))"

text \<open>A file made under the restricted mask belongs to the owner alone.\<close>

definition with_restricted_umask :: "process \<Rightarrow> process" where
  "with_restricted_umask P = (if ps_windows P then P else P\<lparr>ps_umask := 63\<rparr>)"

section \<open>What each call leaves alone\<close>

lemma mkdirs_keeps:
  assumes "mkdirs P d ps = (d', e)" and "d q \<noteq> None \<or> q \<notin> set ps"
  shows "d' q = d q"
  using assms by (induction ps arbitrary: d) (auto split: option.splits if_splits)

lemma restrict_keeps: "q \<noteq> p \<Longrightarrow> tg_disk (restrict_existing_path_mode P swap w d p mode) q = d q"
  by (auto simp: restrict_existing_path_mode_def Let_def set_mode_def split: option.splits sum.splits)

lemma ensure_keeps:
  assumes "ensure_private_dir P swap k d p = (d', k', e)" and "q \<noteq> p" and "d q \<noteq> None \<or> q \<notin> set (dir_prefixes p)"
  shows "d' q = d q"
  using assms by (auto simp: ensure_private_dir_def Let_def restrict_keeps mkdirs_keeps split: if_splits prod.splits option.splits)

lemma unlink_keeps: "unlink_force P d t = (d', e) \<Longrightarrow> q \<noteq> t \<Longrightarrow> d' q = d q"
  by (auto simp: unlink_force_def split: option.splits if_splits)

lemma create_keeps: "create_exclusive P d t = (d', e) \<Longrightarrow> q \<noteq> t \<Longrightarrow> d' q = d q"
  by (auto simp: create_exclusive_def split: option.splits if_splits)

lemma write_pieces_keeps: "s \<in> set (write_pieces d t xs) \<Longrightarrow> q \<noteq> t \<Longrightarrow> s q = d q"
  by (induction xs arbitrary: d) (auto simp: append_text_def)

lemma write_pieces_ne [simp]: "write_pieces d t xs \<noteq> []"
  by (cases xs) simp_all

lemma write_pieces_last:
  "d t = Some n \<Longrightarrow> last (write_pieces d t xs) t = Some (n\<lparr>nd_text := nd_text n @ concat xs\<rparr>)"
  by (induction xs arbitrary: d n) (simp_all add: append_text_def)

lemma created_node:
  "create_exclusive P d t = (d', None) \<Longrightarrow> d' t = Some \<lparr>nd_kind = KFile, nd_mode = private_file_mode AND NOT (ps_umask P), nd_text = []\<rparr>"
  by (auto simp: create_exclusive_def split: option.splits if_splits)

lemma owner_only_created: "owner_only (private_file_mode AND NOT u)"
proof -
  have "(384 AND NOT u) AND 63 = (384 AND 63) AND NOT u" by (simp add: ac_simps)
  also have "\<dots> = (0 :: int)" by simp
  finally show ?thesis by (simp add: owner_only_def private_file_mode_def)
qed

lemma rename_keeps: "rename_over P d t p = (d', e) \<Longrightarrow> q \<noteq> t \<Longrightarrow> q \<noteq> p \<Longrightarrow> d' q = d q"
  by (auto simp: rename_over_def split: option.splits if_splits)

lemma rename_target: "rename_over P d t p = (d', e) \<Longrightarrow> t \<noteq> p \<Longrightarrow> d' p = (if e = None then d t else d p)"
  by (auto simp: rename_over_def split: option.splits if_splits)

lemma temp_path_other: "temp_path p sfx \<noteq> p"
  by (metis append_self_conv append_is_Nil_conv list.distinct(1) temp_path_def)

text \<open>Directories above a file have fewer components than the file.\<close>

lemma components_join:
  "list_all (\<lambda>s. s \<noteq> [] \<and> slash \<notin> set s) ss \<Longrightarrow> path_components (slash # join [slash] ss) = ss"
proof (cases "ss = []")
  case False
  assume "list_all (\<lambda>s. s \<noteq> [] \<and> slash \<notin> set s) ss"
  then have "split_on slash (join [slash] ss) = ss" "filter (\<lambda>s. s \<noteq> []) ss = ss"
    using False by (auto intro!: split_on_join simp: list_all_iff)
  then show ?thesis by (simp add: path_components_def)
qed (simp add: path_components_def)

lemma components_plain: "list_all (\<lambda>s. s \<noteq> [] \<and> slash \<notin> set s) (path_components p)"
  by (auto simp: path_components_def list_all_iff split_on_no_sep)

lemma list_all_take: "list_all P xs \<Longrightarrow> list_all P (take k xs)"
  by (auto simp: list_all_iff dest: in_set_takeD)

lemma prefix_components:
  assumes "q \<in> set (dir_prefixes p)"
  shows "length (path_components q) \<le> length (path_components p)"
proof -
  from assms obtain k where "q = slash # join [slash] (take (Suc k) (path_components p))" by (auto simp: dir_prefixes_def)
  with components_join [OF list_all_take [OF components_plain]] show ?thesis by simp
qed

lemma dirname_components:
  "is_absolute p \<Longrightarrow> path_components (path_dirname p) = butlast (path_components p)"
  using components_join [of "butlast (path_components p)"] components_plain [of p]
  by (simp add: path_dirname_def Let_def butlast_conv_take list_all_take)

lemma target_is_no_dir:
  assumes "is_absolute p" "path_components p \<noteq> []"
  shows "p \<noteq> path_dirname p" and "p \<notin> set (dir_prefixes (path_dirname p))"
proof -
  have "length (path_components (path_dirname p)) < length (path_components p)"
    using assms by (simp add: dirname_components)
  then show "p \<noteq> path_dirname p" and "p \<notin> set (dir_prefixes (path_dirname p))"
    using prefix_components [of p "path_dirname p"] by auto
qed

section \<open>Atomicity\<close>

definition holds_private :: "disk \<Rightarrow> string \<Rightarrow> string \<Rightarrow> bool" where
  "holds_private s p contents = (case s p of None \<Rightarrow> False
     | Some n \<Rightarrow> nd_kind n = KFile \<and> owner_only (nd_mode n) \<and> nd_text n = contents)"

text \<open>The ways a write can go, by the first call that fails.\<close>

lemma write_outcomes:
  assumes "ensure_private_dir P swap k d (path_dirname p) = (d1, k1, e1)"
    and "unlink_force P d1 (temp_path p sfx) = (d2, e2)" and "create_exclusive P d2 (temp_path p sfx) = (d3, e3)"
    and "rename_over P (last (write_pieces d3 (temp_path p sfx) (ps_chunks P contents))) (temp_path p sfx) p = (d5, e5)"
  shows "write_private_file_atomic P swap k d p contents sfx =
    (if e1 \<noteq> None then \<lparr>wr_states = [d1], wr_keeper = k1, wr_error = e1\<rparr>
     else if e2 \<noteq> None then \<lparr>wr_states = [d1, d2], wr_keeper = k1, wr_error = e2\<rparr>
     else if e3 \<noteq> None then \<lparr>wr_states = [d1, d2, d3], wr_keeper = k1, wr_error = e3\<rparr>
     else (case ps_deny P Write (temp_path p sfx) of
         Some e \<Rightarrow> \<lparr>wr_states = [d1, d2] @ write_pieces d3 (temp_path p sfx) (butlast (ps_chunks P contents)),
           wr_keeper = k1, wr_error = Some e\<rparr>
       | None \<Rightarrow> \<lparr>wr_states = [d1, d2] @ write_pieces d3 (temp_path p sfx) (ps_chunks P contents) @ [d5],
           wr_keeper = k1, wr_error = e5\<rparr>))"
  using assms by (simp add: write_private_file_atomic_def Let_def split: option.splits)


definition sample_process :: process where
  "sample_process = \<lparr>ps_windows = False, ps_umask = 18, ps_deny = (\<lambda>c p. None), ps_chunks = (\<lambda>c. [c])\<rparr>"

text \<open>A link to a file of somebody else waits at the temporary name.\<close>

definition sample_disk :: disk where
  "sample_disk = map_of [(''/s'', \<lparr>nd_kind = KDir, nd_mode = 493, nd_text = []\<rparr>),
     (''/s/h.json.tmp'', \<lparr>nd_kind = KLink, nd_mode = 511, nd_text = ''/etc/x''\<rparr>),
     (''/etc/x'', \<lparr>nd_kind = KFile, nd_mode = 420, nd_text = ''x''\<rparr>)]"

definition sample_write :: written where
  "sample_write = write_private_file_atomic sample_process id \<lparr>kp_verified = [], kp_warned = []\<rparr> sample_disk
     ''/s/h.json'' ''{}'' None"


end
