(* ===== verification/AM_Adapter.thy ===== *)
theory AM_Adapter
  imports AM_Path AM_Materialize AM_TextDiff
begin

text \<open>
  What is specific to a host: the adapter of Claude Code, \<open>adapter/claude.ts\<close> and \<open>adapter/types.ts\<close>, the
  adapter of the interpreting tool, \<open>adapter/interpret.ts\<close>, and the registry of the sources,
  \<open>observation/registry.ts\<close>. A host session id is the list of its code points, as \<open>Array.from\<close> reads it; the
  run of the tool is an argument.

  The property: whatever a host calls its session, the default state file lies in a directory of its own
  under the sessions of the workspace.
\<close>

section \<open>The path of a session's state\<close>

definition path_char :: "nat \<Rightarrow> bool" where
  "path_char n = ((48 \<le> n \<and> n \<le> 57) \<or> (65 \<le> n \<and> n \<le> 90) \<or> (97 \<le> n \<and> n \<le> 122) \<or> n = 95 \<or> n = 45)"

fun hex_text :: "nat \<Rightarrow> string" where
  "hex_text n = (if n < 16 then [hex_char n] else hex_text (n div 16) @ [hex_char (n mod 16)])"

declare hex_text.simps [simp del]

definition pad_two :: "string \<Rightarrow> string" where
  "pad_two s = replicate (2 - length s) (CHR ''0'') @ s"

definition encode_code_point :: "nat \<Rightarrow> string" where
  "encode_code_point n = (if path_char n then [char_of n] else CHR ''~'' # pad_two (hex_text n))"

definition safe_session_path_segment :: "nat list \<Rightarrow> string" where
  "safe_session_path_segment host =
     (let encoded = concat (map encode_code_point host) in
      if encoded = [] then ''_empty''
      else if encoded = ''.'' \<or> encoded = ''..'' then concat (map (\<lambda>c. if c = CHR ''.'' then ''~2e'' else [c]) encoded)
      else encoded)"

definition default_hook_state_path :: "string \<Rightarrow> string option \<Rightarrow> nat list \<Rightarrow> string" where
  "default_hook_state_path here workspace host =
     path_join [default workspace here, ''.agentmonitors'', ''sessions'', safe_session_path_segment host, ''hook-state.json'']"

section \<open>Opening a session\<close>

record session_request =
  sq_host :: "nat list"
  sq_agent :: "nat list option"
  sq_role :: "role option"
  sq_ws :: "string option"
  sq_path :: "string option"

text \<open>The input a session is opened with; the identities are code points.\<close>

record adapter_session =
  as_adapter :: string
  as_host :: "nat list"
  as_agent :: "nat list"
  as_role :: role
  as_ws :: "string option"
  as_path :: string

definition truthy :: "string option \<Rightarrow> string option" where
  "truthy v = (case v of Some s \<Rightarrow> if s = [] then None else Some s | None \<Rightarrow> None)"

definition create_session_input :: "string \<Rightarrow> session_request \<Rightarrow> adapter_session" where
  "create_session_input here q =
     \<lparr>as_adapter = ''claude-code'', as_host = sq_host q, as_agent = default (sq_agent q) (sq_host q),
       as_role = default (sq_role q) Lead, as_ws = truthy (sq_ws q),
       as_path = default (sq_path q) (default_hook_state_path here (truthy (sq_ws q)) (sq_host q))\<rparr>"

datatype lifecycle_event =
    SessionOpened | SessionDormant | EvTurnInterruptible | TurnEnded | EvTurnIdle | PreCompact | EvPostCompact

fun hook_event_map :: "lifecycle_event \<Rightarrow> string" where
  "hook_event_map SessionOpened = ''SessionStart''"
| "hook_event_map SessionDormant = ''SessionEnd''"
| "hook_event_map EvTurnInterruptible = ''PreToolUse''"
| "hook_event_map TurnEnded = ''Stop''"
| "hook_event_map EvTurnIdle = ''TeammateIdle''"
| "hook_event_map PreCompact = ''PreCompact''"
| "hook_event_map EvPostCompact = ''PostCompact''"

definition materialize_hook_state :: "(ms \<Rightarrow> string) \<Rightarrow> hook_state \<Rightarrow> json" where
  "materialize_hook_state print_date s =
     JObj [(''sessionId'', JStr (hk_session s)), (''updatedAt'', JStr (print_date (hk_updated s))),
       (''unread'', JObj [(''low'', JNum (show_nat (uc_low (hk_unread s)))), (''normal'', JNum (show_nat (uc_normal (hk_unread s)))),
          (''high'', JNum (show_nat (uc_high (hk_unread s)))), (''total'', JNum (show_nat (uc_total (hk_unread s))))]),
       (''hasPendingHigh'', JBool (hk_high s)), (''hasPendingNormal'', JBool (hk_normal s)),
       (''hasPendingLow'', JBool (hk_low s)), (''latestHighTitles'', JArr (map JStr (hk_titles s)))]"

section \<open>The interpreting tool\<close>

record interpret_input =
  ip_delta :: string
  ip_criteria :: "string option"
  ip_monitor :: string

definition build_prompt :: "interpret_input \<Rightarrow> string" where
  "build_prompt i =
     (let criteria = (case ip_criteria i of
            Some c \<Rightarrow> if trim c \<noteq> [] then trim c else ''Summarize the change if it is substantive; otherwise suppress it.''
          | None \<Rightarrow> ''Summarize the change if it is substantive; otherwise suppress it.'') in
      join [newline]
        [''You are reading the change observed by monitor '' @ [CHR 34] @ ip_monitor i @ [CHR 34] @ ''.'', [],
         ''Author criteria:'', criteria, [], ''The change (delta):'', ip_delta i, [],
         ''If the change is NOT substantive against the criteria, reply with exactly:'',
         ''SUPPRESS: <one short reason>'', ''Otherwise reply with exactly:'', ''DELIVER: <one-line digest of the change>''])"

definition default_interpret_timeout_ms :: ms where
  "default_interpret_timeout_ms = 30000"

text \<open>\<open>run\<close> is \<open>execFile\<close> of the command with its arguments and timeout: what it printed, or the failure.\<close>

definition claude_interpret :: "(string \<Rightarrow> string list \<Rightarrow> ms \<Rightarrow> string + string) \<Rightarrow> string option \<Rightarrow> ms option \<Rightarrow>
    interpret_input \<Rightarrow> string + interpret_result" where
  "claude_interpret run command timeout i =
     (case run (default command ''claude'') [''-p'', build_prompt i] (default timeout default_interpret_timeout_ms) of
        Inl e \<Rightarrow> Inl e
      | Inr out \<Rightarrow> Inr (parse_tool_output out))"

lemma silence_is_never_guessed:
  "parse_tool_output out = InterpretSuppress r \<Longrightarrow> strip_tag ''SUPPRESS:'' (trim out) \<noteq> None \<and> r \<noteq> []"
  by (auto simp: parse_tool_output_def Let_def split: option.splits if_splits)

lemma digest_shows_something: "trim out \<noteq> [] \<Longrightarrow> parse_tool_output out = InterpretDeliver d \<Longrightarrow> d \<noteq> []"
  by (auto simp: parse_tool_output_def Let_def split: option.splits if_splits)

section \<open>The registry of sources\<close>

type_synonym 'a source_registry = "(string \<times> 'a) list"

definition registry_register :: "'a source_registry \<Rightarrow> string \<Rightarrow> 'a \<Rightarrow> string + 'a source_registry" where
  "registry_register r name src =
     (if map_of r name \<noteq> None then Inl (''Observation source '' @ [CHR 34] @ name @ [CHR 34] @ '' is already registered'')
      else Inr (map_set r name src))"

definition registry_get :: "'a source_registry \<Rightarrow> string \<Rightarrow> 'a option" where
  "registry_get r name = map_of r name"

definition registry_names :: "'a source_registry \<Rightarrow> string list" where
  "registry_names r = map fst r"

lemma map_set_fresh: "map_of r k = None \<Longrightarrow> map_set r k v = r @ [(k, v)]"
  by (induction r k v rule: map_set.induct) (auto split: if_splits)

text \<open>Nothing registered is ever replaced, and the order is the one of registration.\<close>

lemma register_keeps:
  assumes "registry_register r name src = Inr r'"
  shows "registry_names r' = registry_names r @ [name]" and "registry_get r' name = Some src"
    and "k \<noteq> name \<Longrightarrow> registry_get r' k = registry_get r k"
proof -
  from assms have n: "map_of r name = None" and s: "r' = map_set r name src"
    by (simp_all add: registry_register_def split: if_splits)
  show "registry_names r' = registry_names r @ [name]" by (simp add: s map_set_fresh [OF n] registry_names_def)
  show "registry_get r' name = Some src" and "k \<noteq> name \<Longrightarrow> registry_get r' k = registry_get r k"
    by (simp_all add: s registry_get_def map_of_map_set)
qed

section \<open>Containment\<close>

definition segment_char :: "char \<Rightarrow> bool" where
  "segment_char c = (path_char (of_char c) \<or> c = CHR ''~'')"

lemma path_char_byte: "path_char n \<Longrightarrow> n < 256"
  by (auto simp: path_char_def)

lemma hex_char_path: "n < 16 \<Longrightarrow> path_char (of_char (hex_char n))"
  by (auto simp: hex_char_def path_char_def digit_char_def of_char_of)

lemma hex_text_chars: "c \<in> set (hex_text n) \<Longrightarrow> segment_char c"
proof (induction n rule: hex_text.induct)
  case (1 n)
  then show ?case
    by (auto simp: hex_text.simps [of n] segment_char_def hex_char_path split: if_splits)
qed

lemma encode_chars: "c \<in> set (encode_code_point n) \<Longrightarrow> segment_char c"
  by (auto simp: encode_code_point_def pad_two_def segment_char_def path_char_byte of_char_of take_bit_eq_mod
      dest: hex_text_chars split: if_splits) (auto simp: path_char_def)

lemma segment_not [simp]: "\<not> segment_char (CHR ''.'')" "\<not> segment_char slash"
  by (auto simp: segment_char_def path_char_def slash_def)

lemma encode_ne [simp]: "encode_code_point n \<noteq> []"
  by (simp add: encode_code_point_def)

lemma segment_is_encoding:
  "host \<noteq> [] \<Longrightarrow> safe_session_path_segment host = concat (map encode_code_point host)"
proof -
  assume ne: "host \<noteq> []"
  obtain e where e: "e = concat (map encode_code_point host)" by simp
  have "CHR ''.'' \<notin> set e"
    unfolding e using segment_not(1) encode_chars by fastforce
  then have "e \<noteq> ''.''" "e \<noteq> ''..''" by auto
  moreover have "e \<noteq> []" unfolding e using ne by (cases host) simp_all
  ultimately show ?thesis unfolding safe_session_path_segment_def Let_def e [symmetric] by simp
qed

lemma segment_chars: "list_all segment_char (safe_session_path_segment host)"
proof (cases "host = []")
  case True
  then show ?thesis by (simp add: safe_session_path_segment_def segment_char_def path_char_def)
next
  case False
  then show ?thesis by (auto simp: segment_is_encoding list_all_iff dest: encode_chars)
qed

lemma segment_plain: "plain_segment (safe_session_path_segment host)"
proof -
  have "safe_session_path_segment host \<noteq> []"
    by (cases "host = []") (auto simp: segment_is_encoding neq_Nil_conv, simp add: safe_session_path_segment_def)
  moreover have "CHR ''.'' \<notin> set (safe_session_path_segment host)" "slash \<notin> set (safe_session_path_segment host)"
    using segment_chars [of host] segment_not unfolding list_all_iff by blast+
  ultimately show ?thesis by (auto simp: plain_segment_def)
qed

text \<open>Below 256 each code point has an encoding of its own that is no prefix of another.\<close>

lemma hex_char_zero: "hex_char 0 = CHR ''0''"
  by code_simp

lemma two_digits: "n < 256 \<Longrightarrow> pad_two (hex_text n) = [hex_char (n div 16), hex_char (n mod 16)]"
proof (cases "n < 16")
  case True
  then show ?thesis by (simp add: pad_two_def hex_text.simps [of n] hex_char_zero)
next
  case False
  assume "n < 256"
  then have "n div 16 < 16" by simp
  with False show ?thesis by (simp add: pad_two_def hex_text.simps [of n] hex_text.simps [of "n div 16"])
qed

lemma encode_prefix_free:
  assumes "m < 256" "n < 256" "encode_code_point m @ xs = encode_code_point n @ ys"
  shows "m = n \<and> xs = ys"
proof -
  have nt: "path_char k \<Longrightarrow> char_of k \<noteq> CHR ''~''" for k
    using path_char_byte [of k] by (auto simp: path_char_def char_of_eq_iff take_bit_eq_mod)
  show ?thesis
  proof (cases "path_char m"; cases "path_char n")
    assume "path_char m" "path_char n"
    then have "(of_char (char_of m :: char) :: nat) = of_char (char_of n :: char)" "xs = ys"
      using assms(3) by (simp_all add: encode_code_point_def)
    with assms(1,2) show ?thesis by (simp add: of_char_of)
  next
    assume "\<not> path_char m" "\<not> path_char n"
    then have e: "hex_char (m div 16) = hex_char (n div 16)" "hex_char (m mod 16) = hex_char (n mod 16)" "xs = ys"
      using assms by (simp_all add: encode_code_point_def two_digits)
    have "m div 16 = n div 16" "m mod 16 = n mod 16"
      using arg_cong [where f = unhex, OF e(1)] arg_cong [where f = unhex, OF e(2)] assms(1,2)
      by (simp_all add: unhex_hex)
    with e show ?thesis by (metis div_mult_mod_eq)
  qed (use assms nt nt [THEN not_sym] in \<open>auto simp: encode_code_point_def\<close>)
qed

lemma encode_inj:
  "list_all (\<lambda>n. n < 256) xs \<Longrightarrow> list_all (\<lambda>n. n < 256) ys \<Longrightarrow>
     concat (map encode_code_point xs) = concat (map encode_code_point ys) \<Longrightarrow> xs = ys"
proof (induction xs arbitrary: ys)
  case Nil
  then show ?case by (cases ys) simp_all
next
  case (Cons x xs)
  from Cons.prems(3) obtain y ys' where ys: "ys = y # ys'" by (cases ys) simp_all
  from Cons.prems ys have "encode_code_point x @ concat (map encode_code_point xs) = encode_code_point y @ concat (map encode_code_point ys')"
    and small: "x < 256" "y < 256" "list_all (\<lambda>n. n < 256) xs" "list_all (\<lambda>n. n < 256) ys'" by simp_all
  then have "x = y" "concat (map encode_code_point xs) = concat (map encode_code_point ys')"
    using encode_prefix_free by blast+
  with Cons.IH [OF small(3,4)] ys show ?case by simp
qed

section \<open>Joining below a base\<close>

lemma split_on_middle: "split_on sep (a @ sep # b) = split_on sep a @ split_on sep b"
  by (induction a) (auto split: list.splits)

lemma join_append_ne: "xs \<noteq> [] \<Longrightarrow> ys \<noteq> [] \<Longrightarrow> join sep (xs @ ys) = join sep xs @ sep @ join sep ys"
proof (induction xs)
  case (Cons x xs)
  then show ?case by (cases xs; cases ys) simp_all
qed simp

lemma path_join_below:
  assumes "is_absolute base" and "list_all plain_segment segs" and "segs \<noteq> []"
  shows "path_join (base # segs) = slash # join [slash] (normal_segments False base @ segs)"
proof -
  have parts: "filter (\<lambda>p. p \<noteq> []) (base # segs) = base # segs"
    using assms by (auto simp: is_absolute_def list_all_iff plain_segment_def filter_id_conv)
  have j: "join [slash] (base # segs) = base @ slash # join [slash] segs"
    using assms(3) by (cases segs) simp_all
  have sp: "split_on slash (join [slash] segs) = segs"
    using assms(2,3) by (intro split_on_join) (auto simp: list_all_iff plain_segment_def)
  have n: "normal_segments False (join [slash] (base # segs)) = normal_segments False base @ segs"
    using fold_segments_id [OF assms(2)] by (simp add: normal_segments_def j split_on_middle sp)
  have last: "last (join [slash] (base # segs)) \<noteq> slash"
  proof -
    obtain init s where s: "segs = init @ [s]" using assms(3) by (metis append_butlast_last_id)
    with assms(2) have "s \<noteq> []" "slash \<notin> set s" by (simp_all add: plain_segment_def)
    moreover have "join [slash] segs = (if init = [] then s else join [slash] init @ slash # s)"
      using join_append_ne [of init "[s]" "[slash]"] by (simp add: s)
    ultimately show ?thesis unfolding j by (auto simp: last_append dest: last_in_set)
  qed
  have abs: "is_absolute (join [slash] (base # segs))" "join [slash] (base # segs) \<noteq> []"
    using assms(1) by (auto simp: j is_absolute_def)
  show ?thesis
    unfolding path_join_def parts Let_def using last abs by (simp add: path_normalize_def Let_def n [symmetric])
qed

text \<open>
  A session's state file is where it belongs. For an absolute workspace, whatever the host calls its
  session, slashes and dots included, the default path is the sessions directory of the workspace, one
  directory whose name has letters, digits and \<open>_-~\<close> only, and \<open>hook-state.json\<close>; and two ids of
  eight-bit characters that are not empty never share it.
\<close>

lemma session_state_is_contained:
  assumes "is_absolute base"
  shows "default_hook_state_path here (Some base) host =
      slash # join [slash] (normal_segments False base @ [''.agentmonitors'', ''sessions'', safe_session_path_segment host, ''hook-state.json'']) \<and>
    plain_segment (safe_session_path_segment host) \<and> list_all segment_char (safe_session_path_segment host) \<and>
    (\<forall>other. host = [] \<or> other = [] \<or> \<not> list_all (\<lambda>n. n < 256) (host @ other) \<or> other = host \<or>
       default_hook_state_path here (Some base) other \<noteq> default_hook_state_path here (Some base) host)"
proof (intro conjI allI)
  have path: "default_hook_state_path here (Some base) h = slash # join [slash] (normal_segments False base @
      [''.agentmonitors'', ''sessions'', safe_session_path_segment h, ''hook-state.json''])" for h
    unfolding default_hook_state_path_def default_simps using segment_plain [of h]
    by (intro path_join_below [OF assms]) (simp_all add: plain_segment_def slash_def)
  show "default_hook_state_path here (Some base) host =
      slash # join [slash] (normal_segments False base @ [''.agentmonitors'', ''sessions'', safe_session_path_segment host, ''hook-state.json''])"
    by (rule path)
  fix other
  have "other = host" if h: "host \<noteq> []" "other \<noteq> []" "list_all (\<lambda>n. n < 256) (host @ other)"
    and eq: "default_hook_state_path here (Some base) other = default_hook_state_path here (Some base) host"
  proof -
    have tail: "list_all plain_segment (normal_segments False base @ [''.agentmonitors'', ''sessions'', safe_session_path_segment k, ''hook-state.json''])" for k
      using segment_plain [of k] normal_segments_plain [of base] by (simp add: plain_segment_def [of "_ # _"] slash_def)
    from eq have "safe_session_path_segment other = safe_session_path_segment host"
      using normal_segments_slash [OF tail, of False] unfolding path by (metis append_same_eq same_append_eq list.inject)
    then show ?thesis using h encode_inj by (simp add: segment_is_encoding list_all_append)
  qed
  then show "host = [] \<or> other = [] \<or> \<not> list_all (\<lambda>n. n < 256) (host @ other) \<or> other = host \<or>
       default_hook_state_path here (Some base) other \<noteq> default_hook_state_path here (Some base) host" by blast
qed (rule segment_plain segment_chars)+

lemma session_state_is_contained_witness:
  "default_hook_state_path [] (Some ''/w'') [46, 46, 47] =
      slash # join [slash] (normal_segments False ''/w'' @ [''.agentmonitors'', ''sessions'', safe_session_path_segment [46, 46, 47], ''hook-state.json''])"
  using session_state_is_contained [of "''/w''" "[]" "[46, 46, 47]"] by (simp add: is_absolute_def slash_def)

end
