(* ===== verification/AM_Timers.thy ===== *)
theory AM_Timers
  imports AM_Lifecycle AM_Path
begin

text \<open>
  The notifiers that run on timers, \<open>notify/notifier.ts\<close>, as machines over the calls they get, in the
  order of time; a timer that is due at the moment of a call has fired before it. And the time
  limits of the verification run, \<open>apps/cli/src/verify-budget.ts\<close>, with the defaults of
  \<open>runtime/scheduling-defaults.ts\<close>. Whether a glob has magic is an argument.

  The lemmas: the debounce notifier reports the last observation of each burst when it has been
  quiet for long enough, the throttle notifier never reports twice within its window, and the limits
  of a verification cover the delays it has to wait for.
\<close>

section \<open>Notifiers\<close>

datatype call = Submit ms observation | Dispose ms

fun call_time :: "call \<Rightarrow> ms" where
  "call_time (Submit t ob) = t"
| "call_time (Dispose t) = t"

text \<open>Without a configuration each observation is passed on at once.\<close>

fun immediate_run :: "call list \<Rightarrow> (ms \<times> observation) list" where
  "immediate_run [] = []"
| "immediate_run (Submit t ob # cs) = (t, ob) # immediate_run cs"
| "immediate_run (Dispose t # cs) = immediate_run cs"

text \<open>The state is the armed timer with the observation it will report.\<close>

fun debounce_run :: "ms \<Rightarrow> (ms \<times> observation) option \<Rightarrow> call list \<Rightarrow> (ms \<times> observation) list" where
  "debounce_run settle None [] = []"
| "debounce_run settle (Some (due, ob)) [] = [(due, ob)]"
| "debounce_run settle None (Submit t ob # cs) = debounce_run settle (Some (t + settle, ob)) cs"
| "debounce_run settle None (Dispose t # cs) = debounce_run settle None cs"
| "debounce_run settle (Some (due, held)) (c # cs) =
     (if due \<le> call_time c then [(due, held)] else []) @
     debounce_run settle (case c of Submit t ob \<Rightarrow> Some (t + settle, ob) | Dispose t \<Rightarrow> None) cs"

text \<open>The state is the end of the window.\<close>

fun throttle_run :: "ms \<Rightarrow> ms option \<Rightarrow> call list \<Rightarrow> (ms \<times> observation) list" where
  "throttle_run suppress quiet [] = []"
| "throttle_run suppress quiet (Submit t ob # cs) =
     (if (case quiet of None \<Rightarrow> False | Some e \<Rightarrow> t < e) then throttle_run suppress quiet cs
      else (t, ob) # throttle_run suppress (Some (t + suppress)) cs)"
| "throttle_run suppress quiet (Dispose t # cs) = throttle_run suppress None cs"

text \<open>A submission is the last of its burst when the next call comes no sooner than its timer.\<close>

fun bursts :: "ms \<Rightarrow> call list \<Rightarrow> (ms \<times> observation) list" where
  "bursts settle [] = []"
| "bursts settle (Dispose t # cs) = bursts settle cs"
| "bursts settle (Submit t ob # cs) =
     (if cs = [] \<or> t + settle \<le> call_time (hd cs) then [(t + settle, ob)] else []) @ bursts settle cs"

lemma debounce_armed:
  "debounce_run settle (Some (due, held)) cs =
     (if cs = [] \<or> due \<le> call_time (hd cs) then [(due, held)] else []) @ debounce_run settle None cs"
  by (cases cs) (auto split: call.splits)

lemma debounce_reports_bursts: "debounce_run settle None cs = bursts settle cs"
  by (induction settle cs rule: bursts.induct) (simp_all add: debounce_armed)

definition submits :: "call list \<Rightarrow> bool" where
  "submits cs = list_all (\<lambda>c. case c of Submit t ob \<Rightarrow> True | Dispose t \<Rightarrow> False) cs"

lemma throttle_after:
  "0 \<le> suppress \<Longrightarrow> submits cs \<Longrightarrow> list_all (\<lambda>(t, ob). e \<le> t) (throttle_run suppress (Some e) cs)"
proof (induction cs arbitrary: e)
  case (Cons c cs)
  then obtain t ob where c: "c = Submit t ob" "submits cs" by (cases c) (simp_all add: submits_def)
  have "list_all (\<lambda>(s, ob). e \<le> s) (throttle_run suppress (Some (t + suppress)) cs)" if "e \<le> t"
    using Cons.IH [OF Cons.prems(1) c(2), of "t + suppress"] Cons.prems(1) that by (auto simp: list_all_iff)
  with Cons.IH [OF Cons.prems(1) c(2), of e] show ?case by (simp add: c)
qed simp

lemma throttle_spacing:
  "0 \<le> suppress \<Longrightarrow> submits cs \<Longrightarrow> sorted_wrt (\<lambda>(s, a) (t, b). s + suppress \<le> t) (throttle_run suppress quiet cs)"
proof (induction cs arbitrary: quiet)
  case (Cons c cs)
  then obtain t ob where c: "c = Submit t ob" "submits cs" by (cases c) (simp_all add: submits_def)
  with Cons throttle_after [of suppress cs "t + suppress"] show ?case
    by (auto simp: list_all_iff split: option.splits)
qed simp

section \<open>The time limits of a verification\<close>

definition high_urgency_claim_settle_ms :: ms where "high_urgency_claim_settle_ms = 15000"

definition parse_duration_safe :: "string \<Rightarrow> ms option" where
  "parse_duration_safe v = (case parse_duration v of Inl e \<Rightarrow> None | Inr t \<Rightarrow> Some t)"

definition resolve_poll_interval_ms :: "monitor \<Rightarrow> ms" where
  "resolve_poll_interval_ms m =
     (let explicit = (case map_of (m_config m) ''interval'' of Some (JStr s) \<Rightarrow> parse_duration_safe s | _ \<Rightarrow> None) in
      if m_type m = ''schedule'' then schedule_tick_ms
      else if m_type m = ''api-poll'' then default explicit api_poll_ms
      else default explicit file_fingerprint_poll_ms)"

definition resolve_settle_ms :: "monitor \<Rightarrow> ms" where
  "resolve_settle_ms m =
     (case default_notify_config (m_urgency m) (m_notify m) of
        Some (Debounce d) \<Rightarrow> default (parse_duration_safe d) 0
      | _ \<Rightarrow> 0)"

definition delivery_lifecycle_for_urgency :: "urgency \<Rightarrow> lifecycle" where
  "delivery_lifecycle_for_urgency u = (if u = High then TurnInterruptible else PostCompact)"

record verify_budget =
  vb_interval :: ms
  vb_settle :: ms
  vb_high_claim :: ms
  vb_margin :: ms
  vb_baseline :: ms
  vb_detect :: ms
  vb_no_change :: ms
  vb_post :: ms
  vb_total :: ms

text \<open>\<open>Math.ceil(interval * 0.25)\<close>; a quarter of an integer below \<open>2^51\<close> is exact.\<close>

definition quarter_up :: "ms \<Rightarrow> ms" where
  "quarter_up t = (t + 3) div 4"

definition compute_verify_budget :: "monitor \<Rightarrow> verify_budget" where
  "compute_verify_budget m =
     (let interval = resolve_poll_interval_ms m; settle = resolve_settle_ms m;
          high_claim = (if m_urgency m = High then high_urgency_claim_settle_ms else 0);
          margin = max 5000 (quarter_up interval);
          baseline = interval + margin; detect = interval + settle + high_claim + margin;
          no_change = interval * 2 + margin; post = settle + high_claim + margin in
      \<lparr>vb_interval = interval, vb_settle = settle, vb_high_claim = high_claim, vb_margin = margin, vb_baseline = baseline,
        vb_detect = detect, vb_no_change = no_change, vb_post = post, vb_total = baseline + max detect no_change + post\<rparr>)"

definition literal_dirs :: "(string \<Rightarrow> bool) \<Rightarrow> string list \<Rightarrow> string list" where
  "literal_dirs magic segs = takeWhile (\<lambda>s. \<not> magic s) segs"

definition scratch_extension :: "(string \<Rightarrow> bool) \<Rightarrow> string \<Rightarrow> string" where
  "scratch_extension magic seg =
     (let tail = takeWhile (\<lambda>c. c \<noteq> CHR ''.'') (rev seg); dot = length seg - Suc (length tail) in
      if CHR ''.'' \<in> set seg \<and> 0 < dot \<and> \<not> magic (drop dot seg) then drop dot seg else [])"

definition derive_scratch_trigger_path :: "(string \<Rightarrow> bool) \<Rightarrow> string \<Rightarrow> string \<Rightarrow> string \<Rightarrow> string" where
  "derive_scratch_trigger_path magic glob base token =
     (let segments = filter (\<lambda>s. s \<noteq> []) (split_on slash glob);
          seg = (if segments = [] then [] else last segments) in
      path_join (base # literal_dirs magic (butlast segments) @ [''agentmonitors-verify-'' @ token @ scratch_extension magic seg]))"

definition is_literal_glob :: "(string \<Rightarrow> bool) \<Rightarrow> string \<Rightarrow> bool" where
  "is_literal_glob magic glob = (\<not> magic glob)"

lemma parse_duration_pos: "parse_duration s = Inr t \<Longrightarrow> 0 \<le> t"
  by (auto simp: parse_duration_def unit_ms_def split: if_splits option.splits)

lemma budget_nonneg: "0 \<le> resolve_poll_interval_ms m" "0 \<le> resolve_settle_ms m"
  by (auto simp: resolve_poll_interval_ms_def resolve_settle_ms_def Let_def parse_duration_safe_def default_def
      schedule_tick_ms_def api_poll_ms_def file_fingerprint_poll_ms_def dest: parse_duration_pos
      split: option.splits sum.splits json.splits notify.splits)

text \<open>
  A change that is seen at the first poll after it, held for the debounce and, if urgent, for the claim's
  settle window, is there before the limit of its phase, and the phases fit the total.
\<close>

lemma verify_budget_covers:
  assumes "change \<le> poll" and "poll \<le> change + vb_interval b" and "b = compute_verify_budget m"
  shows "poll + vb_settle b + vb_high_claim b + 5000 \<le> change + vb_detect b"
    and "vb_baseline b + vb_detect b + vb_post b \<le> vb_total b"
    and "vb_baseline b + vb_no_change b + vb_post b \<le> vb_total b"
  using assms by (auto simp: compute_verify_budget_def Let_def)

end
