(* ===== verification/AM_Explain.thy ===== *)
theory AM_Explain
  imports AM_Authoring AM_Diagnosis AM_Query AM_Tick AM_MaterializeProps
begin

text \<open>
  Why a monitor is silent, \<open>explainMonitor\<close> of \<open>runtime/service.ts\<close> with
  \<open>runtime/reminder-diagnosis.ts\<close>, and the two queries of \<open>runtime/store.ts\<close> they read. A reason is a constructor for the sentence the code builds, with the values in it; the further
  details of a stage repeat those values and are left out.

  The property: an explanation is true. Its verdict is a failure exactly when one of its stages is,
  a monitor is said to have nothing to deliver only when no event of it is stored for the workspace,
  and a reminder is said to be suppressed exactly when the delivery decision would not give it.
\<close>

section \<open>Queries\<close>

text \<open>Rows of one second are kept apart by a monotonic id, here by their place.\<close>

definition list_observation_history :: "store \<Rightarrow> string option \<Rightarrow> string option \<Rightarrow> nat option \<Rightarrow> history_row list" where
  "list_observation_history st mon ws limit =
     (let rows = filter (\<lambda>h. (case mon of
              Some m \<Rightarrow> if m = [] then \<not> like_ephemeral (h_monitor h) else h_monitor h = m
            | None \<Rightarrow> \<not> like_ephemeral (h_monitor h)) \<and>
            (case ws of None \<Rightarrow> True | Some w \<Rightarrow> h_ws h = Some w)) (history st) in
      take (default limit 50) (rev (ordered_by h_created rows)))"

record delivery_projection =
  dp_event :: ident
  dp_session :: ident
  dp_role :: role
  dp_status :: session_status
  dp_state :: delivery_state
  dp_ws :: "string option"
  dp_decision :: "interpret_decision option"
  dp_net :: bool

definition projection_rows :: "store \<Rightarrow> string \<Rightarrow> string option \<Rightarrow> (event \<times> delivery_projection) list" where
  "projection_rows st mon ws =
     concat (map (\<lambda>p.
       case (find (\<lambda>e. e_id e = p_event p) (events st), find (\<lambda>s. s_id s = p_session p) (sessions st)) of
         (Some e, Some s) \<Rightarrow>
           if e_monitor e = mon \<and> (case ws of None \<Rightarrow> True | Some w \<Rightarrow> s_ws s = Some w \<or> s_ws s = None)
           then [(e, \<lparr>dp_event = e_id e, dp_session = s_id s, dp_role = s_role s, dp_status = s_status s,
             dp_state = delivery_state_for_row p, dp_ws = s_ws s, dp_decision = p_decision p,
             dp_net = (p_net_suppressed p \<noteq> None)\<rparr>)]
           else []
       | _ \<Rightarrow> []) (projections st))"

definition list_delivery_projections :: "store \<Rightarrow> string \<Rightarrow> string option \<Rightarrow> delivery_projection list" where
  "list_delivery_projections st mon ws = map snd (rev (ordered_by (\<lambda>(e, d). event_key e) (projection_rows st mon ws)))"

section \<open>Suppressed reminders\<close>

record reminder_counts =
  rc_session :: ident
  rc_urgency :: urgency
  rc_unread :: nat
  rc_pending :: nat
  rc_leased :: nat

datatype suppression_reason = RemNoNewWork | RemReserved

record reminder_finding =
  rf_session :: ident
  rf_urgency :: urgency
  rf_lifecycle :: lifecycle
  rf_unread :: nat
  rf_claimed :: int
  rf_leased :: nat
  rf_reason :: suppression_reason
  rf_message :: string

definition reminder_lifecycle :: "urgency \<Rightarrow> lifecycle" where
  "reminder_lifecycle u = (if u = Normal then TurnInterruptible else TurnIdle)"

fun lifecycle_text :: "lifecycle \<Rightarrow> string" where
  "lifecycle_text TurnInterruptible = ''turn-interruptible''"
| "lifecycle_text TurnIdle = ''turn-idle''"
| "lifecycle_text PostCompact = ''post-compact''"

definition band_label :: "urgency \<Rightarrow> string" where
  "band_label u = (if u = Normal then ''Normal'' else ''Low'')"

text \<open>U+2014 in UTF-8.\<close>

definition em_dash :: string where
  "em_dash = [CHR 0xE2, CHR 0x80, CHR 0x94]"

definition suppression_message :: "ident \<Rightarrow> urgency \<Rightarrow> nat \<Rightarrow> nat \<Rightarrow> suppression_reason \<Rightarrow> string" where
  "suppression_message sid u unread held reason =
     (let head = band_label u @ ''-urgency reminder at '' @ lifecycle_text (reminder_lifecycle u) @
            '' is suppressed for session '' @ sid @ '':'' in
      if reason = RemReserved then
        head @ '' '' @ show_nat held @ '' of '' @ show_nat unread @ '' unread '' @ urgency_text u @
        '' event(s) are being surfaced by an in-flight channel-push reservation (reserved-in-flight). No action '' @
        ''needed '' @ em_dash @ '' it will be claimed shortly, or become claimable again if that push fails.''
      else
        head @ '' all '' @ show_nat unread @ '' unread '' @ urgency_text u @ '' event(s) are already claimed. '' @
        ''They remain unread until explicitly acknowledged ('' @ [CHR 96] @ ''agentmonitors events ack --session '' @ sid @ [CHR 96] @ ''). '' @
        ''A fresh unclaimed '' @ urgency_text u @
        '' event will trigger a new reminder; previously claimed events are not repeated.'')"

definition suppressed_reminder :: "reminder_counts \<Rightarrow> reminder_finding option" where
  "suppressed_reminder c =
     (if rc_unread c = 0 \<or> (0 < rc_pending c \<and> rc_leased c = 0) then None
      else Some \<lparr>rf_session = rc_session c, rf_urgency = rc_urgency c, rf_lifecycle = reminder_lifecycle (rc_urgency c),
        rf_unread = rc_unread c, rf_claimed = int (rc_unread c) - int (rc_pending c) - int (rc_leased c),
        rf_leased = rc_leased c, rf_reason = (if 0 < rc_leased c then RemReserved else RemNoNewWork),
        rf_message = suppression_message (rc_session c) (rc_urgency c) (rc_unread c) (rc_leased c)
          (if 0 < rc_leased c then RemReserved else RemNoNewWork)\<rparr>)"

text \<open>By session, and within one the normal band before the low one.\<close>

definition finding_key :: "reminder_finding \<Rightarrow> ident \<times> bool" where
  "finding_key f = (rf_session f, rf_urgency f \<noteq> Normal)"

definition diagnose_reminder_suppression :: "reminder_counts list \<Rightarrow> reminder_finding list" where
  "diagnose_reminder_suppression cs = sort_key finding_key (concat (map (\<lambda>c. option_list (suppressed_reminder c)) cs))"

section \<open>Stages and the verdict\<close>

datatype stage_id = SgDefinition | SgScheduling | SgObservation | SgNotify | SgMaterialization | SgDelivery

datatype stage_status = StOk | StHealthy | StPending | StFailure

datatype hold_kind = HeldDebounce | HeldOverdue | HeldRollup | HeldThrottle

datatype explain_reason =
    ParseFailed string parse_error
  | MonitorNotFound ident string
  | MonitorDuplicated ident nat
  | DefinitionInvalid "string list"
  | DefinitionValid
  | ScheduleFailedBy cron_error
  | LastTick ms bool ms
  | NoTickYet
  | NoHistory
  | SourceFailed "string option"
  | NothingChanged
  | NoFilesFound
  | RebaselinedQuietly
  | LatestOutcome outcome
  | DebounceOverdue nat
  | DebounceHolding nat ms
  | RollupHolding nat string
  | ThrottleUntil ms
  | NoHold
  | NoEventsExpected
  | EventsHeld hold_kind
  | NoEvents
  | EventsFound nat
  | NoLeadSession
  | NoProjections
  | EventsProjected "(delivery_state \<times> nat) list" nat "reminder_finding list"
  | NothingToDeliver
  | DeliveryNotStarted

record stage =
  sg_id :: stage_id
  sg_status :: stage_status
  sg_reason :: explain_reason

definition explain_stage :: "stage_id \<Rightarrow> stage_status \<Rightarrow> explain_reason \<Rightarrow> stage" where
  "explain_stage i s r = \<lparr>sg_id = i, sg_status = s, sg_reason = r\<rparr>"

fun stage_label :: "stage_id \<Rightarrow> string" where
  "stage_label SgDefinition = ''Definition''"
| "stage_label SgScheduling = ''Scheduling''"
| "stage_label SgObservation = ''Observation''"
| "stage_label SgNotify = ''Notify state''"
| "stage_label SgMaterialization = ''Materialization''"
| "stage_label SgDelivery = ''Projection and delivery''"

fun severity :: "stage_status \<Rightarrow> nat" where
  "severity StOk = 0"
| "severity StHealthy = 1"
| "severity StPending = 2"
| "severity StFailure = 3"

fun worst_stage :: "stage option \<Rightarrow> stage list \<Rightarrow> stage option" where
  "worst_stage w [] = w"
| "worst_stage w (s # ss) =
     worst_stage (case w of None \<Rightarrow> Some s | Some x \<Rightarrow> if severity (sg_status x) < severity (sg_status s) then Some s else w) ss"

record stage_verdict =
  vd_status :: stage_status
  vd_stage :: stage_id
  vd_reason :: "explain_reason option"

definition explain_verdict :: "stage list \<Rightarrow> stage_verdict" where
  "explain_verdict stages =
     (case worst_stage None stages of
        None \<Rightarrow> \<lparr>vd_status = StOk, vd_stage = SgDelivery, vd_reason = None\<rparr>
      | Some s \<Rightarrow> \<lparr>vd_status = sg_status s, vd_stage = sg_id s, vd_reason = Some (sg_reason s)\<rparr>)"

section \<open>The explanation\<close>

text \<open>
  \<open>ee_schema\<close> is the scope schema of each registered source, \<open>ee_validate\<close> the JSON Schema validator and
  \<open>ee_display\<close> the cleaned and shortened text of a stored error.
\<close>

record explain_env =
  ee_env :: env
  ee_schema :: "string \<Rightarrow> json option"
  ee_validate :: "json \<Rightarrow> json \<Rightarrow> (string \<times> string) list option"
  ee_display :: "json option \<Rightarrow> string option"

record explain_input =
  ei_monitor :: ident
  ei_dir :: string
  ei_ws :: "string option"
  ei_history :: "nat option"
  ei_events :: "nat option"
  ei_now :: ms

record explain_report =
  er_monitor :: "monitor option"
  er_stages :: "stage list"
  er_verdict :: stage_verdict
  er_observations :: "history_row list"
  er_events :: "event list"
  er_projections :: "delivery_projection list"
  er_leads :: "session list"

datatype explain_error = ExplainInterval duration_error | ExplainStore store_error

definition scope_errors :: "explain_env \<Rightarrow> monitor \<Rightarrow> string list" where
  "scope_errors E m =
     (case ee_schema E (m_type m) of
        None \<Rightarrow> [''Unknown source '' @ [CHR 34] @ m_type m @ [CHR 34] @ ''.'']
      | Some schema \<Rightarrow> validate_scope (ee_validate E) (m_config m) schema)"

definition stopped_report :: "monitor option \<Rightarrow> stage list \<Rightarrow> explain_report" where
  "stopped_report m stages = \<lparr>er_monitor = m, er_stages = stages, er_verdict = explain_verdict stages,
     er_observations = [], er_events = [], er_projections = [], er_leads = []\<rparr>"

definition scheduling_stage :: "ms option \<Rightarrow> ms \<Rightarrow> polling \<Rightarrow> stage" where
  "scheduling_stage last_at now p =
     explain_stage SgScheduling StOk
       (case last_at of
          None \<Rightarrow> NoTickYet
        | Some t \<Rightarrow> LastTick t (pg_due p) (if pg_due p then now else t + pg_next p))"

definition observation_stage :: "explain_env \<Rightarrow> history_row list \<Rightarrow> stage" where
  "observation_stage E rows =
     (case rows of
        [] \<Rightarrow> explain_stage SgObservation StFailure NoHistory
      | h # _ \<Rightarrow>
          (case h_result h of
             Errored \<Rightarrow> explain_stage SgObservation StFailure (SourceFailed (ee_display E (jfield (h_data h) ''error'')))
           | NoChange \<Rightarrow> explain_stage SgObservation StHealthy NothingChanged
           | NoFilesMatched \<Rightarrow> explain_stage SgObservation StFailure NoFilesFound
           | Rebaselined \<Rightarrow> explain_stage SgObservation StHealthy RebaselinedQuietly
           | other \<Rightarrow> explain_stage SgObservation StOk (LatestOutcome other)))"

definition observation_healthy :: "history_row list \<Rightarrow> bool" where
  "observation_healthy rows = (case rows of [] \<Rightarrow> False | h # _ \<Rightarrow> h_result h = NoChange \<or> h_result h = Rebaselined)"

definition notify_stage :: "monitor \<Rightarrow> notify_state \<Rightarrow> ms \<Rightarrow> stage \<times> hold_kind option" where
  "notify_stage m ns now =
     (case ns_debounce ns of
        Some pd \<Rightarrow>
          if pd_due pd \<le> now
          then (explain_stage SgNotify StPending (DebounceOverdue (length (pd_observations pd))), Some HeldOverdue)
          else (explain_stage SgNotify StPending (DebounceHolding (length (pd_observations pd)) (pd_due pd)), Some HeldDebounce)
      | None \<Rightarrow>
          (case (case ns_rollup ns of Some (v # vs) \<Rightarrow> Some (v # vs) | _ \<Rightarrow> None) of
             Some held \<Rightarrow>
               (explain_stage SgNotify StPending (RollupHolding (length held)
                  (case m_notify m of Some (Rollup w z) \<Rightarrow> w | _ \<Rightarrow> ''unknown'')), Some HeldRollup)
           | None \<Rightarrow>
               (case ns_suppressed_until ns of
                  Some t \<Rightarrow>
                    if now < t then (explain_stage SgNotify StPending (ThrottleUntil t), Some HeldThrottle)
                    else (explain_stage SgNotify StOk NoHold, None)
                | None \<Rightarrow> (explain_stage SgNotify StOk NoHold, None))))"

definition materialization_stage :: "bool \<Rightarrow> hold_kind option \<Rightarrow> event list \<Rightarrow> stage" where
  "materialization_stage healthy held es =
     (if es = [] then
        (if healthy then explain_stage SgMaterialization StHealthy NoEventsExpected
         else (case held of
             Some k \<Rightarrow> explain_stage SgMaterialization StPending (EventsHeld k)
           | None \<Rightarrow> explain_stage SgMaterialization StFailure NoEvents))
      else explain_stage SgMaterialization StOk (EventsFound (length es)))"

fun count_states :: "delivery_projection list \<Rightarrow> (delivery_state \<times> nat) list \<Rightarrow> (delivery_state \<times> nat) list" where
  "count_states [] acc = acc"
| "count_states (p # ps) acc = count_states ps (map_set acc (dp_state p) (default (map_of acc (dp_state p)) 0 + 1))"

definition reminder_sessions :: "delivery_projection list \<Rightarrow> ident list" where
  "reminder_sessions ps = once (map dp_session
     (filter (\<lambda>p. dp_state p \<noteq> DAcknowledged \<and> \<not> dp_net p \<and> dp_decision p \<noteq> Some ISuppress) ps))"

definition band_counts :: "store \<Rightarrow> registry \<Rightarrow> ms \<Rightarrow> ident \<Rightarrow> urgency \<Rightarrow> reminder_counts" where
  "band_counts st reg now s u =
     \<lparr>rc_session = s, rc_urgency = u, rc_unread = length (unread_events st s (Some u)),
       rc_pending = length (pending_for_claim st reg now s (Some u)), rc_leased = leased_pending_count st reg now s (Some u)\<rparr>"

definition delivery_stage :: "store \<Rightarrow> registry \<Rightarrow> ms \<Rightarrow> bool \<Rightarrow> event list \<Rightarrow> delivery_projection list \<Rightarrow> session list \<Rightarrow> stage" where
  "delivery_stage st reg now healthy es ps leads =
     (if es \<noteq> [] \<and> ps = [] then
        explain_stage SgDelivery StFailure (if leads = [] then NoLeadSession else NoProjections)
      else if es \<noteq> [] then
        explain_stage SgDelivery StOk
          (EventsProjected (count_states ps []) (length (filter (\<lambda>p. dp_decision p = Some ISuppress) ps))
            (diagnose_reminder_suppression
              (concat (map (\<lambda>s. [band_counts st reg now s Normal, band_counts st reg now s Low]) (reminder_sessions ps)))))
      else if healthy then explain_stage SgDelivery StHealthy NothingToDeliver
      else explain_stage SgDelivery StPending DeliveryNotStarted)"

definition lead_sessions :: "store \<Rightarrow> string \<Rightarrow> session list" where
  "lead_sessions st ws = filter (\<lambda>s. s_role s = Lead) (sessions_for_workspace st (Some ws))"

definition explain_query :: "ident \<Rightarrow> string \<Rightarrow> event_query" where
  "explain_query mon ws = empty_query\<lparr>q_monitor := Some mon, q_ws := Some (Some ws)\<rparr>"

text \<open>A definition that cannot run stops the explanation, with the monitor when there is one.\<close>

definition definition_check :: "explain_env \<Rightarrow> scan_result \<Rightarrow> explain_input \<Rightarrow> (monitor option \<times> explain_reason) + monitor" where
  "definition_check E sc i =
     (case find (\<lambda>(p, e). monitor_id_of p = ei_monitor i) (sr_errors sc) of
        Some (p, e) \<Rightarrow> Inl (None, ParseFailed p e)
      | None \<Rightarrow>
          (case find (\<lambda>m. m_id m = ei_monitor i) (sr_monitors sc) of
             None \<Rightarrow> Inl (None, MonitorNotFound (ei_monitor i) (ei_dir i))
           | Some m \<Rightarrow>
               (case find (\<lambda>(d, ps). d = ei_monitor i) (sr_duplicates sc) of
                  Some (d, ps) \<Rightarrow> Inl (Some m, MonitorDuplicated (ei_monitor i) (length ps))
                | None \<Rightarrow> if scope_errors E m \<noteq> [] then Inl (Some m, DefinitionInvalid (scope_errors E m)) else Inr m)))"

definition explain_monitor :: "explain_env \<Rightarrow> scan_result \<Rightarrow> runtime \<Rightarrow> explain_input \<Rightarrow> explain_error + explain_report" where
  "explain_monitor E sc rt i =
     (case definition_check E sc i of
        Inl (m, why) \<Rightarrow> Inr (stopped_report m [explain_stage SgDefinition StFailure why])
      | Inr m \<Rightarrow>
          (let ws = default (ei_ws i) (ei_dir i); st = rt_store rt; now = ei_now i;
               valid = explain_stage SgDefinition StOk DefinitionValid in
           case schedule_for_monitor (ee_env E) st now m (Some ws) of
             Inl e \<Rightarrow> Inl (ExplainInterval e)
           | Inr p \<Rightarrow>
               (case pg_error p of
                  Some e \<Rightarrow> Inr (stopped_report (Some m) [valid, explain_stage SgObservation StFailure (ScheduleFailedBy e)])
                | None \<Rightarrow>
                    (let state = get_monitor_state st (m_id m) (Some ws);
                         obs = list_observation_history st (Some (m_id m)) (Some ws) (Some (default (ei_history i) 10));
                         healthy = observation_healthy obs;
                         (notify, held) = notify_stage m (rs_notify state) now in
                     case list_events st (explain_query (m_id m) ws) of
                       Inl e \<Rightarrow> Inl (ExplainStore e)
                     | Inr all \<Rightarrow>
                         (let es = take (default (ei_events i) 10) all;
                              ps = list_delivery_projections st (m_id m) (Some ws);
                              leads = lead_sessions st ws;
                              stages = [valid, scheduling_stage (rs_last_observation state) now p,
                                observation_stage E obs, notify, materialization_stage healthy held es] @
                                [delivery_stage st (rt_reg rt) now healthy es ps leads] in
                          Inr \<lparr>er_monitor = Some m, er_stages = stages, er_verdict = explain_verdict stages,
                            er_observations = obs, er_events = es, er_projections = ps, er_leads = leads\<rparr>)))))"

section \<open>What the explanation says\<close>

lemma severity_inj [simp]: "severity a = severity b \<longleftrightarrow> a = b"
  by (cases a; cases b) simp_all

lemma worst_stage_None [simp]: "worst_stage w ss = None \<longleftrightarrow> w = None \<and> ss = []"
  by (induction ss arbitrary: w) (auto split: option.splits)

lemma worst_stage_Some:
  "worst_stage w ss = Some x \<Longrightarrow> (x \<in> set ss \<or> w = Some x) \<and>
     (\<forall>s \<in> set ss. severity (sg_status s) \<le> severity (sg_status x)) \<and>
     (\<forall>y. w = Some y \<longrightarrow> severity (sg_status y) \<le> severity (sg_status x))"
proof (induction ss arbitrary: w)
  case (Cons s ss)
  let ?w = "case w of None \<Rightarrow> Some s | Some x \<Rightarrow> if severity (sg_status x) < severity (sg_status s) then Some s else w"
  have "worst_stage ?w ss = Some x" using Cons.prems by simp
  from Cons.IH [OF this] show ?case by (cases w) (auto split: if_splits)
qed simp

lemma severity_top: "severity StFailure \<le> severity s \<longleftrightarrow> s = StFailure"
  by (cases s) simp_all

lemma verdict_failure:
  "vd_status (explain_verdict ss) = StFailure \<longleftrightarrow> list_ex (\<lambda>s. sg_status s = StFailure) ss"
proof (cases "worst_stage None ss")
  case (Some x)
  from worst_stage_Some [OF Some] have x: "x \<in> set ss" "\<forall>s \<in> set ss. severity (sg_status s) \<le> severity (sg_status x)" by auto
  have "sg_status x = StFailure" if "s \<in> set ss" "sg_status s = StFailure" for s
    using x(2) that severity_top by metis
  with x(1) Some show ?thesis by (auto simp: explain_verdict_def list_ex_iff)
qed (simp add: explain_verdict_def)

lemma suppressed_reminder_iff:
  "suppressed_reminder (band_counts st reg now s u) \<noteq> None \<longleftrightarrow>
     unread_events st s (Some u) \<noteq> [] \<and> \<not> reminder_due st reg now s u"
  by (auto simp: suppressed_reminder_def band_counts_def reminder_due_iff)

lemma suppressed_reminder_names:
  "suppressed_reminder c = Some f \<Longrightarrow> rf_session f = rc_session c \<and> rf_urgency f = rc_urgency c"
  by (auto simp: suppressed_reminder_def split: if_splits)

lemma once_set [simp]: "set (once xs) = set xs"
  by (induction xs) auto

lemma in_option_list [simp]: "x \<in> set (option_list y) \<longleftrightarrow> y = Some x"
  by (auto simp: option_list_def split: option.splits)

definition says_nothing :: "explain_report \<Rightarrow> bool" where
  "says_nothing r = list_ex (\<lambda>s. sg_reason s = NothingToDeliver \<or> sg_reason s = DeliveryNotStarted) (er_stages r)"

definition suppressed_in :: "explain_report \<Rightarrow> reminder_finding list" where
  "suppressed_in r = concat (map (\<lambda>s. case sg_reason s of EventsProjected c n fs \<Rightarrow> fs | _ \<Rightarrow> []) (er_stages r))"

definition reminds :: "delivery_projection \<Rightarrow> bool" where
  "reminds p = (dp_state p \<noteq> DAcknowledged \<and> \<not> dp_net p \<and> dp_decision p \<noteq> Some ISuppress)"

lemma delivery_findings:
  assumes "sg_reason (delivery_stage st reg now healthy es ps leads) = EventsProjected c n fs"
  shows "es \<noteq> []" and "(\<exists>f \<in> set fs. rf_session f = s \<and> rf_urgency f = u) \<longleftrightarrow>
    (\<exists>p \<in> set ps. dp_session p = s \<and> reminds p) \<and> (u = Normal \<or> u = Low) \<and>
    unread_events st s (Some u) \<noteq> [] \<and> \<not> reminder_due st reg now s u"
proof -
  from assms show "es \<noteq> []" by (auto simp: delivery_stage_def explain_stage_def split: if_splits)
  from assms have fs: "fs = diagnose_reminder_suppression
      (concat (map (\<lambda>s. [band_counts st reg now s Normal, band_counts st reg now s Low]) (reminder_sessions ps)))"
    by (auto simp: delivery_stage_def explain_stage_def split: if_splits)
  have mem: "f \<in> set fs \<longleftrightarrow> (\<exists>k \<in> set (reminder_sessions ps). suppressed_reminder (band_counts st reg now k Normal) = Some f \<or>
      suppressed_reminder (band_counts st reg now k Low) = Some f)" for f
    by (auto simp: fs diagnose_reminder_suppression_def)
  have named: "rf_session f = k \<and> rf_urgency f = b" if "suppressed_reminder (band_counts st reg now k b) = Some f" for f k b
    using suppressed_reminder_names [OF that] by (simp add: band_counts_def)
  have "(\<exists>f \<in> set fs. rf_session f = s \<and> rf_urgency f = u) \<longleftrightarrow>
      s \<in> set (reminder_sessions ps) \<and> (u = Normal \<or> u = Low) \<and> (\<exists>f. suppressed_reminder (band_counts st reg now s u) = Some f)"
  proof (intro iffI conjI)
    assume "\<exists>f \<in> set fs. rf_session f = s \<and> rf_urgency f = u"
    then obtain f k b where f: "k \<in> set (reminder_sessions ps)" "suppressed_reminder (band_counts st reg now k b) = Some f"
        "b = Normal \<or> b = Low" "rf_session f = s" "rf_urgency f = u"
      using mem by metis
    with named [OF f(2)] show "s \<in> set (reminder_sessions ps)" "u = Normal \<or> u = Low"
      "\<exists>f. suppressed_reminder (band_counts st reg now s u) = Some f" by auto
  next
    assume "s \<in> set (reminder_sessions ps) \<and> (u = Normal \<or> u = Low) \<and> (\<exists>f. suppressed_reminder (band_counts st reg now s u) = Some f)"
    then obtain f where f: "s \<in> set (reminder_sessions ps)" "u = Normal \<or> u = Low" "suppressed_reminder (band_counts st reg now s u) = Some f"
      by blast
    then have "f \<in> set fs" unfolding mem by auto
    with named [OF f(3)] show "\<exists>f \<in> set fs. rf_session f = s \<and> rf_urgency f = u" by blast
  qed
  moreover have "s \<in> set (reminder_sessions ps) \<longleftrightarrow> (\<exists>p \<in> set ps. dp_session p = s \<and> reminds p)"
    by (auto simp: reminder_sessions_def reminds_def)
  moreover have "(\<exists>f. suppressed_reminder (band_counts st reg now s u) = Some f) \<longleftrightarrow>
      unread_events st s (Some u) \<noteq> [] \<and> \<not> reminder_due st reg now s u"
    using suppressed_reminder_iff [of st reg now s u] by auto
  ultimately show "(\<exists>f \<in> set fs. rf_session f = s \<and> rf_urgency f = u) \<longleftrightarrow>
    (\<exists>p \<in> set ps. dp_session p = s \<and> reminds p) \<and> (u = Normal \<or> u = Low) \<and>
    unread_events st s (Some u) \<noteq> [] \<and> \<not> reminder_due st reg now s u"
    by simp
qed

definition early_stage :: "stage \<Rightarrow> bool" where
  "early_stage s = (sg_reason s \<noteq> NothingToDeliver \<and> sg_reason s \<noteq> DeliveryNotStarted \<and>
     (case sg_reason s of EventsProjected c n fs \<Rightarrow> False | _ \<Rightarrow> True))"

lemma early_scheduling: "early_stage (scheduling_stage t now p)"
  by (simp add: early_stage_def scheduling_stage_def explain_stage_def split: option.splits)

lemma early_observation: "early_stage (observation_stage E rows)"
  by (auto simp: early_stage_def observation_stage_def explain_stage_def split: list.splits outcome.splits)

lemma early_notify: "notify_stage m ns now = (s, held) \<Longrightarrow> early_stage s"
  by (auto simp: early_stage_def notify_stage_def explain_stage_def split: option.splits list.splits if_splits)

lemma early_materialization: "early_stage (materialization_stage healthy held es)"
  by (simp add: early_stage_def materialization_stage_def explain_stage_def split: option.splits)

lemma early_says_nothing:
  "list_all early_stage ss \<Longrightarrow> er_stages r = ss \<Longrightarrow> \<not> says_nothing r \<and> suppressed_in r = []"
  by (auto simp: says_nothing_def suppressed_in_def early_stage_def list_all_iff list_ex_iff split: explain_reason.splits)

text \<open>The two ways an explanation ends: it stops at the definition or the schedule, or it goes through every stage.\<close>

definition full_report :: "scan_result \<Rightarrow> runtime \<Rightarrow> explain_input \<Rightarrow> explain_report \<Rightarrow> bool" where
  "full_report sc rt i r =
     (\<exists>(m :: monitor) all early healthy.
       m_id m = ei_monitor i \<and>
       list_events (rt_store rt) (explain_query (m_id m) (default (ei_ws i) (ei_dir i))) = Inr all \<and>
       er_events r = take (default (ei_events i) 10) all \<and> list_all early_stage early \<and>
       er_stages r = early @ [delivery_stage (rt_store rt) (rt_reg rt) (ei_now i) healthy (er_events r) (er_projections r) (er_leads r)])"

lemma definition_check_cases:
  "definition_check E sc i = Inl (m, why) \<Longrightarrow> early_stage (explain_stage SgDefinition StFailure why)"
  "definition_check E sc i = Inr m' \<Longrightarrow> m_id m' = ei_monitor i"
  by (auto simp: definition_check_def early_stage_def explain_stage_def split: option.splits if_splits dest: find_Some_set)

lemma explanation_forms:
  assumes "explain_monitor E sc rt i = Inr r"
  shows "er_verdict r = explain_verdict (er_stages r) \<and>
    ((list_all early_stage (er_stages r) \<and> er_events r = []) \<or> full_report sc rt i r)"
proof (cases "definition_check E sc i")
  case (Inl x)
  obtain m why where x: "x = (m, why)" by fastforce
  with Inl assms definition_check_cases(1) [of E sc i m why] show ?thesis
    by (auto simp: explain_monitor_def stopped_report_def)
next
  case (Inr m)
  let ?ws = "default (ei_ws i) (ei_dir i)"
  obtain p where p: "schedule_for_monitor (ee_env E) (rt_store rt) (ei_now i) m (Some ?ws) = Inr p"
    using assms Inr by (auto simp: explain_monitor_def Let_def split: sum.splits)
  have early: "early_stage (explain_stage SgDefinition StOk DefinitionValid)"
      "early_stage (explain_stage SgObservation StFailure (ScheduleFailedBy e))" for e
    by (simp_all add: early_stage_def explain_stage_def)
  show ?thesis
  proof (cases "pg_error p")
    case (Some e)
    with assms Inr p early show ?thesis by (auto simp: explain_monitor_def stopped_report_def Let_def)
  next
    case None
    obtain notify held where n: "notify_stage m (rs_notify (get_monitor_state (rt_store rt) (m_id m) (Some ?ws))) (ei_now i) = (notify, held)"
      by fastforce
    obtain all where all: "list_events (rt_store rt) (explain_query (m_id m) ?ws) = Inr all"
      using assms Inr p None by (auto simp: explain_monitor_def Let_def split: sum.splits prod.splits)
    let ?h = "observation_healthy (list_observation_history (rt_store rt) (Some (m_id m)) (Some ?ws) (Some (default (ei_history i) 10)))"
    have r: "er_verdict r = explain_verdict (er_stages r)" "er_events r = take (default (ei_events i) 10) all"
      "list_all early_stage (butlast (er_stages r))" "er_stages r \<noteq> []"
      "last (er_stages r) = delivery_stage (rt_store rt) (rt_reg rt) (ei_now i) ?h (er_events r) (er_projections r) (er_leads r)"
      using assms early(1) early_scheduling early_observation early_materialization early_notify [OF n]
      by (auto simp: explain_monitor_def Let_def Inr p None n all)
    have "full_report sc rt i r"
      unfolding full_report_def
      by (rule exI [of _ m], rule exI [of _ all], rule exI [of _ "butlast (er_stages r)"], rule exI [of _ ?h])
        (use r(2,3) all definition_check_cases(2) [OF Inr] append_butlast_last_id [OF r(4)] r(5) in simp)
    with r(1) show ?thesis by blast
  qed
qed

lemma no_rows:
  assumes "list_events st (explain_query mon ws) = Inr []" and "e \<in> set (events st)" and "e_monitor e = mon" and "ws_or_global (Some ws) (e_ws e)"
  shows "like_ephemeral mon"
  using assms list_events_meaning [of "explain_query mon ws" st]
  by (auto simp: explain_query_def empty_query_def query_conditions_def asks_def scope_matches_def)


text \<open>The normal change of the fixture, claimed but not acknowledged: its reminder is not given again.\<close>

definition claimed_rt :: runtime where
  "claimed_rt = demo_rt\<lparr>rt_store := demo_store\<lparr>projections := update_where (\<lambda>p. p_event p = ''e4'') (\<lambda>p. p\<lparr>p_first_notified := Some 5000\<rparr>)
     (projections demo_store)\<rparr>\<rparr>"

definition demo_explain :: explain_env where
  "demo_explain = \<lparr>ee_env = demo_env, ee_schema = (\<lambda>t. Some JNull), ee_validate = (\<lambda>s v. None), ee_display = (\<lambda>e. None)\<rparr>"

definition demo_scan :: scan_result where
  "demo_scan = \<lparr>sr_monitors = [demo_monitor None], sr_errors = [], sr_duplicates = []\<rparr>"

definition demo_question :: explain_input where
  "demo_question = \<lparr>ei_monitor = ''m'', ei_dir = ''W'', ei_ws = None, ei_history = None, ei_events = None, ei_now = 6000\<rparr>"

lemma demo_explained:
  "case explain_monitor demo_explain demo_scan claimed_rt demo_question of
     Inl e \<Rightarrow> False
   | Inr r \<Rightarrow> er_events r \<noteq> [] \<and> list_ex (\<lambda>p. dp_session p = ''L'' \<and> reminds p) (er_projections r)"
  by code_simp

lemma demo_claimed:
  "unread_events (rt_store claimed_rt) ''L'' (Some Normal) \<noteq> [] \<and>
   \<not> reminder_due (rt_store claimed_rt) (rt_reg claimed_rt) (ei_now demo_question) ''L'' Normal"
  by code_simp


end
