(* ===== verification/AM_Doctor.thy ===== *)
theory AM_Doctor
  imports AM_Explain
begin

text \<open>
  The health of a whole workspace, \<open>doctorReport\<close> and \<open>describeCadence\<close> of \<open>runtime/service.ts\<close>: one row per
  authored monitor, the sessions that would receive its events, and what could not be parsed.
  Whether the directory exists is an argument; a validation error is kept as the value it is made of.

  The property: the report accounts for every monitor of the scan and for every projection of it,
  and there is one way for it to fail, a polling interval that is not a duration.
\<close>

section \<open>The report\<close>

datatype doctor_problem = BadScope string | BadSchedule cron_error

record delivery_counts =
  dc_unread :: nat
  dc_claimed :: nat
  dc_acknowledged :: nat

record monitor_rollup =
  mr_id :: ident
  mr_display :: string
  mr_source :: string
  mr_urgency :: urgency
  mr_problems :: "doctor_problem list"
  mr_last_observed :: "ms option"
  mr_never :: bool
  mr_due :: bool
  mr_next_due :: ms
  mr_cadence :: string
  mr_last_event :: "ms option"
  mr_delivery :: delivery_counts

record doctor_input =
  di_dir :: string
  di_ws :: string
  di_now :: ms
  di_history :: "nat option"

record workspace_report =
  dr_generated :: ms
  dr_dir :: string
  dr_ws :: string
  dr_dir_exists :: bool
  dr_monitors :: "monitor_rollup list"
  dr_invalid :: nat
  dr_duplicates :: "(string \<times> string list) list"
  dr_parse_errors :: "(string \<times> parse_error) list"
  dr_leads :: "session list"
  dr_has_lead :: bool

text \<open>\<open>valid\<close> is that there is no problem.\<close>

definition rollup_valid :: "monitor_rollup \<Rightarrow> bool" where
  "rollup_valid r = (mr_problems r = [])"

definition describe_cadence :: "monitor \<Rightarrow> ms \<Rightarrow> string" where
  "describe_cadence m next =
     (if m_type m = ''schedule'' then
        (case map_of (m_config m) ''cron'' of
           Some (JStr cron) \<Rightarrow> ''cron '' @ [CHR 39] @ cron @ [CHR 39]
         | _ \<Rightarrow> ''schedule'')
      else
        (case map_of (m_config m) ''interval'' of
           Some (JStr interval) \<Rightarrow> ''every '' @ interval
         | _ \<Rightarrow> ''every '' @ show_nat (nat ((next + 500) div 1000)) @ ''s''))"

fun latest_created :: "ms option \<Rightarrow> event list \<Rightarrow> ms option" where
  "latest_created t [] = t"
| "latest_created t (e # es) =
     latest_created (case t of None \<Rightarrow> Some (e_created e) | Some l \<Rightarrow> if l < e_created e then Some (e_created e) else t) es"

fun tally_deliveries :: "delivery_counts \<Rightarrow> delivery_projection list \<Rightarrow> delivery_counts" where
  "tally_deliveries c [] = c"
| "tally_deliveries c (p # ps) =
     tally_deliveries
       (case dp_state p of
          DUnread \<Rightarrow> c\<lparr>dc_unread := dc_unread c + 1\<rparr>
        | DClaimed \<Rightarrow> c\<lparr>dc_claimed := dc_claimed c + 1\<rparr>
        | DAcknowledged \<Rightarrow> c\<lparr>dc_acknowledged := dc_acknowledged c + 1\<rparr>) ps"

definition no_deliveries :: delivery_counts where
  "no_deliveries = \<lparr>dc_unread = 0, dc_claimed = 0, dc_acknowledged = 0\<rparr>"

definition validation_errors :: "explain_env \<Rightarrow> monitor \<Rightarrow> polling \<Rightarrow> doctor_problem list" where
  "validation_errors E m p = map BadScope (scope_errors E m) @ map BadSchedule (option_list (pg_error p))"

definition lead_projections :: "store \<Rightarrow> ident \<Rightarrow> string \<Rightarrow> delivery_projection list" where
  "lead_projections st mon ws = filter (\<lambda>p. dp_role p = Lead) (list_delivery_projections st mon (Some ws))"

definition rollup_monitor :: "explain_env \<Rightarrow> store \<Rightarrow> doctor_input \<Rightarrow> monitor \<Rightarrow> explain_error + monitor_rollup" where
  "rollup_monitor E st i m =
     (case schedule_for_monitor (ee_env E) st (di_now i) m (Some (di_ws i)) of
        Inl e \<Rightarrow> Inl (ExplainInterval e)
      | Inr p \<Rightarrow>
          (let state = get_monitor_state st (m_id m) (Some (di_ws i));
               rows = list_observation_history st (Some (m_id m)) (Some (di_ws i)) (Some (default (di_history i) 1));
               observed = (case rs_last_observation state of
                   Some t \<Rightarrow> Some t
                 | None \<Rightarrow> (case rows of [] \<Rightarrow> None | h # _ \<Rightarrow> Some (h_created h))) in
           case list_events st (explain_query (m_id m) (di_ws i)) of
             Inl e \<Rightarrow> Inl (ExplainStore e)
           | Inr es \<Rightarrow>
               Inr \<lparr>mr_id = m_id m, mr_display = m_display m, mr_source = m_type m, mr_urgency = m_urgency m,
                 mr_problems = validation_errors E m p, mr_last_observed = observed,
                 mr_never = (rs_last_observation state = None \<and> rows = []), mr_due = pg_due p,
                 mr_next_due = (if pg_due p then di_now i else default observed (di_now i) + pg_next p),
                 mr_cadence = describe_cadence m (pg_next p), mr_last_event = latest_created None es,
                 mr_delivery = tally_deliveries no_deliveries (lead_projections st (m_id m) (di_ws i))\<rparr>))"

fun rollup_all :: "explain_env \<Rightarrow> store \<Rightarrow> doctor_input \<Rightarrow> monitor list \<Rightarrow> explain_error + monitor_rollup list" where
  "rollup_all E st i [] = Inr []"
| "rollup_all E st i (m # ms) =
     (case rollup_monitor E st i m of
        Inl e \<Rightarrow> Inl e
      | Inr r \<Rightarrow> (case rollup_all E st i ms of Inl e \<Rightarrow> Inl e | Inr rs \<Rightarrow> Inr (r # rs)))"

definition error_id :: "string \<Rightarrow> string" where
  "error_id path = (if monitor_id_of path = [] then path else monitor_id_of path)"

definition doctor_report :: "explain_env \<Rightarrow> scan_result \<Rightarrow> bool \<Rightarrow> store \<Rightarrow> doctor_input \<Rightarrow> explain_error + workspace_report" where
  "doctor_report E sc dir_exists st i =
     (case rollup_all E st i (sr_monitors sc) of
        Inl e \<Rightarrow> Inl e
      | Inr rs \<Rightarrow>
          Inr \<lparr>dr_generated = di_now i, dr_dir = di_dir i, dr_ws = di_ws i, dr_dir_exists = dir_exists,
            dr_monitors = rs, dr_invalid = length (filter (\<lambda>r. \<not> rollup_valid r) rs),
            dr_duplicates = sr_duplicates sc, dr_parse_errors = map (\<lambda>(p, e). (error_id p, e)) (sr_errors sc),
            dr_leads = lead_sessions st (di_ws i), dr_has_lead = (lead_sessions st (di_ws i) \<noteq> [])\<rparr>)"

section \<open>What the report says\<close>

lemma tally_deliveries_sum:
  "tally_deliveries c ps =
     \<lparr>dc_unread = dc_unread c + length (filter (\<lambda>p. dp_state p = DUnread) ps),
      dc_claimed = dc_claimed c + length (filter (\<lambda>p. dp_state p = DClaimed) ps),
      dc_acknowledged = dc_acknowledged c + length (filter (\<lambda>p. dp_state p = DAcknowledged) ps)\<rparr>"
proof (induction ps arbitrary: c)
  case (Cons p ps)
  then show ?case by (cases "dp_state p") auto
qed simp

lemma latest_created_from: "latest_created (Some t) es = Some (Max (insert t (e_created ` set es)))"
proof (induction es arbitrary: t)
  case (Cons e es)
  have "Max (insert t (insert (e_created e) (e_created ` set es))) = Max (insert (max t (e_created e)) (e_created ` set es))"
    by (cases "es = []") (simp_all add: max.assoc)
  then show ?case by (simp add: Cons.IH max_def not_less)
qed simp

lemma latest_created_max: "latest_created None es = (if es = [] then None else Some (Max (e_created ` set es)))"
  by (cases es) (simp_all add: latest_created_from)

text \<open>The interval of a monitor that is polled is a text that is not a duration.\<close>

definition bad_interval :: "monitor \<Rightarrow> bool" where
  "bad_interval m = (m_type m \<noteq> ''schedule'' \<and>
     (case map_of (m_config m) ''interval'' of Some (JStr t) \<Rightarrow> (case parse_duration t of Inl _ \<Rightarrow> True | Inr _ \<Rightarrow> False) | _ \<Rightarrow> False))"

lemma schedule_fails_iff:
  "(case schedule_for_monitor env st now m ws of Inl _ \<Rightarrow> True | Inr _ \<Rightarrow> False) \<longleftrightarrow> bad_interval m"
proof (cases "m_type m = ''schedule''")
  case True
  then show ?thesis
    by (simp add: schedule_for_monitor_def bad_interval_def Let_def split: option.split json.split sum.split)
next
  case False
  then show ?thesis
    by (simp add: schedule_for_monitor_def bad_interval_def Let_def split: option.split json.split sum.split)
qed

lemma monitor_events_listed: "\<exists>es. list_events st (explain_query mon ws) = Inr es"
  using list_events_meaning [of "explain_query mon ws" st] by (auto simp: explain_query_def empty_query_def)

lemma rollup_fails_iff: "(case rollup_monitor E st i m of Inl _ \<Rightarrow> True | Inr _ \<Rightarrow> False) \<longleftrightarrow> bad_interval m"
  using schedule_fails_iff [of "ee_env E" st "di_now i" m "Some (di_ws i)"] monitor_events_listed [of st "m_id m" "di_ws i"]
  by (auto simp: rollup_monitor_def Let_def split: sum.splits)

lemma rollup_all_fails_iff:
  "(case rollup_all E st i ms of Inl _ \<Rightarrow> True | Inr _ \<Rightarrow> False) \<longleftrightarrow> list_ex bad_interval ms"
proof (induction ms)
  case (Cons m ms)
  then show ?case using rollup_fails_iff [of E st i m] by (auto split: sum.splits)
qed simp

lemma rollup_all_rows:
  "rollup_all E st i ms = Inr rs \<Longrightarrow> list_all2 (\<lambda>m r. rollup_monitor E st i m = Inr r) ms rs"
  by (induction ms arbitrary: rs) (auto split: sum.splits)

text \<open>One row: when the monitor is said to be sound, unobserved, and how its events stand.\<close>

definition true_rollup :: "explain_env \<Rightarrow> store \<Rightarrow> doctor_input \<Rightarrow> monitor \<Rightarrow> monitor_rollup \<Rightarrow> bool" where
  "true_rollup E st i m r =
     (mr_id r = m_id m \<and>
      (rollup_valid r \<longleftrightarrow> scope_errors E m = [] \<and>
         (case schedule_for_monitor (ee_env E) st (di_now i) m (Some (di_ws i)) of Inl _ \<Rightarrow> False | Inr p \<Rightarrow> pg_error p = None)) \<and>
      (mr_never r \<longleftrightarrow> mr_last_observed r = None) \<and>
      mr_last_event r = (let made = {e \<in> set (events st). e_monitor e = m_id m \<and> ws_or_global (Some (di_ws i)) (e_ws e)} in
         if made = {} then None else Some (Max (e_created ` made))) \<and>
      dc_unread (mr_delivery r) + dc_claimed (mr_delivery r) + dc_acknowledged (mr_delivery r) =
        length (lead_projections st (m_id m) (di_ws i)))"

lemma every_state_counted:
  "length (filter (\<lambda>p. dp_state p = DUnread) ps) + length (filter (\<lambda>p. dp_state p = DClaimed) ps) +
     length (filter (\<lambda>p. dp_state p = DAcknowledged) ps) = length ps"
proof (induction ps)
  case (Cons p ps)
  then show ?case by (cases "dp_state p") auto
qed simp

lemma events_of_monitor:
  assumes "mon \<noteq> []" and "\<not> like_ephemeral mon" and "list_events st (explain_query mon ws) = Inr es"
  shows "set es = {e \<in> set (events st). e_monitor e = mon \<and> ws_or_global (Some ws) (e_ws e)}"
proof -
  have "e \<in> set es \<longleftrightarrow> e \<in> set (events st) \<and> query_conditions (explain_query mon ws) e \<and> \<not> like_ephemeral (e_monitor e)" for e
    using list_events_meaning [of "explain_query mon ws" st] assms(3)
    by (simp add: explain_query_def empty_query_def scope_matches_def)
  moreover have "query_conditions (explain_query mon ws) e \<longleftrightarrow> e_monitor e = mon \<and> ws_or_global (Some ws) (e_ws e)" for e
    using assms(1) by (auto simp: explain_query_def empty_query_def query_conditions_def asks_def)
  ultimately show ?thesis using assms(2) by blast
qed

lemma rollup_is_true:
  assumes "rollup_monitor E st i m = Inr r" and "m_id m \<noteq> []" and "\<not> like_ephemeral (m_id m)"
  shows "true_rollup E st i m r"
proof -
  obtain p where p: "schedule_for_monitor (ee_env E) st (di_now i) m (Some (di_ws i)) = Inr p"
    using assms(1) by (auto simp: rollup_monitor_def split: sum.splits)
  obtain es where es: "list_events st (explain_query (m_id m) (di_ws i)) = Inr es"
    using monitor_events_listed by blast
  have "set es = {e \<in> set (events st). e_monitor e = m_id m \<and> ws_or_global (Some (di_ws i)) (e_ws e)}"
    using events_of_monitor [OF assms(2,3) es] .
  moreover have "mr_last_event r = latest_created None es"
    using assms(1) by (auto simp: rollup_monitor_def p es Let_def)
  moreover have "rollup_valid r \<longleftrightarrow> scope_errors E m = [] \<and> pg_error p = None"
    using assms(1) by (auto simp: rollup_monitor_def p es Let_def rollup_valid_def validation_errors_def option_list_def split: option.splits)
  moreover have "mr_never r \<longleftrightarrow> mr_last_observed r = None" "mr_id r = m_id m"
    "mr_delivery r = tally_deliveries no_deliveries (lead_projections st (m_id m) (di_ws i))"
    using assms(1) by (auto simp: rollup_monitor_def p es Let_def split: option.splits list.splits)
  ultimately show ?thesis
    by (simp add: true_rollup_def p latest_created_max tally_deliveries_sum no_deliveries_def every_state_counted flip: set_empty)
qed


text \<open>The monitor of the fixture beside one whose interval is a bare number: the whole report fails.\<close>

definition demo_checkup :: doctor_input where
  "demo_checkup = \<lparr>di_dir = ''W'', di_ws = ''W'', di_now = 6000, di_history = None\<rparr>"

lemma demo_doctor: "case doctor_report demo_explain demo_scan True (rt_store claimed_rt) demo_checkup of
    Inl e \<Rightarrow> False | Inr r \<Rightarrow> map mr_id (dr_monitors r) = [''m''] \<and> map (dc_claimed \<circ> mr_delivery) (dr_monitors r) = [1]"
  by code_simp

definition bad_scan :: scan_result where
  "bad_scan = demo_scan\<lparr>sr_monitors := [demo_monitor None, (demo_monitor None)\<lparr>m_config := [(''interval'', JStr ''30'')]\<rparr>]\<rparr>"

lemma demo_bad_interval: "list_ex bad_interval (sr_monitors bad_scan)"
  by code_simp


end
