(* ===== verification/AM_StartupLock.thy ===== *)
theory AM_StartupLock
  imports AM_Cron
begin

text \<open>
  Starting and stopping a daemon (\<open>apps/cli/src/daemon-ipc.ts\<close>): \<open>acquireStartupLock\<close>,
  \<open>releaseStartupLock\<close>, and \<open>listen\<close> and \<open>close\<close> of the server they bracket. Every process is between two
  system calls, its phase; a step of the machine is the next system call of one process, so every
  interleaving of the processes on the lock directory, the pid file and the socket is a run. A
  process can end at any moment. Failures other than the ones the code distinguishes (permissions, a
  full disk) are left out, and a process id is not used again.

  The properties: as long as no lock is judged stale, no probe of a listening daemon times out and a
  closing daemon is done before another binds, at most one process starts at a time and at most one
  listens, at the address the path leads to. And without these conditions the lock does not serialize
  the startups: two processes can hold it with nobody having crashed, and a crash at the wrong
  moment locks every later daemon out.
\<close>

section \<open>The machine\<close>

text \<open>
  A pid file has an inode: a writer keeps writing to the file it opened when the name is gone or
  leads to another file.
\<close>

record lock_files =
  lf_dir :: bool
  lf_pid :: "(nat \<times> string) option"
  lf_sock :: "nat option"
  lf_fresh :: nat

datatype phase =
    Idle
  | PidOpen
  | PidWrite nat
  | ReadPid
  | CheckHolder "nat option"
  | StaleUnlink
  | StaleRmdir
  | RetryMkdir
  | ProbeSocket
  | UnlinkSocket
  | BindSocket
  | ReleasePid bool
  | ReleaseDir bool
  | Serving
  | Closing
  | Refused
  | Threw
  | Ended

record machine =
  mc_files :: lock_files
  mc_phase :: "nat \<Rightarrow> phase"

abbreviation at_phase :: "machine \<Rightarrow> nat \<Rightarrow> phase \<Rightarrow> machine" where
  "at_phase m p ph \<equiv> m\<lparr>mc_phase := (mc_phase m)(p := ph)\<rparr>"

text \<open>\<open>parseInt(text, 10)\<close>, where a number that is not positive is no holder.\<close>

definition unsigned :: "string \<Rightarrow> string" where
  "unsigned t = (case t of c # cs \<Rightarrow> if c = CHR ''+'' then cs else t | [] \<Rightarrow> [])"

definition parse_pid :: "string \<Rightarrow> nat option" where
  "parse_pid t =
     (let ds = takeWhile is_digit (unsigned (dropWhile is_space t)) in
      if digits_val ds = 0 then None else Some (digits_val ds))"

text \<open>\<open>process.kill(pid, 0)\<close>: a number that is no process id at all throws an error other than ESRCH.\<close>

definition max_pid :: nat where
  "max_pid = 2147483647"

definition holder_alive :: "(nat \<Rightarrow> phase) \<Rightarrow> nat option \<Rightarrow> bool" where
  "holder_alive ph h = (case h of None \<Rightarrow> False | Some p \<Rightarrow> max_pid < p \<or> ph p \<noteq> Ended)"

text \<open>A write at the start of a file that may have content.\<close>

definition overwrite :: "string \<Rightarrow> string \<Rightarrow> string" where
  "overwrite new old = new @ drop (length new) old"

definition try_mkdir :: "nat \<Rightarrow> phase \<Rightarrow> machine \<Rightarrow> machine" where
  "try_mkdir p otherwise m =
     (if lf_dir (mc_files m) then at_phase m p otherwise
      else at_phase (m\<lparr>mc_files := mc_files m\<lparr>lf_dir := True\<rparr>\<rparr>) p PidOpen)"

definition open_pid_file :: "nat \<Rightarrow> machine \<Rightarrow> machine" where
  "open_pid_file p m =
     (let f = mc_files m in
      if \<not> lf_dir f then at_phase m p Threw
      else (case lf_pid f of
          Some (i, t) \<Rightarrow> at_phase (m\<lparr>mc_files := f\<lparr>lf_pid := Some (i, [])\<rparr>\<rparr>) p (PidWrite i)
        | None \<Rightarrow> at_phase (m\<lparr>mc_files := f\<lparr>lf_pid := Some (lf_fresh f, []), lf_fresh := lf_fresh f + 1\<rparr>\<rparr>) p (PidWrite (lf_fresh f))))"

definition write_pid_file :: "nat \<Rightarrow> nat \<Rightarrow> machine \<Rightarrow> machine" where
  "write_pid_file p i m =
     at_phase (case lf_pid (mc_files m) of
         Some (j, t) \<Rightarrow> if j = i then m\<lparr>mc_files := mc_files m\<lparr>lf_pid := Some (j, overwrite (show_nat p) t)\<rparr>\<rparr> else m
       | None \<Rightarrow> m) p ProbeSocket"

definition unlink_pid :: "machine \<Rightarrow> machine" where
  "unlink_pid m = m\<lparr>mc_files := mc_files m\<lparr>lf_pid := None\<rparr>\<rparr>"

definition rmdir_lock :: "machine \<Rightarrow> machine" where
  "rmdir_lock m = (if lf_pid (mc_files m) = None then m\<lparr>mc_files := mc_files m\<lparr>lf_dir := False\<rparr>\<rparr> else m)"

definition listening :: "machine \<Rightarrow> nat \<Rightarrow> bool" where
  "listening m p = (mc_phase m p \<in> {ReleasePid True, ReleaseDir True, Serving})"

definition socket_live :: "machine \<Rightarrow> bool" where
  "socket_live m = (case lf_sock (mc_files m) of None \<Rightarrow> False | Some q \<Rightarrow> listening m q)"

definition unlink_socket :: "machine \<Rightarrow> machine" where
  "unlink_socket m = m\<lparr>mc_files := mc_files m\<lparr>lf_sock := None\<rparr>\<rparr>"

definition bind_socket :: "nat \<Rightarrow> machine \<Rightarrow> machine" where
  "bind_socket p m =
     (if lf_sock (mc_files m) \<noteq> None then at_phase m p (ReleasePid False)
      else at_phase (m\<lparr>mc_files := mc_files m\<lparr>lf_sock := Some p\<rparr>\<rparr>) p (ReleasePid True))"

text \<open>The next system call of a process; \<open>slow\<close> is that a probe times out.\<close>

definition advance :: "bool \<Rightarrow> nat \<Rightarrow> machine \<Rightarrow> machine" where
  "advance slow p m =
     (case mc_phase m p of
        Idle \<Rightarrow> try_mkdir p ReadPid m
      | PidOpen \<Rightarrow> open_pid_file p m
      | PidWrite i \<Rightarrow> write_pid_file p i m
      | ReadPid \<Rightarrow> at_phase m p (case lf_pid (mc_files m) of None \<Rightarrow> Refused | Some (i, t) \<Rightarrow> CheckHolder (parse_pid t))
      | CheckHolder h \<Rightarrow> at_phase m p (if holder_alive (mc_phase m) h then Refused else StaleUnlink)
      | StaleUnlink \<Rightarrow> at_phase (unlink_pid m) p StaleRmdir
      | StaleRmdir \<Rightarrow> at_phase (rmdir_lock m) p RetryMkdir
      | RetryMkdir \<Rightarrow> try_mkdir p Refused m
      | ProbeSocket \<Rightarrow> at_phase m p (if socket_live m \<and> \<not> slow then BindSocket else UnlinkSocket)
      | UnlinkSocket \<Rightarrow> at_phase (unlink_socket m) p BindSocket
      | BindSocket \<Rightarrow> bind_socket p m
      | ReleasePid ok \<Rightarrow> at_phase (unlink_pid m) p (ReleaseDir ok)
      | ReleaseDir ok \<Rightarrow> at_phase (rmdir_lock m) p (if ok then Serving else Refused)
      | Serving \<Rightarrow> m
      | Closing \<Rightarrow> at_phase (unlink_socket m) p Ended
      | Refused \<Rightarrow> m
      | Threw \<Rightarrow> m
      | Ended \<Rightarrow> m)"

text \<open>
  \<open>stop\<close> and \<open>close\<close>: the server stops listening and the path is removed; when the last connection has
  ended the close event removes it again.
\<close>

definition stop_serving :: "nat \<Rightarrow> machine \<Rightarrow> machine" where
  "stop_serving p m = (if mc_phase m p = Serving then at_phase (unlink_socket m) p Closing else m)"

datatype lock_event = Advance bool nat | Stop nat | Die nat

definition lock_step :: "lock_event \<Rightarrow> machine \<Rightarrow> machine" where
  "lock_step e m =
     (case e of
        Advance slow p \<Rightarrow> advance slow p m
      | Stop p \<Rightarrow> stop_serving p m
      | Die p \<Rightarrow> at_phase m p Ended)"

definition lock_run :: "lock_event list \<Rightarrow> machine \<Rightarrow> machine" where
  "lock_run es m = foldl (\<lambda>m e. lock_step e m) m es"

definition starting :: "nat option \<Rightarrow> machine" where
  "starting stale = \<lparr>mc_files = \<lparr>lf_dir = False, lf_pid = None, lf_sock = stale, lf_fresh = 0\<rparr>, mc_phase = (\<lambda>p. Idle)\<rparr>"

section \<open>Orderly runs\<close>

definition inside :: "phase \<Rightarrow> bool" where
  "inside ph = (case ph of PidOpen \<Rightarrow> True | PidWrite i \<Rightarrow> True | ProbeSocket \<Rightarrow> True | UnlinkSocket \<Rightarrow> True | BindSocket \<Rightarrow> True
     | ReleasePid ok \<Rightarrow> True | ReleaseDir ok \<Rightarrow> True | _ \<Rightarrow> False)"

definition recovering :: "phase \<Rightarrow> bool" where
  "recovering ph = (ph = StaleUnlink \<or> ph = StaleRmdir \<or> ph = RetryMkdir)"

text \<open>The conditions on one step: no stale lock, no slow probe, no late close.\<close>

definition orderly :: "machine \<Rightarrow> lock_event \<Rightarrow> bool" where
  "orderly m e =
     (case e of
        Advance slow p \<Rightarrow>
          (case mc_phase m p of
             CheckHolder h \<Rightarrow> holder_alive (mc_phase m) h
           | ProbeSocket \<Rightarrow> \<not> slow
           | Closing \<Rightarrow> lf_sock (mc_files m) = None
           | _ \<Rightarrow> True)
      | _ \<Rightarrow> True)"

fun orderly_run :: "machine \<Rightarrow> lock_event list \<Rightarrow> bool" where
  "orderly_run m [] = True"
| "orderly_run m (e # es) = (orderly m e \<and> orderly_run (lock_step e m) es)"

definition exclusive :: "machine \<Rightarrow> bool" where
  "exclusive m =
     ((\<forall>p q. inside (mc_phase m p) \<and> inside (mc_phase m q) \<longrightarrow> p = q) \<and>
      (\<forall>p q. listening m p \<and> listening m q \<longrightarrow> p = q) \<and>
      (\<forall>p. listening m p \<longrightarrow> lf_sock (mc_files m) = Some p))"

text \<open>
  The invariant adds that a process inside holds the directory, that nobody recovers a lock, and that
  a process about to remove the socket has seen that nobody listens.
\<close>

definition lock_inv :: "machine \<Rightarrow> bool" where
  "lock_inv m =
     (exclusive m \<and> (\<forall>p. inside (mc_phase m p) \<longrightarrow> lf_dir (mc_files m)) \<and> (\<forall>p. \<not> recovering (mc_phase m p)) \<and>
      (\<forall>p q. mc_phase m p = UnlinkSocket \<longrightarrow> \<not> listening m q))"

lemmas lock_facts = lock_inv_def exclusive_def listening_def inside_def recovering_def

lemma inside_names [simp]:
  "inside Idle = False" "inside PidOpen = True" "inside (PidWrite i) = True" "inside ReadPid = False" "inside (CheckHolder h) = False"
  "inside StaleUnlink = False" "inside StaleRmdir = False" "inside RetryMkdir = False" "inside ProbeSocket = True" "inside UnlinkSocket = True"
  "inside BindSocket = True" "inside (ReleasePid ok) = True" "inside (ReleaseDir ok) = True" "inside Serving = False" "inside Closing = False"
  "inside Refused = False" "inside Threw = False" "inside Ended = False"
  by (simp_all add: inside_def)

lemma listening_at [simp]:
  "listening (at_phase m p ph) q \<longleftrightarrow> (if q = p then ph \<in> {ReleasePid True, ReleaseDir True, Serving} else listening m q)"
  "listening (mc_files_update g m) q = listening m q"
  by (simp_all add: listening_def)

lemma lock_inv_parts:
  assumes "lock_inv m"
  shows "inside (mc_phase m p) \<Longrightarrow> inside (mc_phase m q) \<Longrightarrow> p = q" and "listening m p \<Longrightarrow> listening m q \<Longrightarrow> p = q"
    and "listening m p \<Longrightarrow> lf_sock (mc_files m) = Some p" and "inside (mc_phase m p) \<Longrightarrow> lf_dir (mc_files m)"
    and "\<not> recovering (mc_phase m p)" and "mc_phase m p = UnlinkSocket \<Longrightarrow> \<not> listening m q"
  using assms by (auto simp: lock_inv_def exclusive_def)

text \<open>What a step of one process has to show, by what it does to the files.\<close>

lemma lock_invI:
  assumes m: "lock_inv m" and phase: "mc_phase m' = (mc_phase m)(p := ph)" and "\<not> recovering ph"
    and dir: "inside ph \<Longrightarrow> inside (mc_phase m p) \<or> \<not> lf_dir (mc_files m)"
    and keep: "lf_dir (mc_files m) \<Longrightarrow> lf_dir (mc_files m') \<or> inside (mc_phase m p) \<and> \<not> inside ph"
    and made: "inside ph \<Longrightarrow> lf_dir (mc_files m')"
    and sock: "\<And>q. q \<noteq> p \<Longrightarrow> listening m q \<Longrightarrow> lf_sock (mc_files m') = lf_sock (mc_files m)"
    and heard: "listening m' p \<Longrightarrow> lf_sock (mc_files m') = Some p \<and> (\<forall>q. q \<noteq> p \<longrightarrow> \<not> listening m q)"
    and silent: "listening m' p \<Longrightarrow> listening m p \<or> inside (mc_phase m p)"
    and alone: "ph = UnlinkSocket \<Longrightarrow> \<forall>q. \<not> listening m q"
  shows "lock_inv m'"
proof -
  note parts = lock_inv_parts [OF m]
  have other: "mc_phase m' q = mc_phase m q" "listening m' q = listening m q" if "q \<noteq> p" for q
    using that phase by (simp_all add: listening_def)
  have here: "mc_phase m' p = ph" using phase by simp
  have excl: "a = b" if "inside (mc_phase m' a)" "inside (mc_phase m' b)" for a b
    using that other(1) here dir parts(1,4) by metis
  have lone: "a = b" if "listening m' a" "listening m' b" for a b
    using that other(2) heard parts(2) by metis
  have path: "lf_sock (mc_files m') = Some a" if "listening m' a" for a
    using that other(2) heard sock parts(3) by metis
  have held: "lf_dir (mc_files m')" if "inside (mc_phase m' a)" for a
  proof (cases "a = p")
    case True
    then show ?thesis using that here made by simp
  next
    case False
    then have "inside (mc_phase m a)" using that other(1) by simp
    then show ?thesis using False parts(1,4) keep by blast
  qed
  have none: "\<not> listening m' b" if "mc_phase m' a = UnlinkSocket" for a b
  proof (cases "a = p")
    case True
    then have "ph = UnlinkSocket" "\<not> listening m b" using that here alone by auto
    then show ?thesis using other(2) [of b] here by (cases "b = p") (simp_all add: listening_def)
  next
    case False
    then have a: "mc_phase m a = UnlinkSocket" using that other(1) by simp
    then have "\<not> inside (mc_phase m p)" using parts(1) [of a p] False by auto
    then show ?thesis using parts(6) [OF a, of b] parts(6) [OF a, of p] silent other(2) [of b] by (cases "b = p") auto
  qed
  have calm: "\<not> recovering (mc_phase m' a)" for a
    using assms(3) other(1) [of a] here parts(5) [of a] by (cases "a = p") auto
  show ?thesis
    unfolding lock_inv_def exclusive_def using excl lone path held none calm by blast
qed

lemma lock_inv_move:
  assumes "lock_inv m" and "\<not> recovering ph" and "inside ph \<Longrightarrow> inside (mc_phase m p)"
    and "ph \<notin> {ReleasePid True, ReleaseDir True, Serving}" and "ph = UnlinkSocket \<Longrightarrow> \<forall>q. \<not> listening m q"
  shows "lock_inv (at_phase m p ph)"
  by (rule lock_invI [OF assms(1), of _ p ph])
    (use assms lock_inv_parts(4) [OF assms(1), of p] in \<open>auto simp: listening_def\<close>)

text \<open>One lemma per kind of step.\<close>

lemma lock_inv_mkdir: "lock_inv m \<Longrightarrow> \<not> recovering ph \<Longrightarrow> \<not> inside ph \<Longrightarrow> ph \<noteq> Serving \<Longrightarrow> lock_inv (try_mkdir p ph m)"
proof (cases "lf_dir (mc_files m)")
  case True
  assume "lock_inv m" "\<not> recovering ph" "\<not> inside ph" "ph \<noteq> Serving"
  with True show ?thesis by (auto simp: try_mkdir_def intro!: lock_inv_move)
next
  case False
  assume m: "lock_inv m"
  show ?thesis
    by (rule lock_invI [OF m, of _ p PidOpen]) (use False in \<open>auto simp: try_mkdir_def recovering_def listening_def\<close>)
qed

lemma lock_inv_open: "lock_inv m \<Longrightarrow> mc_phase m p = PidOpen \<Longrightarrow> lock_inv (open_pid_file p m)"
proof -
  assume m: "lock_inv m" "mc_phase m p = PidOpen"
  then have d: "lf_dir (mc_files m)" using lock_inv_parts(4) [OF m(1), of p] by simp
  show ?thesis
    by (cases "lf_pid (mc_files m)")
      (auto simp: open_pid_file_def d m(2) recovering_def listening_def Let_def intro!: lock_invI [OF m(1), of _ p])
qed

lemma lock_inv_write: "lock_inv m \<Longrightarrow> mc_phase m p = PidWrite i \<Longrightarrow> lock_inv (write_pid_file p i m)"
proof -
  assume m: "lock_inv m" "mc_phase m p = PidWrite i"
  then have d: "lf_dir (mc_files m)" using lock_inv_parts(4) [OF m(1), of p] by simp
  show ?thesis
    by (rule lock_invI [OF m(1), of _ p ProbeSocket])
      (auto simp: write_pid_file_def d m(2) recovering_def listening_def split: option.split)
qed

lemma lock_inv_unlink_socket:
  assumes m: "lock_inv m" and p: "mc_phase m p = UnlinkSocket"
  shows "lock_inv (at_phase (unlink_socket m) p BindSocket)"
proof -
  have d: "lf_dir (mc_files m)" using lock_inv_parts(4) [OF m, of p] p by simp
  show ?thesis
    by (rule lock_invI [OF m, of _ p BindSocket])
      (use lock_inv_parts(6) [OF m p] p d in \<open>auto simp: unlink_socket_def recovering_def listening_def\<close>)
qed

lemma lock_inv_bind:
  assumes m: "lock_inv m" and p: "mc_phase m p = BindSocket"
  shows "lock_inv (bind_socket p m)"
proof (cases "lf_sock (mc_files m) = None")
  case True
  have d: "lf_dir (mc_files m)" using lock_inv_parts(4) [OF m, of p] p by simp
  have "\<not> listening m q" for q using lock_inv_parts(3) [OF m, of q] True by auto
  then show ?thesis
    by (intro lock_invI [OF m, of _ p "ReleasePid True"]) (use True p d in \<open>auto simp: bind_socket_def recovering_def\<close>)
next
  case False
  then show ?thesis using lock_inv_move [OF m, of "ReleasePid False" p] p by (auto simp: bind_socket_def recovering_def)
qed

lemma lock_inv_release:
  assumes m: "lock_inv m" and p: "mc_phase m p = ReleasePid ok"
  shows "lock_inv (at_phase (unlink_pid m) p (ReleaseDir ok))"
proof -
  have d: "lf_dir (mc_files m)" using lock_inv_parts(4) [OF m, of p] p by simp
  have "ok \<Longrightarrow> listening m p" using p by (simp add: listening_def)
  then show ?thesis
    by (intro lock_invI [OF m, of _ p "ReleaseDir ok"])
      (use lock_inv_parts(2,3) [OF m, of p] p d in \<open>auto simp: unlink_pid_def recovering_def listening_def\<close>)
qed

lemma lock_inv_leave:
  assumes m: "lock_inv m" and p: "mc_phase m p = ReleaseDir ok"
  shows "lock_inv (at_phase (rmdir_lock m) p (if ok then Serving else Refused))"
proof -
  have "ok \<Longrightarrow> listening m p" using p by (simp add: listening_def)
  then show ?thesis
    by (intro lock_invI [OF m, of _ p "if ok then Serving else Refused"])
      (use lock_inv_parts(2,3) [OF m, of p] p in \<open>auto simp: rmdir_lock_def recovering_def listening_def split: if_splits\<close>)
qed

lemma lock_inv_stop: "lock_inv m \<Longrightarrow> lock_inv (stop_serving p m)"
proof (cases "mc_phase m p = Serving")
  case True
  assume m: "lock_inv m"
  have "listening m p" using True by (simp add: listening_def)
  then have "listening m q \<Longrightarrow> q = p" for q using lock_inv_parts(2) [OF m, of q p] by blast
  then show ?thesis
    by (intro lock_invI [OF m, of _ p Closing]) (use True in \<open>auto simp: stop_serving_def unlink_socket_def recovering_def listening_def\<close>)
qed (simp add: stop_serving_def)

lemma lock_inv_close:
  assumes m: "lock_inv m" and "lf_sock (mc_files m) = None"
  shows "lock_inv (at_phase (unlink_socket m) p Ended)"
  by (intro lock_invI [OF m, of _ p Ended])
    (use assms(2) in \<open>auto simp: unlink_socket_def recovering_def listening_def\<close>)

lemma lock_inv_probe:
  assumes m: "lock_inv m" and p: "mc_phase m p = ProbeSocket"
  shows "lock_inv (at_phase m p (if socket_live m then BindSocket else UnlinkSocket))"
proof -
  have "\<not> socket_live m \<Longrightarrow> \<not> listening m q" for q
    using lock_inv_parts(3) [OF m, of q] by (auto simp: socket_live_def)
  then show ?thesis
    using lock_inv_move [OF m, of BindSocket p] lock_inv_move [OF m, of UnlinkSocket p] p by (simp add: recovering_def)
qed

lemma lock_inv_advance:
  assumes m: "lock_inv m" and o: "orderly m (Advance slow p)"
  shows "lock_inv (advance slow p m)"
proof (cases "mc_phase m p")
  case Idle
  then show ?thesis using lock_inv_mkdir [OF m, of ReadPid p] by (simp add: advance_def recovering_def)
next
  case ReadPid
  then show ?thesis
    by (auto simp: advance_def recovering_def intro!: lock_inv_move [OF m] split: option.split)
next
  case (CheckHolder h)
  then show ?thesis using o by (auto simp: advance_def orderly_def recovering_def intro!: lock_inv_move [OF m])
next
  case ProbeSocket
  then show ?thesis using o lock_inv_probe [OF m, of p] by (simp add: advance_def orderly_def)
next
  case Closing
  then show ?thesis using o lock_inv_close [OF m] by (simp add: advance_def orderly_def)
qed (use m o lock_inv_parts(5) [OF m, of p] in \<open>auto simp: advance_def recovering_def lock_inv_open lock_inv_write lock_inv_unlink_socket
  lock_inv_bind lock_inv_release lock_inv_leave split del: if_split\<close>)

lemma lock_inv_step: "lock_inv m \<Longrightarrow> orderly m e \<Longrightarrow> lock_inv (lock_step e m)"
  by (cases e) (auto simp: lock_step_def lock_inv_advance lock_inv_stop recovering_def intro!: lock_inv_move)

lemma lock_inv_run: "lock_inv m \<Longrightarrow> orderly_run m es \<Longrightarrow> lock_inv (lock_run es m)"
  by (induction es arbitrary: m) (simp_all add: lock_run_def lock_inv_step)

text \<open>
  C39: from a state without a lock (whatever is left at the socket path), in every orderly run of any number of
  daemons starting, stopping and ending at any moment, at most one process is between acquiring and
  releasing the lock, at most one listens, and the socket path leads to the one that does.
\<close>

theorem one_daemon_per_socket:
  assumes "orderly_run (starting stale) es"
  shows "exclusive (lock_run es (starting stale))"
proof -
  have "lock_inv (starting stale)"
    by (simp add: lock_facts starting_def)
  from lock_inv_run [OF this assms] show ?thesis by (simp add: lock_inv_def)
qed

definition start_up :: "nat \<Rightarrow> nat \<Rightarrow> lock_event list" where
  "start_up n p = replicate n (Advance False p)"

lemma parse_pid_show_nat [simp]: "parse_pid (show_nat p) = (if p = 0 then None else Some p)"
proof -
  obtain c cs where t: "show_nat p = c # cs" using show_nat_ne [of p] by (cases "show_nat p") auto
  have d: "list_all is_digit (c # cs)" using show_nat_list_all [of p] t by simp
  then have "\<not> is_space c" "c \<noteq> CHR ''+''" by (auto simp: is_digit_def is_space_def)
  moreover have "takeWhile is_digit (c # cs) = c # cs" using d by (simp add: takeWhile_eq_all_conv list_all_iff)
  ultimately show ?thesis using digits_val_show_nat [of p] by (simp add: parse_pid_def unsigned_def t Let_def)
qed

lemma overwrite_empty [simp]: "overwrite t [] = t"
  by (simp add: overwrite_def)

lemma replicate_numeral: "replicate (numeral k) x = x # replicate (pred_numeral k) x"
  by (simp add: numeral_eq_Suc)

lemmas run_defs = replicate_numeral start_up_def lock_run_def lock_step_def advance_def starting_def try_mkdir_def open_pid_file_def write_pid_file_def
  unlink_pid_def rmdir_lock_def listening_def socket_live_def unlink_socket_def bind_socket_def stop_serving_def
  holder_alive_def orderly_def max_pid_def

text \<open>A daemon starts over a stale socket, a second one is refused, the first stops and a third starts.\<close>

definition demo_starts :: "lock_event list" where
  "demo_starts = start_up 5 1 @ start_up 4 2 @ start_up 3 1 @ [Stop 1, Advance False 1] @ start_up 8 3"

theorem one_daemon_per_socket_witness:
  "exclusive (lock_run demo_starts (starting (Some 9))) \<and> mc_phase (lock_run demo_starts (starting (Some 9))) 2 = Refused \<and>
   listening (lock_run demo_starts (starting (Some 9))) 3"
proof -
  have "orderly_run (starting (Some 9)) demo_starts"
    by (simp add: demo_starts_def run_defs)
  moreover have "mc_phase (lock_run demo_starts (starting (Some 9))) 2 = Refused \<and> listening (lock_run demo_starts (starting (Some 9))) 3"
    by (simp add: demo_starts_def run_defs)
  ultimately show ?thesis using one_daemon_per_socket by blast
qed

section \<open>Where the lock does not hold\<close>

text \<open>
  A process finds the pid file of a live one before its pid is in it, takes the lock over, and removes the
  socket the other has just bound.
\<close>

definition hasty_takeover :: "lock_event list" where
  "hasty_takeover = start_up 2 1 @ start_up 8 2 @ start_up 1 1 @ start_up 1 2 @ start_up 2 1 @ start_up 1 1 @ start_up 2 2"

definition late_close :: "lock_event list" where
  "late_close = start_up 8 1 @ [Stop 1] @ start_up 8 2 @ [Advance False 1]"

text \<open>A lock directory without a pid file, whose maker has ended.\<close>

definition abandoned_lock :: "machine \<Rightarrow> bool" where
  "abandoned_lock m = (lf_dir (mc_files m) \<and> lf_pid (mc_files m) = None \<and>
     (\<forall>p. \<not> inside (mc_phase m p) \<and> \<not> recovering (mc_phase m p) \<and> (case mc_phase m p of CheckHolder h \<Rightarrow> False | _ \<Rightarrow> True)))"

lemma abandoned_step: "abandoned_lock m \<Longrightarrow> abandoned_lock (lock_step e m)"
proof -
  assume m: "abandoned_lock m"
  have q: "\<not> inside (mc_phase m p)" "\<not> recovering (mc_phase m p)" "case mc_phase m p of CheckHolder h \<Rightarrow> False | _ \<Rightarrow> True" for p
    using m by (auto simp: abandoned_lock_def)
  have f: "lf_dir (mc_files m)" "lf_pid (mc_files m) = None" using m by (auto simp: abandoned_lock_def)
  show ?thesis
  proof (cases e)
    case (Advance slow p)
    then show ?thesis using m f q [of p]
      by (cases "mc_phase m p") (auto simp: lock_step_def advance_def abandoned_lock_def try_mkdir_def unlink_socket_def recovering_def)
  qed (use m in \<open>auto simp: lock_step_def stop_serving_def abandoned_lock_def unlink_socket_def recovering_def\<close>)
qed

lemma abandoned_run: "abandoned_lock m \<Longrightarrow> abandoned_lock (lock_run es m)"
  by (induction es arbitrary: m) (simp_all add: lock_run_def abandoned_step)

lemma died_after_mkdir: "abandoned_lock (lock_run [Advance False 1, Die 1] (starting None))"
  by (simp add: lock_run_def lock_step_def advance_def try_mkdir_def starting_def abandoned_lock_def recovering_def)

text \<open>
  C40: the lock does not serialize the startups, three ways. With no process ever having ended, two can be
  between acquiring and releasing it at once and both go on to listen, one of them at no address.
  A process that ends right after making the directory keeps every later one out, in every
  continuation. And a stopped daemon whose last connection ends late removes the socket of its
  successor, which goes on listening at no address.
\<close>

theorem startup_lock_can_fail:
  "(\<exists>es n. list_all (\<lambda>e. case e of Advance slow p \<Rightarrow> slow = False | _ \<Rightarrow> False) es \<and>
      inside (mc_phase (lock_run (take n es) (starting None)) 1) \<and> inside (mc_phase (lock_run (take n es) (starting None)) 2) \<and>
      listening (lock_run es (starting None)) 1 \<and> listening (lock_run es (starting None)) 2) \<and>
   (\<forall>es p. \<not> inside (mc_phase (lock_run es (lock_run [Advance False 1, Die 1] (starting None))) p)) \<and>
   (\<exists>es. listening (lock_run es (starting None)) 2 \<and> lf_sock (mc_files (lock_run es (starting None))) = None)"
proof (intro conjI)
  have "list_all (\<lambda>e. case e of Advance slow p \<Rightarrow> slow = False | _ \<Rightarrow> False) hasty_takeover"
    by (simp add: hasty_takeover_def start_up_def replicate_numeral)
  moreover have "inside (mc_phase (lock_run (take 11 hasty_takeover) (starting None)) 1) \<and> inside (mc_phase (lock_run (take 11 hasty_takeover) (starting None)) 2)"
    by (simp add: hasty_takeover_def run_defs parse_pid_def unsigned_def)
  moreover have "listening (lock_run hasty_takeover (starting None)) 1 \<and> listening (lock_run hasty_takeover (starting None)) 2"
    by (simp add: hasty_takeover_def run_defs parse_pid_def unsigned_def)
  ultimately show "\<exists>es n. list_all (\<lambda>e. case e of Advance slow p \<Rightarrow> slow = False | _ \<Rightarrow> False) es \<and>
      inside (mc_phase (lock_run (take n es) (starting None)) 1) \<and> inside (mc_phase (lock_run (take n es) (starting None)) 2) \<and>
      listening (lock_run es (starting None)) 1 \<and> listening (lock_run es (starting None)) 2" by blast
next
  show "\<forall>es p. \<not> inside (mc_phase (lock_run es (lock_run [Advance False 1, Die 1] (starting None))) p)"
    using abandoned_run [OF died_after_mkdir] by (simp add: abandoned_lock_def)
next
  have "listening (lock_run late_close (starting None)) 2 \<and> lf_sock (mc_files (lock_run late_close (starting None))) = None"
    by (simp add: late_close_def run_defs)
  then show "\<exists>es. listening (lock_run es (starting None)) 2 \<and> lf_sock (mc_files (lock_run es (starting None))) = None" by blast
qed

end
