(* ===== verification/AM_Daemon.thy ===== *)
theory AM_Daemon
  imports AM_Doctor AM_Protocol AM_Path "HOL-Library.Monad_Syntax"
begin

text \<open>
  The daemon's socket (\<open>apps/cli/src/daemon-ipc.ts\<close>, \<open>apps/cli/src/input-limits.ts\<close>): how a request is
  admitted from the bytes of a connection, how its parameters are read, which operation of the
  runtime each method is, and how the client settles its call. The bytes of a connection are a
  \<open>string\<close>, \<open>JSON.parse\<close>, \<open>z.coerce.date\<close> and the drawn identifiers are arguments. Texts of
  errors raised by an operation are the values of its error type.

  The properties: what is admitted depends on the bytes alone and not on how they arrive, and within
  the budgets everything is admitted; a request that is refused leaves the runtime alone, and every
  served request is a step of the daemon's protocol.
\<close>

section \<open>Input budgets\<close>

definition max_daemon_request_bytes :: nat where
  "max_daemon_request_bytes = 1048576"

definition max_collection_entries :: nat where
  "max_collection_entries = 1000"

definition max_request_values :: nat where
  "max_request_values = 10000"

definition max_request_depth :: nat where
  "max_request_depth = 32"

datatype input_violation = TooDeep | TooWide | TooMany

text \<open>What a container holds, in the order it is pushed; nothing for a scalar.\<close>

fun entries_of :: "json \<Rightarrow> json list option" where
  "entries_of (JArr vs) = Some vs"
| "entries_of (JObj kvs) = Some (map snd kvs)"
| "entries_of v = None"

text \<open>The budgets on their own: how deep a value is, how wide it gets, how many values it has.\<close>

fun json_depth :: "json \<Rightarrow> nat" where
  "json_depth (JArr vs) = foldr max (map (\<lambda>v. json_depth v + 1) vs) 0"
| "json_depth (JObj kvs) = foldr max (map (\<lambda>(k, v). json_depth v + 1) kvs) 0"
| "json_depth v = 0"

fun json_width :: "json \<Rightarrow> nat" where
  "json_width (JArr vs) = foldr max (map json_width vs) (length vs)"
| "json_width (JObj kvs) = foldr max (map (\<lambda>(k, v). json_width v) kvs) (length kvs)"
| "json_width v = 0"

fun json_count :: "json \<Rightarrow> nat" where
  "json_count (JArr vs) = 1 + sum_list (map json_count vs)"
| "json_count (JObj kvs) = 1 + sum_list (map (\<lambda>(k, v). json_count v) kvs)"
| "json_count v = 1"

lemma entries_count: "entries_of v = Some vs \<Longrightarrow> json_count v = 1 + sum_list (map json_count vs)"
  by (cases v) (auto simp: comp_def case_prod_unfold)

lemma count_positive [simp]: "0 < json_count v"
  by (cases v) auto

text \<open>The stack of values still to visit, its top first.\<close>

function limit_walk :: "(json \<times> nat) list \<Rightarrow> nat \<Rightarrow> input_violation option" where
  "limit_walk [] admitted = None"
| "limit_walk ((v, depth) # pending) admitted =
     (if max_request_depth < depth then Some TooDeep
      else (case entries_of v of
          None \<Rightarrow> limit_walk pending admitted
        | Some vs \<Rightarrow>
            if max_collection_entries < length vs then Some TooWide
            else if max_request_values < admitted + length vs then Some TooMany
            else limit_walk (rev (map (\<lambda>w. (w, depth + 1)) vs) @ pending) (admitted + length vs)))"
  by pat_completeness auto
termination
  by (relation "measure (\<lambda>(ps, n). sum_list (map (\<lambda>(v, d). json_count v) ps))")
    (auto simp: entries_count rev_map [symmetric] comp_def sum_list_rev)

definition request_input_limit_violation :: "json \<Rightarrow> input_violation option" where
  "request_input_limit_violation v = limit_walk [(v, 0)] 1"

lemma foldr_max_le: "foldr max xs (a :: nat) \<le> n \<longleftrightarrow> a \<le> n \<and> list_all (\<lambda>x. x \<le> n) xs"
  by (induction xs) auto

lemma entries_budgets:
  "entries_of v = None \<Longrightarrow> json_depth v = 0 \<and> json_width v = 0 \<and> json_count v = 1"
  "entries_of v = Some vs \<Longrightarrow> json_depth v + d \<le> n \<longleftrightarrow> d \<le> n \<and> list_all (\<lambda>w. json_depth w + (d + 1) \<le> n) vs"
  "entries_of v = Some vs \<Longrightarrow> json_width v \<le> n \<longleftrightarrow> length vs \<le> n \<and> list_all (\<lambda>w. json_width w \<le> n) vs"
  "entries_of v = Some vs \<Longrightarrow> json_count v = 1 + sum_list (map json_count vs)"
proof -
  show "entries_of v = None \<Longrightarrow> json_depth v = 0 \<and> json_width v = 0 \<and> json_count v = 1" by (cases v) auto
  assume e: "entries_of v = Some vs"
  show "json_width v \<le> n \<longleftrightarrow> length vs \<le> n \<and> list_all (\<lambda>w. json_width w \<le> n) vs"
    using e by (cases v) (auto simp: foldr_max_le list.pred_map comp_def case_prod_unfold)
  show "json_count v = 1 + sum_list (map json_count vs)"
    by (rule entries_count [OF e])
  show "json_depth v + d \<le> n \<longleftrightarrow> d \<le> n \<and> list_all (\<lambda>w. json_depth w + (d + 1) \<le> n) vs"
  proof (cases "d \<le> n")
    case True
    then have "json_depth v + d \<le> n \<longleftrightarrow> json_depth v \<le> n - d" by linarith
    also have "\<dots> \<longleftrightarrow> list_all (\<lambda>w. json_depth w + 1 \<le> n - d) vs"
      using e by (cases v) (auto simp: foldr_max_le list.pred_map comp_def case_prod_unfold)
    also have "\<dots> \<longleftrightarrow> list_all (\<lambda>w. json_depth w + (d + 1) \<le> n) vs"
      by (intro list.pred_cong refl) (use True in arith)
    finally show ?thesis using True by simp
  qed simp
qed

lemma limit_walk_spec:
  "n \<le> max_request_values \<Longrightarrow>
   limit_walk ps n = None \<longleftrightarrow>
     list_all (\<lambda>(v, d). json_depth v + d \<le> max_request_depth \<and> json_width v \<le> max_collection_entries) ps \<and>
     n + sum_list (map (\<lambda>(v, d). json_count v - 1) ps) \<le> max_request_values"
proof (induction ps n rule: limit_walk.induct)
  case (2 v d ps n)
  show ?case
  proof (cases "entries_of v")
    case None
    with 2 entries_budgets(1) [OF None] show ?thesis by (auto simp: not_less)
  next
    case (Some vs)
    note b = entries_budgets(2-4) [OF Some]
    have count: "sum_list (map json_count vs) = length vs + sum_list (map (\<lambda>w. json_count w - 1) vs)"
      by (induction vs) (use count_positive in \<open>auto simp: Suc_leI\<close>)
    then have here: "json_count v - Suc 0 = length vs + sum_list (map (\<lambda>w. json_count w - Suc 0) vs)"
      using entries_count [OF Some] by simp
    let ?ps = "rev (map (\<lambda>w. (w, d + 1)) vs) @ ps"
    have kids: "sum_list (map (\<lambda>(v, d). json_count v - 1) ?ps) =
        sum_list (map (\<lambda>w. json_count w - 1) vs) + sum_list (map (\<lambda>(v, d). json_count v - 1) ps)"
      by (simp add: rev_map [symmetric] comp_def sum_list_rev)
    have all: "list_all (\<lambda>(v, d). json_depth v + d \<le> max_request_depth \<and> json_width v \<le> max_collection_entries) ?ps \<longleftrightarrow>
        list_all (\<lambda>w. json_depth w + (d + 1) \<le> max_request_depth) vs \<and> list_all (\<lambda>w. json_width w \<le> max_collection_entries) vs \<and>
        list_all (\<lambda>(v, d). json_depth v + d \<le> max_request_depth \<and> json_width v \<le> max_collection_entries) ps"
      by (simp add: list_all_iff ball_Un ball_conj_distrib)
    show ?thesis
    proof (cases "d \<le> max_request_depth \<and> length vs \<le> max_collection_entries \<and> n + length vs \<le> max_request_values")
      case True
      with 2(2) [OF _ Some] have IH: "limit_walk ?ps (n + length vs) = None \<longleftrightarrow>
          list_all (\<lambda>(v, d). json_depth v + d \<le> max_request_depth \<and> json_width v \<le> max_collection_entries) ?ps \<and>
          n + length vs + sum_list (map (\<lambda>(v, d). json_count v - 1) ?ps) \<le> max_request_values"
        by (simp add: not_less)
      show ?thesis
        using True IH unfolding all kids by (simp add: Some not_less b(2) here) (auto simp: b(1) b(2) here)
    next
      case False
      then show ?thesis by (auto simp: Some b(1) b(2) here)
    qed
  qed
qed simp

lemma request_within_budgets:
  "request_input_limit_violation v = None \<longleftrightarrow>
     json_depth v \<le> max_request_depth \<and> json_width v \<le> max_collection_entries \<and> json_count v \<le> max_request_values"
proof -
  have "Suc (json_count v - 1) = json_count v" using count_positive [of v] by simp
  then show ?thesis
    unfolding request_input_limit_violation_def by (subst limit_walk_spec) (auto simp: max_request_values_def)
qed

section \<open>Framing\<close>

text \<open>
  A connection: the bytes of the request so far, the capacity of their buffer, whether the request is
  admitted or answered, and what came of it.
\<close>

datatype frame = Overlong | Line string

record connection =
  cx_bytes :: string
  cx_capacity :: nat
  cx_admitted :: bool
  cx_frame :: "frame option"

definition new_connection :: connection where
  "new_connection = \<lparr>cx_bytes = [], cx_capacity = 0, cx_admitted = False, cx_frame = None\<rparr>"

definition grown_capacity :: "nat \<Rightarrow> nat \<Rightarrow> nat" where
  "grown_capacity capacity needed =
     (if capacity < needed then min max_daemon_request_bytes (max needed (max (capacity * 2) 4096)) else capacity)"

definition on_chunk :: "string \<Rightarrow> connection \<Rightarrow> connection" where
  "on_chunk chunk c =
     (if cx_admitted c then c
      else (let part = takeWhile (\<lambda>b. b \<noteq> CHR 0x0A) chunk; needed = length (cx_bytes c) + length part in
        if max_daemon_request_bytes < needed
        then c\<lparr>cx_bytes := [], cx_capacity := 0, cx_admitted := True, cx_frame := Some Overlong\<rparr>
        else if CHR 0x0A \<in> set chunk
        then c\<lparr>cx_bytes := [], cx_capacity := 0, cx_admitted := True, cx_frame := Some (Line (cx_bytes c @ part))\<rparr>
        else c\<lparr>cx_bytes := cx_bytes c @ part, cx_capacity := grown_capacity (cx_capacity c) needed\<rparr>))"

text \<open>An error of the socket ends the connection without an answer.\<close>

definition on_socket_error :: "connection \<Rightarrow> connection" where
  "on_socket_error c = c\<lparr>cx_bytes := [], cx_capacity := 0, cx_admitted := True\<rparr>"

definition read_chunks :: "string list \<Rightarrow> connection" where
  "read_chunks chunks = foldl (\<lambda>c x. on_chunk x c) new_connection chunks"

text \<open>What the bytes alone amount to.\<close>

definition frame_of :: "string \<Rightarrow> frame option" where
  "frame_of bytes =
     (let line = takeWhile (\<lambda>b. b \<noteq> CHR 0x0A) bytes in
      if max_daemon_request_bytes < length line then Some Overlong
      else if CHR 0x0A \<in> set bytes then Some (Line line)
      else None)"

definition holds_bytes :: "string \<Rightarrow> connection \<Rightarrow> bool" where
  "holds_bytes bytes c =
     (cx_frame c = frame_of bytes \<and> cx_admitted c = (frame_of bytes \<noteq> None) \<and>
      cx_bytes c = (if frame_of bytes = None then bytes else []) \<and>
      length (cx_bytes c) \<le> cx_capacity c \<and> cx_capacity c \<le> max_daemon_request_bytes)"

lemma grown_capacity_bounds:
  "needed \<le> max_daemon_request_bytes \<Longrightarrow> capacity \<le> max_daemon_request_bytes \<Longrightarrow>
   needed \<le> grown_capacity capacity needed \<and> grown_capacity capacity needed \<le> max_daemon_request_bytes"
  by (auto simp: grown_capacity_def)

lemma frame_of_append:
  "frame_of bytes = None \<Longrightarrow> frame_of (bytes @ chunk) =
     (let part = takeWhile (\<lambda>b. b \<noteq> CHR 0x0A) chunk in
      if max_daemon_request_bytes < length bytes + length part then Some Overlong
      else if CHR 0x0A \<in> set chunk then Some (Line (bytes @ part)) else None)"
  by (auto simp: frame_of_def Let_def takeWhile_append split: if_splits)

lemma frame_of_kept: "frame_of bytes = Some f \<Longrightarrow> frame_of (bytes @ chunk) = Some f"
proof (cases "CHR 0x0A \<in> set bytes")
  case True
  then have "takeWhile (\<lambda>b. b \<noteq> CHR 0x0A) (bytes @ chunk) = takeWhile (\<lambda>b. b \<noteq> CHR 0x0A) bytes"
    by (auto simp: takeWhile_append1)
  with True show "frame_of bytes = Some f \<Longrightarrow> ?thesis" by (auto simp: frame_of_def Let_def split: if_splits)
next
  case False
  then have "takeWhile (\<lambda>b. b \<noteq> CHR 0x0A) bytes = bytes" by (auto simp: takeWhile_eq_all_conv)
  moreover from this have "length bytes \<le> length (takeWhile (\<lambda>b. b \<noteq> CHR 0x0A) (bytes @ chunk))"
    by (simp add: takeWhile_append)
  ultimately show "frame_of bytes = Some f \<Longrightarrow> ?thesis" using False by (auto simp: frame_of_def Let_def split: if_splits)
qed

lemma on_chunk_holds: "holds_bytes bytes c \<Longrightarrow> holds_bytes (bytes @ chunk) (on_chunk chunk c)"
proof (cases "frame_of bytes")
  case (Some f)
  assume "holds_bytes bytes c"
  with Some frame_of_kept [OF Some, of chunk] show ?thesis by (simp add: holds_bytes_def on_chunk_def)
next
  case None
  assume h: "holds_bytes bytes c"
  then have nl: "takeWhile (\<lambda>b. b \<noteq> CHR 0x0A) chunk = chunk" if "CHR 0x0A \<notin> set chunk"
    using that by (auto simp: takeWhile_eq_all_conv)
  from h None have c: "cx_bytes c = bytes" "\<not> cx_admitted c" "cx_frame c = None" "cx_capacity c \<le> max_daemon_request_bytes"
    by (auto simp: holds_bytes_def)
  show ?thesis
    using c nl frame_of_append [OF None, of chunk]
      grown_capacity_bounds [of "length bytes + length (takeWhile (\<lambda>b. b \<noteq> CHR 0x0A) chunk)" "cx_capacity c"]
    by (auto simp: holds_bytes_def on_chunk_def Let_def not_less)
qed

lemma read_chunks_holds: "holds_bytes (concat chunks) (read_chunks chunks)"
proof (induction chunks rule: rev_induct)
  case Nil
  then show ?case by (simp add: holds_bytes_def read_chunks_def new_connection_def frame_of_def)
next
  case (snoc x xs)
  then show ?case using on_chunk_holds [OF snoc, of x] by (simp add: read_chunks_def)
qed

section \<open>Requests\<close>

definition daemon_methods :: "string list" where
  "daemon_methods = [''ping'', ''status'', ''stop'', ''session.open'', ''session.close'', ''session.list'', ''events.list'', ''events.ack'',
     ''events.retractObject'', ''events.suppressObject'', ''hook.claim'', ''hook.reserve'', ''hook.commit'', ''hook.release'',
     ''hook.preview'', ''hook.previewReminder'', ''hook.diagnose'', ''history.list'', ''monitor.explain'', ''doctor.report'',
     ''daemon.tick'', ''watch.declare'', ''watch.list'', ''watch.cancel'']"

record daemon_request =
  rq_id :: string
  rq_method :: string
  rq_params :: "(string \<times> json) list"

definition decode_request :: "json \<Rightarrow> daemon_request option" where
  "decode_request v =
     (case v of
        JObj kvs \<Rightarrow>
          (case (map_of kvs ''id'', map_of kvs ''method'', map_of kvs ''params'') of
             (Some (JStr i), Some (JStr m), Some (JObj ps)) \<Rightarrow>
               if m \<in> set daemon_methods then Some \<lparr>rq_id = i, rq_method = m, rq_params = ps\<rparr> else None
           | _ \<Rightarrow> None)
      | _ \<Rightarrow> None)"

datatype refusal = OverBudget input_violation | OverlongRequest | UnsupportedRequest

datatype admission = AwaitBytes | Refuse string refusal | Dispatch daemon_request

definition unparseable_request_id :: string where
  "unparseable_request_id = ''invalid''"

definition request_id :: "json \<Rightarrow> string" where
  "request_id v = (case jfield v ''id'' of Some (JStr i) \<Rightarrow> i | _ \<Rightarrow> unparseable_request_id)"

text \<open>\<open>parse\<close> is \<open>JSON.parse\<close> of the decoded bytes, \<open>None\<close> where it throws.\<close>

definition admit :: "(string \<Rightarrow> json option) \<Rightarrow> connection \<Rightarrow> admission" where
  "admit parse c =
     (case cx_frame c of
        None \<Rightarrow> AwaitBytes
      | Some Overlong \<Rightarrow> Refuse unparseable_request_id OverlongRequest
      | Some (Line raw) \<Rightarrow>
          (case parse raw of
             None \<Rightarrow> Refuse unparseable_request_id UnsupportedRequest
           | Some v \<Rightarrow>
               (case request_input_limit_violation v of
                  Some x \<Rightarrow> Refuse (request_id v) (OverBudget x)
                | None \<Rightarrow>
                    (case decode_request v of
                       None \<Rightarrow> Refuse unparseable_request_id UnsupportedRequest
                     | Some r \<Rightarrow> Dispatch r))))"

lemma frame_of_line:
  "frame_of bytes = Some (Line line) \<longleftrightarrow>
     (\<exists>rest. bytes = line @ CHR 0x0A # rest) \<and> CHR 0x0A \<notin> set line \<and> length line \<le> max_daemon_request_bytes"
proof
  assume f: "frame_of bytes = Some (Line line)"
  then have line: "line = takeWhile (\<lambda>b. b \<noteq> CHR 0x0A) bytes" "CHR 0x0A \<in> set bytes" "length line \<le> max_daemon_request_bytes"
    by (auto simp: frame_of_def Let_def split: if_splits)
  obtain a b where "bytes = a @ CHR 0x0A # b" "CHR 0x0A \<notin> set a" using split_list_first [OF line(2)] by blast
  moreover from this have "line = a" unfolding line(1) by (auto simp: takeWhile_append takeWhile_eq_all_conv)
  ultimately show "(\<exists>rest. bytes = line @ CHR 0x0A # rest) \<and> CHR 0x0A \<notin> set line \<and> length line \<le> max_daemon_request_bytes"
    using line(3) by blast
next
  assume "(\<exists>rest. bytes = line @ CHR 0x0A # rest) \<and> CHR 0x0A \<notin> set line \<and> length line \<le> max_daemon_request_bytes"
  then obtain rest where b: "bytes = line @ CHR 0x0A # rest" "CHR 0x0A \<notin> set line" "length line \<le> max_daemon_request_bytes" by blast
  then have "takeWhile (\<lambda>b. b \<noteq> CHR 0x0A) bytes = line" by (auto simp: takeWhile_append takeWhile_eq_all_conv)
  then show "frame_of bytes = Some (Line line)" using b by (auto simp: frame_of_def Let_def)
qed

text \<open>
  C37: a request is admitted by its bytes alone, however they are split over the chunks of the
  connection: it is dispatched exactly when the bytes up to the first newline are at most a mebibyte
  and parse to a value at most 32 levels deep, with at most 1000 entries in a container and 10000
  values in all, that is a request with a known method. The buffer never outgrows the mebibyte.
\<close>

theorem request_admission:
  "(admit parse (read_chunks chunks) = Dispatch r \<longleftrightarrow>
     (\<exists>line rest v. concat chunks = line @ CHR 0x0A # rest \<and> CHR 0x0A \<notin> set line \<and>
        length line \<le> max_daemon_request_bytes \<and> parse line = Some v \<and>
        json_depth v \<le> max_request_depth \<and> json_width v \<le> max_collection_entries \<and> json_count v \<le> max_request_values \<and>
        decode_request v = Some r)) \<and>
   length (cx_bytes (read_chunks chunks)) \<le> cx_capacity (read_chunks chunks) \<and>
   cx_capacity (read_chunks chunks) \<le> max_daemon_request_bytes"
proof -
  have h: "cx_frame (read_chunks chunks) = frame_of (concat chunks)"
    "length (cx_bytes (read_chunks chunks)) \<le> cx_capacity (read_chunks chunks)" "cx_capacity (read_chunks chunks) \<le> max_daemon_request_bytes"
    using read_chunks_holds [of chunks] by (auto simp: holds_bytes_def)
  have "admit parse (read_chunks chunks) = Dispatch r \<longleftrightarrow>
      (\<exists>line v. frame_of (concat chunks) = Some (Line line) \<and> parse line = Some v \<and>
        request_input_limit_violation v = None \<and> decode_request v = Some r)"
    by (auto simp: admit_def h(1) split: option.splits frame.splits)
  then show ?thesis using h(2,3) unfolding frame_of_line request_within_budgets by blast
qed

section \<open>Parameters\<close>

datatype daemon_call =
    CallPing
  | CallStatus
  | CallStop
  | SessionOpen open_session_input
  | SessionClose ident
  | SessionList
  | EventsList event_query
  | EventsAck ident "ident list option"
  | EventsRetract string string "ident list" "string option option"
  | EventsSuppress string string ms "string option"
  | HookClaim ident lifecycle "int option"
  | HookReserve ident lifecycle "int option"
  | HookCommit ident
  | HookRelease ident
  | HookPreview ident
  | HookPreviewReminder ident
  | HookDiagnose ident lifecycle
  | HistoryList "string option" "string option" "nat option"
  | MonitorExplain explain_input
  | DaemonTick string string
  | WatchDeclare watch_decl
  | WatchList ident
  | WatchCancel ident ident
  | DoctorReport doctor_input

text \<open>A property that has to be there, one that may be absent, and a value that is dropped when it is falsy.\<close>

definition required :: "(json \<Rightarrow> 'a option) \<Rightarrow> (string \<times> json) list \<Rightarrow> string \<Rightarrow> 'a option" where
  "required f kvs k = (case map_of kvs k of None \<Rightarrow> None | Some v \<Rightarrow> f v)"

definition given :: "string option \<Rightarrow> string option" where
  "given t = (case t of Some s \<Rightarrow> if s = [] then None else Some s | None \<Rightarrow> None)"

definition as_bool :: "json \<Rightarrow> bool option" where
  "as_bool v = (case v of JBool b \<Rightarrow> Some b | _ \<Rightarrow> None)"

definition as_texts :: "json \<Rightarrow> string list option" where
  "as_texts v = (case v of JArr vs \<Rightarrow> those (map as_text vs) | _ \<Rightarrow> None)"

definition as_record :: "json \<Rightarrow> (string \<times> json) list option" where
  "as_record v = (case v of JObj kvs \<Rightarrow> Some kvs | _ \<Rightarrow> None)"

definition as_text_record :: "json \<Rightarrow> (string \<times> string) list option" where
  "as_text_record v =
     (case v of JObj kvs \<Rightarrow> those (map (\<lambda>(k, w). map_option (Pair k) (as_text w)) kvs) | _ \<Rightarrow> None)"

text \<open>\<open>z.number().int().positive()\<close>: a safe integer above zero.\<close>

definition positive_int :: "json \<Rightarrow> nat option" where
  "positive_int v =
     (case v of
        JNum t \<Rightarrow>
          if t \<noteq> [] \<and> list_all is_digit t \<and> 0 < digits_val t \<and> digits_val t \<le> 9007199254740991 then Some (digits_val t) else None
      | _ \<Rightarrow> None)"

definition as_role :: "json \<Rightarrow> role option" where
  "as_role v = (if v = JStr ''lead'' then Some Lead else if v = JStr ''subagent'' then Some Subagent else None)"

definition as_urgency :: "json \<Rightarrow> urgency option" where
  "as_urgency v = (case v of JStr t \<Rightarrow> urgency_level t | _ \<Rightarrow> None)"

definition as_lifecycle :: "json \<Rightarrow> lifecycle option" where
  "as_lifecycle v = find (\<lambda>l. v = JStr (lifecycle_text l)) [TurnInterruptible, TurnIdle, PostCompact]"

definition as_scratch_key :: "json \<Rightarrow> string option" where
  "as_scratch_key v = (case v of JStr t \<Rightarrow> if is_verify_scratch_key t then Some t else None | _ \<Rightarrow> None)"

definition open_session_params :: "(string \<times> json) list \<Rightarrow> open_session_input option" where
  "open_session_params p =
     do { a \<leftarrow> required as_text p ''adapter''; h \<leftarrow> required as_text p ''hostSessionId'';
          w \<leftarrow> optional as_text (map_of p ''workspacePath''); r \<leftarrow> optional as_role (map_of p ''role'');
          g \<leftarrow> required as_text p ''agentIdentity''; f \<leftarrow> required as_text p ''hookStatePath'';
          Some \<lparr>oi_adapter = a, oi_host = h, oi_ws = given w, oi_role = r, oi_agent = g, oi_hook_path = f\<rparr> }"

definition events_list_params :: "(json \<Rightarrow> ms option) \<Rightarrow> (string \<times> json) list \<Rightarrow> event_query option" where
  "events_list_params date p =
     do { s \<leftarrow> optional as_text (map_of p ''sessionId''); m \<leftarrow> optional as_text (map_of p ''monitorId'');
          u \<leftarrow> optional as_urgency (map_of p ''urgency''); t \<leftarrow> optional as_texts (map_of p ''tags'');
          c \<leftarrow> optional as_text_record (map_of p ''scope''); o' \<leftarrow> optional as_text (map_of p ''objectKey'');
          n \<leftarrow> optional as_bool (map_of p ''unreadOnly''); b \<leftarrow> optional as_bool (map_of p ''sinceBaseline'');
          d \<leftarrow> optional date (map_of p ''since'');
          Some \<lparr>q_session = given s, q_unread = default n False, q_monitor = given m, q_urgency = u, q_object = given o',
            q_since = d, q_ws = None, q_tags = default t [], q_scope = default c [], q_since_baseline = default b False\<rparr> }"

definition events_ack_params :: "(string \<times> json) list \<Rightarrow> (ident \<times> ident list option) option" where
  "events_ack_params p =
     do { s \<leftarrow> required as_text p ''sessionId''; ids \<leftarrow> optional as_texts (map_of p ''eventIds''); Some (s, ids) }"

definition events_retract_params :: "(string \<times> json) list \<Rightarrow> daemon_call option" where
  "events_retract_params p =
     do { m \<leftarrow> required as_text p ''monitorId''; k \<leftarrow> required as_text p ''objectKey''; ids \<leftarrow> required as_texts p ''eventIds'';
          w \<leftarrow> optional as_text (map_of p ''workspacePath''); Some (EventsRetract m k ids (map_option Some (given w))) }"

definition events_suppress_params :: "(string \<times> json) list \<Rightarrow> daemon_call option" where
  "events_suppress_params p =
     do { m \<leftarrow> required as_text p ''monitorId''; k \<leftarrow> required as_scratch_key p ''objectKey''; t \<leftarrow> required positive_int p ''ttlMs'';
          w \<leftarrow> optional as_text (map_of p ''workspacePath''); Some (EventsSuppress m k (int t) (given w)) }"

definition hook_claim_params :: "(string \<times> json) list \<Rightarrow> (ident \<times> lifecycle \<times> int option) option" where
  "hook_claim_params p =
     do { s \<leftarrow> required as_text p ''sessionId''; l \<leftarrow> required as_lifecycle p ''lifecycle'';
          m \<leftarrow> optional positive_int (map_of p ''maxEvents''); Some (s, l, map_option int m) }"

definition hook_diagnose_params :: "(string \<times> json) list \<Rightarrow> (ident \<times> lifecycle) option" where
  "hook_diagnose_params p =
     do { s \<leftarrow> required as_text p ''sessionId''; l \<leftarrow> required as_lifecycle p ''lifecycle''; Some (s, l) }"

definition history_list_params :: "(string \<times> json) list \<Rightarrow> daemon_call option" where
  "history_list_params p =
     do { m \<leftarrow> optional as_text (map_of p ''monitorId''); w \<leftarrow> optional as_text (map_of p ''workspacePath'');
          n \<leftarrow> optional positive_int (map_of p ''limit''); Some (HistoryList (given m) (given w) n) }"

definition monitor_explain_params :: "ms \<Rightarrow> (string \<times> json) list \<Rightarrow> explain_input option" where
  "monitor_explain_params now p =
     do { m \<leftarrow> required as_text p ''monitorId''; d \<leftarrow> required as_text p ''monitorsDir'';
          w \<leftarrow> optional as_text (map_of p ''workspacePath''); h \<leftarrow> optional positive_int (map_of p ''historyLimit'');
          e \<leftarrow> optional positive_int (map_of p ''eventLimit'');
          Some \<lparr>ei_monitor = m, ei_dir = d, ei_ws = given w, ei_history = h, ei_events = e, ei_now = now\<rparr> }"

definition daemon_tick_params :: "(string \<times> json) list \<Rightarrow> daemon_call option" where
  "daemon_tick_params p =
     do { d \<leftarrow> required as_text p ''monitorsDir''; w \<leftarrow> optional as_text (map_of p ''workspacePath''); Some (DaemonTick d (default w d)) }"

definition watch_declare_params :: "(string \<times> json) list \<Rightarrow> watch_decl option" where
  "watch_declare_params p =
     do { s \<leftarrow> required as_text p ''sessionId''; r \<leftarrow> required as_text p ''source''; c \<leftarrow> required as_record p ''scope'';
          u \<leftarrow> optional as_text (map_of p ''urgency''); i \<leftarrow> optional as_text (map_of p ''instruction'');
          n \<leftarrow> optional as_text (map_of p ''displayName'');
          Some \<lparr>dl_session = s, dl_source = r, dl_scope = c, dl_urgency = given u, dl_instruction = given i, dl_display = given n\<rparr> }"

definition watch_cancel_params :: "(string \<times> json) list \<Rightarrow> (ident \<times> ident) option" where
  "watch_cancel_params p =
     do { s \<leftarrow> required as_text p ''sessionId''; i \<leftarrow> required as_text p ''ephemeralId''; Some (s, i) }"

definition doctor_report_params :: "ms \<Rightarrow> (string \<times> json) list \<Rightarrow> doctor_input option" where
  "doctor_report_params now p =
     do { d \<leftarrow> required as_text p ''monitorsDir''; w \<leftarrow> required as_text p ''workspacePath'';
          h \<leftarrow> optional positive_int (map_of p ''historyLimit'');
          Some \<lparr>di_dir = d, di_ws = w, di_now = now, di_history = h\<rparr> }"

text \<open>The call a request is; \<open>None\<close> where its parameters do not parse.\<close>

definition parse_call :: "(json \<Rightarrow> ms option) \<Rightarrow> ms \<Rightarrow> string \<Rightarrow> (string \<times> json) list \<Rightarrow> daemon_call option" where
  "parse_call date now method p =
     (if method = ''ping'' then Some CallPing
      else if method = ''status'' then Some CallStatus
      else if method = ''stop'' then Some CallStop
      else if method = ''session.open'' then map_option SessionOpen (open_session_params p)
      else if method = ''session.close'' then map_option SessionClose (required as_text p ''sessionId'')
      else if method = ''session.list'' then Some SessionList
      else if method = ''events.list'' then map_option EventsList (events_list_params date p)
      else if method = ''events.ack'' then map_option (\<lambda>(s, ids). EventsAck s ids) (events_ack_params p)
      else if method = ''events.retractObject'' then events_retract_params p
      else if method = ''events.suppressObject'' then events_suppress_params p
      else if method = ''hook.claim'' then map_option (\<lambda>(s, l, m). HookClaim s l m) (hook_claim_params p)
      else if method = ''hook.reserve'' then map_option (\<lambda>(s, l, m). HookReserve s l m) (hook_claim_params p)
      else if method = ''hook.commit'' then map_option HookCommit (required as_text p ''reservationId'')
      else if method = ''hook.release'' then map_option HookRelease (required as_text p ''reservationId'')
      else if method = ''hook.preview'' then map_option HookPreview (required as_text p ''sessionId'')
      else if method = ''hook.previewReminder'' then map_option HookPreviewReminder (required as_text p ''sessionId'')
      else if method = ''hook.diagnose'' then map_option (\<lambda>(s, l). HookDiagnose s l) (hook_diagnose_params p)
      else if method = ''history.list'' then history_list_params p
      else if method = ''monitor.explain'' then map_option MonitorExplain (monitor_explain_params now p)
      else if method = ''daemon.tick'' then daemon_tick_params p
      else if method = ''watch.declare'' then map_option WatchDeclare (watch_declare_params p)
      else if method = ''watch.list'' then map_option WatchList (required as_text p ''sessionId'')
      else if method = ''watch.cancel'' then map_option (\<lambda>(s, i). WatchCancel s i) (watch_cancel_params p)
      else if method = ''doctor.report'' then map_option DoctorReport (doctor_report_params now p)
      else None)"

section \<open>Operations\<close>

record runtime_status =
  rs_sessions :: nat
  rs_active :: nat
  rs_dormant :: nat
  rs_events :: nat

definition list_sessions :: "store \<Rightarrow> session list" where
  "list_sessions st = sort_key (\<lambda>s. - s_updated s) (sessions st)"

definition store_status :: "store \<Rightarrow> runtime_status" where
  "store_status st =
     \<lparr>rs_sessions = length (list_sessions st), rs_active = length (filter (\<lambda>s. s_status s = Active) (list_sessions st)),
       rs_dormant = length (filter (\<lambda>s. s_status s = Dormant) (list_sessions st)), rs_events = length (events st)\<rparr>"

text \<open>
  What the daemon has beside the runtime: the scan of a directory and whether it exists, the scope
  validation of a declaration, the next identifier it draws, its process id and reap window.
\<close>

record daemon_env =
  de_explain :: explain_env
  de_bd :: "string \<Rightarrow> string \<Rightarrow> string option \<Rightarrow> string"
  de_host :: host
  de_scan :: "string \<Rightarrow> scan_result"
  de_dir :: "string \<Rightarrow> bool"
  de_scope :: "string \<Rightarrow> (string \<times> json) list \<Rightarrow> string list"
  de_draw :: ident
  de_pid :: nat
  de_reap :: "int option"

datatype daemon_reply =
    ReplyOk
  | ReplyStatus runtime_status nat int
  | ReplyStopping
  | ReplySession session
  | ReplySessions "session list"
  | ReplyEvents "event list"
  | ReplyRemoved nat
  | ReplyClaim "claim option"
  | ReplyReserved "(ident \<times> claim) option"
  | ReplyPreview "event_summary list"
  | ReplyReminder "string option"
  | ReplyDiagnosis diagnosis
  | ReplyHistory "history_row list"
  | ReplyExplain explain_report
  | ReplyTick accum
  | ReplyWatch ephemeral
  | ReplyWatches "ephemeral list"
  | ReplyDoctor workspace_report

datatype daemon_error =
    BadParams
  | FromRuntime rt_error
  | FromTick tick_error
  | FromDeclare declare_error
  | FromStore store_error
  | FromReport explain_error

definition drop_lapsed :: "ms \<Rightarrow> runtime \<Rightarrow> runtime" where
  "drop_lapsed now rt = rt\<lparr>rt_reg := reservation_prune (rt_reg rt) now\<rparr>"

definition answer :: "('e \<Rightarrow> daemon_error) \<Rightarrow> ('a \<Rightarrow> daemon_reply) \<Rightarrow> runtime \<times> ('e + 'a) \<Rightarrow> runtime \<times> (daemon_error + daemon_reply)" where
  "answer wrong right r = (fst r, case snd r of Inl e \<Rightarrow> Inl (wrong e) | Inr a \<Rightarrow> Inr (right a))"

definition answer_session :: "runtime \<Rightarrow> ident \<Rightarrow> daemon_error + daemon_reply" where
  "answer_session rt i = (case get_session (rt_store rt) i of Inl e \<Rightarrow> Inl (FromStore e) | Inr s \<Rightarrow> Inr (ReplySession s))"

definition open_call :: "runtime \<Rightarrow> ms \<Rightarrow> ident \<Rightarrow> open_session_input \<Rightarrow> runtime \<times> (daemon_error + daemon_reply)" where
  "open_call rt now i inp =
     (case open_runtime_session rt now i inp of
        (rt', Inl e) \<Rightarrow> (rt', Inl (FromRuntime e))
      | (rt', Inr s) \<Rightarrow> (rt', answer_session rt' s))"

definition close_call :: "runtime \<Rightarrow> ms \<Rightarrow> ident \<Rightarrow> runtime \<times> (daemon_error + daemon_reply)" where
  "close_call rt now i =
     (case close_runtime_session rt now i of
        (rt', Inl e) \<Rightarrow> (rt', Inl (FromRuntime e))
      | (rt', Inr _) \<Rightarrow> (rt', answer_session rt' i))"

definition declare_call :: "daemon_env \<Rightarrow> runtime \<Rightarrow> ms \<Rightarrow> watch_decl \<Rightarrow> runtime \<times> (daemon_error + daemon_reply)" where
  "declare_call E rt now d =
     (case declare_ephemeral (ho_sources (de_host E)) (de_scope E) (rt_store rt) now (de_draw E) d of
        Inl e \<Rightarrow> (rt, Inl (FromDeclare e))
      | Inr (st, i) \<Rightarrow>
          (rt\<lparr>rt_store := st\<rparr>, case get_ephemeral st i of Inl e \<Rightarrow> Inl (FromStore e) | Inr t \<Rightarrow> Inr (ReplyWatch t)))"

definition cancel_call :: "runtime \<Rightarrow> ms \<Rightarrow> ident \<Rightarrow> ident \<Rightarrow> runtime \<times> (daemon_error + daemon_reply)" where
  "cancel_call rt now s i =
     (case cancel_ephemeral (rt_store rt) now s i of
        Inl e \<Rightarrow> (rt, Inl (FromStore e))
      | Inr (st, t) \<Rightarrow> (rt\<lparr>rt_store := st\<rparr>, Inr (ReplyWatch t)))"

definition report :: "('e \<Rightarrow> daemon_error) \<Rightarrow> ('a \<Rightarrow> daemon_reply) \<Rightarrow> runtime \<Rightarrow> 'e + 'a \<Rightarrow> runtime \<times> (daemon_error + daemon_reply)" where
  "report wrong right rt r = answer wrong right (rt, r)"

text \<open>
  The dispatch of \<open>handleRequest\<close>. Reading the pending events drops lapsed reservations; that an
  explanation does so too is left out, as every reader ignores them.
\<close>

fun handle_call :: "daemon_env \<Rightarrow> ms \<Rightarrow> runtime \<Rightarrow> daemon_call \<Rightarrow> runtime \<times> (daemon_error + daemon_reply)" where
  "handle_call E now rt CallPing = (rt, Inr ReplyOk)"
| "handle_call E now rt CallStatus = (rt, Inr (ReplyStatus (store_status (rt_store rt)) (de_pid E) (default (de_reap E) 0)))"
| "handle_call E now rt CallStop = (rt, Inr ReplyStopping)"
| "handle_call E now rt (SessionOpen inp) = open_call rt now (de_draw E) inp"
| "handle_call E now rt (SessionClose i) = close_call rt now i"
| "handle_call E now rt SessionList = (rt, Inr (ReplySessions (list_sessions (rt_store rt))))"
| "handle_call E now rt (EventsList q) = report FromStore ReplyEvents rt (list_events (rt_store rt) q)"
| "handle_call E now rt (EventsAck s ids) = answer FromRuntime (\<lambda>_. ReplyOk) (acknowledge_session rt now s ids)"
| "handle_call E now rt (EventsRetract m k ids ws) = answer FromRuntime ReplyRemoved (retract_runtime_events rt now ws m k ids)"
| "handle_call E now rt (EventsSuppress m k ttl ws) = answer FromRuntime ReplyRemoved (suppress_object_events rt now m k ws ttl)"
| "handle_call E now rt (HookClaim s l mx) = answer FromRuntime ReplyClaim (claim_delivery (de_bd E) rt now s l mx)"
| "handle_call E now rt (HookReserve s l mx) = answer FromRuntime ReplyReserved (reserve_delivery rt now (de_draw E) s l mx)"
| "handle_call E now rt (HookCommit rid) = answer FromRuntime ReplyClaim (commit_delivery (de_bd E) rt now rid)"
| "handle_call E now rt (HookRelease rid) = answer FromRuntime (\<lambda>_. ReplyOk) (release_delivery rt now rid)"
| "handle_call E now rt (HookPreview s) = (drop_lapsed now rt, Inr (ReplyPreview (preview_settled_high (rt_store rt) (rt_reg rt) now s)))"
| "handle_call E now rt (HookPreviewReminder s) = (drop_lapsed now rt, Inr (ReplyReminder (preview_coalesced_reminder (rt_store rt) (rt_reg rt) now s)))"
| "handle_call E now rt (HookDiagnose s l) =
     (if l = PostCompact then rt else drop_lapsed now rt, Inr (ReplyDiagnosis (diagnose_hook_delivery (rt_store rt) (rt_reg rt) now s l)))"
| "handle_call E now rt (HistoryList m ws n) = (rt, Inr (ReplyHistory (list_observation_history (rt_store rt) m ws n)))"
| "handle_call E now rt (MonitorExplain i) = report FromReport ReplyExplain rt (explain_monitor (de_explain E) (de_scan E (ei_dir i)) rt i)"
| "handle_call E now rt (DaemonTick d ws) =
     answer FromTick ReplyTick
       (tick (ee_env (de_explain E)) (de_host E) rt now (sr_monitors (de_scan E d)) (map fst (sr_duplicates (de_scan E d))) ws)"
| "handle_call E now rt (WatchDeclare d) = declare_call E rt now d"
| "handle_call E now rt (WatchList s) = (rt, Inr (ReplyWatches (list_ephemerals_for_session (rt_store rt) s)))"
| "handle_call E now rt (WatchCancel s i) = cancel_call rt now s i"
| "handle_call E now rt (DoctorReport i) = report FromReport ReplyDoctor rt (doctor_report (de_explain E) (de_scan E (di_dir i)) (de_dir E (di_dir i)) (rt_store rt) i)"

definition handle_request :: "daemon_env \<Rightarrow> (json \<Rightarrow> ms option) \<Rightarrow> ms \<Rightarrow> runtime \<Rightarrow> daemon_request \<Rightarrow>
    runtime \<times> (daemon_error + daemon_reply)" where
  "handle_request E date now rt r =
     (case parse_call date now (rq_method r) (rq_params r) of
        None \<Rightarrow> (rt, Inl BadParams)
      | Some c \<Rightarrow> handle_call E now rt c)"

text \<open>The one line that answers a connection.\<close>

datatype daemon_response =
    Answered string daemon_reply
  | Failed string daemon_error
  | Refused string refusal

definition serve :: "daemon_env \<Rightarrow> (string \<Rightarrow> json option) \<Rightarrow> (json \<Rightarrow> ms option) \<Rightarrow> ms \<Rightarrow> runtime \<Rightarrow> connection \<Rightarrow>
    runtime \<times> daemon_response option" where
  "serve E parse date now rt c =
     (case admit parse c of
        AwaitBytes \<Rightarrow> (rt, None)
      | Refuse i x \<Rightarrow> (rt, Some (Refused i x))
      | Dispatch r \<Rightarrow>
          (case handle_request E date now rt r of
             (rt', Inl e) \<Rightarrow> (rt', Some (Failed (rq_id r) e))
           | (rt', Inr a) \<Rightarrow> (rt', Some (Answered (rq_id r) a))))"

section \<open>What a served request does\<close>

text \<open>The identifiers the daemon draws are new, and the scan gives monitors whose ids are names.\<close>

definition fresh_daemon :: "ident set \<Rightarrow> daemon_env \<Rightarrow> runtime \<Rightarrow> bool" where
  "fresh_daemon D E rt =
     (de_draw E \<notin> s_id ` set (sessions (rt_store rt)) \<and>
      (\<forall>s. ephemeral_prefix @ s @ ''/'' @ de_draw E \<notin> t_id ` set (ephemerals (rt_store rt))) \<and>
      draws_outside D (ee_env (de_explain E)) \<and>
      (\<forall>d. \<forall>m \<in> set (sr_monitors (de_scan E d)). CHR ''/'' \<notin> set (m_id m)))"

lemma fst_answer [simp]: "fst (answer wrong right r) = fst r" "fst (report wrong right rt x) = rt"
  by (simp_all add: answer_def report_def)

lemma runtime_run_step: "runtime_step D rt rt' \<Longrightarrow> runtime_run D rt rt'"
  by (rule runtime_run.More [OF runtime_run.Start])

lemma open_call_store: "fst (open_call rt now i inp) = fst (open_runtime_session rt now i inp)"
  by (auto simp: open_call_def split: prod.splits sum.splits)

lemma close_call_store: "fst (close_call rt now i) = fst (close_runtime_session rt now i)"
  by (auto simp: close_call_def split: prod.splits sum.splits)

lemma drop_lapsed_store [simp]: "rt_store (drop_lapsed now rt) = rt_store rt"
  by (simp add: drop_lapsed_def)

lemma declare_call_step:
  assumes "fresh_daemon D E rt"
  shows "runtime_run D rt (fst (declare_call E rt now d))"
proof (cases "declare_ephemeral (ho_sources (de_host E)) (de_scope E) (rt_store rt) now (de_draw E) d")
  case (Inl e)
  then show ?thesis by (simp add: declare_call_def runtime_run.Start)
next
  case (Inr x)
  obtain st i where x: "x = (st, i)" by fastforce
  from declare_ok [OF Inr [unfolded x]] assms have "i \<notin> t_id ` set (ephemerals (rt_store rt))"
    by (auto simp: fresh_daemon_def)
  from runtime_step.Declare [OF Inr [unfolded x] this] show ?thesis
    by (simp add: declare_call_def Inr x runtime_run_step)
qed

lemma cancel_call_step: "runtime_run D rt (fst (cancel_call rt now s i))"
proof (cases "cancel_ephemeral (rt_store rt) now s i")
  case (Inl e)
  then show ?thesis by (simp add: cancel_call_def runtime_run.Start)
next
  case (Inr x)
  obtain st t where x: "x = (st, t)" by fastforce
  from runtime_step.Cancel [OF Inr [unfolded x]] show ?thesis by (simp add: cancel_call_def Inr x runtime_run_step)
qed

lemma handled_call_runs:
  assumes f: "fresh_daemon D E rt"
  shows "\<exists>rt'. runtime_run D rt rt' \<and> rt_store rt' = rt_store (fst (handle_call E now rt c))"
proof (cases c)
  case (SessionOpen inp)
  from runtime_step.Open [of "de_draw E" rt D now inp] f show ?thesis
    by (auto simp: SessionOpen open_call_store fresh_daemon_def intro: runtime_run_step)
next
  case (SessionClose i)
  show ?thesis unfolding SessionClose handle_call.simps close_call_store by (blast intro: runtime_run_step runtime_step.Close)
next
  case (DaemonTick d ws)
  have "runtime_step D rt (fst (tick (ee_env (de_explain E)) (de_host E) rt now (sr_monitors (de_scan E d))
      (map fst (sr_duplicates (de_scan E d))) ws))"
    by (rule runtime_step.Tick) (use f in \<open>auto simp: fresh_daemon_def\<close>)
  then show ?thesis by (auto simp: DaemonTick intro: runtime_run_step)
next
  case (WatchDeclare d)
  then show ?thesis using declare_call_step [OF f] by auto
next
  case (WatchCancel s i)
  then show ?thesis using cancel_call_step [of D rt now s i] by auto
next
  case (EventsAck s ids)
  then show ?thesis by (auto intro: runtime_run_step runtime_step.Acknowledge)
next
  case (EventsRetract m k ids ws)
  then show ?thesis by (auto intro: runtime_run_step runtime_step.Retract)
next
  case (EventsSuppress m k ttl ws)
  then show ?thesis by (auto intro: runtime_run_step runtime_step.Suppress)
next
  case (HookClaim s l m)
  then show ?thesis by (auto intro: runtime_run_step runtime_step.Claim)
next
  case (HookReserve s l m)
  then show ?thesis by (auto intro: runtime_run_step runtime_step.Reserve)
next
  case (HookCommit r)
  then show ?thesis by (auto intro: runtime_run_step runtime_step.Commit)
next
  case (HookRelease r)
  then show ?thesis by (auto intro: runtime_run_step runtime_step.Release)
qed (auto intro: runtime_run.Start)

text \<open>The requests that only read.\<close>

definition reading_methods :: "string list" where
  "reading_methods = [''ping'', ''status'', ''stop'', ''session.list'', ''events.list'', ''hook.preview'', ''hook.previewReminder'',
     ''hook.diagnose'', ''history.list'', ''monitor.explain'', ''doctor.report'', ''watch.list'']"

definition response_id :: "daemon_response \<Rightarrow> string" where
  "response_id r = (case r of Answered i a \<Rightarrow> i | Failed i e \<Rightarrow> i | Refused i x \<Rightarrow> i)"

lemma option_map_cases: "map_option f x = Some c \<Longrightarrow> \<exists>a. c = f a"
  by (cases x) auto

lemma reading_call:
  assumes "parse_call date now m p = Some c" and "m \<in> set reading_methods"
  shows "rt_store (fst (handle_call E now rt c)) = rt_store rt"
  using assms by (auto simp: reading_methods_def parse_call_def history_list_params_def bind_eq_Some_conv dest!: option_map_cases)

text \<open>
  C38: every request the daemon serves is one step of its protocol. Whatever the connection holds, the
  store stays sound and the recipients' pending events change only as the mailbox specification
  allows. A connection that is not complete or is refused leaves the runtime as it is; a request
  that is dispatched is answered under its own id, and a method that only reads leaves the store as it is.
\<close>

theorem daemon_serves_the_protocol:
  assumes "fresh_daemon D E rt" and "sound (rt_store rt)" and "serve E parse date now rt c = (rt', r)"
  shows "sound (rt_store rt') \<and> mail_run D (mailbox (rt_store rt)) (mailbox (rt_store rt')) \<and>
    (case admit parse c of
       AwaitBytes \<Rightarrow> rt' = rt \<and> r = None
     | Refuse i x \<Rightarrow> rt' = rt \<and> r = Some (Refused i x)
     | Dispatch q \<Rightarrow> map_option response_id r = Some (rq_id q) \<and>
         (rq_method q \<in> set reading_methods \<longrightarrow> rt_store rt' = rt_store rt))"
proof (cases "admit parse c")
  case (Dispatch q)
  obtain x where x: "handle_request E date now rt q = (rt', x)" "map_option response_id r = Some (rq_id q)"
    using assms(3) Dispatch by (auto simp: serve_def response_id_def split: prod.splits sum.splits)
  show ?thesis
  proof (cases "parse_call date now (rq_method q) (rq_params q)")
    case None
    then show ?thesis using x assms(2) Dispatch by (auto simp: handle_request_def intro: mail_run.Done)
  next
    case (Some call)
    then have rt': "rt' = fst (handle_call E now rt call)" using x(1) by (simp add: handle_request_def)
    obtain rt'' where "runtime_run D rt rt''" "rt_store rt'' = rt_store rt'"
      using handled_call_runs [OF assms(1)] rt' by blast
    with run_refines assms(2) have "sound (rt_store rt') \<and> mail_run D (mailbox (rt_store rt)) (mailbox (rt_store rt'))"
      by (metis refines_def)
    with reading_call [OF Some] x(2) rt' Dispatch show ?thesis by simp
  qed
qed (use assms(2,3) in \<open>auto simp: serve_def intro: mail_run.Done\<close>)

text \<open>A claim for the lead session of the fixture, arriving in two chunks.\<close>

definition claim_json :: json where
  "claim_json = JObj [(''id'', JStr ''1''), (''method'', JStr ''hook.claim''),
     (''params'', JObj [(''sessionId'', JStr ''L''), (''lifecycle'', JStr ''turn-interruptible'')])]"

definition served_daemon :: daemon_env where
  "served_daemon = \<lparr>de_explain = demo_explain, de_bd = text_bd, de_host = demo_host, de_scan = (\<lambda>d. demo_scan), de_dir = (\<lambda>d. True),
     de_scope = (\<lambda>s c. []), de_draw = ''u1'', de_pid = 7, de_reap = None\<rparr>"

lemma claim_served:
  "serve served_daemon (\<lambda>t. Some claim_json) (\<lambda>v. None) 20000 demo_rt (read_chunks [''{'', ''}'' @ [CHR 0x0A]]) =
     (let (rt, x) = handle_request served_daemon (\<lambda>v. None) 20000 demo_rt (the (decode_request claim_json)) in
      (rt, Some (case x of Inl e \<Rightarrow> Failed ''1'' e | Inr a \<Rightarrow> Answered ''1'' a)))"
proof -
  have "read_chunks [''{'', ''}'' @ [CHR 0x0A]] = \<lparr>cx_bytes = [], cx_capacity = 0, cx_admitted = True, cx_frame = Some (Line ''{}'')\<rparr>"
    by (simp add: read_chunks_def new_connection_def on_chunk_def max_daemon_request_bytes_def grown_capacity_def)
  moreover have "request_input_limit_violation claim_json = None"
    by (simp add: request_within_budgets claim_json_def max_request_depth_def max_collection_entries_def max_request_values_def)
  moreover have "decode_request claim_json = Some \<lparr>rq_id = ''1'', rq_method = ''hook.claim'',
      rq_params = [(''sessionId'', JStr ''L''), (''lifecycle'', JStr ''turn-interruptible'')]\<rparr>"
    by (simp add: claim_json_def decode_request_def daemon_methods_def)
  ultimately show ?thesis
    by (auto simp: serve_def admit_def split: prod.splits sum.splits)
qed

lemma served_daemon_fresh: "fresh_daemon {} served_daemon demo_rt"
  using demo_env_fresh
  by (simp add: fresh_daemon_def served_daemon_def demo_explain_def demo_scan_def draws_outside_def)
    (simp add: demo_rt_def demo_store_def empty_store_def demo_monitor_def demo_session_def)

lemma claim_handled:
  "fst (handle_request served_daemon (\<lambda>v. None) 20000 demo_rt (the (decode_request claim_json))) =
     fst (claim_delivery text_bd demo_rt 20000 ''L'' TurnInterruptible None)"
  by (simp add: handle_request_def claim_json_def decode_request_def daemon_methods_def parse_call_def hook_claim_params_def
      required_def optional_def as_text_def as_lifecycle_def served_daemon_def)

theorem daemon_serves_the_protocol_witness:
  "\<exists>rt r. serve served_daemon (\<lambda>t. Some claim_json) (\<lambda>v. None) 20000 demo_rt (read_chunks [''{'', ''}'' @ [CHR 0x0A]]) = (rt, Some r) \<and>
     response_id r = ''1'' \<and> sound (rt_store rt) \<and> mailbox (rt_store rt) ''L'' \<noteq> mailbox (rt_store demo_rt) ''L''"
proof -
  obtain p x where "handle_request served_daemon (\<lambda>v. None) 20000 demo_rt (the (decode_request claim_json)) = (p, x)" by fastforce
  then obtain rt r where s: "serve served_daemon (\<lambda>t. Some claim_json) (\<lambda>v. None) 20000 demo_rt (read_chunks [''{'', ''}'' @ [CHR 0x0A]]) = (rt, Some r)"
      "rt = fst (handle_request served_daemon (\<lambda>v. None) 20000 demo_rt (the (decode_request claim_json)))" "response_id r = ''1''"
    unfolding claim_served by (cases x) (auto simp: response_id_def)
  have "mailbox (rt_store rt) ''L'' \<noteq> mailbox (rt_store demo_rt) ''L''"
    unfolding s(2) claim_handled by code_simp
  with daemon_serves_the_protocol [OF served_daemon_fresh demo_sound s(1)] s(1,3) show ?thesis by blast
qed

section \<open>The client\<close>

text \<open>
  \<open>callDaemon\<close>: what can happen to its socket, in any order. The response is read up to its first
  newline; the first thing that settles the call is its outcome.
\<close>

datatype client_event = ClTimeout | ClError string | ClData string | ClConnect

datatype call_outcome = Unreachable string | Unsupported string | Rejected string | Malformed | Resolved "json option"

record client =
  cl_buffer :: string
  cl_sent :: nat
  cl_outcome :: "call_outcome option"

definition new_client :: client where
  "new_client = \<lparr>cl_buffer = [], cl_sent = 0, cl_outcome = None\<rparr>"

definition legacy_unparseable :: string where
  "legacy_unparseable = ''Invalid JSON request.''"

record wire_response =
  wr_id :: string
  wr_result :: "json option"
  wr_error :: "string option"
  wr_code :: "string option"

definition decode_response :: "json \<Rightarrow> wire_response option" where
  "decode_response v =
     do { p \<leftarrow> as_record v; i \<leftarrow> required as_text p ''id''; e \<leftarrow> optional as_text (map_of p ''error'');
          c \<leftarrow> optional as_text (map_of p ''code'');
          Some \<lparr>wr_id = i, wr_result = map_of p ''result'', wr_error = e, wr_code = c\<rparr> }"

definition is_unsupported_response :: "wire_response \<Rightarrow> bool" where
  "is_unsupported_response r =
     (wr_code r = Some ''unsupported_request'' \<or> (wr_id r = unparseable_request_id \<and> wr_error r = Some legacy_unparseable))"

definition settle_response :: "(string \<Rightarrow> json option) \<Rightarrow> string \<Rightarrow> call_outcome" where
  "settle_response parse raw =
     (case Option.bind (parse raw) decode_response of
        None \<Rightarrow> Malformed
      | Some r \<Rightarrow>
          (case given (wr_error r) of
             Some e \<Rightarrow> if is_unsupported_response r then Unsupported e else Rejected e
           | None \<Rightarrow> Resolved (wr_result r)))"

definition client_step :: "(string \<Rightarrow> json option) \<Rightarrow> client \<Rightarrow> client_event \<Rightarrow> client" where
  "client_step parse c e =
     (if cl_outcome c \<noteq> None then c
      else (case e of
          ClTimeout \<Rightarrow> c\<lparr>cl_outcome := Some (Unreachable ''timeout'')\<rparr>
        | ClError m \<Rightarrow> c\<lparr>cl_outcome := Some (Unreachable m)\<rparr>
        | ClConnect \<Rightarrow> c\<lparr>cl_sent := cl_sent c + 1\<rparr>
        | ClData chunk \<Rightarrow>
            (let buffer = cl_buffer c @ chunk in
             if CHR 0x0A \<in> set buffer
             then c\<lparr>cl_buffer := buffer, cl_outcome := Some (settle_response parse (takeWhile (\<lambda>b. b \<noteq> CHR 0x0A) buffer))\<rparr>
             else c\<lparr>cl_buffer := buffer\<rparr>)))"

definition call_daemon :: "(string \<Rightarrow> json option) \<Rightarrow> client_event list \<Rightarrow> client" where
  "call_daemon parse es = foldl (client_step parse) new_client es"

definition daemon_available :: "(string \<Rightarrow> json option) \<Rightarrow> client_event list \<Rightarrow> bool" where
  "daemon_available parse es = (case cl_outcome (call_daemon parse es) of Some (Resolved v) \<Rightarrow> True | _ \<Rightarrow> False)"

text \<open>The polls of \<open>waitForDaemonAvailable\<close>: each is the answer of a ping and the clock after it.\<close>

fun wait_for_daemon :: "ms \<Rightarrow> (bool \<times> ms) list \<Rightarrow> bool option" where
  "wait_for_daemon deadline [] = None"
| "wait_for_daemon deadline ((up, now) # polls) =
     (if up then Some True else if deadline \<le> now then Some False else wait_for_daemon deadline polls)"

lemma client_settled: "cl_outcome c \<noteq> None \<Longrightarrow> foldl (client_step parse) c es = c"
  by (induction es) (simp_all add: client_step_def)

lemma client_settles_once:
  "cl_outcome (call_daemon parse es) = Some x \<Longrightarrow> cl_outcome (call_daemon parse (es @ fs)) = Some x"
  by (simp add: call_daemon_def client_settled)

lemma wait_for_daemon_returns:
  "wait_for_daemon deadline polls \<noteq> None \<longleftrightarrow> list_ex (\<lambda>(up, t). up \<or> deadline \<le> t) polls"
  by (induction polls) auto

section \<open>The address\<close>

text \<open>
  \<open>resolveSocketPath\<close>: \<open>hash\<close> is the shortened digest, \<open>live\<close> whether a daemon answers at a path,
  \<open>base\<close> the directory of the database. Joining names without a slash or a dot segment is appending them.
\<close>

definition max_unix_socket_path_length :: nat where
  "max_unix_socket_path_length = 100"

definition socket_fallback_dir :: "nat option \<Rightarrow> string" where
  "socket_fallback_dir uid = ''/tmp/agentmonitors-'' @ show_nat (default uid 0)"

definition resolve_socket_path :: "(string \<Rightarrow> string) \<Rightarrow> (string \<Rightarrow> bool) \<Rightarrow> nat option \<Rightarrow> string \<Rightarrow> string option \<Rightarrow> string option \<Rightarrow> string" where
  "resolve_socket_path hash live uid base env_path override =
     (let candidate = (case override of Some p \<Rightarrow> p | None \<Rightarrow> (case env_path of Some p \<Rightarrow> p | None \<Rightarrow> path_join [base, ''agentmonitors.sock''])) in
      if length candidate \<le> max_unix_socket_path_length then candidate
      else (let name = ''agentmonitors-'' @ hash candidate @ ''.sock''; legacy = ''/tmp/'' @ name in
        if live legacy then legacy else socket_fallback_dir uid @ ''/'' @ name))"

text \<open>The private directory under \<open>/tmp\<close>: what \<open>mkdir\<close> and \<open>lstat\<close> say decides.\<close>

datatype dir_entry = RealDir nat | LinkOrFile

datatype tmp_dir = Created | Tightened | NotRealDirectory | OwnedBy nat | SystemError string

definition ensure_owner_private_tmp_dir :: "string option \<Rightarrow> string + dir_entry \<Rightarrow> string option \<Rightarrow> nat option \<Rightarrow> tmp_dir" where
  "ensure_owner_private_tmp_dir mkdir lstat retry uid =
     (case mkdir of
        None \<Rightarrow> Created
      | Some e \<Rightarrow>
          if e \<noteq> ''EEXIST'' then SystemError e
          else (case lstat of
              Inl x \<Rightarrow> if x = ''ENOENT'' then (case retry of None \<Rightarrow> Created | Some y \<Rightarrow> SystemError y) else SystemError x
            | Inr LinkOrFile \<Rightarrow> NotRealDirectory
            | Inr (RealDir owner) \<Rightarrow>
                (case uid of
                   Some me \<Rightarrow> if owner \<noteq> me then OwnedBy owner else Tightened
                 | None \<Rightarrow> Tightened)))"

lemma private_tmp_dir:
  "ensure_owner_private_tmp_dir mkdir lstat retry (Some me) \<in> {Created, Tightened} \<longleftrightarrow>
     mkdir = None \<or> mkdir = Some ''EEXIST'' \<and> (lstat = Inr (RealDir me) \<or> lstat = Inl ''ENOENT'' \<and> retry = None)"
  by (auto simp: ensure_owner_private_tmp_dir_def split: option.splits sum.splits dir_entry.splits if_splits)

lemma socket_path_fits:
  assumes "\<And>x. length (hash x) = 16" and "length (show_nat (default uid 0)) \<le> 10"
  shows "length (resolve_socket_path hash live uid base env_path override) \<le> max_unix_socket_path_length"
  using assms by (simp add: resolve_socket_path_def socket_fallback_dir_def max_unix_socket_path_length_def Let_def)

end
