(* ===== verification/Spec2Isabelle.thy ===== *)
theory Spec2Isabelle
  imports AM_Prelude AM_Types AM_Text AM_TextDiff AM_Time AM_Cron AM_Store AM_NetCollapse AM_Reservations
    AM_Events AM_StoreInv AM_Delivery AM_ClaimRows AM_DeliveryLemmas AM_Fixtures AM_DeliveryProps
    AM_TwoPhase AM_HookState AM_Recipient AM_Fanout AM_Notify AM_Json AM_KeyedCollection AM_JsonDiff AM_Shape
    AM_Materialize AM_MaterializeProps AM_Query AM_Lifecycle AM_Tick AM_StoreOps AM_Mail AM_Protocol AM_TickProps AM_LifecycleProps AM_Utf16 AM_EventRender AM_HookRender AM_HookFlow AM_HookProps AM_Channel AM_Diagnosis AM_Outbox AM_Path AM_FileSource AM_CommandRun AM_CommandSource AM_WorkerPool AM_ApiPoll AM_Reaper AM_TransportHealth AM_ChangeSource AM_Authoring AM_Inbox AM_Permissions AM_Adapter AM_Timers AM_Explain AM_Doctor AM_StartupLock AM_Daemon
begin

text \<open>
  AgentMonitors watches sources (files, commands, endpoints, change sets) on behalf of coding
  agents. A daemon polls the authored monitors, turns what changed into events, stores them, and
  hands each agent session the events it has not seen, at the moments its host allows: inside a
  turn, at idle, after a compaction. This development models that runtime
  (\<open>libs/core/src\<close>), the bundled sources (\<open>plugins\<close>), and of the command line (\<open>apps/cli/src\<close>) the two
  transports that carry a delivery into an agent's context and the daemon that serves them. Every definition reads as the code it models; the map of the
  manifest names the lines.

  \<^bold>\<open>Data.\<close> \<open>AM_Types\<close> holds the unions and interfaces of \<open>runtime/types.ts\<close>,
  \<open>schema/monitor-schema.ts\<close> and the rows of \<open>inbox/schema.ts\<close>. Times are epoch milliseconds as
  \<open>int\<close>, strings are \<open>string\<close>, except in the transports, where every cap is counted in UTF-16
  code units and a string is a list of 16-bit words (\<open>AM_Utf16\<close>). \<open>AM_Prelude\<close> and \<open>AM_Text\<close>
  hold the shared lemmas on tables, sorted queries and strings.

  \<^bold>\<open>Store\<close> (\<open>runtime/store.ts\<close>). \<open>AM_Store\<close>: the tables and the statements on sessions,
  ephemeral monitors and monitor state. \<open>AM_Events\<close>: events, the projection of an event to its
  recipients, the unread and pending queries, claiming, acknowledging, cursors, suppressions,
  retraction. \<open>AM_NetCollapse\<close>: the collapse of one object's versions per recipient. \<open>AM_Query\<close>:
  the event query. \<open>AM_StoreInv\<close>, \<open>AM_ClaimRows\<close> and \<open>AM_Fanout\<close> show that every statement keeps
  the store well-formed, what a claim rewrites row by row, who receives an event and with which
  diff, and that a retraction leaves nothing behind.

  \<^bold>\<open>Delivery\<close> (\<open>runtime/service.ts\<close>, \<open>runtime/delivery-reservations.ts\<close>). \<open>AM_Reservations\<close>: the
  in-memory leases. \<open>AM_Delivery\<close>: the pure decision of what to deliver at a lifecycle point and
  the operations claim, reserve, commit, release, acknowledge and preview around it.
  \<open>AM_DeliveryLemmas\<close>, \<open>AM_DeliveryProps\<close>, \<open>AM_TwoPhase\<close>, \<open>AM_HookState\<close> and \<open>AM_Recipient\<close> show
  that a claim consumes exactly its candidates and loses nothing silently, that reserve and commit
  are the claim, that a live reservation excludes every other delivery of its events and an
  abandoned one leaves no trace, that the hook file's flags are the next decision, that the preview
  is the delivery, and that a settled event is delivered.

  \<^bold>\<open>From observations to events.\<close> \<open>AM_Time\<close> and \<open>AM_Cron\<close>: durations, timeouts and cron fields
  (\<open>notify/notifier.ts\<close>, \<open>runtime/service.ts\<close>). \<open>AM_TextDiff\<close> and \<open>AM_JsonDiff\<close>: the renderers of
  \<open>runtime/diff.ts\<close>. \<open>AM_Json\<close> and \<open>AM_KeyedCollection\<close>: JSON values as JavaScript handles them,
  canonical text, and the change detection of keyed collections. \<open>AM_Shape\<close>: derived facts,
  payload transforms and their gate. \<open>AM_Notify\<close>: debounce, throttle and rollup.
  \<open>AM_Materialize\<close> and \<open>AM_MaterializeProps\<close>: the pipeline from a span of observations to stored
  events, where each observation is accounted for.

  \<^bold>\<open>The daemon.\<close> \<open>AM_Lifecycle\<close>: opening and closing sessions, ephemeral monitors, scratch keys,
  schedules. \<open>AM_Tick\<close>: one tick over all monitors, with its failure containment. \<open>AM_StoreOps\<close>
  states as locales what every primitive store operation keeps, and proves once what a whole tick
  keeps. \<open>AM_Mail\<close> is the abstract specification: a mailbox per session into which an event is
  posted once and from which events are only taken or withdrawn. \<open>AM_Protocol\<close> is the step relation
  of the daemon (any operation, any order, any clock): every execution keeps the store sound and
  refines the mailbox, nothing surfaced inside a turn is surfaced inside a turn again, and an
  ephemeral monitor's events stay with its owner. \<open>AM_TickProps\<close> and \<open>AM_LifecycleProps\<close>: a tick
  loses no pending event, failures are contained and retried, polls are spaced, a closed session is
  silent.

  \<^bold>\<open>The transports\<close> (\<open>apps/cli/src\<close>). \<open>AM_EventRender\<close>: the block of one event, greedy packing of
  whole blocks, the quoting of a socket path, which a shell reads back byte for byte.
  \<open>AM_HookRender\<close>: the payload of one hook call, whose header names in its acknowledgment command
  the events it shows. \<open>AM_HookFlow\<close>: the loop that reserves, checks the fit of what was really
  reserved, retries, then renders, writes and commits, over the daemon's client as a record of
  calls; the locale \<open>delivery_daemon\<close> is the contract of that client and \<open>sized_delivery\<close> adds a
  transport's measures. It is interpreted on the model's own runtime behind a connection on which
  any call may be lost before or after it took effect and other clients act between any two calls.
  \<open>AM_HookProps\<close>: nothing is claimed before it is written, what is claimed is shown whole, the loop
  always decides, and the case in which the room of a coalesced reminder is measured too small.
  \<open>AM_Channel\<close>: the same loop for the channel, whose pushes cannot leave their tag.

  \<^bold>\<open>Sources\<close> (\<open>plugins/source-*/src\<close>). \<open>AM_Path\<close>: the path functions of Node the sources use.
  \<open>AM_FileSource\<close>: an observation reports the difference of the stored and the new fingerprints,
  over a disk that may change between any two reads. \<open>AM_CommandRun\<close> and \<open>AM_CommandSource\<close>: a
  spawned child as an event machine that always returns, and what the source makes of the outcomes
  of its runs. \<open>AM_WorkerPool\<close> and \<open>AM_ApiPoll\<close>: bounded fetches, their comparison with the last
  accepted response, and composites, which do not depend on the order in which requests complete.
  \<open>AM_ChangeSource\<close>: replaying what was observed gives the watched files of the last commit; the
  schedule source is in it too.

  \<^bold>\<open>Authoring\<close> (\<open>libs/core/src/schema\<close>, \<open>parser\<close>). \<open>AM_Authoring\<close>: the frontmatter schema, the parser and
  the bounded reader of monitor files, the scan of a directory with its duplicate ids, and the
  checks of a watch scope. A parsed monitor is as the runtime expects it.

  \<^bold>\<open>Diagnosis.\<close> \<open>AM_Diagnosis\<close>: why a delivery is held. \<open>AM_Explain\<close> and \<open>AM_Doctor\<close>: the staged
  explanation of one monitor and the report over all of them, which say what the runtime does.
  \<open>AM_TransportHealth\<close>: the verdict whether a workspace can be reached, from the leases the
  transports write.

  \<^bold>\<open>The daemon process\<close> (\<open>apps/cli/src\<close>). \<open>AM_StartupLock\<close>: starting and stopping as an interleaving of
  the system calls of any number of processes; under which conditions one daemon listens, and
  three runs in which the lock fails. \<open>AM_Daemon\<close>: a request from the bytes of its connection to the
  operation it is, each of which is a step of \<open>AM_Protocol\<close>. \<open>AM_Reaper\<close>: heartbeats and the decision
  to stop when nothing has been connected for long enough.

  \<^bold>\<open>Beside the runtime.\<close> \<open>AM_Outbox\<close>: the retry outbox, bounded per route. \<open>AM_Inbox\<close>: the inbox's state
  machine and the file that mirrors it. \<open>AM_Permissions\<close>: private files over system calls any of
  which may fail. \<open>AM_Adapter\<close>: session paths, the hook-state file, the interpret adapter and the
  source registry. \<open>AM_Timers\<close>: the timer-based notifiers and the budget of a verification run.

  \<^bold>\<open>Parameters.\<close> The SQLite engine is the list of rows each statement reads and writes, in
  insertion order. The diff renderer, the CEL and jq engines, the YAML reader, \<open>JSON.parse\<close>, the JSON
  Schema validator, \<open>globSync\<close>, digests, \<open>fetch\<close>, \<open>git\<close>, the Interpret model, what the disk holds at an
  instant, which system call fails, the clock, drawn identifiers and the time-zone database are
  arguments. Fuel occurs nowhere: loops recurse on their data or on the events that happen, and the
  attempts of a delivery on their fixed number, three.

  \<^bold>\<open>Not modelled.\<close> Continuous watchers beyond their checkpoint; the interleaving of a running tick
  with other requests; the commands that print, prompt, initialise or verify a workspace and the
  spawning of processes; the schema document; the opening and migration of the databases; the
  choice between a daemon and an in-process runtime; the warnings attached to observations; texts
  in English where they only describe a value that is modelled; the website, experiments and build
  scripts. They are input and output, or they are not part of the running program.
\<close>

end
